(* ===== verification/Prelude.thy ===== *)
theory Prelude
  imports Main "HOL-Library.Word" "HOL-Library.List_Lexorder"
begin

text \<open>
  What the component theories share: the machine integers of the source as words, the
  \<open>Result\<close> type of the source as a sum, little-endian byte conversions, checked arithmetic,
  facts about finite maps and cardinalities, and the transition systems in which the
  stateful components are proved correct.
\<close>

subsection \<open>Machine integers and results\<close>

type_synonym u8 = "8 word"
type_synonym u16 = "16 word"
type_synonym u32 = "32 word"
type_synonym u64 = "64 word"

text \<open>\<open>Result<T, E>\<close>: the error on the left, the value on the right.\<close>

type_synonym ('a, 'e) result = "'e + 'a"

abbreviation Ok :: "'a \<Rightarrow> ('a, 'e) result" where
  "Ok \<equiv> Inr"

abbreviation Err :: "'e \<Rightarrow> ('a, 'e) result" where
  "Err \<equiv> Inl"

text \<open>The \<open>?\<close> operator: an error ends the function, a value goes on.\<close>

definition bind_res :: "('a, 'e) result \<Rightarrow> ('a \<Rightarrow> ('b, 'e) result) \<Rightarrow> ('b, 'e) result" where
  "bind_res r f = (case r of Inl e \<Rightarrow> Inl e | Inr a \<Rightarrow> f a)"

definition map_err :: "('e \<Rightarrow> 'f) \<Rightarrow> ('a, 'e) result \<Rightarrow> ('a, 'f) result" where
  "map_err g r = (case r of Inl e \<Rightarrow> Inl (g e) | Inr a \<Rightarrow> Inr a)"

definition is_ok :: "('a, 'e) result \<Rightarrow> bool" where
  "is_ok r = (case r of Inl _ \<Rightarrow> False | Inr _ \<Rightarrow> True)"

lemma bind_res_simps [simp]:
  "bind_res (Inl e) f = Inl e"
  "bind_res (Inr a) f = f a"
  by (simp_all add: bind_res_def)

lemma bind_res_cong [fundef_cong]:
  "r = r' \<Longrightarrow> (\<And>a. r' = Inr a \<Longrightarrow> f a = g a) \<Longrightarrow> bind_res r f = bind_res r' g"
  by (cases r') (simp_all add: bind_res_def)

lemma bind_res_eq_Ok [simp]: "bind_res r f = Inr b \<longleftrightarrow> (\<exists>a. r = Inr a \<and> f a = Inr b)"
  by (cases r) auto

lemma map_err_simps [simp]:
  "map_err g (Inl e) = Inl (g e)"
  "map_err g (Inr a) = Inr a"
  by (simp_all add: map_err_def)

lemma map_err_eq_Ok [simp]: "map_err g r = Inr a \<longleftrightarrow> r = Inr a"
  by (cases r) auto

lemma is_ok_simps [simp]: "is_ok (Inl e) = False" "is_ok (Inr a) = True"
  by (simp_all add: is_ok_def)

subsection \<open>Little-endian bytes\<close>

text \<open>\<open>to_le_bytes\<close> and \<open>from_le_bytes\<close> of every width, over the value read as a \<open>nat\<close>.\<close>

fun le_bytes :: "nat \<Rightarrow> nat \<Rightarrow> u8 list" where
  "le_bytes 0 v = []"
| "le_bytes (Suc k) v = word_of_nat (v mod 256) # le_bytes k (v div 256)"

fun le_nat :: "u8 list \<Rightarrow> nat" where
  "le_nat [] = 0"
| "le_nat (b # bs) = unat b + 256 * le_nat bs"

definition u16_from_le :: "u8 list \<Rightarrow> u16" where
  "u16_from_le bs = word_of_nat (le_nat bs)"

definition u32_from_le :: "u8 list \<Rightarrow> u32" where
  "u32_from_le bs = word_of_nat (le_nat bs)"

definition u64_from_le :: "u8 list \<Rightarrow> u64" where
  "u64_from_le bs = word_of_nat (le_nat bs)"

definition u32_to_le :: "u32 \<Rightarrow> u8 list" where
  "u32_to_le w = le_bytes 4 (unat w)"

lemma length_le_bytes [simp]: "length (le_bytes k v) = k"
  by (induction k arbitrary: v) auto

lemma unat_byte_of_nat [simp]: "unat (word_of_nat (v mod 256) :: u8) = v mod 256"
  by (simp add: unat_of_nat)

lemma unat_byte_bound [simp]: "unat (b :: u8) < 256"
  using unsigned_less [of b, where ?'a = nat] by simp

lemma le_nat_le_bytes: "v < 256 ^ k \<Longrightarrow> le_nat (le_bytes k v) = v"
proof (induction k arbitrary: v)
  case (Suc k)
  then have "v div 256 < 256 ^ k"
    by (simp add: less_mult_imp_div_less mult.commute)
  then have "le_nat (le_bytes k (v div 256)) = v div 256"
    by (rule Suc.IH)
  then show ?case
    by simp
qed simp

lemma le_nat_bound: "le_nat bs < 256 ^ length bs"
proof (induction bs)
  case (Cons b bs)
  have "unat b + 256 * le_nat bs < 256 * (le_nat bs + 1)"
    using unat_byte_bound [of b] by simp
  also have "\<dots> \<le> 256 * 256 ^ length bs"
    using Cons.IH by (intro mult_le_mono2) simp
  finally show ?case
    by simp
qed simp

lemma le_bytes_le_nat: "length bs = k \<Longrightarrow> le_bytes k (le_nat bs) = bs"
proof (induction k arbitrary: bs)
  case (Suc k)
  then obtain b cs where bs: "bs = b # cs" and len: "length cs = k"
    by (cases bs) auto
  have "(unat b + 256 * le_nat cs) div 256 = le_nat cs"
    using unat_byte_bound [of b] by simp
  moreover have "word_of_nat ((unat b + 256 * le_nat cs) mod 256) = b"
    using unat_byte_bound [of b] by simp
  ultimately show ?case
    using bs len Suc.IH [of cs] by simp
qed simp

lemma length_u32_to_le [simp]: "length (u32_to_le w) = 4"
  by (simp add: u32_to_le_def)

lemma u32_from_to_le [simp]: "u32_from_le (u32_to_le w) = w"
proof -
  have "unat w < 256 ^ 4"
    using unsigned_less [of w, where ?'a = nat] by simp
  then have "le_nat (u32_to_le w) = unat w"
    unfolding u32_to_le_def by (rule le_nat_le_bytes)
  then show ?thesis
    by (simp add: u32_from_le_def)
qed

lemma u32_to_from_le: "length bs = 4 \<Longrightarrow> u32_to_le (u32_from_le bs) = bs"
proof -
  assume len: "length bs = 4"
  have "le_nat bs < 2 ^ 32"
    using le_nat_bound [of bs] len by simp
  then have "unat (u32_from_le bs) = le_nat bs"
    by (simp add: u32_from_le_def unat_of_nat)
  then show ?thesis
    using le_bytes_le_nat [OF len] by (simp add: u32_to_le_def)
qed

subsection \<open>Checked and saturating arithmetic\<close>

definition checked_mul2 :: "u64 \<Rightarrow> u64 option" where
  "checked_mul2 w = (if 2 * unat w < 2 ^ 64 then Some (2 * w) else None)"

lemma checked_mul2_Some [simp]:
  "checked_mul2 w = Some v \<longleftrightarrow> 2 * unat w < 2 ^ 64 \<and> v = 2 * w"
  by (auto simp: checked_mul2_def)

lemma checked_mul2_None [simp]: "checked_mul2 w = None \<longleftrightarrow> 2 ^ 64 \<le> 2 * unat w"
  by (auto simp: checked_mul2_def)

lemma unat_double: "2 * unat (w :: u64) < 2 ^ 64 \<Longrightarrow> unat (2 * w) = 2 * unat w"
  by (simp add: unat_word_ariths)

text \<open>\<open>next_multiple_of\<close> and \<open>div_ceil\<close> on lengths.\<close>

definition div_ceil :: "nat \<Rightarrow> nat \<Rightarrow> nat" where
  "div_ceil n m = (n + m - 1) div m"

definition next_multiple_of :: "nat \<Rightarrow> nat \<Rightarrow> nat" where
  "next_multiple_of n m = m * div_ceil n m"

subsection \<open>Lists\<close>

text \<open>\<open>retain(|a| a != x)\<close> is \<open>removeAll\<close>, and appending what was retained away keeps a list distinct.\<close>

lemma distinct_retain_push [simp]: "distinct xs \<Longrightarrow> distinct (removeAll x xs @ [x])"
  by (simp add: distinct_removeAll)

text \<open>The first error of a list of fallible steps, or all their values.\<close>

fun collect_res :: "('a, 'e) result list \<Rightarrow> ('a list, 'e) result" where
  "collect_res [] = Ok []"
| "collect_res (r # rs) = bind_res r (\<lambda>a. bind_res (collect_res rs) (\<lambda>as. Ok (a # as)))"

lemma collect_res_Ok: "collect_res rs = Ok xs \<longleftrightarrow> rs = map Inr xs"
  by (induction rs arbitrary: xs) auto

subsection \<open>Counting in finite maps\<close>

text \<open>The keys of a map whose value satisfies a predicate.\<close>

definition keys_where :: "('k \<rightharpoonup> 'v) \<Rightarrow> ('v \<Rightarrow> bool) \<Rightarrow> 'k set" where
  "keys_where m P = {k. \<exists>v. m k = Some v \<and> P v}"

named_theorems keys_where_simps \<open>how updates of a map change the keys that satisfy a predicate\<close>

lemma keys_where_iff [simp]: "k \<in> keys_where m P \<longleftrightarrow> (\<exists>v. m k = Some v \<and> P v)"
  by (simp add: keys_where_def)

lemma keys_where_empty [simp]: "keys_where Map.empty P = {}"
  by (simp add: keys_where_def)

lemma keys_where_subset: "keys_where m P \<subseteq> dom m"
  by auto

lemma finite_keys_where [simp, intro]: "finite (dom m) \<Longrightarrow> finite (keys_where m P)"
  by (rule finite_subset [OF keys_where_subset])

lemma keys_where_upd [keys_where_simps]:
  "keys_where (m(k \<mapsto> v)) P = (if P v then insert k (keys_where m P) else keys_where m P - {k})"
  by (auto split: if_splits)

lemma keys_where_del [keys_where_simps]: "keys_where (m(k := None)) P = keys_where m P - {k}"
  by (auto split: if_splits)

lemma card_keys_where_del:
  "finite (dom m) \<Longrightarrow> m k = Some v \<Longrightarrow> P v \<Longrightarrow>
    card (keys_where m P) = Suc (card (keys_where (m(k := None)) P))"
  unfolding keys_where_del by (rule card.remove) auto

lemma card_keys_where_upd_new:
  "finite (dom m) \<Longrightarrow> k \<notin> keys_where m P \<Longrightarrow> P v \<Longrightarrow>
    card (keys_where (m(k \<mapsto> v)) P) = Suc (card (keys_where m P))"
  by (simp add: keys_where_upd)

lemma card_keys_where_upd_same:
  "k \<in> keys_where m P \<Longrightarrow> P v \<Longrightarrow> card (keys_where (m(k \<mapsto> v)) P) = card (keys_where m P)"
  by (simp add: keys_where_upd insert_absorb)

lemma card_keys_where_upd_gone:
  "finite (dom m) \<Longrightarrow> k \<in> keys_where m P \<Longrightarrow> \<not> P v \<Longrightarrow>
    card (keys_where m P) = Suc (card (keys_where (m(k \<mapsto> v)) P))"
  by (subst card.remove [of _ k]) (auto simp: keys_where_upd simp del: keys_where_iff)

lemma keys_where_upd_outside:
  "k \<notin> keys_where m P \<Longrightarrow> \<not> P v \<Longrightarrow> keys_where (m(k \<mapsto> v)) P = keys_where m P"
  by (simp add: keys_where_upd)

subsection \<open>Transition systems\<close>

text \<open>
  The states a component can reach from its initial ones by its steps. A component states
  its steps as an inductive relation and its invariant as a predicate; the locale gives it
  the invariant in every reachable state.
\<close>

inductive reach :: "('s \<Rightarrow> bool) \<Rightarrow> ('s \<Rightarrow> 's \<Rightarrow> bool) \<Rightarrow> 's \<Rightarrow> bool" for init step where
  reach_init: "init s \<Longrightarrow> reach init step s"
| reach_step: "reach init step s \<Longrightarrow> step s t \<Longrightarrow> reach init step t"

locale invariant_system =
  fixes init :: "'s \<Rightarrow> bool"
    and step :: "'s \<Rightarrow> 's \<Rightarrow> bool"
    and inv :: "'s \<Rightarrow> bool"
  assumes inv_init: "init s \<Longrightarrow> inv s"
    and inv_step: "inv s \<Longrightarrow> step s t \<Longrightarrow> inv t"
begin

lemma inv_reach: "reach init step s \<Longrightarrow> inv s"
  by (induction rule: reach.induct) (auto intro: inv_init inv_step)

lemma inv_run: "inv s \<Longrightarrow> step\<^sup>*\<^sup>* s t \<Longrightarrow> inv t"
  by (rotate_tac 1, induction rule: rtranclp_induct) (auto intro: inv_step)

lemma reach_run: "reach init step s \<Longrightarrow> step\<^sup>*\<^sup>* s t \<Longrightarrow> reach init step t"
  by (rotate_tac 1, induction rule: rtranclp_induct) (auto intro: reach_step)

end

lemma set_map_filter: "set (List.map_filter f xs) = {y. \<exists>x\<in>set xs. f x = Some y}"
  by (induction xs) (auto simp: List.map_filter_simps split: option.splits)

end
