(* ===== verification/Types.thy ===== *)
theory Types
  imports Prelude
begin

text \<open>
  The filesystem value types of \<open>crates/proto/src/types.rs\<close> and the parsing of a path off the
  wire in \<open>crates/proto/src/wire.rs\<close>. A \<open>Name\<close> is one validated path component, a \<open>Path\<close> a
  sequence of them relative to the export root. What is shown: validation admits exactly the
  components that cannot leave a directory, the joined form of a path determines the path and
  has the length \<open>byte_len\<close> says, \<open>join\<close> and \<open>split_last\<close> undo each other, and the decoder of
  a path, with its early limits, accepts exactly the paths \<open>from_names\<close> accepts.
\<close>

subsection \<open>Names\<close>

definition NAME_MAX :: nat where
  "NAME_MAX = 255"

definition PATH_MAX :: nat where
  "PATH_MAX = 4096"

datatype error_name = EmptyName | TooLong | BadByte | Dot

datatype name = Name (as_bytes: "u8 list")

definition slash :: u8 where
  "slash = 47"

definition dot :: u8 where
  "dot = 46"

definition name_new :: "u8 list \<Rightarrow> (name, error_name) result" where
  "name_new bytes =
     (if bytes = [] then Err EmptyName
      else if length bytes > NAME_MAX then Err TooLong
      else if list_ex (\<lambda>b. b = slash \<or> b = 0) bytes then Err BadByte
      else if bytes = [dot] \<or> bytes = [dot, dot] then Err Dot
      else Ok (Name bytes))"

text \<open>The names of the source order as their bytes do.\<close>

instantiation name :: linorder
begin

definition less_eq_name :: "name \<Rightarrow> name \<Rightarrow> bool" where
  "less_eq_name a b = (as_bytes a \<le> as_bytes b)"

definition less_name :: "name \<Rightarrow> name \<Rightarrow> bool" where
  "less_name a b = (as_bytes a < as_bytes b)"

instance
  by standard (auto simp: less_eq_name_def less_name_def name.expand)

end

text \<open>What a validated name is: the invariant of the type.\<close>

definition name_ok :: "name \<Rightarrow> bool" where
  "name_ok n = (as_bytes n \<noteq> [] \<and> length (as_bytes n) \<le> NAME_MAX \<and>
     slash \<notin> set (as_bytes n) \<and> 0 \<notin> set (as_bytes n) \<and>
     as_bytes n \<noteq> [dot] \<and> as_bytes n \<noteq> [dot, dot])"

lemma name_new_Ok: "name_new bytes = Ok n \<longleftrightarrow> n = Name bytes \<and> name_ok n"
  by (auto simp: name_new_def name_ok_def list_ex_iff)

lemma name_new_as_bytes: "name_ok n \<Longrightarrow> name_new (as_bytes n) = Ok n"
  by (simp add: name_new_Ok)

subsection \<open>Paths\<close>

datatype error_path_too_long = ErrorPathTooLong

datatype path = Path (names: "name list")

definition path_root :: path where
  "path_root = Path []"

definition byte_len :: "path \<Rightarrow> nat" where
  "byte_len p = sum_list (map (\<lambda>n. length (as_bytes n)) (names p)) + (length (names p) - 1)"

definition from_names :: "name list \<Rightarrow> (path, error_path_too_long) result" where
  "from_names ns = (let path = Path ns in
     if byte_len path > PATH_MAX then Err ErrorPathTooLong else Ok path)"

definition is_root :: "path \<Rightarrow> bool" where
  "is_root p = (names p = [])"

definition join :: "path \<Rightarrow> name \<Rightarrow> (path, error_path_too_long) result" where
  "join p n = from_names (names p @ [n])"

definition split_last :: "path \<Rightarrow> (path \<times> name) option" where
  "split_last p = (if names p = [] then None else Some (Path (butlast (names p)), last (names p)))"

text \<open>The loop over the enumerated names: a separator before every name but the first.\<close>

fun to_os_string_from :: "nat \<Rightarrow> name list \<Rightarrow> u8 list \<Rightarrow> u8 list" where
  "to_os_string_from i [] out = out"
| "to_os_string_from i (n # ns) out =
     to_os_string_from (i + 1) ns ((if i > 0 then out @ [slash] else out) @ as_bytes n)"

definition to_os_string :: "path \<Rightarrow> u8 list" where
  "to_os_string p = to_os_string_from 0 (names p) []"

text \<open>What a path that came through validation is.\<close>

definition path_ok :: "path \<Rightarrow> bool" where
  "path_ok p = (list_all name_ok (names p) \<and> byte_len p \<le> PATH_MAX)"

subsection \<open>The joined form\<close>

text \<open>The reference: the components with separators between them.\<close>

fun joined :: "name list \<Rightarrow> u8 list" where
  "joined [] = []"
| "joined [n] = as_bytes n"
| "joined (n # m # ns) = as_bytes n @ slash # joined (m # ns)"

text \<open>Splitting at the separators, as the kernel reads a relative path.\<close>

fun split_slash :: "u8 list \<Rightarrow> u8 list list" where
  "split_slash [] = [[]]"
| "split_slash (b # bs) =
     (if b = slash then [] # split_slash bs
      else (case split_slash bs of [] \<Rightarrow> [[b]] | c # cs \<Rightarrow> (b # c) # cs))"

lemma to_os_string_from_later:
  "i > 0 \<Longrightarrow> to_os_string_from i ns out = out @ (if ns = [] then [] else slash # joined ns)"
proof (induction i ns out rule: to_os_string_from.induct)
  case (2 i n ns out)
  then show ?case
    by (cases ns) auto
qed simp

lemma to_os_string_joined: "to_os_string p = joined (names p)"
proof (cases "names p")
  case (Cons n ns)
  then show ?thesis
    by (cases ns) (simp_all add: to_os_string_def to_os_string_from_later del: to_os_string_from.simps(2)
        add: to_os_string_from.simps(2) [of 0])
qed (simp add: to_os_string_def)

lemma length_joined: "length (joined ns) = sum_list (map (\<lambda>n. length (as_bytes n)) ns) + (length ns - 1)"
  by (induction ns rule: joined.induct) auto

lemma split_slash_nonempty [simp]: "split_slash bs \<noteq> []"
  by (cases bs) (auto split: list.splits)

lemma split_slash_component:
  "slash \<notin> set bs \<Longrightarrow> split_slash (bs @ slash # rest) = bs # split_slash rest"
  by (induction bs) auto

lemma split_slash_last: "slash \<notin> set bs \<Longrightarrow> split_slash bs = [bs]"
  by (induction bs) auto

lemma split_slash_joined:
  "ns \<noteq> [] \<Longrightarrow> list_all name_ok ns \<Longrightarrow> split_slash (joined ns) = map as_bytes ns"
  by (induction ns rule: joined.induct)
    (auto simp: name_ok_def split_slash_component split_slash_last)

lemma joined_empty: "list_all name_ok ns \<Longrightarrow> joined ns = [] \<longleftrightarrow> ns = []"
  by (induction ns rule: joined.induct) (auto simp: name_ok_def)

lemma map_as_bytes_inj: "map as_bytes ns = map as_bytes ms \<longleftrightarrow> ns = ms"
  by (rule inj_map_eq_map) (auto intro: injI name.expand)

lemma joined_inj:
  assumes "list_all name_ok ns" and "list_all name_ok ms" and "joined ns = joined ms"
  shows "ns = ms"
proof (cases "ns = []")
  case True
  with assms show ?thesis
    using joined_empty [of ms] by simp
next
  case False
  then have "ms \<noteq> []"
    using assms joined_empty [of ns] by auto
  with False show ?thesis
    using assms split_slash_joined [of ns] split_slash_joined [of ms] map_as_bytes_inj by metis
qed

lemma byte_len_snoc:
  "byte_len (Path (ns @ [n])) = byte_len (Path ns) + length (as_bytes n) + (if ns = [] then 0 else 1)"
  by (cases ns) (auto simp: byte_len_def)

lemma join_Ok: "join p n = Ok q \<longleftrightarrow> q = Path (names p @ [n]) \<and> byte_len q \<le> PATH_MAX"
  by (auto simp: join_def from_names_def Let_def)

lemma join_is_ok_byte_len: "join p n = Ok q \<Longrightarrow> byte_len p \<le> byte_len q"
  by (cases p) (simp add: join_Ok byte_len_snoc)

lemma path_ok_join: "path_ok p \<Longrightarrow> name_ok n \<Longrightarrow> join p n = Ok q \<Longrightarrow> path_ok q"
  by (auto simp: path_ok_def join_Ok)

lemma split_last_Some:
  "split_last q = Some (p, n) \<longleftrightarrow> names q = names p @ [n]"
  by (cases p) (auto simp: split_last_def snoc_eq_iff_butlast)

lemma split_last_None: "split_last q = None \<longleftrightarrow> is_root q"
  by (simp add: split_last_def is_root_def)

subsection \<open>A path off the wire\<close>

definition MAX_PATH_COMPONENTS :: nat where
  "MAX_PATH_COMPONENTS = PATH_MAX div 2 + 1"

datatype error_decode =
    Capnp string
  | NotInSchema u16
  | DecodeName error_name
  | DecodePath error_path_too_long
  | Invalid string
  | Frame string

text \<open>
  \<open>parse_path\<close>: the items of a list of byte strings, each of which the reader may refuse, become
  names one by one, and the running length ends the loop as soon as it is too long.
\<close>

fun parse_path_from ::
  "(u8 list, error_decode) result list \<Rightarrow> nat \<Rightarrow> name list \<Rightarrow> (name list, error_decode) result" where
  "parse_path_from [] used ns = Ok ns"
| "parse_path_from (item # items) used ns =
     bind_res item (\<lambda>bytes.
     bind_res (map_err DecodeName (name_new bytes)) (\<lambda>name.
       let used = used + (length (as_bytes name) + 1) in
       if used > PATH_MAX + 1 then Err (DecodePath ErrorPathTooLong)
       else parse_path_from items used (ns @ [name])))"

definition parse_path :: "(u8 list, error_decode) result list \<Rightarrow> (path, error_decode) result" where
  "parse_path items =
     (if length items > MAX_PATH_COMPONENTS then Err (DecodePath ErrorPathTooLong)
      else bind_res (parse_path_from items 0 []) (\<lambda>ns. map_err DecodePath (from_names ns)))"

abbreviation wire_len :: "name list \<Rightarrow> nat" where
  "wire_len ns \<equiv> sum_list (map (\<lambda>n. length (as_bytes n) + 1) ns)"

lemma wire_len_byte_len: "ns \<noteq> [] \<Longrightarrow> wire_len ns = byte_len (Path ns) + 1"
  by (induction ns) (auto simp: byte_len_def sum_list_Suc)

lemma parse_path_from_Ok:
  "used \<le> PATH_MAX + 1 \<Longrightarrow>
   parse_path_from items used acc = Ok ns \<longleftrightarrow>
     (\<exists>ms. items = map (\<lambda>n. Ok (as_bytes n)) ms \<and> list_all name_ok ms \<and>
           ns = acc @ ms \<and> used + wire_len ms \<le> PATH_MAX + 1)"
proof (induction items arbitrary: used acc)
  case (Cons item items)
  show ?case
  proof (cases item)
    case (Inl e)
    then show ?thesis
      by (auto simp: Cons_eq_map_conv)
  next
    case (Inr bytes)
    show ?thesis
    proof (cases "name_new bytes")
      case (Inl e)
      then have "\<not> name_ok (Name bytes)"
        using name_new_as_bytes [of "Name bytes"] by auto
      then show ?thesis
        using Inl Inr by (auto simp: Cons_eq_map_conv)
    next
      case nm: (Inr name)
      then have name: "name = Name bytes" "name_ok name"
        using name_new_Ok by blast+
      show ?thesis
      proof (cases "used + (length bytes + 1) > PATH_MAX + 1")
        case True
        then show ?thesis
          using Inr nm name by (auto simp: Cons_eq_map_conv)
      next
        case False
        then have "parse_path_from items (used + (length (as_bytes name) + 1)) (acc @ [name]) = Ok ns \<longleftrightarrow>
          (\<exists>ms. items = map (\<lambda>n. Ok (as_bytes n)) ms \<and> list_all name_ok ms \<and>
             ns = (acc @ [name]) @ ms \<and>
             used + (length (as_bytes name) + 1) + wire_len ms \<le> PATH_MAX + 1)"
          using name by (intro Cons.IH) simp
        then show ?thesis
          using False Inr nm name by (fastforce simp: Cons_eq_map_conv)
      qed
    qed
  qed
qed auto

lemma components_bound:
  "list_all name_ok ns \<Longrightarrow> byte_len (Path ns) \<le> PATH_MAX \<Longrightarrow> length ns \<le> MAX_PATH_COMPONENTS"
proof -
  assume ok: "list_all name_ok ns" and fits: "byte_len (Path ns) \<le> PATH_MAX"
  have "sum_list (map (\<lambda>n. length (as_bytes n)) ns) \<ge> length ns"
    using ok by (induction ns) (auto simp: name_ok_def neq_Nil_conv)
  then have "2 * length ns - 1 \<le> PATH_MAX"
    using fits by (simp add: byte_len_def)
  then show ?thesis
    by (simp add: MAX_PATH_COMPONENTS_def PATH_MAX_def)
qed

subsection \<open>The other value types\<close>

datatype whence = Data | Hole

datatype file_kind =
  Regular | Directory | Symlink | Fifo | Socket | CharDevice | BlockDevice

record time_spec =
  sec :: int
  nsec :: u32

definition HANDLE_MAX :: nat where
  "HANDLE_MAX = 128"

record identity =
  handle_type :: u32
  handle :: "u8 list"

record attr =
  attr_ino :: u64
  attr_size :: u64
  attr_blocks :: u64
  attr_atime :: time_spec
  attr_mtime :: time_spec
  attr_ctime :: time_spec
  attr_kind :: file_kind
  attr_perm :: u16
  attr_nlink :: u32
  attr_uid :: u32
  attr_gid :: u32
  attr_rdev :: u64
  attr_blksize :: u32
  attr_xattr_names :: "u8 list list option"
  attr_identity :: identity
  attr_foreign :: bool

record statfs =
  st_blocks :: u64
  st_bfree :: u64
  st_bavail :: u64
  st_files :: u64
  st_ffree :: u64
  st_bsize :: u32
  st_namelen :: u32
  st_frsize :: u32

record dir_entry =
  next_offset :: u64
  entry_name :: "u8 list"
  entry_attr :: "attr option"

definition is_dot_or_dotdot :: "dir_entry \<Rightarrow> bool" where
  "is_dot_or_dotdot e = (entry_name e = [dot] \<or> entry_name e = [dot, dot])"

datatype time_or_now = Time time_spec | Now

record set_attr =
  set_mode :: "u32 option"
  set_uid :: "u32 option"
  set_gid :: "u32 option"
  set_size :: "u64 option"
  set_atime :: "time_or_now option"
  set_mtime :: "time_or_now option"

subsection \<open>Properties\<close>

text \<open>
  The decoder of a path accepts a list of items exactly when every item is a readable byte
  string that validates as a name and the path fits \<open>PATH_MAX\<close>, and then yields that path: the
  bound on the number of components and the running length, both checked before the whole path
  is known, never refuse a legitimate path and never let an overlong one through.
\<close>

theorem parse_path_exact:
  "parse_path items = Ok p \<longleftrightarrow>
     items = map (\<lambda>n. Ok (as_bytes n)) (names p) \<and> path_ok p"
proof
  assume parsed: "parse_path items = Ok p"
  then obtain ns where ns: "parse_path_from items 0 [] = Ok ns" and p: "from_names ns = Ok p"
    by (auto simp: parse_path_def split: if_splits)
  from p have "p = Path ns" "byte_len p \<le> PATH_MAX"
    by (auto simp: from_names_def Let_def split: if_splits)
  with ns show "items = map (\<lambda>n. Ok (as_bytes n)) (names p) \<and> path_ok p"
    by (auto simp: parse_path_from_Ok path_ok_def)
next
  assume items: "items = map (\<lambda>n. Ok (as_bytes n)) (names p) \<and> path_ok p"
  then have ok: "list_all name_ok (names p)" and fits: "byte_len p \<le> PATH_MAX"
    by (auto simp: path_ok_def)
  have "wire_len (names p) \<le> PATH_MAX + 1"
    using fits wire_len_byte_len [of "names p"] by (cases "names p = []") auto
  then have "parse_path_from items 0 [] = Ok (names p)"
    using items ok by (auto simp: parse_path_from_Ok)
  moreover have "length items \<le> MAX_PATH_COMPONENTS"
    using items components_bound [of "names p"] ok fits by simp
  ultimately show "parse_path items = Ok p"
    using fits by (simp add: parse_path_def from_names_def Let_def)
qed

text \<open>
  The joined form of a validated path, which is what reaches the kernel, splits at its
  separators into exactly the path's components, none of them empty, \<open>.\<close>, \<open>..\<close> or holding a
  NUL, so no client path names anything but a chain of entries below the export root; its
  length is what \<open>byte_len\<close> says.
\<close>

theorem to_os_string_components:
  "path_ok p \<Longrightarrow> \<not> is_root p \<Longrightarrow>
     split_slash (to_os_string p) = map as_bytes (names p) \<and>
     (\<forall>c \<in> set (split_slash (to_os_string p)). c \<noteq> [] \<and> c \<noteq> [dot] \<and> c \<noteq> [dot, dot] \<and> 0 \<notin> set c) \<and>
     length (to_os_string p) = byte_len p"
  by (auto simp: to_os_string_joined is_root_def path_ok_def split_slash_joined byte_len_def
      length_joined list_all_iff name_ok_def)

theorem to_os_string_components_witness:
  "split_slash (to_os_string (Path [Name [97], Name [98, 99]])) = [[97], [98, 99]] \<and>
   length (to_os_string (Path [Name [97], Name [98, 99]])) = 4"
  using to_os_string_components [of "Path [Name [97], Name [98, 99]]"]
  by (simp add: path_ok_def name_ok_def is_root_def byte_len_def NAME_MAX_def PATH_MAX_def
      slash_def dot_def)

text \<open>
  Two validated paths with the same joined form are the same path, so what is keyed by the
  joined form (the record of which session changed what) is keyed by the path.
\<close>

theorem to_os_string_inj:
  "path_ok p \<Longrightarrow> path_ok q \<Longrightarrow> to_os_string p = to_os_string q \<Longrightarrow> p = q"
  unfolding to_os_string_joined path_ok_def by (auto intro: path.expand joined_inj)

theorem to_os_string_inj_witness:
  "Path [Name [97], Name [98]] = Path [Name [97], Name [98]]"
  using to_os_string_inj [of "Path [Name [97], Name [98]]" "Path [Name [97], Name [98]]"]
  by (simp add: path_ok_def name_ok_def byte_len_def NAME_MAX_def PATH_MAX_def slash_def dot_def)

end
