(* ===== verification/Messages.thy ===== *)
theory Messages
  imports Types
begin

text \<open>
  The messages of \<open>crates/proto/src/msg.rs\<close>: the handshake, the requests and replies of one
  stream, and the events a server pushes; and what every part of the program asks of a request:
  the handles it names (\<open>fhs\<close>), whether it takes part in the session's ordering (\<open>changes\<close>), its
  name and fields for logs, and the request with its data cut out.
\<close>

subsection \<open>Constants\<close>

definition MAX_FALLOCATE :: nat where
  "MAX_FALLOCATE = 64 * 2 ^ 20"

definition MAX_IO :: nat where
  "MAX_IO = 1024 * 1024"

subsection \<open>The handshake\<close>

datatype auth = Anonymous | Token "u8 list"

record resume =
  resume_session_id :: u64
  resume_token_sent :: "u8 list"

record hello =
  hello_revision :: u64
  hello_auth :: auth
  hello_resume :: "resume option"

datatype hello_reply =
    Ack (ack_session_id: u64) (ack_resume_token: "u8 list") (ack_resumed: bool)
        (ack_root_ino: u64) (ack_root_identity: identity) (ack_uid: u32) (ack_gid: u32)
  | Reject string
  | RevisionMismatch u64

subsection \<open>Requests\<close>

datatype request =
    Lookup path name
  | Getattr "path option" "u64 option"
  | Setattr "path option" "u64 option" set_attr
  | Readlink path
  | Mknod path name u32 u64
  | Mkdir path name u32
  | Unlink path name
  | Rmdir path name
  | SymlinkAt path name "u8 list"
  | Rename path name path name u32
  | Link path path name
  | Open u64 path u32
  | Create u64 path name u32 u32
  | Read u64 u64 u32
  | Write u64 u64 "u8 list"
  | Release u64 bool
  | Fsync u64 bool
  | Opendir u64 path
  | Readdir u64 u64 u32
  | Releasedir u64 bool
  | Statfs path
  | Setxattr path "u8 list" "u8 list" u32
  | Getxattr path "u8 list"
  | Listxattr path
  | Removexattr path "u8 list"
  | Access path u32
  | CopyFileRange u64 u64 u64 u64 u64
  | Fallocate u64 u64 u64 u32
  | Lseek u64 u64 whence

text \<open>Every handle a request names.\<close>

fun fhs :: "request \<Rightarrow> u64 option \<times> u64 option" where
  "fhs (Getattr path fh) = (fh, None)"
| "fhs (Setattr path fh change) = (fh, None)"
| "fhs (Open fh path flags) = (Some fh, None)"
| "fhs (Create fh parent name mode flags) = (Some fh, None)"
| "fhs (Read fh offset amount) = (Some fh, None)"
| "fhs (Write fh offset data) = (Some fh, None)"
| "fhs (Release fh ordered) = (Some fh, None)"
| "fhs (Fsync fh datasync) = (Some fh, None)"
| "fhs (Fallocate fh offset len mode) = (Some fh, None)"
| "fhs (Lseek fh offset whence) = (Some fh, None)"
| "fhs (Opendir fh path) = (Some fh, None)"
| "fhs (Readdir fh offset max_bytes) = (Some fh, None)"
| "fhs (Releasedir fh ordered) = (Some fh, None)"
| "fhs (CopyFileRange fh_in offset_in fh_out offset_out len) = (Some fh_in, Some fh_out)"
| "fhs (Lookup parent name) = (None, None)"
| "fhs (Readlink path) = (None, None)"
| "fhs (Mknod parent name mode rdev) = (None, None)"
| "fhs (Mkdir parent name mode) = (None, None)"
| "fhs (Unlink parent name) = (None, None)"
| "fhs (Rmdir parent name) = (None, None)"
| "fhs (SymlinkAt parent name target) = (None, None)"
| "fhs (Rename parent name newparent newname flags) = (None, None)"
| "fhs (Link path newparent newname) = (None, None)"
| "fhs (Statfs path) = (None, None)"
| "fhs (Setxattr path name value flags) = (None, None)"
| "fhs (Getxattr path name) = (None, None)"
| "fhs (Listxattr path) = (None, None)"
| "fhs (Removexattr path name) = (None, None)"
| "fhs (Access path amode) = (None, None)"

text \<open>Whether a request takes part in the session's ordering.\<close>

fun changes :: "request \<Rightarrow> bool" where
  "changes (Lookup parent name) = False"
| "changes (Getattr path fh) = False"
| "changes (Readlink path) = False"
| "changes (Read fh offset amount) = False"
| "changes (Readdir fh offset max_bytes) = False"
| "changes (Getxattr path name) = False"
| "changes (Listxattr path) = False"
| "changes (Access path amode) = False"
| "changes (Statfs path) = False"
| "changes (Lseek fh offset whence) = False"
| "changes (Fsync fh datasync) = False"
| "changes (Release fh ordered) = ordered"
| "changes (Releasedir fh ordered) = ordered"
| "changes (Setattr path fh change) = True"
| "changes (Mknod parent name mode rdev) = True"
| "changes (Mkdir parent name mode) = True"
| "changes (Unlink parent name) = True"
| "changes (Rmdir parent name) = True"
| "changes (SymlinkAt parent name target) = True"
| "changes (Rename parent name newparent newname flags) = True"
| "changes (Link path newparent newname) = True"
| "changes (Open fh path flags) = True"
| "changes (Create fh parent name mode flags) = True"
| "changes (Write fh offset data) = True"
| "changes (Opendir fh path) = True"
| "changes (Setxattr path name value flags) = True"
| "changes (Removexattr path name) = True"
| "changes (CopyFileRange fh_in offset_in fh_out offset_out len) = True"
| "changes (Fallocate fh offset len mode) = True"

text \<open>A request with the data it carries cut out, and how much that was.\<close>

fun with_data_elided :: "request \<Rightarrow> (request \<times> nat) option" where
  "with_data_elided (Write fh offset data) = Some (Write fh offset [], length data)"
| "with_data_elided _ = None"

text \<open>The handle, offset and size a request names, for logs.\<close>

fun perf_fields :: "request \<Rightarrow> u64 option \<times> u64 option \<times> nat option" where
  "perf_fields (Read fh offset amount) = (Some fh, Some offset, Some (unat amount))"
| "perf_fields (Write fh offset data) = (Some fh, Some offset, Some (length data))"
| "perf_fields (Readdir fh offset max_bytes) = (Some fh, Some offset, Some (unat max_bytes))"
| "perf_fields (Fallocate fh offset len mode) = (Some fh, Some offset, Some (unat len))"
| "perf_fields (Lseek fh offset whence) = (Some fh, Some offset, None)"
| "perf_fields (CopyFileRange fh_in offset_in fh_out offset_out len) =
     (Some fh_out, Some offset_out, Some (unat len))"
| "perf_fields other = (fst (fhs other), None, None)"

fun op_name :: "request \<Rightarrow> string" where
  "op_name (Lookup parent name) = ''lookup''"
| "op_name (Getattr path fh) = ''getattr''"
| "op_name (Setattr path fh change) = ''setattr''"
| "op_name (Readlink path) = ''readlink''"
| "op_name (Mknod parent name mode rdev) = ''mknod''"
| "op_name (Mkdir parent name mode) = ''mkdir''"
| "op_name (Unlink parent name) = ''unlink''"
| "op_name (Rmdir parent name) = ''rmdir''"
| "op_name (SymlinkAt parent name target) = ''symlink''"
| "op_name (Rename parent name newparent newname flags) = ''rename''"
| "op_name (Link path newparent newname) = ''link''"
| "op_name (Open fh path flags) = ''open''"
| "op_name (Create fh parent name mode flags) = ''create''"
| "op_name (Read fh offset amount) = ''read''"
| "op_name (Write fh offset data) = ''write''"
| "op_name (Release fh ordered) = ''release''"
| "op_name (Fsync fh datasync) = ''fsync''"
| "op_name (Opendir fh path) = ''opendir''"
| "op_name (Readdir fh offset max_bytes) = ''readdir''"
| "op_name (Releasedir fh ordered) = ''releasedir''"
| "op_name (Statfs path) = ''statfs''"
| "op_name (Setxattr path name value flags) = ''setxattr''"
| "op_name (Getxattr path name) = ''getxattr''"
| "op_name (Listxattr path) = ''listxattr''"
| "op_name (Removexattr path name) = ''removexattr''"
| "op_name (Access path amode) = ''access''"
| "op_name (CopyFileRange fh_in offset_in fh_out offset_out len) = ''copy_file_range''"
| "op_name (Fallocate fh offset len mode) = ''fallocate''"
| "op_name (Lseek fh offset whence) = ''lseek''"

subsection \<open>Replies\<close>

text \<open>\<open>Response\<close>; the constructors carry an \<open>R\<close> where the request has the plain name.\<close>

datatype response =
    RErr int
  | REntry attr
  | RAttr attr
  | RReadlink "u8 list"
  | ROk
  | ROpened attr
  | RRead "u8 list"
  | RWritten u32
  | RCopied u32
  | RSeeked u64
  | RReaddir "dir_entry list" bool
  | RStatfs statfs
  | RXattr "u8 list"

fun kind_name :: "response \<Rightarrow> string" where
  "kind_name (RErr _) = ''Err''"
| "kind_name (REntry _) = ''Entry''"
| "kind_name (RAttr _) = ''Attr''"
| "kind_name (RReadlink _) = ''Readlink''"
| "kind_name ROk = ''Ok''"
| "kind_name (ROpened _) = ''Opened''"
| "kind_name (RRead _) = ''Read''"
| "kind_name (RWritten _) = ''Written''"
| "kind_name (RReaddir _ _) = ''Readdir''"
| "kind_name (RStatfs _) = ''Statfs''"
| "kind_name (RXattr _) = ''Xattr''"
| "kind_name (RCopied _) = ''Copied''"
| "kind_name (RSeeked _) = ''Seeked''"

fun response_with_data_elided :: "response \<Rightarrow> (response \<times> nat) option" where
  "response_with_data_elided (RRead data) = Some (RRead [], length data)"
| "response_with_data_elided _ = None"

subsection \<open>Events\<close>

datatype event_item =
    EventEntry path name
  | EventData path
  | Overflow
  | Unwatched path

record notice_handles =
  notice_held :: nat
  notice_share :: nat

record event =
  event_items :: "event_item list"
  event_handles :: "notice_handles option"

subsection \<open>What the parts of the program rely on\<close>

lemma elided_same_request:
  "with_data_elided r = Some (r', n) \<Longrightarrow>
     op_name r' = op_name r \<and> fhs r' = fhs r \<and> changes r' = changes r \<and>
     snd (snd (perf_fields r)) = Some n"
  by (cases r) auto

text \<open>A request that opens a handle: it names the id the handle is kept under.\<close>

definition opens :: "request \<Rightarrow> u64 option" where
  "opens r = (case r of
       Open fh path flags \<Rightarrow> Some fh
     | Create fh parent name mode flags \<Rightarrow> Some fh
     | Opendir fh path \<Rightarrow> Some fh
     | _ \<Rightarrow> None)"

lemma opens_changes: "opens r = Some fh \<Longrightarrow> changes r \<and> fhs r = (Some fh, None)"
  by (cases r) (auto simp: opens_def)

end
