(* ===== verification/Inodes.thy ===== *)
theory Inodes
  imports Messages
begin

text \<open>
  The client's inode table (\<open>crates/client/src/inodes.rs\<close>): one node per file, known by its inode
  number and identity together; the number the kernel knows it by; the names it has been reached
  through; and the kernel's lookup count.  A lookup count is a natural number: it is a \<open>u64\<close> that
  grows by one per lookup.
\<close>

unbundle bit_operations_syntax

subsection \<open>Nodes\<close>

definition ROOT :: u64 where
  "ROOT = 1"

record key_node =
  key_ino :: u64
  key_identity :: identity

record seen =
  seen_ino :: u64
  seen_identity :: identity
  seen_foreign :: bool
  seen_kind :: file_kind

definition seen_of :: "attr \<Rightarrow> seen" where
  "seen_of a = \<lparr>seen_ino = attr_ino a, seen_identity = attr_identity a,
     seen_foreign = attr_foreign a, seen_kind = attr_kind a\<rparr>"

definition seen_key :: "seen \<Rightarrow> key_node" where
  "seen_key s = \<lparr>key_ino = seen_ino s, key_identity = seen_identity s\<rparr>"

definition key_of :: "attr \<Rightarrow> key_node" where
  "key_of a = seen_key (seen_of a)"

definition describes :: "key_node \<Rightarrow> attr \<Rightarrow> bool" where
  "describes k a \<longleftrightarrow> key_ino k = attr_ino a \<and> key_identity k = attr_identity a"

text \<open>FNV-1a of a handle, moved off the numbers the kernel reserves.\<close>

definition fnv_step :: "u64 \<Rightarrow> u8 \<Rightarrow> u64" where
  "fnv_step hash byte = (hash XOR ucast byte) * 0x00000100000001b3"

definition substitute :: "identity \<Rightarrow> u64" where
  "substitute ident =
     max (foldl fnv_step 0xcbf29ce484222325 (u32_to_le (handle_type ident) @ handle ident)) 2"

definition MAX_DEPTH :: nat where
  "MAX_DEPTH = PATH_MAX div 2"

record node =
  node_aliases :: "(u64 \<times> name) list"
  node_lookup_count :: nat
  node_key :: "key_node option"
  node_unlinked :: bool
  node_kind :: file_kind
  node_children :: "name \<rightharpoonup> u64"

record node_table =
  nodes :: "u64 \<rightharpoonup> node"
  by_key :: "key_node \<rightharpoonup> u64"

definition new_table :: node_table where
  "new_table =
     \<lparr>nodes = [ROOT \<mapsto> \<lparr>node_aliases = [], node_lookup_count = 1, node_key = None,
        node_unlinked = False, node_kind = Directory, node_children = Map.empty\<rparr>],
      by_key = Map.empty\<rparr>"

subsection \<open>The number of a file\<close>

text \<open>The loop of \<open>id_for\<close>: the next number from \<open>i\<close> that no node has.\<close>

partial_function (option) next_free :: "(u64 \<Rightarrow> bool) \<Rightarrow> u64 \<Rightarrow> u64 option" where
  "next_free taken i = (if taken i then next_free taken (max (i + 1) 2) else Some i)"

definition has_node :: "node_table \<Rightarrow> u64 \<Rightarrow> bool" where
  "has_node t i \<longleftrightarrow> nodes t i \<noteq> None"

definition root_key :: "node_table \<Rightarrow> key_node option" where
  "root_key t = (case nodes t ROOT of Some n \<Rightarrow> node_key n | None \<Rightarrow> None)"

definition id_for :: "node_table \<Rightarrow> seen \<Rightarrow> u64 option" where
  "id_for t s =
     (if seen_ino s = ROOT \<and>
         (case root_key t of None \<Rightarrow> True | Some k \<Rightarrow> key_identity k = seen_identity s)
      then Some ROOT
      else case by_key t (seen_key s) of
        Some i \<Rightarrow> Some i
      | None \<Rightarrow>
          if \<not> seen_foreign s \<and> ROOT < seen_ino s \<and> \<not> has_node t (seen_ino s) then Some (seen_ino s)
          else next_free (has_node t) (substitute (seen_identity s)))"

subsection \<open>Operations\<close>

text \<open>\<open>nodes.get_mut(i)\<close> and a change of what it finds.\<close>

definition upd_node :: "u64 \<Rightarrow> (node \<Rightarrow> node) \<Rightarrow> node_table \<Rightarrow> node_table" where
  "upd_node i f t =
     (case nodes t i of None \<Rightarrow> t | Some n \<Rightarrow> t\<lparr>nodes := (nodes t)(i \<mapsto> f n)\<rparr>)"

definition set_child :: "name \<Rightarrow> u64 option \<Rightarrow> node \<Rightarrow> node" where
  "set_child nm c n = n\<lparr>node_children := (node_children n)(nm := c)\<rparr>"

text \<open>\<open>aliases.retain\<close> of the others, and \<open>aliases.push\<close>.\<close>

definition retain_others :: "u64 \<times> name \<Rightarrow> node \<Rightarrow> node" where
  "retain_others a n = n\<lparr>node_aliases := filter (\<lambda>b. b \<noteq> a) (node_aliases n)\<rparr>"

definition push_alias :: "u64 \<times> name \<Rightarrow> node \<Rightarrow> node" where
  "push_alias a n = n\<lparr>node_aliases := node_aliases n @ [a]\<rparr>"

definition child :: "node_table \<Rightarrow> u64 \<Rightarrow> name \<Rightarrow> u64 option" where
  "child t parent nm = Option.bind (nodes t parent) (\<lambda>p. node_children p nm)"

definition mark_unlinked :: "node \<Rightarrow> node" where
  "mark_unlinked n = (if node_aliases n = [] then n\<lparr>node_unlinked := True\<rparr> else n)"

definition drop_alias :: "u64 \<Rightarrow> u64 \<Rightarrow> name \<Rightarrow> node_table \<Rightarrow> node_table" where
  "drop_alias i parent nm = upd_node i (\<lambda>n. mark_unlinked (retain_others (parent, nm) n))"

text \<open>The steps of \<open>insert_lookup\<close>: the entry in the parent, and the node the file has or gets.\<close>

definition link_child :: "u64 \<Rightarrow> name \<Rightarrow> u64 \<Rightarrow> node_table \<Rightarrow> node_table" where
  "link_child parent nm i t =
     (let t1 = upd_node parent (set_child nm (Some i)) t
      in case child t parent nm of
           Some previous \<Rightarrow> if previous \<noteq> i then drop_alias previous parent nm t1 else t1
         | None \<Rightarrow> t1)"

definition node_or_new :: "u64 \<Rightarrow> seen \<Rightarrow> node_table \<Rightarrow> node" where
  "node_or_new i s t =
     (case nodes t i of
        Some n \<Rightarrow> n
      | None \<Rightarrow> \<lparr>node_aliases = [], node_lookup_count = 0, node_key = Some (seen_key s),
          node_unlinked = False, node_kind = seen_kind s, node_children = Map.empty\<rparr>)"

definition insert_lookup ::
  "node_table \<Rightarrow> u64 \<Rightarrow> name \<Rightarrow> seen \<Rightarrow> (node_table \<times> u64 option) option" where
  "insert_lookup t parent nm s =
     (case id_for t s of
        None \<Rightarrow> None
      | Some i \<Rightarrow>
          if i = ROOT then Some (t, None)
          else
            let t1 = link_child parent nm i t;
                n = node_or_new i s t1;
                n1 = n\<lparr>node_unlinked := False, node_kind := seen_kind s,
                       node_lookup_count := node_lookup_count n + 1\<rparr>;
                n2 = push_alias (parent, nm) (retain_others (parent, nm) n1)
            in Some (t1\<lparr>nodes := (nodes t1)(i \<mapsto> n2), by_key := (by_key t1)(seen_key s \<mapsto> i)\<rparr>,
                     Some i))"

definition root_seen :: "identity \<Rightarrow> node_table \<Rightarrow> node_table" where
  "root_seen ident =
     upd_node ROOT (\<lambda>n. n\<lparr>node_key := Some \<lparr>key_ino = ROOT, key_identity = ident\<rparr>\<rparr>)"

text \<open>Drop a child link that leads to \<open>i\<close>.\<close>

definition unlink_child :: "u64 \<Rightarrow> u64 \<times> name \<Rightarrow> node_table \<Rightarrow> node_table" where
  "unlink_child i a =
     upd_node (fst a) (\<lambda>p. if node_children p (snd a) = Some i then set_child (snd a) None p else p)"

definition forget :: "u64 \<Rightarrow> nat \<Rightarrow> node_table \<Rightarrow> node_table \<times> bool" where
  "forget i count t =
     (if i = ROOT then (t, False)
      else case nodes t i of
        None \<Rightarrow> (t, False)
      | Some n \<Rightarrow>
          let n' = n\<lparr>node_lookup_count := node_lookup_count n - count\<rparr>
          in if node_lookup_count n' > 0 then (t\<lparr>nodes := (nodes t)(i \<mapsto> n')\<rparr>, False)
             else
               let t1 = t\<lparr>nodes := (nodes t)(i := None)\<rparr>;
                   t2 = (case node_key n' of
                           Some k \<Rightarrow> t1\<lparr>by_key := (by_key t1)(k := None)\<rparr>
                         | None \<Rightarrow> t1)
               in (fold (unlink_child i) (node_aliases n') t2, True))"

fun find_map :: "('a \<Rightarrow> 'b option) \<Rightarrow> 'a list \<Rightarrow> 'b option" where
  "find_map f [] = None"
| "find_map f (x # xs) = (case f x of Some y \<Rightarrow> Some y | None \<Rightarrow> find_map f xs)"

function names_to :: "node_table \<Rightarrow> u64 \<Rightarrow> nat \<Rightarrow> name list option" where
  "names_to t i depth =
     (if i = ROOT then Some []
      else if depth > MAX_DEPTH then None
      else case nodes t i of
        None \<Rightarrow> None
      | Some n \<Rightarrow>
          find_map (\<lambda>(parent, nm). map_option (\<lambda>ns. ns @ [nm]) (names_to t parent (Suc depth)))
            (rev (node_aliases n)))"
  by auto
termination
  by (relation "measure (\<lambda>(t, i, depth). Suc MAX_DEPTH - depth)") auto

declare names_to.simps [simp del]

definition path_of :: "node_table \<Rightarrow> u64 \<Rightarrow> path option" where
  "path_of t i = Option.bind (names_to t i 0)
     (\<lambda>ns. case from_names ns of Inr p \<Rightarrow> Some p | Inl _ \<Rightarrow> None)"

fun resolve_from :: "node_table \<Rightarrow> u64 \<Rightarrow> name list \<Rightarrow> u64 option" where
  "resolve_from t current [] = Some current"
| "resolve_from t current (nm # ns) =
     (case child t current nm of Some c \<Rightarrow> resolve_from t c ns | None \<Rightarrow> None)"

definition resolve_path :: "node_table \<Rightarrow> path \<Rightarrow> u64 option" where
  "resolve_path t p = resolve_from t ROOT (names p)"

text \<open>\<open>rposition\<close>: the index of the last element that satisfies the test.\<close>

definition rposition :: "('a \<Rightarrow> bool) \<Rightarrow> 'a list \<Rightarrow> nat option" where
  "rposition P xs = find (\<lambda>j. P (xs ! j)) (rev [0..<length xs])"

definition remove_at :: "nat \<Rightarrow> 'a list \<Rightarrow> 'a list" where
  "remove_at j xs = take j xs @ drop (Suc j) xs"

definition alias_was_wrong :: "u64 \<Rightarrow> path \<Rightarrow> node_table \<Rightarrow> node_table \<times> (u64 \<times> name) option" where
  "alias_was_wrong i p t =
     (case rev (names p) of
        [] \<Rightarrow> (t, None)
      | final # dir_rev \<Rightarrow>
          (case nodes t i of
             None \<Rightarrow> (t, None)
           | Some n \<Rightarrow>
               (case rposition (\<lambda>(parent, nm). nm = final \<and> names_to t parent 0 = Some (rev dir_rev))
                       (node_aliases n) of
                  None \<Rightarrow> (t, None)
                | Some at \<Rightarrow>
                    let a = node_aliases n ! at;
                        t1 = upd_node i (\<lambda>n. mark_unlinked
                               (n\<lparr>node_aliases := remove_at at (node_aliases n)\<rparr>)) t
                    in (unlink_child i a t1, Some a))))"

definition unlink :: "u64 \<Rightarrow> name \<Rightarrow> node_table \<Rightarrow> node_table" where
  "unlink parent nm t =
     (case child t parent nm of
        None \<Rightarrow> t
      | Some c \<Rightarrow> drop_alias c parent nm (upd_node parent (set_child nm None) t))"

definition rename :: "u64 \<Rightarrow> name \<Rightarrow> u64 \<Rightarrow> name \<Rightarrow> node_table \<Rightarrow> node_table" where
  "rename parent nm newparent newname t =
     (case child t parent nm of
        None \<Rightarrow> t
      | Some c \<Rightarrow>
          if child t newparent newname = Some c then t
          else
            let t1 = upd_node parent (set_child nm None) t;
                replaced = child t1 newparent newname;
                t2 = upd_node newparent (set_child newname (Some c)) t1;
                t3 = (case replaced of Some r \<Rightarrow> drop_alias r newparent newname t2 | None \<Rightarrow> t2)
            in upd_node c (\<lambda>n. push_alias (newparent, newname) (retain_others (parent, nm) n)) t3)"

definition exchange :: "u64 \<Rightarrow> name \<Rightarrow> u64 \<Rightarrow> name \<Rightarrow> node_table \<Rightarrow> node_table" where
  "exchange parent nm newparent newname t =
     (case (child t parent nm, child t newparent newname) of
        (Some a, Some b) \<Rightarrow>
          if a = b then t
          else
            let t1 = upd_node parent (set_child nm (Some b)) t;
                t2 = upd_node newparent (set_child newname (Some a)) t1;
                t3 = upd_node a (\<lambda>n. push_alias (newparent, newname) (retain_others (parent, nm) n)) t2
            in upd_node b (\<lambda>n. push_alias (parent, nm) (retain_others (newparent, newname) n)) t3
      | _ \<Rightarrow> unlink newparent newname (unlink parent nm t))"

text \<open>
  \<open>entries\<close>; a \<open>HashMap\<close> iterates in an order of its own, so the iteration is an argument: the
  nodes in turn, each with its children in turn.
\<close>

fun entries_of :: "nat \<Rightarrow> u64 \<Rightarrow> (name \<times> u64) list \<Rightarrow> (u64 \<times> name \<times> u64) list
    \<Rightarrow> (u64 \<times> name \<times> u64) list \<times> bool" where
  "entries_of limit parent [] out = (out, False)"
| "entries_of limit parent ((nm, c) # rest) out =
     (if length out \<ge> limit then (out, True)
      else entries_of limit parent rest (out @ [(parent, nm, c)]))"

fun entries_from :: "nat \<Rightarrow> (u64 \<times> (name \<times> u64) list) list \<Rightarrow> (u64 \<times> name \<times> u64) list
    \<Rightarrow> (u64 \<times> name \<times> u64) list" where
  "entries_from limit [] out = out"
| "entries_from limit ((parent, kids) # rest) out =
     (let (out', returned) = entries_of limit parent kids out
      in if returned then out' else entries_from limit rest out')"

definition entries :: "(u64 \<times> (name \<times> u64) list) list \<Rightarrow> nat \<Rightarrow> (u64 \<times> name \<times> u64) list" where
  "entries iteration limit = entries_from limit iteration []"

subsection \<open>The invariant\<close>

text \<open>What the kernel's numbers and the files' keys say of each other.\<close>

definition keys_ok :: "node_table \<Rightarrow> bool" where
  "keys_ok t \<longleftrightarrow>
     finite (dom (nodes t)) \<and> has_node t ROOT \<and> \<not> has_node t 0 \<and>
     (\<forall>i n. nodes t i = Some n \<longrightarrow> 0 < node_lookup_count n) \<and>
     (\<forall>i n. nodes t i = Some n \<longrightarrow> i \<noteq> ROOT \<longrightarrow> (\<exists>k. node_key n = Some k \<and> by_key t k = Some i)) \<and>
     (\<forall>k i. by_key t k = Some i \<longrightarrow> i \<noteq> ROOT \<and> (\<exists>n. nodes t i = Some n \<and> node_key n = Some k))"

text \<open>The names a node has been reached through.\<close>

definition aliases_of :: "node_table \<Rightarrow> u64 \<Rightarrow> (u64 \<times> name) set" where
  "aliases_of t i = (case nodes t i of Some n \<Rightarrow> set (node_aliases n) | None \<Rightarrow> {})"

definition unlinked_ok :: "u64 \<Rightarrow> node \<Rightarrow> bool" where
  "unlinked_ok i n \<longleftrightarrow> (i \<noteq> ROOT \<longrightarrow> (node_unlinked n \<longleftrightarrow> node_aliases n = []))"

text \<open>
  Every child link leads to a node that knows the name, never to the root; and a node is marked
  unlinked exactly when no name is left.
\<close>

definition links_ok :: "node_table \<Rightarrow> bool" where
  "links_ok t \<longleftrightarrow>
     (\<forall>p nm c. child t p nm = Some c \<longrightarrow> c \<noteq> ROOT \<and> (p, nm) \<in> aliases_of t c) \<and>
     (\<forall>i n. nodes t i = Some n \<longrightarrow> unlinked_ok i n)"

definition table_ok :: "node_table \<Rightarrow> bool" where
  "table_ok t \<longleftrightarrow> keys_ok t \<and> links_ok t"

subsection \<open>What each primitive changes\<close>

lemma nodes_upd_node:
  "nodes (upd_node i f t) j = (if j = i then map_option f (nodes t i) else nodes t j)"
  by (simp add: upd_node_def split: option.split)

lemma by_key_upd_node [simp]: "by_key (upd_node i f t) = by_key t"
  by (simp add: upd_node_def split: option.split)

lemma has_node_upd_node [simp]: "has_node (upd_node i f t) j = has_node t j"
  by (simp add: has_node_def nodes_upd_node)

lemma dom_upd_node [simp]: "dom (nodes (upd_node i f t)) = dom (nodes t)"
  by (auto simp: nodes_upd_node dom_def split: if_splits)

lemma set_child_fields [simp]:
  "node_aliases (set_child nm c n) = node_aliases n"
  "node_key (set_child nm c n) = node_key n"
  "node_unlinked (set_child nm c n) = node_unlinked n"
  "node_lookup_count (set_child nm c n) = node_lookup_count n"
  "node_children (set_child nm c n) = (node_children n)(nm := c)"
  by (simp_all add: set_child_def)

lemma alias_fields [simp]:
  "node_aliases (retain_others a n) = filter (\<lambda>b. b \<noteq> a) (node_aliases n)"
  "node_aliases (push_alias a n) = node_aliases n @ [a]"
  "node_aliases (mark_unlinked n) = node_aliases n"
  "node_children (retain_others a n) = node_children n"
  "node_children (push_alias a n) = node_children n"
  "node_children (mark_unlinked n) = node_children n"
  "node_key (retain_others a n) = node_key n"
  "node_key (push_alias a n) = node_key n"
  "node_key (mark_unlinked n) = node_key n"
  "node_unlinked (retain_others a n) = node_unlinked n"
  "node_unlinked (push_alias a n) = node_unlinked n"
  "node_unlinked (mark_unlinked n) = (node_unlinked n \<or> node_aliases n = [])"
  "node_lookup_count (retain_others a n) = node_lookup_count n"
  "node_lookup_count (push_alias a n) = node_lookup_count n"
  "node_lookup_count (mark_unlinked n) = node_lookup_count n"
  by (simp_all add: retain_others_def push_alias_def mark_unlinked_def)

lemma child_upd_node:
  "child (upd_node i f t) p nm =
     (if p = i then Option.bind (nodes t i) (\<lambda>n. node_children (f n) nm) else child t p nm)"
  by (cases "nodes t i") (simp_all add: child_def nodes_upd_node)

lemma child_same_children:
  "(\<And>n. node_children (f n) = node_children n) \<Longrightarrow> child (upd_node i f t) = child t"
  by (intro ext) (auto simp: child_def nodes_upd_node split: option.split Option.bind_split)

lemma child_set_child:
  "child (upd_node i (set_child nm c) t) p m =
     (if p = i \<and> m = nm \<and> has_node t i then c else child t p m)"
  by (cases "nodes t i") (auto simp: nodes_upd_node child_def has_node_def)

lemma aliases_upd_node:
  "aliases_of (upd_node i f t) j =
     (if j = i then (case nodes t i of Some n \<Rightarrow> set (node_aliases (f n)) | None \<Rightarrow> {})
      else aliases_of t j)"
  by (cases "nodes t i") (simp_all add: aliases_of_def nodes_upd_node)

lemma aliases_same:
  "(\<And>n. set (node_aliases (f n)) = set (node_aliases n)) \<Longrightarrow> aliases_of (upd_node i f t) = aliases_of t"
  by (intro ext) (auto simp: nodes_upd_node aliases_of_def split: option.split)

lemma aliases_set_child [simp]: "aliases_of (upd_node i (set_child nm c) t) = aliases_of t"
  by (rule aliases_same) simp

lemma child_drop_alias [simp]: "child (drop_alias i p nm t) = child t"
  unfolding drop_alias_def by (rule child_same_children) simp

lemma aliases_drop_alias:
  "aliases_of (drop_alias i p nm t) j =
     (if j = i then aliases_of t j - {(p, nm)} else aliases_of t j)"
  by (auto simp: drop_alias_def nodes_upd_node aliases_of_def split: option.split)

lemma child_has_node: "child t p nm = Some c \<Longrightarrow> has_node t p"
  by (cases "nodes t p") (simp_all add: child_def has_node_def)

lemma alias_has_node: "a \<in> aliases_of t i \<Longrightarrow> has_node t i"
  by (cases "nodes t i") (simp_all add: aliases_of_def has_node_def)

lemma keys_ok_upd_node:
  assumes "keys_ok t"
    and "\<And>n. nodes t i = Some n \<Longrightarrow> node_key (f n) = node_key n \<or> i = ROOT"
    and "\<And>n. nodes t i = Some n \<Longrightarrow> 0 < node_lookup_count n \<Longrightarrow> 0 < node_lookup_count (f n)"
  shows "keys_ok (upd_node i f t)"
  using assms unfolding keys_ok_def by (auto simp: nodes_upd_node split: if_splits) metis+

lemma keys_ok_set_child: "keys_ok t \<Longrightarrow> keys_ok (upd_node i (set_child nm c) t)"
  by (rule keys_ok_upd_node) simp_all

lemma keys_ok_drop_alias: "keys_ok t \<Longrightarrow> keys_ok (drop_alias i p nm t)"
  unfolding drop_alias_def by (rule keys_ok_upd_node) simp_all

lemma keys_ok_move_alias:
  "keys_ok t \<Longrightarrow> keys_ok (upd_node i (\<lambda>n. push_alias a (retain_others b n)) t)"
  by (rule keys_ok_upd_node) simp_all

lemma unlinked_ok_same:
  "node_unlinked n' = node_unlinked n \<Longrightarrow> node_aliases n' = node_aliases n \<Longrightarrow>
     unlinked_ok i n' = unlinked_ok i n"
  by (simp add: unlinked_ok_def)

lemma unlinked_ok_dropped: "unlinked_ok i n \<Longrightarrow> unlinked_ok i (mark_unlinked (retain_others a n))"
  by (auto simp: unlinked_ok_def)

lemma new_table_ok: "table_ok new_table"
  by (auto simp: table_ok_def keys_ok_def links_ok_def new_table_def has_node_def ROOT_def child_def
      unlinked_ok_def split: if_splits)

subsection \<open>The number of a file\<close>

lemma next_free_sound:
  assumes "next_free taken i = Some j" and "2 \<le> i"
  shows "\<not> taken j \<and> 2 \<le> j"
proof -
  have "2 \<le> i \<longrightarrow> \<not> taken j \<and> 2 \<le> j"
    using assms(1)
    by (rule next_free.raw_induct [rotated, where P = "\<lambda>taken i j. 2 \<le> i \<longrightarrow> \<not> taken j \<and> 2 \<le> j"])
      (auto split: if_splits, metis max.cobounded2)
  with assms(2) show ?thesis
    by blast
qed

text \<open>How far the loop is from the number \<open>j\<close>, going up and round.\<close>

definition free_dist :: "u64 \<Rightarrow> u64 \<Rightarrow> nat" where
  "free_dist j i = (if unat i \<le> unat j then unat j - unat i else 2 ^ 64 - unat i + unat j)"

lemma unat_u64_bound: "unat (w :: u64) < 18446744073709551616"
  using unsigned_less [of w, where ?'a = nat] by simp

lemma unat_next: "unat (max (i + 1) 2 :: u64) = (if unat i = 2 ^ 64 - 1 then 2 else max (unat i + 1) 2)"
proof -
  have "unat (max (i + 1) 2) = max (unat (i + 1)) 2"
    by (simp add: max_def word_le_nat_alt)
  moreover have "unat (i + 1) = (unat i + 1) mod 2 ^ 64"
    by (simp add: unat_word_ariths)
  moreover have "unat i < 2 ^ 64 - 1 \<or> unat i = 2 ^ 64 - 1"
    using unat_u64_bound [of i] by auto
  ultimately show ?thesis
    by (auto simp: mod_less)
qed

lemma free_dist_step:
  assumes "2 \<le> j" and "i \<noteq> j" and "2 \<le> i"
  shows "free_dist j (max (i + 1) 2) < free_dist j i"
proof -
  have "2 \<le> unat j" "2 \<le> unat i" "unat i \<noteq> unat j"
    using assms by (simp_all add: word_le_nat_alt word_unat_eq_iff)
  moreover from this have "unat (max (i + 1) 2) = (if unat i = 2 ^ 64 - 1 then 2 else unat i + 1)"
    by (simp add: unat_next)
  ultimately show ?thesis
    using unat_u64_bound [of i] unat_u64_bound [of j]
    unfolding free_dist_def by (auto split: if_splits)
qed

lemma next_free_total:
  assumes "2 \<le> j" and "\<not> taken j"
  shows "2 \<le> i \<Longrightarrow> \<exists>r. next_free taken i = Some r"
proof (induction "free_dist j i" arbitrary: i rule: less_induct)
  case less
  show ?case
  proof (cases "taken i")
    case True
    with assms less.prems have "free_dist j (max (i + 1) 2) < free_dist j i"
      by (intro free_dist_step) auto
    from less.hyps [OF this] True show ?thesis
      by (subst next_free.simps) simp
  qed (subst next_free.simps, simp)
qed

lemma substitute_ge: "2 \<le> substitute ident"
  by (simp add: substitute_def)

lemma root_lt: "ROOT < i \<longleftrightarrow> 2 \<le> i"
proof -
  have "ROOT < i \<longleftrightarrow> 1 < unat i"
    by (simp add: ROOT_def word_less_nat_alt)
  also have "\<dots> \<longleftrightarrow> 2 \<le> i"
    by (auto simp: word_le_nat_alt)
  finally show ?thesis .
qed

lemma node_number:
  assumes "keys_ok t" and "has_node t i" and "i \<noteq> ROOT"
  shows "2 \<le> i"
proof -
  have "i \<noteq> 0"
    using assms by (auto simp: keys_ok_def)
  with assms(3) have "unat i \<noteq> 0" "unat i \<noteq> 1"
    by (auto simp: ROOT_def word_unat_eq_iff)
  then show ?thesis
    by (simp add: word_le_nat_alt)
qed

text \<open>The cases of \<open>id_for\<close>: the root, a file already known, or a number nothing has.\<close>

lemma id_for_cases:
  assumes "keys_ok t" and "id_for t s = Some i"
  obtains "i = ROOT" "seen_ino s = ROOT"
  | "by_key t (seen_key s) = Some i" "has_node t i" "2 \<le> i"
  | "by_key t (seen_key s) = None" "\<not> has_node t i" "2 \<le> i"
proof (cases "by_key t (seen_key s)")
  case None
  with assms that(1,3) show ?thesis
    by (auto simp: id_for_def root_lt substitute_ge dest!: next_free_sound split: if_splits)
next
  case (Some j)
  then have "has_node t j" "j \<noteq> ROOT"
    using assms(1) unfolding keys_ok_def has_node_def by blast+
  with node_number [OF assms(1)] Some assms(2) that(1,2) show ?thesis
    by (auto simp: id_for_def split: if_splits)
qed

lemma id_for_total:
  assumes "2 \<le> j" and "\<not> has_node t j"
  shows "\<exists>i. id_for t s = Some i"
  using next_free_total [of j "has_node t", OF assms substitute_ge [of "seen_identity s"]]
  by (auto simp: id_for_def split: option.split)

subsection \<open>What each operation does\<close>

lemma by_key_drop_alias [simp]: "by_key (drop_alias i p nm t) = by_key t"
  by (simp add: drop_alias_def)

lemma has_node_drop_alias [simp]: "has_node (drop_alias i p nm t) j = has_node t j"
  by (simp add: drop_alias_def)

definition unlinks_ok :: "node_table \<Rightarrow> bool" where
  "unlinks_ok t \<longleftrightarrow> (\<forall>i n. nodes t i = Some n \<longrightarrow> unlinked_ok i n)"

lemma links_okI:
  assumes "unlinks_ok t"
    and "\<And>p nm c. child t p nm = Some c \<Longrightarrow> c \<noteq> ROOT \<and> (p, nm) \<in> aliases_of t c"
  shows "links_ok t"
  using assms by (auto simp: links_ok_def unlinks_ok_def)

lemma links_ok_unlinks: "links_ok t \<Longrightarrow> unlinks_ok t"
  by (simp add: links_ok_def unlinks_ok_def)

lemma links_ok_child:
  "links_ok t \<Longrightarrow> child t p nm = Some c \<Longrightarrow> c \<noteq> ROOT \<and> (p, nm) \<in> aliases_of t c"
  by (simp add: links_ok_def)

lemma unlinks_ok_upd_node:
  assumes "unlinks_ok t" and "\<And>n. nodes t i = Some n \<Longrightarrow> unlinked_ok i n \<Longrightarrow> unlinked_ok i (f n)"
  shows "unlinks_ok (upd_node i f t)"
  using assms by (auto simp: unlinks_ok_def nodes_upd_node)

lemma unlinks_ok_set_child: "unlinks_ok t \<Longrightarrow> unlinks_ok (upd_node i (set_child nm c) t)"
  by (erule unlinks_ok_upd_node) (simp add: unlinked_ok_def)

lemma unlinks_ok_drop_alias: "unlinks_ok t \<Longrightarrow> unlinks_ok (drop_alias i p nm t)"
  unfolding drop_alias_def by (erule unlinks_ok_upd_node) (rule unlinked_ok_dropped)

lemma unlinks_ok_move_alias:
  assumes "unlinks_ok t" and "aliases_of t i \<noteq> {}"
  shows "unlinks_ok (upd_node i (\<lambda>n. push_alias a (retain_others b n)) t)"
  using assms by (intro unlinks_ok_upd_node) (auto simp: unlinked_ok_def aliases_of_def)

lemma link_child_simps:
  "by_key (link_child parent nm i t) = by_key t"
  "has_node (link_child parent nm i t) j = has_node t j"
  "child (link_child parent nm i t) p m =
     (if p = parent \<and> m = nm \<and> has_node t parent then Some i else child t p m)"
  "aliases_of (link_child parent nm i t) j =
     (if child t parent nm = Some j \<and> j \<noteq> i then aliases_of t j - {(parent, nm)} else aliases_of t j)"
  by (auto simp: link_child_def Let_def child_set_child aliases_drop_alias split: option.split)

lemma keys_ok_link_child: "keys_ok t \<Longrightarrow> keys_ok (link_child parent nm i t)"
  by (auto simp: link_child_def Let_def intro: keys_ok_set_child keys_ok_drop_alias split: option.split)

lemma unlinks_ok_link_child: "unlinks_ok t \<Longrightarrow> unlinks_ok (link_child parent nm i t)"
  by (auto simp: link_child_def Let_def intro: unlinks_ok_set_child unlinks_ok_drop_alias
      split: option.split)

lemma child_put_node:
  assumes "node_children n = node_children (node_or_new i s t)"
  shows "child (t\<lparr>nodes := (nodes t)(i \<mapsto> n), by_key := bk\<rparr>) = child t"
  using assms by (intro ext) (auto simp: child_def node_or_new_def split: option.splits)

lemma node_or_new_aliases: "set (node_aliases (node_or_new i s t)) = aliases_of t i"
  by (simp add: node_or_new_def aliases_of_def split: option.split)

text \<open>The table \<open>insert_lookup\<close> leaves, as a function of the number it chose.\<close>

lemma insert_lookup_node:
  assumes "insert_lookup t parent nm s = Some (t', Some i)"
  obtains n where "id_for t s = Some i" "i \<noteq> ROOT"
    "t' = (link_child parent nm i t)\<lparr>nodes := (nodes (link_child parent nm i t))(i \<mapsto> n),
       by_key := (by_key t)(seen_key s \<mapsto> i)\<rparr>"
    "node_children n = node_children (node_or_new i s (link_child parent nm i t))"
    "node_key n = node_key (node_or_new i s (link_child parent nm i t))"
    "set (node_aliases n) = insert (parent, nm) (aliases_of t i)"
    "\<not> node_unlinked n" "node_aliases n \<noteq> []" "0 < node_lookup_count n"
proof -
  let ?t1 = "link_child parent nm i t"
  from assms have *: "id_for t s = Some i" "i \<noteq> ROOT"
    by (auto simp: insert_lookup_def Let_def split: option.splits if_splits)
  have "set (node_aliases (node_or_new i s ?t1)) = aliases_of t i"
    by (simp add: node_or_new_aliases link_child_simps)
  with assms * show ?thesis
    by (intro that) (force simp: insert_lookup_def Let_def link_child_simps)+
qed

lemma insert_lookup_Some:
  assumes "insert_lookup t parent nm s = Some (t', Some i)"
  shows "id_for t s = Some i" and "i \<noteq> ROOT"
    and "child t' p m =
      (if p = parent \<and> m = nm \<and> has_node t parent then Some i else child t p m)"
    and "aliases_of t' j =
      (if j = i then insert (parent, nm) (aliases_of t j)
       else if child t parent nm = Some j then aliases_of t j - {(parent, nm)} else aliases_of t j)"
    and "by_key t' = (by_key t)(seen_key s \<mapsto> i)"
    and "has_node t' j \<longleftrightarrow> j = i \<or> has_node t j"
proof -
  let ?t1 = "link_child parent nm i t"
  from assms obtain n where id: "id_for t s = Some i" "i \<noteq> ROOT" and
    t': "t' = ?t1\<lparr>nodes := (nodes ?t1)(i \<mapsto> n), by_key := (by_key t)(seen_key s \<mapsto> i)\<rparr>"
    and n: "node_children n = node_children (node_or_new i s ?t1)"
      "set (node_aliases n) = insert (parent, nm) (aliases_of t i)"
    by (rule insert_lookup_node)
  show "id_for t s = Some i" "i \<noteq> ROOT"
    by (fact id)+
  show "child t' p m = (if p = parent \<and> m = nm \<and> has_node t parent then Some i else child t p m)"
    unfolding t' child_put_node [OF n(1)] by (simp add: link_child_simps)
  have "aliases_of t' j = (if j = i then set (node_aliases n) else aliases_of ?t1 j)"
    by (simp add: t' aliases_of_def)
  then show "aliases_of t' j = (if j = i then insert (parent, nm) (aliases_of t j)
       else if child t parent nm = Some j then aliases_of t j - {(parent, nm)} else aliases_of t j)"
    by (simp add: n(2) link_child_simps)
  show "by_key t' = (by_key t)(seen_key s \<mapsto> i)"
    by (simp add: t')
  show "has_node t' j \<longleftrightarrow> j = i \<or> has_node t j"
    using link_child_simps(2) [of parent nm i t j] by (simp add: t' has_node_def)
qed

lemma keys_ok_by_key:
  "keys_ok t \<Longrightarrow> by_key t k = Some i \<Longrightarrow> i \<noteq> ROOT \<and> (\<exists>n. nodes t i = Some n \<and> node_key n = Some k)"
  by (simp add: keys_ok_def)

lemma keys_ok_node:
  "keys_ok t \<Longrightarrow> nodes t i = Some n \<Longrightarrow> i \<noteq> ROOT \<Longrightarrow> \<exists>k. node_key n = Some k \<and> by_key t k = Some i"
  by (simp add: keys_ok_def)

lemma node_or_new_key:
  assumes "keys_ok t" "by_key t (seen_key s) = Some i \<or> \<not> has_node t i"
  shows "node_key (node_or_new i s t) = Some (seen_key s)"
  using assms by (auto simp: node_or_new_def has_node_def dest!: keys_ok_by_key split: option.split)

lemma id_for_fresh:
  assumes "keys_ok t" "id_for t s = Some i" "i \<noteq> ROOT"
  shows "by_key t (seen_key s) = Some i \<or> by_key t (seen_key s) = None \<and> \<not> has_node t i"
    and "2 \<le> i"
  using assms by (auto elim!: id_for_cases)

lemma insert_lookup_keys_ok:
  assumes ok: "keys_ok t" and ins: "insert_lookup t parent nm s = Some (t', Some i)"
  shows "keys_ok t'"
proof -
  let ?t1 = "link_child parent nm i t"
  from ins obtain n where id: "id_for t s = Some i" "i \<noteq> ROOT"
    and t': "t' = ?t1\<lparr>nodes := (nodes ?t1)(i \<mapsto> n), by_key := (by_key t)(seen_key s \<mapsto> i)\<rparr>"
    and n: "node_key n = node_key (node_or_new i s ?t1)" "0 < node_lookup_count n"
    by (rule insert_lookup_node)
  have ok1: "keys_ok ?t1"
    using ok by (rule keys_ok_link_child)
  have fresh: "by_key ?t1 (seen_key s) = Some i \<or> by_key ?t1 (seen_key s) = None \<and> \<not> has_node ?t1 i"
    using id_for_fresh [OF ok id] by (simp add: link_child_simps)
  then have key: "node_key n = Some (seen_key s)"
    using node_or_new_key [OF ok1] n(1) by auto
  have "i \<noteq> 0"
    using id_for_fresh(2) [OF ok id] by auto
  moreover have "(by_key t)(seen_key s \<mapsto> i) = (by_key ?t1)(seen_key s \<mapsto> i)"
    by (simp add: link_child_simps)
  moreover have "k = seen_key s \<or> j \<noteq> i" if "by_key ?t1 k = Some j" for k j
    using keys_ok_by_key [OF ok1 that] fresh keys_ok_by_key [OF ok1, of "seen_key s" i]
    by (auto simp: has_node_def)
  moreover have "k \<noteq> seen_key s" if "nodes ?t1 j = Some m" "j \<noteq> i" "by_key ?t1 k = Some j" for j m k
    using that fresh by auto
  ultimately show ?thesis
    using ok1 id(2) n(2) key unfolding t' keys_ok_def
    by (auto simp: has_node_def split: if_splits) blast
qed

lemma insert_lookup_links_ok:
  assumes ok: "links_ok t" and ins: "insert_lookup t parent nm s = Some (t', Some i)"
  shows "links_ok t'"
proof (rule links_okI)
  let ?t1 = "link_child parent nm i t"
  from ins obtain n where
    t': "t' = ?t1\<lparr>nodes := (nodes ?t1)(i \<mapsto> n), by_key := (by_key t)(seen_key s \<mapsto> i)\<rparr>"
    and n: "\<not> node_unlinked n" "node_aliases n \<noteq> []"
    by (rule insert_lookup_node)
  from unlinks_ok_link_child [OF links_ok_unlinks [OF ok]] n show "unlinks_ok t'"
    by (simp add: t' unlinks_ok_def unlinked_ok_def)
next
  fix p m c
  assume "child t' p m = Some c"
  then show "c \<noteq> ROOT \<and> (p, m) \<in> aliases_of t' c"
    using insert_lookup_Some [OF ins] links_ok_child [OF ok, of p m c]
    by (auto simp: split: if_splits dest: child_has_node)
qed

lemma insert_lookup_ok:
  "table_ok t \<Longrightarrow> insert_lookup t parent nm s = Some (t', r) \<Longrightarrow> table_ok t'"
  by (cases r)
    (auto simp: table_ok_def intro: insert_lookup_keys_ok insert_lookup_links_ok,
     auto simp: insert_lookup_def Let_def split: option.splits if_splits)

lemma links_ok_same:
  assumes "links_ok t" "unlinks_ok t'" "child t' = child t" "aliases_of t' = aliases_of t"
  shows "links_ok t'"
  using assms by (auto simp: links_ok_def unlinks_ok_def)

lemma root_seen_ok: "table_ok t \<Longrightarrow> table_ok (root_seen ident t)"
  unfolding table_ok_def root_seen_def
  by (auto intro!: keys_ok_upd_node links_ok_same [of t] unlinks_ok_upd_node child_same_children
      aliases_same simp: unlinked_ok_def dest: links_ok_unlinks)

lemma unlink_ok:
  assumes "table_ok t"
  shows "table_ok (unlink parent nm t)"
proof (cases "child t parent nm")
  case (Some c)
  then have t': "unlink parent nm t = drop_alias c parent nm (upd_node parent (set_child nm None) t)"
    by (simp add: unlink_def)
  have ok: "keys_ok t" "links_ok t"
    using assms by (auto simp: table_ok_def)
  have "links_ok (unlink parent nm t)"
  proof (rule links_okI)
    show "unlinks_ok (unlink parent nm t)"
      unfolding t' by (intro unlinks_ok_drop_alias unlinks_ok_set_child links_ok_unlinks ok)
    show "c' \<noteq> ROOT \<and> (p, m) \<in> aliases_of (unlink parent nm t) c'"
      if "child (unlink parent nm t) p m = Some c'" for p m c'
      using that links_ok_child [OF ok(2), of p m c'] child_has_node [OF Some] Some
      by (auto simp: t' child_set_child aliases_drop_alias split: if_splits)
  qed
  with ok show ?thesis
    by (auto simp: table_ok_def t' intro: keys_ok_set_child keys_ok_drop_alias)
qed (use assms in \<open>simp add: unlink_def\<close>)

text \<open>A name moves from one entry to another.\<close>

definition move_alias :: "u64 \<times> name \<Rightarrow> u64 \<times> name \<Rightarrow> node \<Rightarrow> node" where
  "move_alias a b n = push_alias b (retain_others a n)"

lemma move_alias_simps [simp]:
  "child (upd_node i (move_alias a b) t) = child t"
  "aliases_of (upd_node i (move_alias a b) t) j =
     (if j = i \<and> has_node t i then insert b (aliases_of t j - {a}) else aliases_of t j)"
proof -
  show "child (upd_node i (move_alias a b) t) = child t"
    by (rule child_same_children) (simp add: move_alias_def)
  show "aliases_of (upd_node i (move_alias a b) t) j =
     (if j = i \<and> has_node t i then insert b (aliases_of t j - {a}) else aliases_of t j)"
    by (auto simp: aliases_of_def nodes_upd_node move_alias_def has_node_def split: option.split)
qed

lemma rename_linked:
  assumes "child t parent nm = Some c" "child t newparent newname \<noteq> Some c"
  shows "rename parent nm newparent newname t =
    upd_node c (move_alias (parent, nm) (newparent, newname))
      (link_child newparent newname c (upd_node parent (set_child nm None) t))"
  using assms child_has_node [OF assms(1)]
  by (auto simp: rename_def link_child_def Let_def move_alias_def [abs_def] child_set_child
      split: option.split)

text \<open>What a rename leaves: the entry moved, and whatever was at its target without that name.\<close>

lemma rename_Some:
  assumes ok: "links_ok t"
    and c: "child t parent nm = Some c" "child t newparent newname \<noteq> Some c"
  defines "t' \<equiv> rename parent nm newparent newname t"
  shows "child t' p m =
      (if p = newparent \<and> m = newname \<and> has_node t newparent then Some c
       else if p = parent \<and> m = nm then None else child t p m)"
    and "aliases_of t' j =
      (if j = c then insert (newparent, newname) (aliases_of t j - {(parent, nm)})
       else if child t newparent newname = Some j then aliases_of t j - {(newparent, newname)}
       else aliases_of t j)"
    and "has_node t' j = has_node t j"
proof -
  have "has_node t parent" "has_node t c"
    using links_ok_child [OF ok c(1)] child_has_node [OF c(1)] by (auto dest: alias_has_node)
  moreover have "(parent, nm) \<noteq> (newparent, newname)"
    using c by auto
  ultimately show "child t' p m =
      (if p = newparent \<and> m = newname \<and> has_node t newparent then Some c
       else if p = parent \<and> m = nm then None else child t p m)"
    and "aliases_of t' j =
      (if j = c then insert (newparent, newname) (aliases_of t j - {(parent, nm)})
       else if child t newparent newname = Some j then aliases_of t j - {(newparent, newname)}
       else aliases_of t j)"
    and "has_node t' j = has_node t j"
    using c by (auto simp: t'_def rename_linked link_child_simps child_set_child)
qed

lemma rename_ok:
  assumes "table_ok t"
  shows "table_ok (rename parent nm newparent newname t)"
proof -
  have ok: "keys_ok t" "links_ok t"
    using assms by (auto simp: table_ok_def)
  consider "rename parent nm newparent newname t = t"
    | c where "child t parent nm = Some c" "child t newparent newname \<noteq> Some c"
    by (cases "\<exists>c. child t parent nm = Some c \<and> child t newparent newname \<noteq> Some c")
      (auto simp: rename_def split: option.split)
  then show ?thesis
  proof cases
    case (2 c)
    let ?t1 = "link_child newparent newname c (upd_node parent (set_child nm None) t)"
    have c: "c \<noteq> ROOT" "(parent, nm) \<in> aliases_of t c"
      using links_ok_child [OF ok(2) 2(1)] by auto
    have "keys_ok ?t1" "unlinks_ok ?t1"
      using ok links_ok_unlinks [OF ok(2)]
      by (auto intro: keys_ok_set_child keys_ok_link_child unlinks_ok_set_child unlinks_ok_link_child)
    moreover have "(parent, nm) \<in> aliases_of ?t1 c"
      using c(2) by (simp add: link_child_simps)
    ultimately have "keys_ok (rename parent nm newparent newname t)"
      "unlinks_ok (rename parent nm newparent newname t)"
      unfolding rename_linked [OF 2] move_alias_def [abs_def]
      by (auto intro!: keys_ok_move_alias unlinks_ok_move_alias)
    moreover have "d \<noteq> ROOT \<and> (p, m) \<in> aliases_of (rename parent nm newparent newname t) d"
      if "child (rename parent nm newparent newname t) p m = Some d" for p m d
      using that c links_ok_child [OF ok(2), of p m d] child_has_node [of t p m d]
      by (auto simp: rename_Some [OF ok(2) 2] split: if_splits)
    ultimately show ?thesis
      by (auto simp: table_ok_def intro: links_okI)
  qed (use assms in simp)
qed

lemma exchange_Some:
  assumes ok: "links_ok t"
    and ab: "child t parent nm = Some a" "child t newparent newname = Some b" "a \<noteq> b"
  defines "t' \<equiv> exchange parent nm newparent newname t"
  shows "child t' p m =
      (if p = newparent \<and> m = newname then Some a
       else if p = parent \<and> m = nm then Some b else child t p m)"
    and "aliases_of t' j =
      (if j = a then insert (newparent, newname) (aliases_of t j - {(parent, nm)})
       else if j = b then insert (parent, nm) (aliases_of t j - {(newparent, newname)})
       else aliases_of t j)"
    and "table_ok t \<Longrightarrow> keys_ok t' \<and> unlinks_ok t'"
proof -
  let ?t2 = "upd_node newparent (set_child newname (Some a)) (upd_node parent (set_child nm (Some b)) t)"
  have t': "t' = upd_node b (move_alias (newparent, newname) (parent, nm))
      (upd_node a (move_alias (parent, nm) (newparent, newname)) ?t2)"
    using ab by (simp add: t'_def exchange_def Let_def move_alias_def [abs_def])
  have has: "has_node t parent" "has_node t newparent" "has_node t a" "has_node t b"
    using ab links_ok_child [OF ok] child_has_node [OF ab(1)] child_has_node [OF ab(2)]
    by (auto dest!: alias_has_node)
  moreover have "(parent, nm) \<noteq> (newparent, newname)"
    using ab by auto
  ultimately show "child t' p m =
      (if p = newparent \<and> m = newname then Some a
       else if p = parent \<and> m = nm then Some b else child t p m)"
    and "aliases_of t' j =
      (if j = a then insert (newparent, newname) (aliases_of t j - {(parent, nm)})
       else if j = b then insert (parent, nm) (aliases_of t j - {(newparent, newname)})
       else aliases_of t j)"
    using ab(3) by (auto simp: t' child_set_child)
  have "(parent, nm) \<in> aliases_of t a" "(newparent, newname) \<in> aliases_of t b"
    using ab links_ok_child [OF ok] by auto
  then have "aliases_of ?t2 a \<noteq> {}"
    "aliases_of (upd_node a (move_alias (parent, nm) (newparent, newname)) ?t2) b \<noteq> {}"
    using ab(3) by auto
  then show "keys_ok t' \<and> unlinks_ok t'" if "table_ok t"
    using that links_ok_unlinks [OF ok] unfolding t' move_alias_def [abs_def] table_ok_def
    by (auto intro!: keys_ok_move_alias unlinks_ok_move_alias keys_ok_set_child unlinks_ok_set_child)
qed

lemma exchange_ok:
  assumes "table_ok t"
  shows "table_ok (exchange parent nm newparent newname t)"
proof -
  have ok: "links_ok t"
    using assms by (auto simp: table_ok_def)
  consider a b where "child t parent nm = Some a" "child t newparent newname = Some b" "a \<noteq> b"
    | "exchange parent nm newparent newname t = t"
    | "exchange parent nm newparent newname t = unlink newparent newname (unlink parent nm t)"
    by (cases "child t parent nm"; cases "child t newparent newname";
        cases "child t parent nm = child t newparent newname")
      (auto simp: exchange_def)
  then show ?thesis
  proof cases
    case 1
    note ab = links_ok_child [OF ok 1(1)] links_ok_child [OF ok 1(2)]
    have "d \<noteq> ROOT \<and> (p, m) \<in> aliases_of (exchange parent nm newparent newname t) d"
      if "child (exchange parent nm newparent newname t) p m = Some d" for p m d
      using that ab 1 links_ok_child [OF ok, of p m d]
      by (auto simp: exchange_Some(1,2) [OF ok 1] split: if_splits)
    with exchange_Some(3) [OF ok 1 assms] show ?thesis
      by (auto simp: table_ok_def intro: links_okI)
  qed (use assms unlink_ok in simp_all)
qed

text \<open>Dropping the links to a node.\<close>

lemma unlink_child_simps:
  "by_key (unlink_child i a t) = by_key t"
  "has_node (unlink_child i a t) j = has_node t j"
  "dom (nodes (unlink_child i a t)) = dom (nodes t)"
  "child (unlink_child i a t) p m = (if (p, m) = a \<and> child t p m = Some i then None else child t p m)"
  "aliases_of (unlink_child i a t) = aliases_of t"
proof -
  show "child (unlink_child i a t) p m =
      (if (p, m) = a \<and> child t p m = Some i then None else child t p m)"
    by (cases a; cases "nodes t p") (auto simp: unlink_child_def child_def nodes_upd_node)
  show "aliases_of (unlink_child i a t) = aliases_of t"
    unfolding unlink_child_def by (rule aliases_same) simp
qed (simp_all add: unlink_child_def)

lemma unlink_child_ok:
  "keys_ok t \<Longrightarrow> keys_ok (unlink_child i a t)" "unlinks_ok t \<Longrightarrow> unlinks_ok (unlink_child i a t)"
  unfolding unlink_child_def
  by (auto intro!: keys_ok_upd_node unlinks_ok_upd_node simp: unlinked_ok_def)

lemma fold_unlink_child:
  "by_key (fold (unlink_child i) as t) = by_key t"
  "has_node (fold (unlink_child i) as t) j = has_node t j"
  "child (fold (unlink_child i) as t) p m =
     (if (p, m) \<in> set as \<and> child t p m = Some i then None else child t p m)"
  "aliases_of (fold (unlink_child i) as t) = aliases_of t"
  "keys_ok t \<Longrightarrow> keys_ok (fold (unlink_child i) as t)"
  "unlinks_ok t \<Longrightarrow> unlinks_ok (fold (unlink_child i) as t)"
  by (induction as arbitrary: t) (auto simp: unlink_child_simps unlink_child_ok)

lemma forget_gone:
  assumes ok: "table_ok t" and gone: "forget i count t = (t', True)"
  shows "child t' p m = (if p = i \<or> child t p m = Some i then None else child t p m)"
    and "has_node t' j \<longleftrightarrow> j \<noteq> i \<and> has_node t j"
    and "table_ok t'"
proof -
  have kok: "keys_ok t" and lok: "links_ok t"
    using ok by (auto simp: table_ok_def)
  from gone obtain n where n: "nodes t i = Some n" and root: "i \<noteq> ROOT"
    by (auto simp: forget_def split: if_splits option.splits)
  from keys_ok_node [OF kok n root] obtain k where
    k: "node_key n = Some k" "by_key t k = Some i"
    by blast
  define t1 where "t1 = t\<lparr>nodes := (nodes t)(i := None), by_key := (by_key t)(k := None)\<rparr>"
  have t': "t' = fold (unlink_child i) (node_aliases n) t1"
    using gone n root k(1) by (auto simp: forget_def t1_def Let_def split: if_splits)
  have child1: "child t1 p m = (if p = i then None else child t p m)" for p m
    by (simp add: t1_def child_def)
  have al1: "aliases_of t1 j = (if j = i then {} else aliases_of t j)" for j
    by (simp add: t1_def aliases_of_def)
  have linked: "(p, m) \<in> set (node_aliases n)" if "child t p m = Some i" for p m
    using links_ok_child [OF lok that] n by (simp add: aliases_of_def)
  show child': "child t' p m = (if p = i \<or> child t p m = Some i then None else child t p m)" for p m
    using linked by (auto simp: t' fold_unlink_child child1)
  show "has_node t' j \<longleftrightarrow> j \<noteq> i \<and> has_node t j"
    by (simp add: t' fold_unlink_child) (simp add: t1_def has_node_def)
  have "keys_ok t1"
    using kok k keys_ok_by_key [OF kok] n root unfolding keys_ok_def t1_def
    by (auto simp: has_node_def) (metis option.inject)+
  moreover have "unlinks_ok t1"
    using links_ok_unlinks [OF lok] by (simp add: t1_def unlinks_ok_def)
  moreover have "d \<noteq> ROOT \<and> (p, m) \<in> aliases_of t' d" if "child t' p m = Some d" for p m d
  proof -
    from that have "child t p m = Some d" "d \<noteq> i"
      by (auto simp: child' split: if_splits)
    then show ?thesis
      using links_ok_child [OF lok, of p m d] by (simp add: t' fold_unlink_child al1)
  qed
  ultimately show "table_ok t'"
    using fold_unlink_child(5,6) [of t1 i "node_aliases n"]
    by (auto simp: table_ok_def t' intro!: links_okI)
qed

lemma forget_ok:
  assumes "table_ok t"
  shows "table_ok (fst (forget i count t))"
proof (cases "snd (forget i count t)")
  case True
  then show ?thesis
    using forget_gone(3) [OF assms] by (metis prod.collapse)
next
  case False
  show ?thesis
  proof (cases "i \<noteq> ROOT \<and> (\<exists>n. nodes t i = Some n)")
    case True
    with False obtain n where "nodes t i = Some n" "count < node_lookup_count n"
      and t': "fst (forget i count t) = upd_node i (\<lambda>n. n\<lparr>node_lookup_count := node_lookup_count n - count\<rparr>) t"
      by (auto simp: forget_def upd_node_def Let_def split: if_splits)
    then show ?thesis
      using assms unfolding t' table_ok_def
      by (auto intro!: keys_ok_upd_node links_ok_same [of t] unlinks_ok_upd_node child_same_children
          aliases_same simp: unlinked_ok_def dest: links_ok_unlinks)
  qed (use assms in \<open>auto simp: forget_def\<close>)
qed

lemma set_remove_at: "j < length xs \<Longrightarrow> insert (xs ! j) (set (remove_at j xs)) = set xs"
proof -
  assume "j < length xs"
  then have "xs = take j xs @ xs ! j # drop (Suc j) xs"
    by (rule id_take_nth_drop)
  then have "set xs = set (take j xs @ xs ! j # drop (Suc j) xs)"
    by simp
  then show ?thesis
    by (auto simp: remove_at_def)
qed

lemma rposition_Some: "rposition P xs = Some j \<Longrightarrow> j < length xs \<and> P (xs ! j)"
  by (auto simp: rposition_def find_Some_iff)
    (metis add.left_neutral atLeastLessThan_iff atLeastLessThan_upt diff_zero length_rev length_upt
      nth_mem set_rev)

lemma alias_was_wrong_Some:
  assumes "alias_was_wrong i p t = (t', Some a)"
  obtains n j where "nodes t i = Some n" "j < length (node_aliases n)" "a = node_aliases n ! j"
    "t' = unlink_child i a
       (upd_node i (\<lambda>n. mark_unlinked (n\<lparr>node_aliases := remove_at j (node_aliases n)\<rparr>)) t)"
  using assms
  by (auto simp: alias_was_wrong_def Let_def dest!: rposition_Some split: option.splits list.splits)

lemma alias_was_wrong_ok:
  assumes ok: "table_ok t"
  shows "table_ok (fst (alias_was_wrong i p t))"
proof (cases "snd (alias_was_wrong i p t)")
  case None
  then show ?thesis
    using ok by (auto simp: alias_was_wrong_def Let_def split: option.splits list.splits)
next
  case (Some a)
  then have "alias_was_wrong i p t = (fst (alias_was_wrong i p t), Some a)"
    by (metis prod.collapse)
  then obtain n j where n: "nodes t i = Some n" and j: "j < length (node_aliases n)"
    and a: "a = node_aliases n ! j" and t': "fst (alias_was_wrong i p t) = unlink_child i a
      (upd_node i (\<lambda>n. mark_unlinked (n\<lparr>node_aliases := remove_at j (node_aliases n)\<rparr>)) t)"
    by (rule alias_was_wrong_Some)
  let ?t1 = "upd_node i (\<lambda>n. mark_unlinked (n\<lparr>node_aliases := remove_at j (node_aliases n)\<rparr>)) t"
  have kok: "keys_ok t" and lok: "links_ok t"
    using ok by (auto simp: table_ok_def)
  have "keys_ok ?t1"
    using kok by (rule keys_ok_upd_node) simp_all
  moreover have "unlinks_ok ?t1"
    using links_ok_unlinks [OF lok] j n by (intro unlinks_ok_upd_node) (auto simp: unlinked_ok_def)
  ultimately have "keys_ok (unlink_child i a ?t1)" "unlinks_ok (unlink_child i a ?t1)"
    by (auto intro: unlink_child_ok)
  moreover have child1: "child ?t1 = child t"
    by (rule child_same_children) simp
  have al1: "insert a (aliases_of ?t1 i) = aliases_of t i" "d \<noteq> i \<Longrightarrow> aliases_of ?t1 d = aliases_of t d" for d
    using n set_remove_at [OF j] by (simp_all add: aliases_of_def nodes_upd_node a)
  have "d \<noteq> ROOT \<and> (q, m) \<in> aliases_of (unlink_child i a ?t1) d"
    if "child (unlink_child i a ?t1) q m = Some d" for q m d
  proof -
    have "child t q m = Some d" "d = i \<Longrightarrow> (q, m) \<noteq> a"
      using that by (auto simp: unlink_child_simps child1 split: if_splits)
    then show ?thesis
      using links_ok_child [OF lok, of q m d] al1 by (cases "d = i") (auto simp: unlink_child_simps)
  qed
  ultimately show ?thesis
    unfolding table_ok_def t' by (auto intro: links_okI)
qed

lemma root_key_upd_node: "(\<And>n. node_key (f n) = node_key n) \<Longrightarrow> root_key (upd_node i f t) = root_key t"
  by (simp add: root_key_def nodes_upd_node split: option.split)

lemma root_key_link_child: "root_key (link_child parent nm i t) = root_key t"
  by (simp add: link_child_def Let_def root_key_upd_node drop_alias_def split: option.split)

lemma insert_lookup_root_key:
  "insert_lookup t parent nm s = Some (t', Some i) \<Longrightarrow> root_key t' = root_key t"
  by (erule insert_lookup_node)
    (simp add: root_key_def [of "link_child _ _ _ _ \<lparr>nodes := _, by_key := _\<rparr>"]
      root_key_link_child [symmetric, of t parent nm i], simp add: root_key_def)

subsection \<open>Every table the client can have\<close>

inductive table_step :: "node_table \<Rightarrow> node_table \<Rightarrow> bool" where
  step_insert_lookup: "insert_lookup t parent nm s = Some (t', r) \<Longrightarrow> table_step t t'"
| step_root_seen: "table_step t (root_seen ident t)"
| step_forget: "table_step t (fst (forget i count t))"
| step_alias_was_wrong: "table_step t (fst (alias_was_wrong i p t))"
| step_unlink: "table_step t (unlink parent nm t)"
| step_rename: "table_step t (rename parent nm newparent newname t)"
| step_exchange: "table_step t (exchange parent nm newparent newname t)"

interpretation table: invariant_system "\<lambda>t. t = new_table" table_step table_ok
  by unfold_locales
    (auto elim!: table_step.cases intro: insert_lookup_ok root_seen_ok forget_ok alias_was_wrong_ok
      unlink_ok rename_ok exchange_ok simp: new_table_ok)

subsection \<open>Paths\<close>

text \<open>The names lead from the root to a node, each a name its node is known by in the last.\<close>

inductive leads_to :: "node_table \<Rightarrow> name list \<Rightarrow> u64 \<Rightarrow> bool" for t where
  leads_root: "leads_to t [] ROOT"
| leads_alias: "leads_to t ns parent \<Longrightarrow> (parent, nm) \<in> aliases_of t i \<Longrightarrow> leads_to t (ns @ [nm]) i"

lemma find_map_Some: "find_map f xs = Some y \<Longrightarrow> \<exists>x \<in> set xs. f x = Some y"
  by (induction xs) (auto split: option.splits)

lemma find_map_None: "find_map f xs = None \<longleftrightarrow> (\<forall>x \<in> set xs. f x = None)"
  by (induction xs) (auto split: option.splits)

lemma names_to_root [simp]: "names_to t ROOT depth = Some []"
  by (simp add: names_to.simps [of t ROOT])

lemma names_to_leads: "names_to t i depth = Some ns \<Longrightarrow> leads_to t ns i"
proof (induction t i depth arbitrary: ns rule: names_to.induct)
  case (1 t i depth)
  show ?case
  proof (cases "i = ROOT")
    case True
    with "1.prems" show ?thesis
      by (simp add: leads_root)
  next
    case False
    with "1.prems" obtain n parent nm ns' where n: "nodes t i = Some n" "\<not> depth > MAX_DEPTH"
      "(parent, nm) \<in> set (node_aliases n)" "names_to t parent (Suc depth) = Some ns'"
      "ns = ns' @ [nm]"
      by (auto simp: names_to.simps [of t i depth] dest!: find_map_Some split: if_splits option.splits)
    from "1.IH" [OF False n(2,1,4)] show ?thesis
      using n by (auto simp: aliases_of_def intro: leads_alias)
  qed
qed

lemma names_to_total:
  "leads_to t ns i \<Longrightarrow> depth + length ns \<le> Suc MAX_DEPTH \<Longrightarrow> names_to t i depth \<noteq> None"
proof (induction arbitrary: depth rule: leads_to.induct)
  case leads_root
  then show ?case
    by simp
next
  case (leads_alias ns parent nm i)
  have "names_to t parent (Suc depth) \<noteq> None"
    using leads_alias.prems by (intro leads_alias.IH) simp
  moreover obtain n where "nodes t i = Some n" "(parent, nm) \<in> set (node_aliases n)"
    using leads_alias.hyps(2) by (auto simp: aliases_of_def split: option.splits)
  ultimately have "find_map (\<lambda>(parent, nm). map_option (\<lambda>ns. ns @ [nm])
      (names_to t parent (Suc depth))) (rev (node_aliases n)) \<noteq> None"
    by (auto simp only: find_map_None) force
  then show ?case
    using leads_alias.prems \<open>nodes t i = Some n\<close> by (simp add: names_to.simps [of t i])
qed

lemma resolve_from_leads:
  "links_ok t \<Longrightarrow> leads_to t ps current \<Longrightarrow> resolve_from t current ns = Some i \<Longrightarrow> leads_to t (ps @ ns) i"
proof (induction ns arbitrary: ps current)
  case (Cons nm ns)
  then obtain c where c: "child t current nm = Some c" "resolve_from t c ns = Some i"
    by (auto split: option.splits)
  have "leads_to t (ps @ [nm]) c"
    using Cons.prems links_ok_child [OF Cons.prems(1) c(1)] by (auto intro: leads_alias)
  from Cons.IH [OF Cons.prems(1) this c(2)] show ?case
    by simp
qed simp

lemma path_components_bound: "path_ok p \<Longrightarrow> length (names p) \<le> Suc MAX_DEPTH"
  using components_bound [of "names p"]
  by (cases p) (simp add: path_ok_def MAX_DEPTH_def MAX_PATH_COMPONENTS_def)

lemma entries_of_take:
  "length out \<le> limit \<Longrightarrow> entries_of limit parent kids out =
     (let all = out @ map (\<lambda>(nm, c). (parent, nm, c)) kids in (take limit all, limit < length all))"
  by (induction kids arbitrary: out) (auto simp: Let_def take_Cons')

lemma entries_from_take:
  "length out \<le> limit \<Longrightarrow> entries_from limit iteration out =
     take limit (out @ concat (map (\<lambda>(p, kids). map (\<lambda>(nm, c). (p, nm, c)) kids) iteration))"
  by (induction iteration arbitrary: out) (auto simp: entries_of_take Let_def)

subsection \<open>Properties\<close>

text \<open>
  C33: in every table the client can reach, by any sequence of lookups, forgets, unlinks, renames,
  exchanges and corrections: the root is there and nothing has the number 0; every other node is
  some file's, and the map from files to numbers and the nodes agree, so a number stands for one
  file and a file has one number; every node is held by the kernel; every directory entry leads to
  a node that is there, that knows the name, and that is not the root; and a node is marked
  unlinked exactly when no name of it is left.
\<close>

theorem node_table_reachable:
  assumes "reach (\<lambda>t. t = new_table) table_step t"
  shows "has_node t ROOT \<and> \<not> has_node t 0 \<and>
    (\<forall>k i. by_key t k = Some i \<longleftrightarrow> i \<noteq> ROOT \<and> (\<exists>n. nodes t i = Some n \<and> node_key n = Some k)) \<and>
    (\<forall>i n. nodes t i = Some n \<longrightarrow> 0 < node_lookup_count n \<and>
       (i \<noteq> ROOT \<longrightarrow> node_key n \<noteq> None \<and> (node_unlinked n \<longleftrightarrow> node_aliases n = []))) \<and>
    (\<forall>p nm c. child t p nm = Some c \<longrightarrow> c \<noteq> ROOT \<and> (p, nm) \<in> aliases_of t c)"
proof -
  have "table_ok t"
    using assms by (rule table.inv_reach)
  then have ok: "keys_ok t" "links_ok t"
    by (auto simp: table_ok_def)
  have "by_key t k = Some i \<longleftrightarrow> i \<noteq> ROOT \<and> (\<exists>n. nodes t i = Some n \<and> node_key n = Some k)" for k i
    using keys_ok_by_key [OF ok(1), of k i] keys_ok_node [OF ok(1), of i] by auto
  with ok show ?thesis
    by (auto simp: keys_ok_def links_ok_def unlinked_ok_def)
qed

theorem node_table_reachable_witness:
  "has_node (root_seen \<lparr>handle_type = 1, handle = [7]\<rparr> new_table) ROOT"
  using node_table_reachable [of "root_seen \<lparr>handle_type = 1, handle = [7]\<rparr> new_table"]
  by (auto intro: reach_step reach_init step_root_seen)


definition example_seen :: seen where
  "example_seen = \<lparr>seen_ino = 5, seen_identity = \<lparr>handle_type = 1, handle = [5]\<rparr>,
     seen_foreign = False, seen_kind = Regular\<rparr>"


text \<open>
  A lookup keeps the promise of its number: after the table has counted a lookup of a file
  under a number, the file goes by that number however it is described again, no other file does,
  and the entry it was looked up through leads to it.
\<close>

theorem lookup_keeps_number:
  assumes "table_ok t" and ins: "insert_lookup t parent nm s = Some (t', Some i)"
  shows "(seen_key s' = seen_key s \<longrightarrow> id_for t' s' = Some i) \<and>
    (seen_key s' \<noteq> seen_key s \<longrightarrow> id_for t' s' \<noteq> Some i) \<and>
    (has_node t parent \<longrightarrow> child t' parent nm = Some i)"
proof (intro conjI impI)
  have ok: "keys_ok t" and ok': "keys_ok t'"
    using assms insert_lookup_ok [OF assms] by (auto simp: table_ok_def)
  note ins' = insert_lookup_Some [OF ins]
  show "child t' parent nm = Some i" if "has_node t parent"
    using that ins' by simp
  {
    assume same: "seen_key s' = seen_key s"
    have "root_key t' = root_key t"
      using insert_lookup_root_key [OF ins] .
    moreover have "id_for t s \<noteq> Some ROOT"
      using ins' by simp
    ultimately show "id_for t' s' = Some i"
      using same ins'(5) by (auto simp: id_for_def seen_key_def split: if_splits option.splits)
  }
  {
    assume other: "seen_key s' \<noteq> seen_key s"
    show "id_for t' s' \<noteq> Some i"
    proof
      assume "id_for t' s' = Some i"
      with ok' show False
      proof (rule id_for_cases)
        assume "by_key t' (seen_key s') = Some i"
        with keys_ok_by_key [OF ok'] ins'(5) other show False
          by (metis fun_upd_same option.inject)
      qed (use ins' in auto)
    qed
  }
qed

theorem lookup_keeps_number_witness:
  "\<exists>t'. insert_lookup new_table ROOT (Name [97]) example_seen = Some (t', Some 5) \<and>
     id_for t' example_seen = Some 5 \<and> child t' ROOT (Name [97]) = Some 5"
proof -
  obtain t' where t': "insert_lookup new_table ROOT (Name [97]) example_seen = Some (t', Some 5)"
    by (simp add: insert_lookup_def id_for_def new_table_def example_seen_def ROOT_def has_node_def
        root_key_def Let_def)
  moreover have "has_node new_table ROOT"
    by (simp add: new_table_def has_node_def)
  ultimately show ?thesis
    using lookup_keeps_number [OF new_table_ok t', of example_seen] by blast
qed

text \<open>
  C35: the path a node is addressed by is made of names the table knows, from the root to the node,
  and is no longer than a path may be; and every node a valid path leads to through the table's
  entries can be addressed: the bound on the depth of the search never cuts off a real file.
\<close>

theorem path_of_addresses:
  "(path_of t i = Some p \<longrightarrow> leads_to t (names p) i \<and> byte_len p \<le> PATH_MAX) \<and>
   (table_ok t \<and> path_ok q \<and> resolve_path t q = Some i \<longrightarrow> names_to t i 0 \<noteq> None)"
proof (intro conjI impI)
  assume "path_of t i = Some p"
  then obtain ns where "names_to t i 0 = Some ns" "from_names ns = Ok p"
    by (auto simp: path_of_def split: option.splits sum.splits bind_splits)
  then show "leads_to t (names p) i" "byte_len p \<le> PATH_MAX"
    by (auto simp: from_names_def Let_def dest: names_to_leads split: if_splits)
next
  assume *: "table_ok t \<and> path_ok q \<and> resolve_path t q = Some i"
  then have "leads_to t (names q) i"
    using resolve_from_leads [of t "[]" ROOT "names q" i] leads_root
    by (auto simp: resolve_path_def table_ok_def)
  then show "names_to t i 0 \<noteq> None"
    using path_components_bound [of q] * by (intro names_to_total) auto
qed

theorem path_of_addresses_witness:
  "\<exists>t'. insert_lookup new_table ROOT (Name [97]) example_seen = Some (t', Some 5) \<and>
     resolve_path t' (Path [Name [97]]) = Some 5 \<and> names_to t' 5 0 \<noteq> None"
proof -
  obtain t' where t': "insert_lookup new_table ROOT (Name [97]) example_seen = Some (t', Some 5)"
    by (simp add: insert_lookup_def id_for_def new_table_def example_seen_def ROOT_def has_node_def
        root_key_def Let_def)
  have "has_node new_table ROOT"
    by (simp add: new_table_def has_node_def)
  with insert_lookup_Some(3) [OF t', of ROOT "Name [97]"] have
    resolves: "resolve_path t' (Path [Name [97]]) = Some 5"
    by (simp add: resolve_path_def)
  moreover have "path_ok (Path [Name [97]])"
    by (simp add: path_ok_def name_ok_def byte_len_def NAME_MAX_def PATH_MAX_def slash_def dot_def)
  ultimately show ?thesis
    using path_of_addresses [of t' 5 "Path []" "Path [Name [97]]"] insert_lookup_ok [OF new_table_ok t'] t'
    by blast
qed

text \<open>
  Forgetting: the table reports a node gone exactly when the kernel dropped its last lookup of
  a file other than the root; then the node is gone and its number with it, no entry leads to it,
  and every entry of the other directories that led elsewhere still does.
\<close>

theorem forget_removes:
  assumes ok: "table_ok t" and f: "forget i count t = (t', gone)"
  shows "(gone \<longleftrightarrow> i \<noteq> ROOT \<and> (\<exists>n. nodes t i = Some n \<and> node_lookup_count n \<le> count)) \<and>
    (gone \<longrightarrow> \<not> has_node t' i \<and> (\<forall>k. by_key t' k \<noteq> Some i) \<and>
       (\<forall>p m. child t' p m = (if p = i \<or> child t p m = Some i then None else child t p m)))"
proof (intro conjI impI)
  show "gone \<longleftrightarrow> i \<noteq> ROOT \<and> (\<exists>n. nodes t i = Some n \<and> node_lookup_count n \<le> count)"
    using f by (auto simp: forget_def Let_def split: if_splits option.splits)
  assume gone
  with f have f': "forget i count t = (t', True)"
    by simp
  note gone' = forget_gone [OF ok f']
  show "\<not> has_node t' i"
    by (simp add: gone')
  with gone'(3) show "\<forall>k. by_key t' k \<noteq> Some i"
    using keys_ok_by_key [of t' _ i] by (auto simp: table_ok_def has_node_def)
  show "\<forall>p m. child t' p m = (if p = i \<or> child t p m = Some i then None else child t p m)"
    using gone'(1) by blast
qed

theorem forget_removes_witness:
  "\<exists>t'. insert_lookup new_table ROOT (Name [97]) example_seen = Some (t', Some 5) \<and>
     snd (forget 5 1 t') \<and> \<not> has_node (fst (forget 5 1 t')) 5"
proof -
  obtain t' where t': "insert_lookup new_table ROOT (Name [97]) example_seen = Some (t', Some 5)"
    and n: "\<exists>n. nodes t' 5 = Some n \<and> node_lookup_count n = 1"
    by (simp add: insert_lookup_def id_for_def new_table_def example_seen_def ROOT_def has_node_def
        root_key_def Let_def node_or_new_def link_child_def child_def upd_node_def)
  show ?thesis
    using forget_removes [of t' 5 1 "fst (forget 5 1 t')" "snd (forget 5 1 t')"]
      insert_lookup_ok [OF new_table_ok t'] n t'
    by (auto simp: ROOT_def)
qed

text \<open>
  A rename moves the entry: what was renamed is found under its new name and no longer under
  its old one, whatever was there before does not keep that name, and no other entry changes.
\<close>

theorem rename_moves:
  assumes "table_ok t" and "child t parent nm = Some c" and "child t newparent newname \<noteq> Some c"
  defines "t' \<equiv> rename parent nm newparent newname t"
  shows "(has_node t newparent \<longrightarrow> child t' newparent newname = Some c) \<and>
    child t' parent nm = None \<and> (parent, nm) \<notin> aliases_of t' c \<and>
    (newparent, newname) \<in> aliases_of t' c \<and>
    (\<forall>r. child t newparent newname = Some r \<longrightarrow> (newparent, newname) \<notin> aliases_of t' r) \<and>
    (\<forall>p m. (p, m) \<noteq> (parent, nm) \<and> (p, m) \<noteq> (newparent, newname) \<longrightarrow> child t' p m = child t p m)"
proof -
  have ok: "links_ok t"
    using assms(1) by (simp add: table_ok_def)
  have "(parent, nm) \<noteq> (newparent, newname)"
    using assms by auto
  then show ?thesis
    using rename_Some(1,2) [OF ok assms(2,3)] assms(3) by (auto simp: t'_def)
qed

theorem rename_moves_witness:
  "\<exists>t'. insert_lookup new_table ROOT (Name [97]) example_seen = Some (t', Some 5) \<and>
     child (rename ROOT (Name [97]) ROOT (Name [98]) t') ROOT (Name [98]) = Some 5 \<and>
     child (rename ROOT (Name [97]) ROOT (Name [98]) t') ROOT (Name [97]) = None"
proof -
  obtain t' where t': "insert_lookup new_table ROOT (Name [97]) example_seen = Some (t', Some 5)"
    by (simp add: insert_lookup_def id_for_def new_table_def example_seen_def ROOT_def has_node_def
        root_key_def Let_def)
  have "has_node new_table ROOT" "child new_table ROOT nm = None" for nm
    by (simp_all add: new_table_def has_node_def child_def)
  then have "has_node t' ROOT" "child t' ROOT (Name [97]) = Some 5" "child t' ROOT (Name [98]) = None"
    using insert_lookup_Some [OF t'] by auto
  then show ?thesis
    using rename_moves [of t' ROOT "Name [97]" 5 ROOT "Name [98]"] insert_lookup_ok [OF new_table_ok t'] t'
    by auto
qed

subsection \<open>A name kept twice\<close>

text \<open>
  A rename onto a name the node still has from before its directory was forgotten and looked up
  again keeps that name twice: \<open>rename\<close> retains away only the old name before it pushes the new
  one.  When the name then turns out to be wrong, \<open>alias_was_wrong\<close> takes one of the two away, and
  the node is still addressed by the path that was wrong.
\<close>

definition example_dir :: seen where
  "example_dir = \<lparr>seen_ino = 3, seen_identity = \<lparr>handle_type = 1, handle = [3]\<rparr>,
     seen_foreign = False, seen_kind = Directory\<rparr>"

definition looked_up :: "u64 \<Rightarrow> name \<Rightarrow> seen \<Rightarrow> node_table \<Rightarrow> node_table" where
  "looked_up parent nm s t = (case insert_lookup t parent nm s of Some (t', _) \<Rightarrow> t' | None \<Rightarrow> t)"

definition repeated_name_run :: node_table where
  "repeated_name_run =
     rename ROOT (Name [97]) 3 (Name [98])
       (looked_up ROOT (Name [100]) example_dir
         (fst (forget 3 1
           (looked_up 3 (Name [98]) example_seen
             (looked_up ROOT (Name [97]) example_seen
               (looked_up ROOT (Name [100]) example_dir new_table))))))"

lemmas table_eval = insert_lookup_def id_for_def new_table_def example_seen_def example_dir_def
  ROOT_def has_node_def root_key_def Let_def node_or_new_def link_child_def child_def upd_node_def
  seen_key_def looked_up_def set_child_def push_alias_def retain_others_def drop_alias_def
  forget_def unlink_child_def rename_def mark_unlinked_def

lemma repeated_name:
  "map_option node_aliases (nodes repeated_name_run 5) = Some [(3, Name [98]), (3, Name [98])]"
  by (simp add: repeated_name_run_def table_eval)

theorem wrong_name_survives:
  "let p = Path [Name [100], Name [98]];
       (t', a) = alias_was_wrong 5 p repeated_name_run
   in path_of repeated_name_run 5 = Some p \<and> a = Some (3, Name [98]) \<and> path_of t' 5 = Some p"
  by (simp add: repeated_name_run_def table_eval alias_was_wrong_def path_of_def names_to.simps
      rposition_def remove_at_def from_names_def byte_len_def PATH_MAX_def MAX_DEPTH_def)

end
