(* ===== verification/Errno.thy ===== *)
theory Errno
  imports Types
begin

text \<open>
  The numbers of Linux the program names (errors, flags of an open, file types), and the byte strings
  it compares names with.
\<close>

type_synonym errno = int

abbreviation EPERM :: errno where "EPERM \<equiv> 1"
abbreviation ENOENT :: errno where "ENOENT \<equiv> 2"
abbreviation EINTR :: errno where "EINTR \<equiv> 4"
abbreviation EIO :: errno where "EIO \<equiv> 5"
abbreviation ENXIO :: errno where "ENXIO \<equiv> 6"
abbreviation EBADF :: errno where "EBADF \<equiv> 9"
abbreviation EAGAIN :: errno where "EAGAIN \<equiv> 11"
abbreviation ENOMEM :: errno where "ENOMEM \<equiv> 12"
abbreviation EACCES :: errno where "EACCES \<equiv> 13"
abbreviation EEXIST :: errno where "EEXIST \<equiv> 17"
abbreviation EXDEV :: errno where "EXDEV \<equiv> 18"
abbreviation ENOTDIR :: errno where "ENOTDIR \<equiv> 20"
abbreviation EISDIR :: errno where "EISDIR \<equiv> 21"
abbreviation EINVAL :: errno where "EINVAL \<equiv> 22"
abbreviation ENFILE :: errno where "ENFILE \<equiv> 23"
abbreviation EMFILE :: errno where "EMFILE \<equiv> 24"
abbreviation ENOTTY :: errno where "ENOTTY \<equiv> 25"
abbreviation ENOSPC :: errno where "ENOSPC \<equiv> 28"
abbreviation ERANGE :: errno where "ERANGE \<equiv> 34"
abbreviation ENAMETOOLONG :: errno where "ENAMETOOLONG \<equiv> 36"
abbreviation ENOSYS :: errno where "ENOSYS \<equiv> 38"
abbreviation ENODATA :: errno where "ENODATA \<equiv> 61"
abbreviation EOPNOTSUPP :: errno where "EOPNOTSUPP \<equiv> 95"
abbreviation ENOTCONN :: errno where "ENOTCONN \<equiv> 107"
abbreviation ETIMEDOUT :: errno where "ETIMEDOUT \<equiv> 110"
abbreviation ESTALE :: errno where "ESTALE \<equiv> 116"

text \<open>The flags of an open, on the 64-bit platforms the program is built for.\<close>

definition O_ACCMODE :: u32 where "O_ACCMODE = 3"
definition O_RDONLY :: u32 where "O_RDONLY = 0"
definition O_WRONLY :: u32 where "O_WRONLY = 1"
definition O_RDWR :: u32 where "O_RDWR = 2"
definition O_CREAT :: u32 where "O_CREAT = 64"
definition O_EXCL :: u32 where "O_EXCL = 128"
definition O_NOCTTY :: u32 where "O_NOCTTY = 256"
definition O_TRUNC :: u32 where "O_TRUNC = 512"
definition O_APPEND :: u32 where "O_APPEND = 1024"
definition O_NONBLOCK :: u32 where "O_NONBLOCK = 2048"
definition O_DSYNC :: u32 where "O_DSYNC = 4096"
definition O_DIRECT :: u32 where "O_DIRECT = 16384"
definition O_LARGEFILE :: u32 where "O_LARGEFILE = 0"
definition O_DIRECTORY :: u32 where "O_DIRECTORY = 65536"
definition O_NOFOLLOW :: u32 where "O_NOFOLLOW = 131072"
definition O_NOATIME :: u32 where "O_NOATIME = 262144"
definition O_CLOEXEC :: u32 where "O_CLOEXEC = 524288"
definition O_SYNC :: u32 where "O_SYNC = 1052672"
definition O_PATH :: u32 where "O_PATH = 2097152"

lemmas open_bits = O_ACCMODE_def O_RDONLY_def O_WRONLY_def O_RDWR_def O_CREAT_def O_EXCL_def O_NOCTTY_def O_TRUNC_def O_APPEND_def
  O_NONBLOCK_def O_DSYNC_def O_DIRECT_def O_LARGEFILE_def O_DIRECTORY_def O_NOFOLLOW_def O_NOATIME_def O_CLOEXEC_def
  O_SYNC_def O_PATH_def

text \<open>The file type in a mode.\<close>

definition S_IFMT :: u32 where "S_IFMT = 0xf000"
definition S_IFSOCK :: u32 where "S_IFSOCK = 0xc000"
definition S_IFLNK :: u32 where "S_IFLNK = 0xa000"
definition S_IFREG :: u32 where "S_IFREG = 0x8000"
definition S_IFBLK :: u32 where "S_IFBLK = 0x6000"
definition S_IFDIR :: u32 where "S_IFDIR = 0x4000"
definition S_IFCHR :: u32 where "S_IFCHR = 0x2000"
definition S_IFIFO :: u32 where "S_IFIFO = 0x1000"

lemmas mode_bits = S_IFMT_def S_IFSOCK_def S_IFLNK_def S_IFREG_def S_IFBLK_def S_IFDIR_def S_IFCHR_def S_IFIFO_def

text \<open>A byte string literal.\<close>

definition bytes :: "string \<Rightarrow> u8 list" where
  "bytes s = map of_char s"

text \<open>\<open>starts_with\<close> of byte strings.\<close>

definition starts_with :: "u8 list \<Rightarrow> u8 list \<Rightarrow> bool" where
  "starts_with bs pre = (take (length pre) bs = pre)"

end
