(* ===== verification/ClientErrors.thy ===== *)
theory ClientErrors
  imports Errno Messages
begin

text \<open>
  How a call of the client fails (\<open>crates/client/src/client.rs\<close>, \<open>Error\<close> and \<open>ErrorExchange\<close>), and
  the errno each failure becomes.
\<close>

datatype client_error =
    Timeout
  | Interrupted
  | Disconnected
  | Stale
  | Remote int
  | Protocol string
  | Closed
  | Unmapped

definition error_errno :: "client_error \<Rightarrow> errno" where
  "error_errno e = (case e of
       Timeout \<Rightarrow> ETIMEDOUT
     | Interrupted \<Rightarrow> EINTR
     | Disconnected \<Rightarrow> EIO
     | Stale \<Rightarrow> ESTALE
     | Remote n \<Rightarrow> if 0 < n \<and> n < 4096 then n else EIO
     | Protocol _ \<Rightarrow> EIO
     | Closed \<Rightarrow> ENOTCONN
     | Unmapped \<Rightarrow> EINVAL)"

text \<open>
  The outcome of one exchange that brought no reply.  What is left of an exchange given up on is
  named by the stream it is on.
\<close>

datatype 'p error_exchange =
    NotSent string
  | Lost string
  | ExProtocol string
  | GaveUp (gave_up_error: client_error) (gave_up_written: bool) (gave_up_pending: "'p option")

fun error_of_exchange :: "'p error_exchange \<Rightarrow> client_error" where
  "error_of_exchange (NotSent _) = Disconnected"
| "error_of_exchange (Lost _) = Disconnected"
| "error_of_exchange (ExProtocol msg) = Protocol msg"
| "error_of_exchange (GaveUp e _ _) = e"

lemma error_errno_range: "0 < error_errno e \<and> error_errno e < 4096"
  by (simp add: error_errno_def split: client_error.split)

end
