(* ===== verification/Counted.thy ===== *)
theory Counted
  imports Prelude
begin

text \<open>
  Tables of handles that keep a count of their entries of each kind beside them.  The locale
  \<open>counted_table\<close> is what such a table promises of adding and removing an entry; both ends' tables
  of handles are one.
\<close>

definition counted :: "('k \<rightharpoonup> 'h) \<Rightarrow> ('h \<Rightarrow> bool) \<Rightarrow> nat \<Rightarrow> nat \<Rightarrow> bool" where
  "counted m is_dir files dirs \<longleftrightarrow>
     finite (dom m) \<and> files = card (keys_where m (\<lambda>h. \<not> is_dir h)) \<and>
     dirs = card (keys_where m is_dir)"

text \<open>One entry's part of a count.\<close>

definition tally :: "('h \<Rightarrow> bool) \<Rightarrow> 'h option \<Rightarrow> nat" where
  "tally P h = (case h of Some h \<Rightarrow> if P h then 1 else 0 | None \<Rightarrow> 0)"

lemma tally_simps [simp]: "tally P None = 0" "tally P (Some h) = (if P h then 1 else 0)"
  by (simp_all add: tally_def)

lemma card_keys_where_put:
  assumes "finite (dom m)"
  shows "card (keys_where (m(k \<mapsto> h)) P) + tally P (m k) = card (keys_where m P) + tally P (Some h)"
proof (cases "k \<in> keys_where m P"; cases "P h")
  assume "k \<in> keys_where m P" "P h"
  then show ?thesis
    by (auto simp: card_keys_where_upd_same)
next
  assume k: "k \<in> keys_where m P" and h: "\<not> P h"
  from card_keys_where_upd_gone [OF assms k h] k h show ?thesis
    by auto
next
  assume k: "k \<notin> keys_where m P" and h: "P h"
  from card_keys_where_upd_new [OF assms k h] k h show ?thesis
    by (auto simp: tally_def split: option.split)
next
  assume "k \<notin> keys_where m P" "\<not> P h"
  then show ?thesis
    by (auto simp: keys_where_upd_outside tally_def split: option.split)
qed

lemma card_keys_where_remove:
  assumes "finite (dom m)"
  shows "card (keys_where (m(k := None)) P) + tally P (m k) = card (keys_where m P)"
proof (cases "k \<in> keys_where m P")
  case True
  then show ?thesis
    using card_keys_where_del [OF assms] by auto
next
  case False
  then show ?thesis
    by (auto simp: keys_where_del tally_def split: option.split)
qed

lemma counted_empty: "counted Map.empty is_dir 0 0"
  by (simp add: counted_def)

lemma counted_total:
  assumes "counted m is_dir files dirs"
  shows "files + dirs = card (dom m)"
proof -
  have "dom m = keys_where m (\<lambda>h. \<not> is_dir h) \<union> keys_where m is_dir"
    by auto
  moreover have "card (keys_where m (\<lambda>h. \<not> is_dir h) \<union> keys_where m is_dir) =
      card (keys_where m (\<lambda>h. \<not> is_dir h)) + card (keys_where m is_dir)"
    using assms by (intro card_Un_disjoint) (auto simp: counted_def)
  ultimately show ?thesis
    using assms unfolding counted_def by metis
qed

text \<open>Sums over the values of a finite map.\<close>

lemma sum_dom_put:
  assumes "finite (dom m)" "m s = Some t"
  shows "(\<Sum>k \<in> dom (m(s \<mapsto> t')). f (the ((m(s \<mapsto> t')) k))) + f t = (\<Sum>k \<in> dom m. f (the (m k))) + (f t' :: nat)"
proof -
  have "dom (m(s \<mapsto> t')) = insert s (dom m - {s})" "dom m = insert s (dom m - {s})"
    using assms by auto
  then have "(\<Sum>k \<in> dom (m(s \<mapsto> t')). f (the ((m(s \<mapsto> t')) k))) =
      f t' + (\<Sum>k \<in> dom m - {s}. f (the ((m(s \<mapsto> t')) k)))"
    and "(\<Sum>k \<in> dom m. f (the (m k))) = f t + (\<Sum>k \<in> dom m - {s}. f (the (m k)))"
    using assms by (metis (no_types, lifting) Diff_iff finite_Diff fun_upd_same insertCI option.sel
        singletonI sum.insert)+
  moreover have "(\<Sum>k \<in> dom m - {s}. f (the ((m(s \<mapsto> t')) k))) = (\<Sum>k \<in> dom m - {s}. f (the (m k)))"
    by (rule sum.cong) auto
  ultimately show ?thesis
    by simp
qed

lemma sum_dom_new:
  assumes "finite (dom m)" "m s = None"
  shows "(\<Sum>k \<in> dom (m(s \<mapsto> t)). f (the ((m(s \<mapsto> t)) k))) = (\<Sum>k \<in> dom m. f (the (m k))) + (f t :: nat)"
proof -
  have "s \<notin> dom m"
    using assms by auto
  then have "(\<Sum>k \<in> dom m. f (the ((m(s \<mapsto> t)) k))) = (\<Sum>k \<in> dom m. f (the (m k)))"
    by (intro sum.cong) auto
  with \<open>s \<notin> dom m\<close> assms(1) show ?thesis
    by simp
qed

lemma sum_dom_del:
  assumes "finite (dom m)" "m s = Some t"
  shows "(\<Sum>k \<in> dom (m(s := None)). f (the ((m(s := None)) k))) + f t = (\<Sum>k \<in> dom m. f (the (m k)) :: nat)"
proof -
  have "(\<Sum>k \<in> dom m - {s}. f (the ((m(s := None)) k))) = (\<Sum>k \<in> dom m - {s}. f (the (m k)))"
    by (rule sum.cong) auto
  with assms show ?thesis
    by (simp add: sum.remove [of "dom m" s] domI)
qed

locale counted_table =
  fixes valid :: "'s \<Rightarrow> bool"
    and entries :: "'s \<Rightarrow> ('k \<rightharpoonup> 'h)"
    and files dirs :: "'s \<Rightarrow> nat"
    and is_dir :: "'h \<Rightarrow> bool"
    and put :: "'k \<Rightarrow> 'h \<Rightarrow> 's \<Rightarrow> 's"
    and del :: "'k \<Rightarrow> 's \<Rightarrow> 's"
  assumes put_valid: "valid s \<Longrightarrow> valid (put k h s)"
    and put_entries: "valid s \<Longrightarrow> entries s k = None \<Longrightarrow> entries (put k h s) = (entries s)(k \<mapsto> h)"
    and put_files: "entries s k = None \<Longrightarrow> files (put k h s) = files s + (if is_dir h then 0 else 1)"
    and put_dirs: "entries s k = None \<Longrightarrow> dirs (put k h s) = dirs s + (if is_dir h then 1 else 0)"
    and del_valid: "valid s \<Longrightarrow> valid (del k s)"
    and del_entries: "entries (del k s) = (entries s)(k := None)"
    and del_files: "files (del k s) = files s - tally (\<lambda>h. \<not> is_dir h) (entries s k)"
    and del_dirs: "dirs (del k s) = dirs s - tally is_dir (entries s k)"
begin

lemma put_counted:
  assumes "valid s" "counted (entries s) is_dir (files s) (dirs s)" "entries s k = None"
  shows "counted (entries (put k h s)) is_dir (files (put k h s)) (dirs (put k h s))"
proof -
  have fin: "finite (dom (entries s))"
    using assms by (simp add: counted_def)
  show ?thesis
    using assms card_keys_where_put [OF fin, of k h is_dir]
      card_keys_where_put [OF fin, of k h "\<lambda>h. \<not> is_dir h"]
    by (simp add: counted_def put_entries put_files put_dirs)
qed

lemma del_counted:
  assumes "counted (entries s) is_dir (files s) (dirs s)"
  shows "counted (entries (del k s)) is_dir (files (del k s)) (dirs (del k s))"
proof -
  have fin: "finite (dom (entries s))"
    using assms by (simp add: counted_def)
  show ?thesis
    using assms card_keys_where_remove [OF fin, of k is_dir]
      card_keys_where_remove [OF fin, of k "\<lambda>h. \<not> is_dir h"]
    by (auto simp: counted_def del_entries del_files del_dirs)
qed

end

text \<open>A table that also counts right when an entry takes another's place.\<close>

locale replacing_table = counted_table +
  assumes put_over_entries: "valid s \<Longrightarrow> entries (put k h s) = (entries s)(k \<mapsto> h)"
    and put_over_files: "valid s \<Longrightarrow> files (put k h s) =
      files s + (if is_dir h then 0 else 1) - tally (\<lambda>h. \<not> is_dir h) (entries s k)"
    and put_over_dirs: "valid s \<Longrightarrow> dirs (put k h s) =
      dirs s + (if is_dir h then 1 else 0) - tally is_dir (entries s k)"
begin

lemma put_over_counted:
  assumes "valid s" "counted (entries s) is_dir (files s) (dirs s)"
  shows "counted (entries (put k h s)) is_dir (files (put k h s)) (dirs (put k h s))"
proof -
  have fin: "finite (dom (entries s))"
    using assms by (simp add: counted_def)
  show ?thesis
    using assms card_keys_where_put [OF fin, of k h is_dir]
      card_keys_where_put [OF fin, of k h "\<lambda>h. \<not> is_dir h"]
    by (cases "is_dir h") (auto simp: counted_def put_over_entries put_over_files put_over_dirs)
qed

end

end
