(* ===== verification/ClientHandles.thy ===== *)
theory ClientHandles
  imports Inodes ClientErrors Counted
begin

text \<open>
  The client's table of open handles (\<open>crates/client/src/handles.rs\<close>).  A handle's record is shared
  (\<open>Arc\<close>) by the table and by a round of reopens that outlives its entry there, and is marked dead
  in place, so records live in a store, and the table and the round hold their addresses.  The
  flags of an open are the 32 bits of the \<open>i32\<close>.  The order in which a \<open>HashMap\<close> iterates is an
  argument; a \<open>BTreeMap\<close> iterates in the order of its keys.
\<close>

subsection \<open>State\<close>

record opener =
  op_pid :: u32
  op_process :: string

datatype handle_kind = KFile | KDir

record handle_rec =
  hr_nodeid :: u64
  hr_key :: key_node
  hr_path :: path
  hr_flags :: u32
  hr_kind :: handle_kind
  hr_opener :: "opener option"
  hr_dead :: bool

record owed_release =
  or_req :: request
  or_sending_on :: "nat option"

record handle_table =
  ht_next :: u64
  ht_heap :: "nat \<rightharpoonup> handle_rec"
  ht_fresh :: nat
  ht_map :: "u64 \<rightharpoonup> nat"
  ht_owed :: "u64 \<rightharpoonup> owed_release"
  ht_owed_count :: nat
  ht_files :: nat
  ht_dirs :: nat

definition table_default :: handle_table where
  "table_default = \<lparr>ht_next = 0, ht_heap = Map.empty, ht_fresh = 0, ht_map = Map.empty,
     ht_owed = Map.empty, ht_owed_count = 0, ht_files = 0, ht_dirs = 0\<rparr>"

subsection \<open>Records\<close>

definition appends :: "handle_rec \<Rightarrow> bool" where
  "appends r \<longleftrightarrow> hr_flags r AND O_APPEND \<noteq> 0"

definition mark_dead :: "nat \<Rightarrow> handle_table \<Rightarrow> handle_table" where
  "mark_dead a t =
     (case ht_heap t a of
        Some r \<Rightarrow> t\<lparr>ht_heap := (ht_heap t)(a \<mapsto> r\<lparr>hr_dead := True\<rparr>)\<rparr>
      | None \<Rightarrow> t)"

definition reopen_request :: "u64 \<Rightarrow> handle_rec \<Rightarrow> request" where
  "reopen_request fh r = (case hr_kind r of
       KFile \<Rightarrow> Open fh (hr_path r) (hr_flags r AND NOT (O_CREAT OR O_EXCL OR O_TRUNC))
     | KDir \<Rightarrow> Opendir fh (hr_path r))"

definition release_request :: "handle_kind \<Rightarrow> u64 \<Rightarrow> request" where
  "release_request kind fh = (case kind of KFile \<Rightarrow> Release fh True | KDir \<Rightarrow> Releasedir fh True)"

definition writes :: "handle_rec \<Rightarrow> bool" where
  "writes r \<longleftrightarrow> hr_flags r AND O_ACCMODE \<noteq> O_RDONLY"

subsection \<open>The table\<close>

definition alloc :: "handle_table \<Rightarrow> handle_table \<times> u64" where
  "alloc t = (t\<lparr>ht_next := ht_next t + 1\<rparr>, ht_next t + 1)"

definition rec_at :: "handle_table \<Rightarrow> u64 \<Rightarrow> handle_rec option" where
  "rec_at t fh = Option.bind (ht_map t fh) (ht_heap t)"

definition is_kdir :: "handle_rec \<Rightarrow> bool" where
  "is_kdir r \<longleftrightarrow> hr_kind r = KDir"

text \<open>\<open>insert\<close> of a record just made; the count of one whose place it takes goes down again.\<close>

definition insert_rec :: "u64 \<Rightarrow> handle_rec \<Rightarrow> handle_table \<Rightarrow> handle_table" where
  "insert_rec fh r t =
     (let old = rec_at t fh
      in t\<lparr>ht_heap := (ht_heap t)(ht_fresh t \<mapsto> r), ht_fresh := ht_fresh t + 1,
           ht_map := (ht_map t)(fh \<mapsto> ht_fresh t),
           ht_files := ht_files t + (if is_kdir r then 0 else 1) - tally (\<lambda>r. \<not> is_kdir r) old,
           ht_dirs := ht_dirs t + (if is_kdir r then 1 else 0) - tally is_kdir old\<rparr>)"

definition insert_handle :: "u64 \<Rightarrow> u64 \<Rightarrow> key_node \<Rightarrow> path \<Rightarrow> u32 \<Rightarrow> handle_kind \<Rightarrow> opener option \<Rightarrow>
    handle_table \<Rightarrow> handle_table" where
  "insert_handle fh nodeid key p flags kind opn =
     insert_rec fh \<lparr>hr_nodeid = nodeid, hr_key = key, hr_path = p, hr_flags = flags, hr_kind = kind,
       hr_opener = opn, hr_dead = False\<rparr>"

definition remove_rec :: "u64 \<Rightarrow> handle_table \<Rightarrow> handle_table \<times> nat option" where
  "remove_rec fh t =
     (case ht_map t fh of
        None \<Rightarrow> (t, None)
      | Some a \<Rightarrow>
          (let old = rec_at t fh
           in (t\<lparr>ht_map := (ht_map t)(fh := None),
                 ht_files := ht_files t - tally (\<lambda>r. \<not> is_kdir r) old,
                 ht_dirs := ht_dirs t - tally is_kdir old\<rparr>, Some a)))"

text \<open>\<open>owe_release\<close>; None where the source is unreachable, for a request that is no release.\<close>

definition owe_release :: "request \<Rightarrow> handle_table \<Rightarrow> handle_table option" where
  "owe_release req t =
     (case (case req of
              Release fh ordered \<Rightarrow> Some (fh, Release fh True)
            | Releasedir fh ordered \<Rightarrow> Some (fh, Releasedir fh True)
            | _ \<Rightarrow> None) of
        None \<Rightarrow> None
      | Some (fh, release) \<Rightarrow>
          Some (if ht_owed t fh = None
                then t\<lparr>ht_owed := (ht_owed t)(fh \<mapsto> \<lparr>or_req = release, or_sending_on = None\<rparr>),
                       ht_owed_count := ht_owed_count t + 1\<rparr>
                else t))"

definition owed_unsent :: "handle_table \<Rightarrow> u64 list" where
  "owed_unsent t = sorted_list_of_set {fh. \<exists>o'. ht_owed t fh = Some o' \<and> or_sending_on o' = None}"

text \<open>\<open>owed_send\<close>; None where the source expects a release that is owed and there is none.\<close>

definition owed_send :: "u64 \<Rightarrow> nat \<Rightarrow> handle_table \<Rightarrow> (handle_table \<times> request) option" where
  "owed_send fh generation t = map_option
     (\<lambda>o'. (t\<lparr>ht_owed := (ht_owed t)(fh \<mapsto> o'\<lparr>or_sending_on := Some generation\<rparr>)\<rparr>, or_req o'))
     (ht_owed t fh)"

definition owed_delivered :: "u64 \<Rightarrow> nat \<Rightarrow> handle_table \<Rightarrow> handle_table" where
  "owed_delivered fh generation t =
     (case ht_owed t fh of
        Some o' \<Rightarrow>
          if or_sending_on o' = Some generation then t\<lparr>ht_owed := (ht_owed t)(fh := None)\<rparr> else t
      | None \<Rightarrow> t)"

definition owed_connection_ended :: "nat \<Rightarrow> handle_table \<Rightarrow> handle_table" where
  "owed_connection_ended generation t =
     t\<lparr>ht_owed := (\<lambda>fh. map_option
         (\<lambda>o'. if or_sending_on o' = Some generation then o'\<lparr>or_sending_on := None\<rparr> else o')
         (ht_owed t fh))\<rparr>"

definition owed_moot :: "handle_table \<Rightarrow> handle_table" where
  "owed_moot t = t\<lparr>ht_owed := Map.empty\<rparr>"

text \<open>The records of the table in the order it iterates.\<close>

definition recs :: "u64 list \<Rightarrow> handle_table \<Rightarrow> (u64 \<times> handle_rec) list" where
  "recs order t = List.map_filter (\<lambda>fh. map_option (Pair fh) (rec_at t fh)) order"

definition any_live_for :: "u64 list \<Rightarrow> u64 \<Rightarrow> handle_table \<Rightarrow> u64 option" where
  "any_live_for order nodeid t =
     map_option fst (find (\<lambda>(fh, r). hr_nodeid r = nodeid \<and> \<not> hr_dead r) (recs order t))"

definition has_writer :: "u64 list \<Rightarrow> u64 \<Rightarrow> handle_table \<Rightarrow> bool" where
  "has_writer order nodeid t =
     list_ex (\<lambda>(fh, r). hr_nodeid r = nodeid \<and> \<not> hr_dead r \<and> writes r) (recs order t)"

definition may_be_dirty :: "u64 list \<Rightarrow> u64 \<Rightarrow> handle_table \<Rightarrow> bool" where
  "may_be_dirty order nodeid t =
     list_ex (\<lambda>(fh, r). hr_nodeid r = nodeid \<and> writes r) (recs order t)"

definition open_nodeids :: "u64 list \<Rightarrow> handle_table \<Rightarrow> u64 list" where
  "open_nodeids order t = map (hr_nodeid \<circ> snd) (filter (\<lambda>(fh, r). \<not> hr_dead r) (recs order t))"

definition live :: "u64 list \<Rightarrow> handle_table \<Rightarrow> (u64 \<times> nat) list" where
  "live order t = List.map_filter
     (\<lambda>fh. case (ht_map t fh, rec_at t fh) of
             (Some a, Some r) \<Rightarrow> if hr_dead r then None else Some (fh, a)
           | _ \<Rightarrow> None) order"

definition kill_all :: "u64 list \<Rightarrow> handle_table \<Rightarrow> handle_table" where
  "kill_all order t =
     (let killed = List.map_filter (\<lambda>(fh, a). map_option (\<lambda>r. (fh, hr_kind r)) (ht_heap t a)) (live order t);
          t1 = fold (\<lambda>(fh, a). mark_dead a) (live order t) t
      in fold (\<lambda>(fh, kind) t. case owe_release (release_request kind fh) t of Some t' \<Rightarrow> t' | None \<Rightarrow> t)
           killed t1)"

definition apply_reopen :: "nat \<Rightarrow> (response, client_error) result \<Rightarrow> handle_table \<Rightarrow> handle_table" where
  "apply_reopen a outcome t =
     (case ht_heap t a of
        None \<Rightarrow> t
      | Some r \<Rightarrow>
          (case outcome of
             Inr (ROpened at) \<Rightarrow> if describes (hr_key r) at then t else mark_dead a t
           | _ \<Rightarrow> mark_dead a t))"

subsection \<open>The table's counts\<close>

text \<open>Every entry has a record, and the next address is free.\<close>

definition heap_ok :: "handle_table \<Rightarrow> bool" where
  "heap_ok t \<longleftrightarrow> finite (dom (ht_map t)) \<and>
     (\<forall>a r. ht_heap t a = Some r \<longrightarrow> a < ht_fresh t) \<and>
     (\<forall>fh a. ht_map t fh = Some a \<longrightarrow> ht_heap t a \<noteq> None)"

definition drop_rec :: "u64 \<Rightarrow> handle_table \<Rightarrow> handle_table" where
  "drop_rec fh t = fst (remove_rec fh t)"

lemma heap_ok_fresh: "heap_ok t \<Longrightarrow> ht_map t fh \<noteq> Some (ht_fresh t)"
  unfolding heap_ok_def by force

lemma drop_rec_simps:
  "rec_at (drop_rec fh t) = (rec_at t)(fh := None)"
  "ht_files (drop_rec fh t) = ht_files t - tally (\<lambda>r. \<not> is_kdir r) (rec_at t fh)"
  "ht_dirs (drop_rec fh t) = ht_dirs t - tally is_kdir (rec_at t fh)"
  "ht_map (drop_rec fh t) = (ht_map t)(fh := None)"
  "ht_heap (drop_rec fh t) = ht_heap t"
  "ht_owed (drop_rec fh t) = ht_owed t"
  by (auto simp: drop_rec_def remove_rec_def rec_at_def Let_def split: option.split)

lemma insert_rec_at: "heap_ok t \<Longrightarrow> rec_at (insert_rec fh r t) = (rec_at t)(fh \<mapsto> r)"
  using heap_ok_fresh [of t] by (auto simp: insert_rec_def rec_at_def Let_def split: Option.bind_split)

lemma insert_rec_ok: "heap_ok t \<Longrightarrow> heap_ok (insert_rec fh r t)"
  by (auto simp: heap_ok_def insert_rec_def Let_def intro: less_SucI split: if_splits)

lemma drop_rec_ok: "heap_ok t \<Longrightarrow> heap_ok (drop_rec fh t)"
  by (auto simp: heap_ok_def drop_rec_def remove_rec_def Let_def split: option.splits if_splits)

interpretation client_table:
  replacing_table heap_ok rec_at ht_files ht_dirs is_kdir insert_rec drop_rec
  by unfold_locales
    (simp_all add: insert_rec_ok drop_rec_ok insert_rec_at drop_rec_simps, simp_all add: insert_rec_def Let_def)

definition table_ok_counts :: "handle_table \<Rightarrow> bool" where
  "table_ok_counts t \<longleftrightarrow> heap_ok t \<and> counted (rec_at t) is_kdir (ht_files t) (ht_dirs t)"

lemma mark_dead_simps [simp]:
  "ht_map (mark_dead a t) = ht_map t"
  "ht_owed (mark_dead a t) = ht_owed t"
  "ht_files (mark_dead a t) = ht_files t"
  "ht_dirs (mark_dead a t) = ht_dirs t"
  "ht_next (mark_dead a t) = ht_next t"
  "ht_heap (mark_dead a t) b =
     (if b = a then map_option (\<lambda>r. r\<lparr>hr_dead := True\<rparr>) (ht_heap t a) else ht_heap t b)"
  by (auto simp: mark_dead_def split: option.split)

lemma rec_at_mark_dead:
  "rec_at (mark_dead a t) fh =
     map_option (\<lambda>r. if ht_map t fh = Some a then r\<lparr>hr_dead := True\<rparr> else r) (rec_at t fh)"
  by (cases "ht_map t fh") (auto simp: rec_at_def option.map_ident)

lemma mark_dead_ok:
  assumes "table_ok_counts t"
  shows "table_ok_counts (mark_dead a t)"
proof -
  have heap: "heap_ok (mark_dead a t)"
    using assms by (auto simp: table_ok_counts_def heap_ok_def mark_dead_def split: option.splits)
  have "keys_where (rec_at (mark_dead a t)) P = keys_where (rec_at t) P"
    if "\<And>r. P (r\<lparr>hr_dead := True\<rparr>) = P r" for P
  proof -
    have "fh \<in> keys_where (rec_at (mark_dead a t)) P \<longleftrightarrow> fh \<in> keys_where (rec_at t) P" for fh
      by (cases "rec_at t fh") (simp_all add: keys_where_def rec_at_mark_dead that)
    then show ?thesis by blast
  qed
  moreover have "dom (rec_at (mark_dead a t)) = dom (rec_at t)"
    by (auto simp: dom_def rec_at_mark_dead)
  ultimately show ?thesis
    using assms heap by (simp add: table_ok_counts_def counted_def is_kdir_def)
qed


subsection \<open>What each operation leaves\<close>

text \<open>The handles in the table that a reconnect has not killed.\<close>

definition live_ids :: "handle_table \<Rightarrow> u64 set" where
  "live_ids t = keys_where (rec_at t) (\<lambda>r. \<not> hr_dead r)"

text \<open>Entries with a record each, of their own.\<close>

definition own_recs :: "handle_table \<Rightarrow> bool" where
  "own_recs t \<longleftrightarrow> (\<forall>fh fh' a. ht_map t fh = Some a \<longrightarrow> ht_map t fh' = Some a \<longrightarrow> fh' = fh)"

definition owe :: "handle_kind \<Rightarrow> u64 \<Rightarrow> handle_table \<Rightarrow> handle_table" where
  "owe kind fh t =
     (if ht_owed t fh = None
      then t\<lparr>ht_owed := (ht_owed t)(fh \<mapsto> \<lparr>or_req = release_request kind fh, or_sending_on = None\<rparr>),
             ht_owed_count := ht_owed_count t + 1\<rparr>
      else t)"

lemma owe_release_owes [simp]: "owe_release (release_request kind fh) t = Some (owe kind fh t)"
  by (cases kind) (simp_all add: owe_release_def owe_def release_request_def)

lemma owe_simps [simp]:
  "ht_map (owe kind fh t) = ht_map t"
  "ht_heap (owe kind fh t) = ht_heap t"
  "ht_fresh (owe kind fh t) = ht_fresh t"
  "ht_next (owe kind fh t) = ht_next t"
  "ht_files (owe kind fh t) = ht_files t"
  "ht_dirs (owe kind fh t) = ht_dirs t"
  "rec_at (owe kind fh t) = rec_at t"
  "live_ids (owe kind fh t) = live_ids t"
  "dom (ht_owed (owe kind fh t)) = insert fh (dom (ht_owed t))"
  by (auto simp: owe_def rec_at_def fun_eq_iff live_ids_def)

lemma owe_sends_none:
  "ht_owed (owe kind fh' t) fh = Some o' \<Longrightarrow> ht_owed t fh = Some o' \<or> or_sending_on o' = None"
  by (auto simp: owe_def split: if_splits)

lemma dom_rec_at: "heap_ok t \<Longrightarrow> dom (rec_at t) = dom (ht_map t)"
  by (fastforce simp: heap_ok_def rec_at_def dom_def bind_eq_Some_conv)

lemma live_ids_mark_dead [simp]:
  "live_ids (mark_dead a t) = live_ids t - {fh. ht_map t fh = Some a}"
proof -
  have "fh \<in> live_ids (mark_dead a t) \<longleftrightarrow> fh \<in> live_ids t \<and> ht_map t fh \<noteq> Some a" for fh
    by (cases "rec_at t fh") (simp_all add: live_ids_def rec_at_mark_dead)
  then show ?thesis by blast
qed

lemma live_ids_iff:
  "fh \<in> live_ids t \<longleftrightarrow> (\<exists>a r. ht_map t fh = Some a \<and> ht_heap t a = Some r \<and> \<not> hr_dead r)"
  by (auto simp: live_ids_def rec_at_def split: Option.bind_splits)

lemma live_ids_drop_rec [simp]: "live_ids (drop_rec fh t) = live_ids t - {fh}"
  by (auto simp: live_ids_def drop_rec_simps split: if_splits)

lemma live_ids_insert_rec:
  "heap_ok t \<Longrightarrow> \<not> hr_dead r \<Longrightarrow> live_ids (insert_rec fh r t) = insert fh (live_ids t)"
  by (auto simp: live_ids_def insert_rec_at split: if_splits)

text \<open>The operations that leave the entries and their records as they are.\<close>

definition same_recs :: "handle_table \<Rightarrow> handle_table \<Rightarrow> bool" where
  "same_recs t t' \<longleftrightarrow> ht_map t' = ht_map t \<and> ht_heap t' = ht_heap t \<and> ht_fresh t' = ht_fresh t \<and>
     ht_files t' = ht_files t \<and> ht_dirs t' = ht_dirs t"

lemma same_recs_at: "same_recs t t' \<Longrightarrow> rec_at t' = rec_at t"
  by (rule ext) (simp add: same_recs_def rec_at_def)

lemma same_recs_live: "same_recs t t' \<Longrightarrow> live_ids t' = live_ids t"
  by (simp add: same_recs_at live_ids_def)

lemma same_recs_ok: "same_recs t t' \<Longrightarrow> table_ok_counts t \<Longrightarrow> table_ok_counts t'"
  using same_recs_at [of t t'] by (simp add: table_ok_counts_def heap_ok_def same_recs_def)

lemma same_recs_ops:
  "same_recs t (owe kind fh t)"
  "same_recs t (fst (alloc t))"
  "owed_send fh g t = Some (t', req) \<Longrightarrow> same_recs t t'"
  "same_recs t (owed_delivered fh g t)"
  "same_recs t (owed_connection_ended g t)"
  "same_recs t (owed_moot t)"
  by (auto simp: same_recs_def alloc_def owed_send_def owed_delivered_def owed_connection_ended_def
      owed_moot_def split: option.split)

lemma owed_dom_simps [simp]:
  "dom (ht_owed (owed_delivered fh g t)) \<supseteq> dom (ht_owed t) - {fh}"
  "dom (ht_owed (owed_connection_ended g t)) = dom (ht_owed t)"
  "ht_owed (owed_moot t) = Map.empty"
  "ht_owed (fst (alloc t)) = ht_owed t"
  by (auto simp: owed_delivered_def owed_connection_ended_def owed_moot_def alloc_def
      split: option.splits if_splits)

lemma owed_next_simps [simp]:
  "ht_next (owed_delivered fh g t) = ht_next t"
  "ht_next (owed_connection_ended g t) = ht_next t"
  "ht_next (owed_moot t) = ht_next t"
  by (auto simp: owed_delivered_def owed_connection_ended_def owed_moot_def split: option.split)

lemma mark_dead_heap [simp]:
  "ht_fresh (mark_dead a t) = ht_fresh t" "dom (ht_heap (mark_dead a t)) = dom (ht_heap t)"
  by (auto simp: mark_dead_def split: option.split)

lemma fold_mark_dead:
  fixes xs :: "(u64 \<times> nat) list"
  defines "killed \<equiv> fold (\<lambda>(fh, a). mark_dead a) xs"
  shows "ht_map (killed t) = ht_map t" "ht_owed (killed t) = ht_owed t" "ht_next (killed t) = ht_next t"
    "ht_fresh (killed t) = ht_fresh t"
    "live_ids (killed t) = live_ids t - {fh. ht_map t fh \<in> Some ` snd ` set xs}"
    "dom (ht_heap (killed t)) = dom (ht_heap t)"
    "table_ok_counts t \<Longrightarrow> table_ok_counts (killed t)"
proof -
  show "live_ids (killed t) = live_ids t - {fh. ht_map t fh \<in> Some ` snd ` set xs}"
    unfolding killed_def
  proof (induction xs arbitrary: t)
    case (Cons x xs)
    then show ?case by (cases x) auto
  qed simp
qed (unfold killed_def, (induction xs arbitrary: t; simp add: mark_dead_ok split_beta)+)

lemma fold_owe:
  fixes xs :: "(u64 \<times> handle_kind) list"
  defines "owes \<equiv> fold (\<lambda>(fh, kind) t. case owe_release (release_request kind fh) t of Some t' \<Rightarrow> t' | None \<Rightarrow> t) xs"
  shows "same_recs t (owes t)" "ht_next (owes t) = ht_next t"
    "dom (ht_owed (owes t)) = fst ` set xs \<union> dom (ht_owed t)"
    "ht_owed (owes t) fh = Some o' \<Longrightarrow> ht_owed t fh = Some o' \<or> or_sending_on o' = None"
proof -
  show "same_recs t (owes t)" "ht_next (owes t) = ht_next t"
    "dom (ht_owed (owes t)) = fst ` set xs \<union> dom (ht_owed t)"
    unfolding owes_def by (induction xs arbitrary: t) (simp_all add: same_recs_def split_beta)
  show "ht_owed (owes t) fh = Some o' \<Longrightarrow> ht_owed t fh = Some o' \<or> or_sending_on o' = None"
    unfolding owes_def
  proof (induction xs arbitrary: t)
    case (Cons x xs)
    from Cons.IH Cons.prems have "ht_owed (owe (snd x) (fst x) t) fh = Some o' \<or> or_sending_on o' = None"
      by (simp add: split_beta)
    then show ?case by (auto dest: owe_sends_none)
  qed simp
qed

lemma set_live: "set (live order t) =
    {(fh, a). fh \<in> set order \<and> ht_map t fh = Some a \<and> fh \<in> live_ids t}"
proof -
  have "(case (ht_map t fh, rec_at t fh) of
           (Some a, Some r) \<Rightarrow> if hr_dead r then None else Some (fh, a) | _ \<Rightarrow> None) = Some x \<longleftrightarrow>
         (\<exists>a. x = (fh, a) \<and> ht_map t fh = Some a \<and> fh \<in> live_ids t)" for fh x
    by (auto simp: live_ids_def split: option.split)
  then show ?thesis
    by (auto simp: live_def set_map_filter)
qed

text \<open>Killing every handle owes the release of each that was alive.\<close>

lemma kill_all_effect:
  fixes t :: handle_table
  assumes order: "set order = dom (ht_map t)" and ok: "table_ok_counts t"
  defines "t' \<equiv> kill_all order t"
  shows "ht_map t' = ht_map t" "ht_next t' = ht_next t" "ht_fresh t' = ht_fresh t" "live_ids t' = {}"
    "dom (ht_heap t') = dom (ht_heap t)" "dom (ht_owed t') = live_ids t \<union> dom (ht_owed t)"
    "ht_owed t' fh = Some o' \<Longrightarrow> ht_owed t fh = Some o' \<or> or_sending_on o' = None"
    "table_ok_counts t'"
proof -
  define t1 where "t1 = fold (\<lambda>(fh, a). mark_dead a) (live order t) t"
  define killed where "killed = List.map_filter (\<lambda>(fh, a). map_option (\<lambda>r. (fh, hr_kind r)) (ht_heap t a)) (live order t)"
  have t': "t' = fold (\<lambda>(fh, kind) t. case owe_release (release_request kind fh) t of Some t' \<Rightarrow> t' | None \<Rightarrow> t) killed t1"
    by (simp add: t'_def kill_all_def t1_def killed_def)
  note t1 = fold_mark_dead [where xs = "live order t" and t = t, folded t1_def]
  note t2 = fold_owe [where xs = killed and t = t1, folded t']
  have all: "live_ids t1 = {}"
    unfolding t1(5) set_live order by (force simp: live_ids_iff)
  have "fst ` set killed = live_ids t"
    unfolding killed_def using order
    by (fastforce simp: set_map_filter set_live live_ids_iff image_iff split_beta)
  then show "dom (ht_owed t') = live_ids t \<union> dom (ht_owed t)"
    using t1(2) t2(3) by simp
  show "ht_map t' = ht_map t" "ht_next t' = ht_next t" "ht_fresh t' = ht_fresh t"
    "dom (ht_heap t') = dom (ht_heap t)"
    using t1(1,3,4,6) t2(1,2) by (simp_all add: same_recs_def)
  show "live_ids t' = {}" using same_recs_live [OF t2(1)] all by simp
  show "ht_owed t' fh = Some o' \<Longrightarrow> ht_owed t fh = Some o' \<or> or_sending_on o' = None"
    using t2(4) [of fh o'] t1(2) by simp
  show "table_ok_counts t'" using same_recs_ok [OF t2(1)] t1(7) ok by simp
qed

lemma apply_reopen_simps [simp]:
  "ht_map (apply_reopen a outcome t) = ht_map t"
  "ht_next (apply_reopen a outcome t) = ht_next t"
  "ht_fresh (apply_reopen a outcome t) = ht_fresh t"
  "ht_owed (apply_reopen a outcome t) = ht_owed t"
  "ht_files (apply_reopen a outcome t) = ht_files t"
  "dom (ht_heap (apply_reopen a outcome t)) = dom (ht_heap t)"
  by (auto simp: apply_reopen_def dom_def split: option.split sum.split response.split)

lemma apply_reopen_ok: "table_ok_counts t \<Longrightarrow> table_ok_counts (apply_reopen a outcome t)"
  by (simp add: apply_reopen_def mark_dead_ok split: option.split sum.split response.split)

lemma apply_reopen_live:
  "live_ids t - {fh. ht_map t fh = Some a} \<subseteq> live_ids (apply_reopen a outcome t)"
  "live_ids (apply_reopen a outcome t) \<subseteq> live_ids t"
  by (auto simp: apply_reopen_def split: option.split sum.split response.split)

end
