(* ===== verification/Machine.thy ===== *)
theory Machine
  imports ClientHandles
begin

text \<open>
  The client's half of the session protocol (\<open>crates/client/src/machine.rs\<close>): what a connection
  carries, a call's sends, give-up and resend, what the end of an open or a release leaves owed, and
  a new session's reopens.  Where the source is unreachable or expects what is not there, the
  function is None.  Generations and the count of pending cancels are natural numbers.
\<close>

subsection \<open>Connections\<close>

record attached_state =
  at_generation :: nat
  at_cancels :: nat
  at_published :: bool

definition attached_new :: "nat \<Rightarrow> attached_state" where
  "attached_new generation = \<lparr>at_generation = generation, at_cancels = 0, at_published = False\<rparr>"

definition publish :: "attached_state \<Rightarrow> attached_state" where
  "publish a = a\<lparr>at_published := True\<rparr>"

text \<open>\<open>CancelPending::count\<close>, and its \<open>Drop\<close>; None where the count would go below zero.\<close>

definition cancel_count :: "attached_state \<Rightarrow> attached_state" where
  "cancel_count a = a\<lparr>at_cancels := at_cancels a + 1\<rparr>"

definition cancel_drop :: "attached_state \<Rightarrow> attached_state option" where
  "cancel_drop a =
     (if at_cancels a = 0 then None else Some (a\<lparr>at_cancels := at_cancels a - 1\<rparr>))"

subsection \<open>Calls\<close>

datatype end_call = Replied | Errno | CallGaveUp | Failed

datatype status_call = Waiting | InFlight nat | Ended end_call

datatype sendable = No | AfterCancels | SendNow

datatype loss_exchange = LossNotSent | LossLost

record call_state =
  cs_changes :: bool
  cs_resendable :: bool
  cs_lost_once :: bool
  cs_min_generation :: nat
  cs_attempt :: nat
  cs_status :: status_call

definition call_new :: "bool \<Rightarrow> bool \<Rightarrow> call_state" where
  "call_new chg resendable = \<lparr>cs_changes = chg, cs_resendable = resendable, cs_lost_once = False,
     cs_min_generation = 0, cs_attempt = 0, cs_status = Waiting\<rparr>"

definition takes :: "call_state \<Rightarrow> attached_state \<Rightarrow> bool" where
  "takes c a \<longleftrightarrow> cs_status c = Waiting \<and> at_published a \<and> at_generation a \<ge> cs_min_generation c"

definition sendable_on :: "call_state \<Rightarrow> attached_state \<Rightarrow> nat \<Rightarrow> sendable" where
  "sendable_on c a pending =
     (if \<not> takes c a then No
      else if cs_changes c \<and> pending \<noteq> 0 then AfterCancels
      else SendNow)"

definition sent :: "nat \<Rightarrow> call_state \<Rightarrow> call_state" where
  "sent generation c = c\<lparr>cs_attempt := cs_attempt c + 1, cs_status := InFlight generation\<rparr>"

definition answered :: "bool \<Rightarrow> call_state \<Rightarrow> call_state" where
  "answered errno c = c\<lparr>cs_status := Ended (if errno then Errno else Replied)\<rparr>"

definition lost :: "loss_exchange \<Rightarrow> call_state \<Rightarrow> (call_state \<times> (unit, client_error) result) option" where
  "lost loss c =
     (case cs_status c of
        InFlight generation \<Rightarrow>
          (let again = (\<lambda>c. c\<lparr>cs_min_generation := generation + 1, cs_status := Waiting\<rparr>)
           in case loss of
                LossNotSent \<Rightarrow> Some (again c, Ok ())
              | LossLost \<Rightarrow>
                  if cs_resendable c \<and> \<not> cs_lost_once c
                  then Some (again (c\<lparr>cs_lost_once := True\<rparr>), Ok ())
                  else Some (c\<lparr>cs_status := Ended Failed\<rparr>, Err Disconnected))
      | _ \<Rightarrow> None)"

definition counts_give_up :: "bool \<Rightarrow> bool \<Rightarrow> bool \<Rightarrow> bool" where
  "counts_give_up in_flight written chg \<longleftrightarrow> in_flight \<and> written \<and> chg"

definition gave_up :: "bool \<Rightarrow> call_state \<Rightarrow> call_state \<times> bool" where
  "gave_up written c =
     (c\<lparr>cs_status := Ended CallGaveUp\<rparr>,
      counts_give_up (case cs_status c of InFlight _ \<Rightarrow> True | _ \<Rightarrow> False) written (cs_changes c))"

definition call_failed :: "call_state \<Rightarrow> call_state" where
  "call_failed c = c\<lparr>cs_status := Ended Failed\<rparr>"

subsection \<open>What an open or a release leaves owed\<close>

datatype settle_open = Keep | Owe | Nothing

definition open_settled :: "(response, client_error) result \<Rightarrow> settle_open" where
  "open_settled result =
     (case result of
        Inr (ROpened _) \<Rightarrow> Keep
      | Inr _ \<Rightarrow> Owe
      | Inl Timeout \<Rightarrow> Owe
      | Inl Interrupted \<Rightarrow> Owe
      | Inl Disconnected \<Rightarrow> Owe
      | Inl (Protocol _) \<Rightarrow> Owe
      | Inl _ \<Rightarrow> Nothing)"

definition release_owed :: "(response, client_error) result \<Rightarrow> bool" where
  "release_owed result = (case result of Inl Timeout \<Rightarrow> True | Inl Disconnected \<Rightarrow> True | _ \<Rightarrow> False)"

definition owed_sendable :: "handle_table \<Rightarrow> attached_state \<Rightarrow> nat \<Rightarrow> u64 list" where
  "owed_sendable t a pending = (if at_published a \<and> pending = 0 then owed_unsent t else [])"

definition release_begins :: "u64 \<Rightarrow> handle_table \<Rightarrow> handle_table \<times> bool" where
  "release_begins fh t =
     (let (t', a) = remove_rec fh t
      in (t', \<not> (case Option.bind a (ht_heap t') of Some r \<Rightarrow> hr_dead r | None \<Rightarrow> False)))"

subsection \<open>Reopens\<close>

record reopen_round =
  rr_unsent :: "u64 \<rightharpoonup> nat"
  rr_sending :: "u64 \<rightharpoonup> nat"
  rr_reopened :: "u64 set"

definition round_new :: "u64 list \<Rightarrow> handle_table \<Rightarrow> reopen_round" where
  "round_new order t = \<lparr>rr_unsent = map_of (live order t), rr_sending = Map.empty, rr_reopened = {}\<rparr>"

definition round_unsent :: "reopen_round \<Rightarrow> u64 list" where
  "round_unsent r = sorted_list_of_set (dom (rr_unsent r))"

definition round_send :: "u64 \<Rightarrow> handle_table \<Rightarrow> reopen_round \<Rightarrow> (reopen_round \<times> request) option" where
  "round_send fh t r =
     (case rr_unsent r fh of
        None \<Rightarrow> None
      | Some a \<Rightarrow> map_option
          (\<lambda>hr. (r\<lparr>rr_unsent := (rr_unsent r)(fh := None), rr_sending := (rr_sending r)(fh \<mapsto> a)\<rparr>,
                 reopen_request fh hr))
          (ht_heap t a))"

definition round_ended :: "u64 \<Rightarrow> (response, client_error) result \<Rightarrow> handle_table \<Rightarrow> reopen_round \<Rightarrow>
    (handle_table \<times> reopen_round) option" where
  "round_ended fh outcome t r =
     (case (case rr_sending r fh of
              Some a \<Rightarrow> Some (a, r\<lparr>rr_sending := (rr_sending r)(fh := None)\<rparr>)
            | None \<Rightarrow> map_option (\<lambda>a. (a, r\<lparr>rr_unsent := (rr_unsent r)(fh := None)\<rparr>)) (rr_unsent r fh)) of
        None \<Rightarrow> None
      | Some (a, r') \<Rightarrow>
          (let t' = apply_reopen a outcome t
           in case ht_heap t' a of
                None \<Rightarrow> None
              | Some hr \<Rightarrow>
                  if hr_dead hr \<or> ht_map t' fh = None
                  then map_option (\<lambda>t''. (t'', r')) (owe_release (release_request (hr_kind hr) fh) t')
                  else Some (t', r'\<lparr>rr_reopened := insert fh (rr_reopened r')\<rparr>)))"

definition publishable :: "reopen_round \<Rightarrow> bool" where
  "publishable r \<longleftrightarrow> rr_unsent r = Map.empty \<and> rr_sending r = Map.empty"

end
