(* ===== verification/Owners.thy ===== *)
theory Owners
  imports Errno Messages
begin

text \<open>
  Owners as both ends map them (\<open>crates/proto/src/owners.rs\<close>): the uids and gids of attributes,
  and the ones inside a POSIX ACL in the kernel's extended attribute form.  The locale
  \<open>owner_policy\<close> is the contract both ends' maps keep: an owner that crosses becomes this end's own
  or nobody.
\<close>

subsection \<open>ACLs\<close>

definition NOBODY :: u32 where
  "NOBODY = 65534"

datatype kind_owner = User | Group

definition POSIX_ACL_NAMES :: "u8 list list" where
  "POSIX_ACL_NAMES = [bytes ''system.posix_acl_access'', bytes ''system.posix_acl_default'']"

definition ACL_VERSION :: u32 where
  "ACL_VERSION = 2"

definition ACL_ENTRY :: nat where
  "ACL_ENTRY = 8"

definition ACL_USER :: u16 where
  "ACL_USER = 2"

definition ACL_GROUP :: u16 where
  "ACL_GROUP = 8"

definition is_posix_acl :: "u8 list \<Rightarrow> bool" where
  "is_posix_acl name \<longleftrightarrow> name \<in> set POSIX_ACL_NAMES"

text \<open>\<open>as_chunks\<close>: the whole chunks, and what is left over.\<close>

function as_chunks :: "nat \<Rightarrow> 'a list \<Rightarrow> 'a list list \<times> 'a list" where
  "as_chunks n xs =
     (if n = 0 \<or> length xs < n then ([], xs)
      else (let (cs, ragged) = as_chunks n (drop n xs) in (take n xs # cs, ragged)))"
  by auto
termination
  by (relation "measure (\<lambda>(n, xs). length xs)") auto

declare as_chunks.simps [simp del]

definition acl_entries_raw :: "u8 list \<Rightarrow> u8 list list option" where
  "acl_entries_raw value =
     (if length value < 4 then None
      else (let (entries, ragged) = as_chunks ACL_ENTRY (drop 4 value) in
        if u32_from_le (take 4 value) = ACL_VERSION \<and> ragged = [] then Some entries else None))"

definition owner_of :: "u8 list \<Rightarrow> (kind_owner \<times> u32) option" where
  "owner_of entry =
     (let tag = u16_from_le [entry ! 0, entry ! 1];
          oid = u32_from_le [entry ! 4, entry ! 5, entry ! 6, entry ! 7]
      in if tag = ACL_USER then Some (User, oid)
         else if tag = ACL_GROUP then Some (Group, oid)
         else None)"

definition acl_owners :: "u8 list \<Rightarrow> (kind_owner \<times> u32) list option" where
  "acl_owners value = map_option (List.map_filter owner_of) (acl_entries_raw value)"

text \<open>The body of \<open>acl_map\<close>'s loop over the entries.\<close>

definition acl_map_entry :: "(kind_owner \<Rightarrow> u32 \<Rightarrow> u32) \<Rightarrow> u8 list \<Rightarrow> u8 list" where
  "acl_map_entry m entry =
     (case owner_of entry of
        Some (kind, oid) \<Rightarrow> take 4 entry @ u32_to_le (m kind oid)
      | None \<Rightarrow> entry)"

definition acl_map :: "(kind_owner \<Rightarrow> u32 \<Rightarrow> u32) \<Rightarrow> u8 list \<Rightarrow> bool \<times> u8 list" where
  "acl_map m value =
     (if acl_entries_raw value = None then (False, value)
      else (let (entries, ragged) = as_chunks ACL_ENTRY (drop 4 value) in
        (True, take 4 value @ concat (map (acl_map_entry m) entries) @ ragged)))"

subsection \<open>Replies\<close>

definition map_attr :: "(kind_owner \<Rightarrow> u32 \<Rightarrow> u32) \<Rightarrow> attr \<Rightarrow> attr" where
  "map_attr m a = a\<lparr>attr_uid := m User (attr_uid a), attr_gid := m Group (attr_gid a)\<rparr>"

fun map_reply :: "bool \<Rightarrow> (kind_owner \<Rightarrow> u32 \<Rightarrow> u32) \<Rightarrow> response \<Rightarrow> response" where
  "map_reply posix_acl_read m (REntry a) = REntry (map_attr m a)"
| "map_reply posix_acl_read m (RAttr a) = RAttr (map_attr m a)"
| "map_reply posix_acl_read m (ROpened a) = ROpened (map_attr m a)"
| "map_reply posix_acl_read m (RReaddir entries eof) =
     RReaddir (map (\<lambda>e. e\<lparr>entry_attr := map_option (map_attr m) (entry_attr e)\<rparr>) entries) eof"
| "map_reply posix_acl_read m (RXattr value) =
     RXattr (if posix_acl_read then snd (acl_map m value) else value)"
| "map_reply posix_acl_read m (RErr e) = RErr e"
| "map_reply posix_acl_read m (RReadlink target) = RReadlink target"
| "map_reply posix_acl_read m ROk = ROk"
| "map_reply posix_acl_read m (RRead data) = RRead data"
| "map_reply posix_acl_read m (RWritten n) = RWritten n"
| "map_reply posix_acl_read m (RCopied n) = RCopied n"
| "map_reply posix_acl_read m (RSeeked n) = RSeeked n"
| "map_reply posix_acl_read m (RStatfs st) = RStatfs st"

definition reads_posix_acl :: "request \<Rightarrow> bool" where
  "reads_posix_acl req = (case req of Getxattr path name \<Rightarrow> is_posix_acl name | _ \<Rightarrow> False)"

subsection \<open>The owners a reply shows\<close>

text \<open>Every owner in an attribute, a listing, or an ACL that is read as one.\<close>

definition attr_owners :: "attr \<Rightarrow> (kind_owner \<times> u32) list" where
  "attr_owners a = [(User, attr_uid a), (Group, attr_gid a)]"

fun reply_owners :: "bool \<Rightarrow> response \<Rightarrow> (kind_owner \<times> u32) list" where
  "reply_owners acl (REntry a) = attr_owners a"
| "reply_owners acl (RAttr a) = attr_owners a"
| "reply_owners acl (ROpened a) = attr_owners a"
| "reply_owners acl (RReaddir entries eof) =
     concat (map (\<lambda>e. case entry_attr e of Some a \<Rightarrow> attr_owners a | None \<Rightarrow> []) entries)"
| "reply_owners acl (RXattr value) =
     (if acl then (case acl_owners value of Some os \<Rightarrow> os | None \<Rightarrow> []) else [])"
| "reply_owners acl _ = []"

abbreviation map_owner :: "(kind_owner \<Rightarrow> u32 \<Rightarrow> u32) \<Rightarrow> kind_owner \<times> u32 \<Rightarrow> kind_owner \<times> u32" where
  "map_owner m \<equiv> \<lambda>(k, oid). (k, m k oid)"

subsection \<open>Chunks\<close>

lemma as_chunks_short: "length xs < n \<Longrightarrow> as_chunks n xs = ([], xs)"
  by (simp add: as_chunks.simps)

lemma as_chunks_step:
  "0 < n \<Longrightarrow> n \<le> length xs \<Longrightarrow>
     as_chunks n xs = (take n xs # fst (as_chunks n (drop n xs)), snd (as_chunks n (drop n xs)))"
  by (subst as_chunks.simps) (simp add: split_beta)

lemma as_chunks_append:
  "length c = n \<Longrightarrow> 0 < n \<Longrightarrow>
     as_chunks n (c @ xs) = (c # fst (as_chunks n xs), snd (as_chunks n xs))"
  by (subst as_chunks.simps) (simp add: split_beta)

lemma as_chunks_concat:
  "0 < n \<Longrightarrow> list_all (\<lambda>c. length c = n) cs \<Longrightarrow> as_chunks n (concat cs) = (cs, [])"
  by (induction cs) (simp_all add: as_chunks_short as_chunks_append)

lemma as_chunks_split:
  "as_chunks n xs = (cs, ragged) \<Longrightarrow> list_all (\<lambda>c. length c = n) cs \<and> xs = concat cs @ ragged"
proof (induction n xs arbitrary: cs rule: as_chunks.induct)
  case (1 n xs)
  show ?case
  proof (cases "n = 0 \<or> length xs < n")
    case True
    with 1(2) show ?thesis
      by (auto simp: as_chunks.simps [of n xs])
  next
    case False
    with 1(2) obtain ds where
      ds: "as_chunks n (drop n xs) = (ds, ragged)" and cs: "cs = take n xs # ds"
      by (auto simp: as_chunks.simps [of n xs] Let_def split: prod.splits)
    from 1(1) [OF False ds] False cs show ?thesis
      by simp (metis append_take_drop_id append_assoc)
  qed
qed

subsection \<open>ACLs under a map\<close>

lemma acl_entries_raw_Some:
  "acl_entries_raw value = Some es \<longleftrightarrow>
     (\<exists>version. length version = 4 \<and> u32_from_le version = ACL_VERSION \<and>
        list_all (\<lambda>e. length e = 8) es \<and> value = version @ concat es)"
  (is "?l = ?r")
proof
  assume ?l
  then show ?r
    using as_chunks_split [of 8 "drop 4 value" es "[]"]
    by (intro exI [of _ "take 4 value"])
      (auto simp: acl_entries_raw_def ACL_ENTRY_def Let_def split: if_splits prod.splits
        intro: append_take_drop_id [symmetric], metis append_take_drop_id)
next
  assume ?r
  then show ?l
    by (auto simp: acl_entries_raw_def ACL_ENTRY_def as_chunks_concat)
qed

lemma acl_map_entry_length:
  "length e = 8 \<Longrightarrow> length (acl_map_entry m e) = 8"
  by (auto simp: acl_map_entry_def split: option.splits)

lemma nth_four: "length xs = 4 \<Longrightarrow> [xs ! 0, xs ! Suc 0, xs ! 2, xs ! 3] = xs"
  by (cases xs; cases "tl xs"; cases "tl (tl xs)"; cases "tl (tl (tl xs))") auto

lemma owner_of_append:
  "length a = 4 \<Longrightarrow> length b = 4 \<Longrightarrow>
     owner_of (a @ b) =
       (let tag = u16_from_le [a ! 0, a ! 1]
        in if tag = ACL_USER then Some (User, u32_from_le b)
           else if tag = ACL_GROUP then Some (Group, u32_from_le b) else None)"
  by (simp add: owner_of_def nth_append nth_four Let_def)

lemma owner_of_map_entry:
  assumes "length e = 8"
  shows "owner_of (acl_map_entry m e) = map_option (map_owner m) (owner_of e)"
proof -
  have e: "e = take 4 e @ drop 4 e" and len: "length (take 4 e) = 4" "length (drop 4 e) = 4"
    using assms by auto
  have "owner_of (acl_map_entry m (a @ b)) = map_option (map_owner m) (owner_of (a @ b))"
    if "length a = 4" "length b = 4" for a b
    using that by (auto simp: acl_map_entry_def owner_of_append u32_from_to_le Let_def)
  from this [OF len] e show ?thesis
    by simp
qed

lemma acl_map_entry_same:
  assumes "length e = 8" and "\<And>k i. owner_of e = Some (k, i) \<Longrightarrow> m k i = i"
  shows "acl_map_entry m e = e"
proof (cases "owner_of e")
  case (Some o')
  obtain k i where o': "o' = (k, i)"
    by (cases o')
  have e: "e = take 4 e @ drop 4 e" and len: "length (take 4 e) = 4" "length (drop 4 e) = 4"
    using assms by auto
  have "i = u32_from_le (drop 4 e)"
    using Some owner_of_append [OF len] e by (auto simp: o' Let_def split: if_splits)
  then have "u32_to_le i = drop 4 e"
    using len by (simp add: u32_to_from_le)
  with Some o' assms(2) [of k i] e show ?thesis
    by (simp add: acl_map_entry_def)
qed (simp add: acl_map_entry_def)

lemma acl_map_entry_map:
  assumes "length e = 8"
  shows "acl_map_entry f (acl_map_entry g e) = acl_map_entry (\<lambda>k i. f k (g k i)) e"
  using owner_of_map_entry [OF assms, of g] assms
  by (auto simp: acl_map_entry_def split: option.splits)

lemma acl_map_Some:
  assumes "length version = 4" "u32_from_le version = ACL_VERSION" "list_all (\<lambda>e. length e = 8) es"
  shows "acl_map m (version @ concat es) = (True, version @ concat (map (acl_map_entry m) es))"
proof -
  have "acl_entries_raw (version @ concat es) = Some es"
    using assms by (auto simp: acl_entries_raw_Some)
  then show ?thesis
    using assms by (simp add: acl_map_def ACL_ENTRY_def as_chunks_concat)
qed

lemma acl_map_None: "acl_entries_raw value = None \<Longrightarrow> acl_map m value = (False, value)"
  by (simp add: acl_map_def)

lemma acl_entries_raw_map:
  "acl_entries_raw (snd (acl_map m value)) =
     map_option (map (acl_map_entry m)) (acl_entries_raw value)"
proof (cases "acl_entries_raw value")
  case (Some es)
  then obtain version where v: "length version = 4" "u32_from_le version = ACL_VERSION"
    "list_all (\<lambda>e. length e = 8) es" "value = version @ concat es"
    by (auto simp: acl_entries_raw_Some)
  then have "acl_entries_raw (version @ concat (map (acl_map_entry m) es)) =
      Some (map (acl_map_entry m) es)"
    unfolding acl_entries_raw_Some by (auto simp: list_all_iff acl_map_entry_length)
  with Some v show ?thesis
    by (simp add: acl_map_Some)
qed (simp add: acl_map_None)

lemma acl_entry_length: "acl_entries_raw value = Some es \<Longrightarrow> e \<in> set es \<Longrightarrow> length e = 8"
  by (auto simp: acl_entries_raw_Some list_all_iff)

lemma map_filter_map_entry:
  "\<forall>e \<in> set es. length e = 8 \<Longrightarrow>
     List.map_filter owner_of (map (acl_map_entry m) es) = map (map_owner m) (List.map_filter owner_of es)"
  by (induction es) (auto simp: List.map_filter_simps owner_of_map_entry split: option.splits)

lemma acl_owners_map:
  "acl_owners (snd (acl_map m value)) = map_option (map (map_owner m)) (acl_owners value)"
  using acl_entry_length [of "value"]
  by (cases "acl_entries_raw value")
    (simp_all add: acl_owners_def acl_entries_raw_map map_filter_map_entry)

lemma acl_map_map:
  "snd (acl_map f (snd (acl_map g value))) = snd (acl_map (\<lambda>k i. f k (g k i)) value)"
proof (cases "acl_entries_raw value")
  case (Some es)
  then obtain version where v: "length version = 4" "u32_from_le version = ACL_VERSION"
    "list_all (\<lambda>e. length e = 8) es" "value = version @ concat es"
    by (auto simp: acl_entries_raw_Some)
  then have es': "list_all (\<lambda>e. length e = 8) (map (acl_map_entry g) es)"
    by (simp add: list_all_iff acl_map_entry_length)
  have "map (\<lambda>e. acl_map_entry f (acl_map_entry g e)) es = map (acl_map_entry (\<lambda>k i. f k (g k i))) es"
    using v(3) by (intro map_cong refl acl_map_entry_map) (simp add: list_all_iff)
  then have "concat (map (acl_map_entry f) (map (acl_map_entry g) es)) =
      concat (map (acl_map_entry (\<lambda>k i. f k (g k i))) es)"
    by (simp only: map_map comp_def)
  then show ?thesis
    unfolding v(4) acl_map_Some [OF v(1,2,3)] snd_conv acl_map_Some [OF v(1,2) es'] by simp
qed (simp add: acl_map_None)

subsection \<open>Replies under a map\<close>

lemma attr_owners_map: "attr_owners (map_attr m a) = map (map_owner m) (attr_owners a)"
  by (simp add: attr_owners_def map_attr_def)

lemma reply_owners_map:
  "reply_owners acl (map_reply acl m resp) = map (map_owner m) (reply_owners acl resp)"
  by (cases resp)
    (auto simp: attr_owners_map acl_owners_map map_concat comp_def
      intro!: arg_cong [of _ _ concat] split: option.splits)

lemma map_attr_map: "map_attr f (map_attr g a) = map_attr (\<lambda>k i. f k (g k i)) a"
  by (simp add: map_attr_def)

lemma map_reply_map:
  "map_reply acl f (map_reply acl g resp) = map_reply acl (\<lambda>k i. f k (g k i)) resp"
  by (cases resp) (auto simp: map_attr_map acl_map_map option.map_comp comp_def)

lemma acl_map_agree:
  assumes "\<And>k i os. acl_owners value = Some os \<Longrightarrow> (k, i) \<in> set os \<Longrightarrow> f k i = g k i"
  shows "snd (acl_map f value) = snd (acl_map g value)"
proof (cases "acl_entries_raw value")
  case (Some es)
  then obtain version where v: "length version = 4" "u32_from_le version = ACL_VERSION"
    "list_all (\<lambda>e. length e = 8) es" "value = version @ concat es"
    by (auto simp: acl_entries_raw_Some)
  have "acl_map_entry f e = acl_map_entry g e" if "e \<in> set es" for e
  proof (cases "owner_of e")
    case owner: (Some o')
    obtain k i where o': "o' = (k, i)"
      by (cases o')
    from owner that have "(k, i) \<in> set (List.map_filter owner_of es)"
      by (force simp: List.map_filter_def o')
    with Some have "f k i = g k i"
      by (intro assms [of "List.map_filter owner_of es"]) (simp_all add: acl_owners_def)
    with owner o' show ?thesis
      by (simp add: acl_map_entry_def)
  qed (simp add: acl_map_entry_def)
  then have "concat (map (acl_map_entry f) es) = concat (map (acl_map_entry g) es)"
    by (intro arg_cong [of _ _ concat] map_cong refl)
  with v show ?thesis
    by (simp add: acl_map_Some del: map_eq_conv)
qed (simp add: acl_map_None)

lemma map_reply_agree:
  assumes agree: "\<And>k i. (k, i) \<in> set (reply_owners acl resp) \<Longrightarrow> f k i = g k i"
  shows "map_reply acl f resp = map_reply acl g resp"
proof (cases resp)
  case (RReaddir entries eof)
  have "map_option (map_attr f) (entry_attr e) = map_option (map_attr g) (entry_attr e)"
    if "e \<in> set entries" for e
  proof (cases "entry_attr e")
    case (Some a)
    have "(k, i) \<in> set (reply_owners acl resp)" if "(k, i) \<in> set (attr_owners a)" for k i
      using that Some \<open>e \<in> set entries\<close> by (auto simp: RReaddir intro!: bexI [of _ e])
    with agree Some show ?thesis
      by (simp add: map_attr_def attr_owners_def)
  qed simp
  with RReaddir show ?thesis
    by simp
next
  case (RXattr val)
  have "acl \<Longrightarrow> snd (acl_map f val) = snd (acl_map g val)"
    using agree by (intro acl_map_agree) (simp add: RXattr)
  with RXattr show ?thesis
    by simp
qed (insert agree, auto simp: map_attr_def attr_owners_def)

lemma map_attr_id: "map_attr (\<lambda>k i. i) = (\<lambda>a. a)"
  by (rule ext) (simp add: map_attr_def)

lemma acl_map_id: "snd (acl_map (\<lambda>k i. i) val) = val"
proof (cases "acl_entries_raw val")
  case (Some es)
  then obtain version where v: "length version = 4" "u32_from_le version = ACL_VERSION"
    "list_all (\<lambda>e. length e = 8) es" "val = version @ concat es"
    by (auto simp: acl_entries_raw_Some)
  then have "map (acl_map_entry (\<lambda>k i. i)) es = es"
    by (intro map_idI acl_map_entry_same) (auto simp: list_all_iff)
  with v show ?thesis
    by (simp add: acl_map_Some)
qed (simp add: acl_map_None)

lemma map_reply_id: "map_reply acl (\<lambda>k i. i) resp = resp"
  by (cases resp) (simp_all add: map_attr_id acl_map_id map_idI option.map_ident)

subsection \<open>The contract of an owner map\<close>

text \<open>
  What either end promises of the owners it lets through: each becomes this end's own id of its
  kind, or nobody.
\<close>

locale owner_policy =
  fixes crosses :: "kind_owner \<Rightarrow> u32 \<Rightarrow> u32"
    and own :: "kind_owner \<Rightarrow> u32"
  assumes crosses_own: "crosses k i = own k \<or> crosses k i = NOBODY"
begin

lemma reply_only_own:
  "(k, i) \<in> set (reply_owners acl (map_reply acl crosses resp)) \<Longrightarrow> i = own k \<or> i = NOBODY"
  using crosses_own by (auto simp: reply_owners_map)

lemma reply_hides:
  assumes "\<And>k i. (k, i) \<in> set (reply_owners acl resp) \<Longrightarrow> m k (crosses k i) = m k i"
  shows "map_reply acl m (map_reply acl crosses resp) = map_reply acl m resp"
proof -
  have "map_reply acl (\<lambda>k i. m k (crosses k i)) resp = map_reply acl m resp"
    using assms by (rule map_reply_agree)
  then show ?thesis
    by (simp add: map_reply_map)
qed

end

end
