(* ===== verification/ClientIds.thy ===== *)
theory ClientIds
  imports Owners ClientErrors
begin

text \<open>
  How the mount shows file owners (\<open>crates/client/src/ids.rs\<close>): under \<open>owned\<close> the server's user
  is this mount's user and every other owner is nobody, and only the local user's ids go out.
\<close>

datatype client_mode = Direct | Owned

record owned =
  server_uid :: u32
  server_gid :: u32
  local_uid :: u32
  local_gid :: u32

datatype client_ids = IdsDirect | IdsOwned owned

text \<open>\<open>IdMap::new\<close>; the process's effective ids are \<open>euid\<close> and \<open>egid\<close>.\<close>

definition client_ids_new :: "u32 \<Rightarrow> u32 \<Rightarrow> client_mode \<Rightarrow> u32 \<Rightarrow> u32 \<Rightarrow> client_ids" where
  "client_ids_new euid egid mode suid sgid = (case mode of
       Direct \<Rightarrow> IdsDirect
     | Owned \<Rightarrow> IdsOwned \<lparr>server_uid = suid, server_gid = sgid, local_uid = euid, local_gid = egid\<rparr>)"

datatype caveat = NobodyOnOneSide | ServerIsRoot

text \<open>\<open>caveat\<close>, as which of its two warnings.\<close>

definition caveat :: "client_ids \<Rightarrow> caveat option" where
  "caveat ids = (case ids of
       IdsDirect \<Rightarrow> None
     | IdsOwned o' \<Rightarrow>
         if NOBODY \<in> set [server_uid o', server_gid o', local_uid o', local_gid o']
         then Some NobodyOnOneSide
         else if server_uid o' = 0 \<and> local_uid o' \<noteq> 0 then Some ServerIsRoot else None)"

text \<open>The server's and the local id of a kind.\<close>

definition pair :: "owned \<Rightarrow> kind_owner \<Rightarrow> u32 \<times> u32" where
  "pair o' kind = (case kind of
       User \<Rightarrow> (server_uid o', local_uid o')
     | Group \<Rightarrow> (server_gid o', local_gid o'))"

definition to_local :: "owned \<Rightarrow> kind_owner \<Rightarrow> u32 \<Rightarrow> u32" where
  "to_local o' kind i = (let (server, local) = pair o' kind in if i = server then local else NOBODY)"

definition to_server :: "owned \<Rightarrow> kind_owner \<Rightarrow> u32 \<Rightarrow> (u32, client_error) result" where
  "to_server o' kind i =
     (let (server, local) = pair o' kind in if i = local then Ok server else Err Unmapped)"

text \<open>\<open>transpose\<close> of an optional fallible value.\<close>

fun transpose_res :: "('a, 'e) result option \<Rightarrow> ('a option, 'e) result" where
  "transpose_res None = Ok None"
| "transpose_res (Some (Inl e)) = Err e"
| "transpose_res (Some (Inr a)) = Ok (Some a)"

definition owned_incoming :: "owned \<Rightarrow> request \<Rightarrow> response \<Rightarrow> response" where
  "owned_incoming o' req resp = map_reply (reads_posix_acl req) (to_local o') resp"

definition owned_outgoing :: "owned \<Rightarrow> request \<Rightarrow> (request option, client_error) result" where
  "owned_outgoing o' req = (case req of
       Setattr path fh change \<Rightarrow>
         if set_uid change \<noteq> None \<or> set_gid change \<noteq> None
         then bind_res (transpose_res (map_option (to_server o' User) (set_uid change))) (\<lambda>uid.
              bind_res (transpose_res (map_option (to_server o' Group) (set_gid change))) (\<lambda>gid.
                Ok (Some (Setattr path fh (change\<lparr>set_uid := uid, set_gid := gid\<rparr>)))))
         else Ok None
     | Setxattr path name val flags \<Rightarrow>
         if is_posix_acl name
         then (case acl_owners val of
                 None \<Rightarrow> Ok None
               | Some named \<Rightarrow>
                   if \<not> list_all (\<lambda>(kind, i). is_ok (to_server o' kind i)) named then Err Unmapped
                   else Ok (Some (Setxattr path name
                     (snd (acl_map (\<lambda>kind _. fst (pair o' kind)) val)) flags)))
         else Ok None
     | _ \<Rightarrow> Ok None)"

definition incoming :: "client_ids \<Rightarrow> request \<Rightarrow> response \<Rightarrow> response" where
  "incoming ids req resp = (case ids of
       IdsDirect \<Rightarrow> resp
     | IdsOwned o' \<Rightarrow> owned_incoming o' req resp)"

definition outgoing :: "client_ids \<Rightarrow> request \<Rightarrow> (request option, client_error) result" where
  "outgoing ids req = (case ids of
       IdsDirect \<Rightarrow> Ok None
     | IdsOwned o' \<Rightarrow> owned_outgoing o' req)"

interpretation owned: owner_policy "to_local o'" "\<lambda>k. snd (pair o' k)" for o'
  by unfold_locales (auto simp: to_local_def split_beta Let_def)

lemma transpose_res_Ok:
  "transpose_res x = Ok y \<longleftrightarrow>
     (x = None \<and> y = None) \<or> (\<exists>a. x = Some (Ok a) \<and> y = Some a)"
  by (cases x rule: transpose_res.cases) auto

lemma to_server_Ok: "to_server o' k i = Ok j \<longleftrightarrow> i = snd (pair o' k) \<and> j = fst (pair o' k)"
  by (auto simp: to_server_def split_beta Let_def)

lemma is_ok_to_server: "is_ok (to_server o' k i) \<longleftrightarrow> i = snd (pair o' k)"
  by (auto simp: to_server_def split_beta Let_def)

lemma to_local_server: "to_local o' k (fst (pair o' k)) = snd (pair o' k)"
  by (simp add: to_local_def split_beta Let_def)

end
