(* ===== verification/Codec.thy ===== *)
theory Codec
  imports Types "HOL-Library.Sublist"
begin

text \<open>
  Framing (\<open>crates/proto/src/codec.rs\<close>): a little-endian \<open>u32\<close> length, then one single-segment
  Cap'n Proto message.  The serialisation library is not part of the program, so what the codec
  asks of it is the record \<open>capnp\<close>, an argument of every function here.  A stream is what is still
  to arrive on it and how it ends after that.  The messages of errors carry no numbers.
\<close>

subsection \<open>Streams and errors\<close>

datatype io_error = UnexpectedEof | ResetBy nat | OtherIo string

datatype error_codec = Io io_error | FrameTooLarge nat | Encode string | Decode error_decode

record stream_in =
  to_come :: "u8 list"
  ends_with :: io_error

definition is_eof :: "error_codec \<Rightarrow> bool" where
  "is_eof e \<longleftrightarrow> e = Io UnexpectedEof"

definition MAX_FRAME :: nat where
  "MAX_FRAME = 2 * 1024 * 1024"

definition READ_CHUNK :: nat where
  "READ_CHUNK = 64 * 1024"

text \<open>
  The library: the segments a message is built into, its canonical form (one segment), its size in
  words with the segment table, its serialised form, and reading: a message from the front of some
  bytes, with what is left of them, and the conversion of what was read.
\<close>

record ('m, 'r) capnp =
  segments_for_output :: "'m \<Rightarrow> u8 list list"
  canonicalize :: "'m \<Rightarrow> (u8 list, string) result"
  serialized_words :: "'m \<Rightarrow> nat"
  write_message :: "'m \<Rightarrow> (u8 list, string) result"
  read_message :: "u8 list \<Rightarrow> ('r \<times> u8 list, string) result"
  parse_message :: "'r \<Rightarrow> ('m, error_decode) result"

subsection \<open>Encoding\<close>

definition frame_one_segment :: "u8 list \<Rightarrow> (u8 list, error_codec) result" where
  "frame_one_segment segment =
     (let len = 8 + length segment
      in if len > MAX_FRAME then Err (FrameTooLarge len)
         else Ok (u32_to_le (word_of_nat len) @ u32_to_le 0 @
                  u32_to_le (word_of_nat (length segment div 8)) @ segment))"

definition encode :: "('m, 'r) capnp \<Rightarrow> 'm \<Rightarrow> (u8 list, error_codec) result" where
  "encode lib msg =
     (if length (segments_for_output lib msg) > 1
      then bind_res (map_err Encode (canonicalize lib msg)) frame_one_segment
      else let len = serialized_words lib msg * 8
           in if len > MAX_FRAME then Err (FrameTooLarge len)
              else bind_res (map_err Encode (write_message lib msg))
                     (\<lambda>bytes. Ok (u32_to_le (word_of_nat len) @ bytes)))"

subsection \<open>Decoding\<close>

definition decode :: "('m, 'r) capnp \<Rightarrow> u8 list \<Rightarrow> ('m, error_codec) result" where
  "decode lib body =
     (if length body < 8 then Err (Decode (Frame ''shorter than a segment table''))
      else let segments = unat (u32_from_le (take 4 body)) + 1
           in if segments \<noteq> 1 then Err (Decode (Frame ''the protocol requires exactly one segment''))
              else bind_res (map_err (Decode \<circ> Capnp) (read_message lib body)) (\<lambda>(reader, slice).
                     if slice \<noteq> [] then Err (Decode (Frame ''trailing bytes inside the frame''))
                     else map_err Decode (parse_message lib reader)))"

subsection \<open>Reading\<close>

definition read_exact :: "nat \<Rightarrow> stream_in \<Rightarrow> (u8 list \<times> stream_in, error_codec) result" where
  "read_exact n s =
     (if n \<le> length (to_come s) then Ok (take n (to_come s), s\<lparr>to_come := drop n (to_come s)\<rparr>)
      else Err (Io (ends_with s)))"

text \<open>The loop that fills a body, a step of at most \<open>READ_CHUNK\<close> at a time.\<close>

function fill_body :: "nat \<Rightarrow> u8 list \<Rightarrow> stream_in \<Rightarrow> (u8 list \<times> stream_in, error_codec) result" where
  "fill_body len body s =
     (if length body < len
      then bind_res (read_exact (min (len - length body) READ_CHUNK) s)
             (\<lambda>(bytes, s'). fill_body len (body @ bytes) s')
      else Ok (body, s))"
  by pat_completeness auto
termination
  by (relation "measure (\<lambda>(len, body, s). len - length body)")
    (auto simp: read_exact_def READ_CHUNK_def split: if_splits)

declare fill_body.simps [simp del]

definition read_frame_body :: "('m, 'r) capnp \<Rightarrow> stream_in \<Rightarrow>
    ((u8 list \<times> ('m, error_codec) result) \<times> stream_in, error_codec) result" where
  "read_frame_body lib s =
     bind_res (read_exact 4 s) (\<lambda>(len_bytes, s1).
       let len = unat (u32_from_le len_bytes)
       in if len > MAX_FRAME then Err (FrameTooLarge len)
          else bind_res (fill_body len [] s1) (\<lambda>(body, s2). Ok ((body, decode lib body), s2)))"

definition read_frame :: "('m, 'r) capnp \<Rightarrow> stream_in \<Rightarrow> ('m \<times> stream_in, error_codec) result" where
  "read_frame lib s =
     bind_res (read_frame_body lib s) (\<lambda>((body, decoded), s'). bind_res decoded (\<lambda>m. Ok (m, s')))"

definition write_frame :: "('m, 'r) capnp \<Rightarrow> 'm \<Rightarrow> u8 list \<Rightarrow> (u8 list, error_codec) result" where
  "write_frame lib msg written = bind_res (encode lib msg) (\<lambda>frame. Ok (written @ frame))"

subsection \<open>Frames\<close>

lemma fill_body_exact:
  "length body \<le> len \<Longrightarrow> fill_body len body s =
     (if len - length body \<le> length (to_come s)
      then Ok (body @ take (len - length body) (to_come s),
               s\<lparr>to_come := drop (len - length body) (to_come s)\<rparr>)
      else Err (Io (ends_with s)))"
proof (induction len body s rule: fill_body.induct)
  case (1 len body s)
  show ?case
  proof (cases "length body < len")
    case more: True
    define k where "k = min (len - length body) READ_CHUNK"
    have k: "0 < k" "k \<le> len - length body"
      using more by (auto simp: k_def READ_CHUNK_def)
    show ?thesis
    proof (cases "k \<le> length (to_come s)")
      case True
      let ?body = "body @ take k (to_come s)" and ?s = "s\<lparr>to_come := drop k (to_come s)\<rparr>"
      have "fill_body len body s = fill_body len ?body ?s"
        using more True by (subst fill_body.simps) (simp add: read_exact_def k_def)
      also have "\<dots> = (if len - length ?body \<le> length (to_come ?s)
          then Ok (?body @ take (len - length ?body) (to_come ?s),
                   ?s\<lparr>to_come := drop (len - length ?body) (to_come ?s)\<rparr>)
          else Err (Io (ends_with ?s)))"
        by (rule "1.IH") (use more True k in \<open>auto simp: read_exact_def k_def\<close>)
      also have "\<dots> = (if len - length body \<le> length (to_come s)
          then Ok (body @ take (len - length body) (to_come s),
                   s\<lparr>to_come := drop (len - length body) (to_come s)\<rparr>)
          else Err (Io (ends_with s)))"
      proof -
        have split: "len - length body = k + (len - length ?body)" using True k by simp
        have "take (len - length body) (to_come s) = take k (to_come s) @ take (len - length ?body) (drop k (to_come s))"
          unfolding split by (rule take_add)
        moreover have "drop (len - length body) (to_come s) = drop (len - length ?body) (drop k (to_come s))"
          unfolding drop_drop by (simp add: split add.commute)
        ultimately show ?thesis using True k by auto
      qed
      finally show ?thesis .
    next
      case False
      then show ?thesis
        using more k by (subst fill_body.simps) (auto simp: read_exact_def k_def [symmetric])
    qed
  next
    case False
    then show ?thesis using "1.prems" by (subst fill_body.simps) simp
  qed
qed

lemma unat_frame_len: "n \<le> MAX_FRAME \<Longrightarrow> unat (word_of_nat n :: u32) = n"
  by (simp add: MAX_FRAME_def unat_of_nat take_bit_nat_eq_self)

text \<open>A frame is a length and a body of that length; what follows it stays on the stream.\<close>

lemma read_whole_frame:
  assumes "length body \<le> MAX_FRAME"
  shows "read_frame_body lib \<lparr>to_come = u32_to_le (word_of_nat (length body)) @ body @ rest, ends_with = e\<rparr>
    = Ok ((body, decode lib body), \<lparr>to_come = rest, ends_with = e\<rparr>)"
  using assms by (simp add: read_frame_body_def read_exact_def unat_frame_len fill_body_exact)

text \<open>A frame cut short is the stream's end.\<close>

lemma read_cut_frame:
  assumes "length body \<le> MAX_FRAME" and cut: "strict_prefix got (u32_to_le (word_of_nat (length body)) @ body)"
  shows "read_frame_body lib \<lparr>to_come = got, ends_with = e\<rparr> = Err (Io e)"
proof (cases "length got < 4")
  case True
  then show ?thesis by (simp add: read_frame_body_def read_exact_def)
next
  case False
  from cut obtain more where more: "u32_to_le (word_of_nat (length body)) @ body = got @ more" "more \<noteq> []"
    by (auto elim: strict_prefixE')
  have take4: "take 4 got = u32_to_le (word_of_nat (length body))"
    using arg_cong [OF more(1), of "take 4"] False by simp
  have "length got < 4 + length body"
    using arg_cong [OF more(1), of length] more(2) by simp
  then show ?thesis
    using False assms(1) take4 by (simp add: read_frame_body_def read_exact_def unat_frame_len fill_body_exact Let_def)
qed

subsection \<open>Properties\<close>

text \<open>
  What the library documents of a message it serialises: the size it says, with a segment table that
  counts one segment, and a reader of the same bytes that gets the message back and leaves nothing.
\<close>

definition serialises_to :: "('m, 'r) capnp \<Rightarrow> 'm \<Rightarrow> u8 list \<Rightarrow> bool" where
  "serialises_to lib m bytes \<longleftrightarrow> 8 \<le> length bytes \<and> take 4 bytes = u32_to_le 0 \<and>
     (\<exists>r. read_message lib bytes = Ok (r, []) \<and> parse_message lib r = Ok m)"

definition capnp_ok :: "('m, 'r) capnp \<Rightarrow> 'm \<Rightarrow> bool" where
  "capnp_ok lib m \<longleftrightarrow>
     (\<forall>bytes. write_message lib m = Ok bytes \<longrightarrow>
        length bytes = 8 * serialized_words lib m \<and> serialises_to lib m bytes) \<and>
     (\<forall>segment. canonicalize lib m = Ok segment \<longrightarrow>
        serialises_to lib m (u32_to_le 0 @ u32_to_le (word_of_nat (length segment div 8)) @ segment))"

lemma encode_frame:
  assumes "capnp_ok lib m" and "encode lib m = Ok frame"
  obtains body where "frame = u32_to_le (word_of_nat (length body)) @ body"
    "length body \<le> MAX_FRAME" "serialises_to lib m body"
proof (cases "length (segments_for_output lib m) > 1")
  case True
  with assms(2) obtain segment where "canonicalize lib m = Ok segment"
    and "frame_one_segment segment = Ok frame"
    by (auto simp: encode_def)
  then show ?thesis
    using assms(1) that [of "u32_to_le 0 @ u32_to_le (word_of_nat (length segment div 8)) @ segment"]
    by (auto simp: capnp_ok_def frame_one_segment_def Let_def split: if_splits)
next
  case False
  with assms(2) obtain bytes where "write_message lib m = Ok bytes"
    and "frame = u32_to_le (word_of_nat (serialized_words lib m * 8)) @ bytes"
    and "serialized_words lib m * 8 \<le> MAX_FRAME"
    by (auto simp: encode_def Let_def split: if_splits)
  then show ?thesis
    using assms(1) that [of bytes] by (auto simp: capnp_ok_def mult.commute)
qed

lemma decode_serialised: "serialises_to lib m body \<Longrightarrow> decode lib body = Ok m"
  by (auto simp: serialises_to_def decode_def Let_def)

text \<open>
   A message that is encoded is read back whole from a stream, whatever comes after its frame,
  which stays on the stream: for every message the library itself serialises and reads back.
\<close>

theorem read_frame_encoded:
  assumes "capnp_ok lib m" and "encode lib m = Ok frame"
  shows "read_frame lib \<lparr>to_come = frame @ rest, ends_with = e\<rparr> =
    Ok (m, \<lparr>to_come = rest, ends_with = e\<rparr>)"
proof -
  obtain body where "frame = u32_to_le (word_of_nat (length body)) @ body" "length body \<le> MAX_FRAME"
    "serialises_to lib m body"
    using encode_frame [OF assms] .
  then show ?thesis by (simp add: read_frame_def read_whole_frame decode_serialised)
qed

text \<open>
  C40.  A frame cut off anywhere before its last byte, its length prefix included, is reported as
  the way its stream ended, and never read as a shorter message: an early end of the stream is the
  error that is an end of file, which is how a request that was cancelled looks.
\<close>

theorem cut_frame_is_its_end:
  assumes "capnp_ok lib m" and "encode lib m = Ok frame" and "strict_prefix got frame"
  shows "read_frame lib \<lparr>to_come = got, ends_with = e\<rparr> = Err (Io e) \<and>
    (is_eof (Io e) \<longleftrightarrow> e = UnexpectedEof)"
proof -
  obtain body where "frame = u32_to_le (word_of_nat (length body)) @ body" "length body \<le> MAX_FRAME"
    using encode_frame [OF assms(1,2)] .
  then show ?thesis using assms(3) read_cut_frame [of body got lib e]
    by (simp add: read_frame_def is_eof_def)
qed

subsection \<open>Witnesses\<close>

text \<open>A library whose messages are the bytes of their one segment.\<close>

definition plain_capnp :: "(u8 list, u8 list) capnp" where
  "plain_capnp = \<lparr>segments_for_output = (\<lambda>m. [m]), canonicalize = (\<lambda>m. Ok m),
     serialized_words = (\<lambda>m. 1 + length m div 8),
     write_message = (\<lambda>m. Ok (u32_to_le 0 @ u32_to_le (word_of_nat (length m div 8)) @ m)),
     read_message = (\<lambda>bytes. Ok (drop 8 bytes, [])), parse_message = (\<lambda>r. Ok r)\<rparr>"

lemma plain_capnp_ok: "capnp_ok plain_capnp (replicate 8 7)"
  by (simp add: capnp_ok_def serialises_to_def plain_capnp_def)

lemma plain_capnp_encode:
  "encode plain_capnp (replicate 8 7) = Ok (u32_to_le 16 @ u32_to_le 0 @ u32_to_le 1 @ replicate 8 7)"
  by (simp add: encode_def plain_capnp_def MAX_FRAME_def)

lemma u32_to_le_one: "u32_to_le 1 = [1, 0, 0, 0]"
  by code_simp

theorem read_frame_encoded_witness:
  "read_frame plain_capnp
     \<lparr>to_come = (u32_to_le 16 @ u32_to_le 0 @ u32_to_le 1 @ replicate 8 7) @ [1, 2], ends_with = UnexpectedEof\<rparr> =
   Ok (replicate 8 7, \<lparr>to_come = [1, 2], ends_with = UnexpectedEof\<rparr>)"
  by (rule read_frame_encoded [OF plain_capnp_ok plain_capnp_encode])

theorem cut_frame_is_its_end_witness:
  "read_frame plain_capnp
     \<lparr>to_come = u32_to_le 16 @ u32_to_le 0 @ [1], ends_with = UnexpectedEof\<rparr> = Err (Io UnexpectedEof)"
proof -
  have "strict_prefix (u32_to_le 16 @ u32_to_le 0 @ [1])
      (u32_to_le 16 @ u32_to_le 0 @ u32_to_le 1 @ replicate 8 7)"
    by (simp add: u32_to_le_one strict_prefix_def)
  from cut_frame_is_its_end [OF plain_capnp_ok plain_capnp_encode this, of UnexpectedEof]
  show ?thesis by blast
qed

end
