(* ===== verification/Caller.thy ===== *)
theory Caller
  imports Machine ClientIds Codec
begin

text \<open>
  The client's calls (\<open>crates/client/src/client.rs\<close>): one request on one stream (\<open>exchange\<close>), the
  exchange and its resends (\<open>Caller::attempt\<close>), and the typed requests made with them.  What the
  network, the clock and other tasks do is an argument: a record of what each wait found.  Times are
  natural numbers.  A stream that is left pending is named by its number.
\<close>

subsection \<open>The export root\<close>

record key_root =
  kr_ino :: u64
  kr_identity :: identity

definition root_rewrite :: "key_root \<Rightarrow> attr \<Rightarrow> attr" where
  "root_rewrite root a =
     (if attr_ino a = kr_ino root \<and> attr_identity a = kr_identity root then a\<lparr>attr_ino := ROOT\<rparr> else a)"

definition as_node_one :: "key_root \<Rightarrow> response \<Rightarrow> response" where
  "as_node_one root resp = (case resp of
       REntry a \<Rightarrow> REntry (root_rewrite root a)
     | RAttr a \<Rightarrow> RAttr (root_rewrite root a)
     | ROpened a \<Rightarrow> ROpened (root_rewrite root a)
     | RReaddir es end' \<Rightarrow>
         RReaddir (map (\<lambda>e. e\<lparr>entry_attr := map_option (root_rewrite root) (entry_attr e)\<rparr>) es) end'
     | other \<Rightarrow> other)"

subsection \<open>One exchange\<close>

type_synonym read_reply = "(u8 list \<times> (response, error_codec) result, error_codec) result"

definition codec_text :: "error_codec \<Rightarrow> string" where
  "codec_text e = (case e of
       Io _ \<Rightarrow> ''i/o''
     | FrameTooLarge _ \<Rightarrow> ''frame exceeds the limit''
     | Encode msg \<Rightarrow> ''encode: '' @ msg
     | Decode _ \<Rightarrow> ''decode'')"

definition codec_error :: "error_codec \<Rightarrow> (string \<Rightarrow> nat error_exchange) \<Rightarrow> nat error_exchange" where
  "codec_error e on_io = (case e of
       Io _ \<Rightarrow> on_io ''the stream failed''
     | other \<Rightarrow> ExProtocol (codec_text other))"

text \<open>Reset codes (\<open>code_reset\<close>), and what the server said became of a change given up on.\<close>

definition STALLED :: nat where "STALLED = 1"
definition CANCELLED :: nat where "CANCELLED = 2"
definition SUPERSEDED :: nat where "SUPERSEDED = 3"
definition UNRUN :: nat where "UNRUN = 4"
definition FENCED :: nat where "FENCED = 5"

definition verdict_of :: "read_reply \<Rightarrow> string" where
  "verdict_of read = (case read of
       Inr (_, Inr _) \<Rightarrow> ''finished''
     | Inr (_, Inl _) \<Rightarrow> ''undecodable''
     | Inl (Io (ResetBy code)) \<Rightarrow>
         if code = UNRUN then ''unrun''
         else if code = FENCED then ''fenced''
         else if code = SUPERSEDED then ''superseded''
         else ''lost''
     | Inl (Io UnexpectedEof) \<Rightarrow> ''unread''
     | Inl _ \<Rightarrow> ''lost'')"

text \<open>
  What each wait of an exchange found: whether the call gives up while it waits for a stream or
  writes (checked first), how those ended, and the last wait, where the reply is looked at first.
\<close>

datatype wait_reply = ReplyRead read_reply | GivesUp client_error

record exchange_env =
  ee_give_up_open :: "client_error option"
  ee_open :: "(nat, string) result"
  ee_encode :: "request \<Rightarrow> (u8 list, error_codec) result"
  ee_give_up_write :: "client_error option"
  ee_write :: "(unit, string) result"
  ee_finish :: "(unit, string) result"
  ee_reply :: wait_reply

definition call_exchange :: "exchange_env \<Rightarrow> key_root \<Rightarrow> client_ids \<Rightarrow> request \<Rightarrow>
    (response, nat error_exchange) result" where
  "call_exchange env root ids req =
     (case ee_give_up_open env of
        Some e \<Rightarrow> Err (GaveUp e False None)
      | None \<Rightarrow>
     bind_res (map_err (\<lambda>e. NotSent (''cannot open a stream: '' @ e)) (ee_open env)) (\<lambda>stream.
     bind_res (map_err (\<lambda>e. ExProtocol (codec_text e)) (ee_encode env req)) (\<lambda>frame.
     (case ee_give_up_write env of
        Some e \<Rightarrow> Err (GaveUp e False None)
      | None \<Rightarrow>
     bind_res (map_err (\<lambda>e. NotSent (''the stream failed: '' @ e)) (ee_write env)) (\<lambda>_.
     bind_res (if changes req then Ok ()
               else map_err (\<lambda>e. Lost (''cannot finish the request: '' @ e)) (ee_finish env)) (\<lambda>_.
     (case ee_reply env of
        GivesUp e \<Rightarrow> Err (GaveUp e True (Some stream))
      | ReplyRead read \<Rightarrow>
     bind_res (map_err (\<lambda>e. codec_error e Lost) read) (\<lambda>(body, decoded).
     bind_res (map_err (\<lambda>e. ExProtocol (codec_text e)) decoded) (\<lambda>resp.
       Ok (incoming ids req (as_node_one root resp)))))))))))"

text \<open>
  \<open>given_up\<close>: what is left of an exchange is counted on its connection's pending cancels and its
  send side reset, the second part of the result; anything else is dropped.
\<close>

definition given_up :: "client_error \<Rightarrow> nat option \<Rightarrow> attached_state \<Rightarrow> client_error \<times> attached_state \<times> nat option" where
  "given_up error pending a = (case pending of
       Some stream \<Rightarrow> (error, cancel_count a, Some stream)
     | None \<Rightarrow> (error, a, None))"

subsection \<open>Which requests may be sent again\<close>

definition retry_safe :: "request \<Rightarrow> handle_rec option \<times> handle_rec option \<Rightarrow> bool" where
  "retry_safe req handles = (case req of
       Lookup _ _ \<Rightarrow> True
     | Getattr _ _ \<Rightarrow> True
     | Setattr _ _ _ \<Rightarrow> True
     | Readlink _ \<Rightarrow> True
     | Read _ _ _ \<Rightarrow> True
     | Release _ _ \<Rightarrow> True
     | Fsync _ _ \<Rightarrow> True
     | Opendir _ _ \<Rightarrow> True
     | Readdir _ _ _ \<Rightarrow> True
     | Releasedir _ _ \<Rightarrow> True
     | Statfs _ \<Rightarrow> True
     | Getxattr _ _ \<Rightarrow> True
     | Listxattr _ \<Rightarrow> True
     | Access _ _ \<Rightarrow> True
     | CopyFileRange _ _ _ _ _ \<Rightarrow> True
     | Fallocate _ _ _ _ \<Rightarrow> True
     | Lseek _ _ _ \<Rightarrow> True
     | Write _ _ _ \<Rightarrow> (case fst handles of Some r \<Rightarrow> \<not> appends r | None \<Rightarrow> False)
     | Open _ _ flags \<Rightarrow> flags AND O_TRUNC = 0
     | Create _ _ _ _ flags \<Rightarrow> flags AND (O_EXCL OR O_TRUNC) = 0
     | Setxattr _ _ _ flags \<Rightarrow> flags = 0
     | Mknod _ _ _ _ \<Rightarrow> False
     | Mkdir _ _ _ \<Rightarrow> False
     | Unlink _ _ \<Rightarrow> False
     | Rmdir _ _ \<Rightarrow> False
     | SymlinkAt _ _ _ \<Rightarrow> False
     | Rename _ _ _ _ _ \<Rightarrow> False
     | Link _ _ _ \<Rightarrow> False
     | Removexattr _ _ \<Rightarrow> False)"

subsection \<open>The wait for a connection\<close>

record attached =
  an_state :: attached_state
  an_root :: key_root
  an_ids :: client_ids

datatype conn_state = Connecting nat | Connected attached | ConnClosed

text \<open>How a wait for the state to change ended: it did, its sender is gone, or the time is up.\<close>

datatype woken = Changed | SenderGone | Elapsed

record seen_state =
  sn_state :: conn_state
  sn_now :: nat
  sn_woken :: woken

fun wait_connected :: "nat \<Rightarrow> nat \<Rightarrow> call_state \<Rightarrow> seen_state list \<Rightarrow> (attached, client_error) result option" where
  "wait_connected offline deadline call [] = None"
| "wait_connected offline deadline call (s # ss) =
     (let timed = (\<lambda>limit.
        if sn_now s \<ge> limit then Some (Err Timeout)
        else case sn_woken s of
               Changed \<Rightarrow> wait_connected offline deadline call ss
             | SenderGone \<Rightarrow> Some (Err Closed)
             | Elapsed \<Rightarrow> Some (Err Timeout))
      in case sn_state s of
           Connected attached \<Rightarrow> if takes call (an_state attached) then Some (Ok attached) else timed deadline
         | ConnClosed \<Rightarrow> Some (Err Closed)
         | Connecting since \<Rightarrow> timed (min deadline (since + offline)))"

subsection \<open>A call's attempts\<close>

record attempt_env =
  ae_table :: handle_table
  ae_interrupted :: bool
  ae_states :: "seen_state list"
  ae_pending :: nat
  ae_give_up_cancels :: "client_error option"
  ae_pending_seen :: "nat list"
  ae_exchange :: exchange_env
  ae_now :: nat

text \<open>How an exchange sent for a call ended, as the call takes it.\<close>

datatype sent_end = SentAnswered | SentNotSent | SentLost | SentFailed | SentGaveUp

record sent_log =
  sl_generation :: nat
  sl_pending :: nat
  sl_request :: request
  sl_end :: sent_end

text \<open>
  How far a call got: its wait still goes on, the source's unreachable case, its end with whether it
  was counted on its connection's pending cancels, or another attempt with its deadline.
\<close>

datatype progress =
    StillWaiting
  | Unreachable
  | Finished "(response, client_error) result" bool
  | Again nat

definition any_dead :: "handle_table \<Rightarrow> nat option \<times> nat option \<Rightarrow> bool" where
  "any_dead t handles =
     list_ex (\<lambda>h. case Option.bind h (ht_heap t) of Some r \<Rightarrow> hr_dead r | None \<Rightarrow> False) [fst handles, snd handles]"

text \<open>The wait for the connection's pending cancels, when there is one: the count that ends it.\<close>

definition wait_cancels :: "attempt_env \<Rightarrow> attached \<Rightarrow> call_state \<Rightarrow> (nat, client_error) result option" where
  "wait_cancels env attached call =
     (case sendable_on call (an_state attached) (ae_pending env) of
        SendNow \<Rightarrow> Some (Ok (ae_pending env))
      | No \<Rightarrow> None
      | AfterCancels \<Rightarrow>
          (case ae_give_up_cancels env of
             Some e \<Rightarrow> Some (Err e)
           | None \<Rightarrow> map_option Inr
               (find (\<lambda>pending. sendable_on call (an_state attached) pending = SendNow) (ae_pending_seen env))))"

text \<open>What an exchange's end does to the call.\<close>

definition exchange_ended :: "nat \<Rightarrow> nat \<Rightarrow> attempt_env \<Rightarrow> (response, nat error_exchange) result \<Rightarrow>
    call_state \<Rightarrow> call_state \<times> progress \<times> sent_end" where
  "exchange_ended offline deadline env exchanged call =
     (case exchanged of
        Inr (RErr errno) \<Rightarrow> (answered True call, Finished (Err (Remote errno)) False, SentAnswered)
      | Inr resp \<Rightarrow> (answered False call, Finished (Ok resp) False, SentAnswered)
      | Inl (NotSent cause) \<Rightarrow>
          (case lost LossNotSent call of
             None \<Rightarrow> (call, Unreachable, SentNotSent)
           | Some (call', Inl e) \<Rightarrow> (call', Finished (Err e) False, SentNotSent)
           | Some (call', Inr _) \<Rightarrow> (call', Again deadline, SentNotSent))
      | Inl (Lost cause) \<Rightarrow>
          (case lost LossLost call of
             None \<Rightarrow> (call, Unreachable, SentLost)
           | Some (call', Inl e) \<Rightarrow> (call', Finished (Err e) False, SentLost)
           | Some (call', Inr _) \<Rightarrow> (call', Again (ae_now env + offline), SentLost))
      | Inl (ExProtocol msg) \<Rightarrow> (call_failed call, Finished (Err (Protocol msg)) False, SentFailed)
      | Inl (GaveUp error written pending) \<Rightarrow>
          (let (call', counted) = gave_up written call
           in (call', Finished (Err error) (counted \<and> pending \<noteq> None), SentGaveUp)))"

text \<open>One turn of the loop.\<close>

definition attempt_once :: "nat \<Rightarrow> request \<Rightarrow> nat option \<times> nat option \<Rightarrow> nat \<Rightarrow> attempt_env \<Rightarrow> call_state \<Rightarrow>
    call_state \<times> progress \<times> sent_log list" where
  "attempt_once offline req handles deadline env call =
     (if any_dead (ae_table env) handles then (call_failed call, Finished (Err Stale) False, [])
      else case (if ae_interrupted env then Some (Err Interrupted)
                 else wait_connected offline deadline call (ae_states env)) of
        None \<Rightarrow> (call, StillWaiting, [])
      | Some (Inl e) \<Rightarrow>
          (if e = Timeout \<or> e = Interrupted then fst (gave_up False call) else call_failed call,
           Finished (Err e) False, [])
      | Some (Inr attached) \<Rightarrow>
          (case outgoing (an_ids attached) req of
             Inl e \<Rightarrow> (call_failed call, Finished (Err e) False, [])
           | Inr mapped \<Rightarrow>
               (if sendable_on call (an_state attached) (ae_pending env) = No then (call, Unreachable, [])
                else case wait_cancels env attached call of
                  None \<Rightarrow> (call, StillWaiting, [])
                | Some (Inl e) \<Rightarrow> (fst (gave_up False call), Finished (Err e) False, [])
                | Some (Inr pending) \<Rightarrow>
                    (let req' = (case mapped of Some m \<Rightarrow> m | None \<Rightarrow> req);
                         generation = at_generation (an_state attached);
                         (call', progress, ended) = exchange_ended offline deadline env
                           (call_exchange (ae_exchange env) (an_root attached) (an_ids attached) req')
                           (sent generation call)
                     in (call', progress,
                         [\<lparr>sl_generation = generation, sl_pending = pending, sl_request = req', sl_end = ended\<rparr>])))))"

fun attempt_from :: "nat \<Rightarrow> request \<Rightarrow> nat option \<times> nat option \<Rightarrow> nat \<Rightarrow> attempt_env list \<Rightarrow> call_state \<Rightarrow>
    call_state \<times> progress \<times> sent_log list" where
  "attempt_from offline req handles deadline [] call = (call, StillWaiting, [])"
| "attempt_from offline req handles deadline (env # envs) call =
     (case attempt_once offline req handles deadline env call of
        (call', Again deadline', log) \<Rightarrow>
          (let (call'', progress, log') = attempt_from offline req handles deadline' envs call'
           in (call'', progress, log @ log'))
      | ended \<Rightarrow> ended)"

definition attempt :: "nat \<Rightarrow> request \<Rightarrow> handle_table \<Rightarrow> nat \<Rightarrow> attempt_env list \<Rightarrow>
    call_state \<times> progress \<times> sent_log list" where
  "attempt offline req t now envs =
     (let look = (\<lambda>fh. Option.bind fh (ht_map t));
          handles = (look (fst (fhs req)), look (snd (fhs req)));
          recs = (Option.bind (fst handles) (ht_heap t), Option.bind (snd handles) (ht_heap t))
      in attempt_from offline req handles (now + offline) envs (call_new (changes req) (retry_safe req recs)))"

subsection \<open>What a call sends\<close>

lemma wait_connected_takes:
  "wait_connected offline deadline call ss = Some (Ok a) \<Longrightarrow> takes call (an_state a)"
  by (induction ss) (auto simp: Let_def split: conn_state.splits if_splits woken.splits)

lemma sendable_on_iff:
  "sendable_on c a n = No \<longleftrightarrow> \<not> takes c a"
  "sendable_on c a n = SendNow \<longleftrightarrow> takes c a \<and> (cs_changes c \<longrightarrow> n = 0)"
  by (auto simp: sendable_on_def)

lemma wait_cancels_now:
  "wait_cancels env a call = Some (Ok n) \<Longrightarrow> sendable_on call (an_state a) n = SendNow"
  by (auto simp: wait_cancels_def find_Some_iff split: sendable.splits option.splits)

text \<open>A call that waits to be sent, as it stands between two turns of the loop.\<close>

definition waiting_call :: "bool \<Rightarrow> bool \<Rightarrow> call_state \<Rightarrow> bool" where
  "waiting_call chg resendable c \<longleftrightarrow>
     cs_status c = Waiting \<and> cs_changes c = chg \<and> cs_resendable c = resendable"

text \<open>How often the reply of a call may still be asked for again.\<close>

definition resends_left :: "call_state \<Rightarrow> nat" where
  "resends_left c = (if cs_resendable c \<and> \<not> cs_lost_once c then 1 else 0)"

definition lost_ends :: "sent_log list \<Rightarrow> nat" where
  "lost_ends log = length (filter (\<lambda>e. sl_end e = SentLost) log)"

lemma exchange_ended_again:
  assumes "exchange_ended offline deadline env ex (sent g c) = (c', p, e)"
    and "waiting_call chg resendable c"
  shows "p \<noteq> Unreachable \<and>
    (\<forall>d. p = Again d \<longrightarrow> waiting_call chg resendable c' \<and> cs_min_generation c' = g + 1 \<and>
       (e = SentNotSent \<and> resends_left c' = resends_left c \<or>
        e = SentLost \<and> resends_left c = 1 \<and> resends_left c' = 0))"
  using assms
  by (auto simp: exchange_ended_def waiting_call_def sent_def lost_def gave_up_def resends_left_def Let_def
      answered_def call_failed_def
      split: sum.splits response.splits error_exchange.splits if_splits)

text \<open>One turn sends at most once, on a connection the call takes, and a change with no cancel pending.\<close>

lemma attempt_once_sends:
  assumes "attempt_once offline req handles deadline env c = (c', p, log)"
    and "waiting_call chg resendable c"
  shows "p \<noteq> Unreachable \<and>
    (log = [] \<and> (\<forall>d. p \<noteq> Again d) \<or>
     (\<exists>e. log = [e] \<and> cs_min_generation c \<le> sl_generation e \<and> (chg \<longrightarrow> sl_pending e = 0) \<and>
        (\<forall>d. p = Again d \<longrightarrow> waiting_call chg resendable c' \<and> cs_min_generation c' = sl_generation e + 1 \<and>
           (sl_end e = SentNotSent \<and> resends_left c' = resends_left c \<or>
            sl_end e = SentLost \<and> resends_left c = 1 \<and> resends_left c' = 0))))"
proof -
  consider (none) "log = []" "p \<noteq> Unreachable" "\<forall>d. p \<noteq> Again d"
    | (unreached) a where "wait_connected offline deadline c (ae_states env) = Some (Ok a)"
        "sendable_on c (an_state a) (ae_pending env) = No"
    | (sent) a req' n ended where "wait_connected offline deadline c (ae_states env) = Some (Ok a)"
        "wait_cancels env a c = Some (Ok n)"
        "exchange_ended offline deadline env
           (call_exchange (ae_exchange env) (an_root a) (an_ids a) req') (sent (at_generation (an_state a)) c) = (c', p, ended)"
        "log = [\<lparr>sl_generation = at_generation (an_state a), sl_pending = n, sl_request = req', sl_end = ended\<rparr>]"
    using assms(1)
    by (auto simp: attempt_once_def Let_def split: if_splits option.splits sum.splits prod.splits)
  then show ?thesis
  proof cases
    case none
    then show ?thesis by blast
  next
    case unreached
    then show ?thesis using wait_connected_takes [OF unreached(1)] by (simp add: sendable_on_iff)
  next
    case sent
    then have "takes c (an_state a)" and "cs_changes c \<longrightarrow> n = 0"
      using wait_cancels_now sendable_on_iff(2) by blast+
    with sent exchange_ended_again [OF sent(3) assms(2)] assms(2)
    show ?thesis by (auto simp: takes_def waiting_call_def)
  qed
qed

lemma attempt_from_sends:
  assumes "attempt_from offline req handles deadline envs c = (c', p, log)"
    and "waiting_call chg resendable c"
  shows "p \<noteq> Unreachable \<and> (\<forall>e \<in> set log. cs_min_generation c \<le> sl_generation e) \<and>
    sorted_wrt (<) (map sl_generation log) \<and>
    (\<forall>e \<in> set (butlast log). sl_end e \<in> {SentNotSent, SentLost}) \<and>
    lost_ends (butlast log) \<le> resends_left c \<and>
    (chg \<longrightarrow> (\<forall>e \<in> set log. sl_pending e = 0))"
  using assms
proof (induction envs arbitrary: c deadline c' p log)
  case Nil
  then show ?case by (simp add: lost_ends_def)
next
  case (Cons env envs)
  obtain c1 p1 log1 where once: "attempt_once offline req handles deadline env c = (c1, p1, log1)"
    by (metis prod.exhaust)
  note sends = attempt_once_sends [OF once Cons.prems(2)]
  show ?case
  proof (cases "\<exists>d. p1 = Again d")
    case False
    with Cons.prems(1) once have "(c', p, log) = (c1, p1, log1)"
      by (auto split: progress.splits)
    then show ?thesis using sends by (auto simp: lost_ends_def)
  next
    case True
    then obtain d where d: "p1 = Again d" by blast
    obtain c2 p2 log2 where rest: "attempt_from offline req handles d envs c1 = (c2, p2, log2)"
      by (metis prod.exhaust)
    have run: "c' = c2" "p = p2" "log = log1 @ log2"
      using Cons.prems(1) once d rest by auto
    from sends d obtain e where e: "log1 = [e]" "cs_min_generation c \<le> sl_generation e"
      "chg \<longrightarrow> sl_pending e = 0" "waiting_call chg resendable c1" "cs_min_generation c1 = sl_generation e + 1"
      "sl_end e = SentNotSent \<and> resends_left c1 = resends_left c \<or>
       sl_end e = SentLost \<and> resends_left c = 1 \<and> resends_left c1 = 0"
      by auto
    note later = Cons.IH [OF rest e(4)]
    show ?thesis
      using later e run by (cases log2) (auto simp: lost_ends_def)
  qed
qed

text \<open>
  C6.  However connections come and go, a call never reaches the case its code rules out; each send
  is on a newer connection than the last; it is sent again only after an exchange that failed with
  its connection, and after a lost reply at most once, and only if that is safe for its request; and
  a change goes out only with no cancel pending on its connection.
\<close>

theorem attempt_sends:
  fixes req :: request and t :: handle_table
  defines "resendable \<equiv> retry_safe req
     (Option.bind (Option.bind (fst (fhs req)) (ht_map t)) (ht_heap t),
      Option.bind (Option.bind (snd (fhs req)) (ht_map t)) (ht_heap t))"
  assumes "attempt offline req t now envs = (c', p, log)"
  shows "p \<noteq> Unreachable \<and> sorted_wrt (<) (map sl_generation log) \<and>
    (\<forall>e \<in> set (butlast log). sl_end e \<in> {SentNotSent, SentLost}) \<and>
    lost_ends (butlast log) \<le> (if resendable then 1 else 0) \<and>
    (changes req \<longrightarrow> (\<forall>e \<in> set log. sl_pending e = 0))"
  using attempt_from_sends [OF assms(2) [unfolded attempt_def Let_def],
      of "changes req" resendable]
  by (simp add: waiting_call_def call_new_def resends_left_def resendable_def)

text \<open>A connection of each generation, and an exchange on it that ends as \<open>reply\<close> says.\<close>

definition example_attached :: "nat \<Rightarrow> attached" where
  "example_attached g = \<lparr>an_state = publish (attached_new g),
     an_root = \<lparr>kr_ino = 5, kr_identity = \<lparr>handle_type = 0, handle = []\<rparr>\<rparr>, an_ids = IdsDirect\<rparr>"

definition example_turn :: "nat \<Rightarrow> wait_reply \<Rightarrow> attempt_env" where
  "example_turn g reply = \<lparr>ae_table = table_default, ae_interrupted = False,
     ae_states = [\<lparr>sn_state = Connecting 0, sn_now = 1, sn_woken = Changed\<rparr>,
                  \<lparr>sn_state = Connected (example_attached g), sn_now = 2, sn_woken = Changed\<rparr>],
     ae_pending = 2, ae_give_up_cancels = None, ae_pending_seen = [1, 0],
     ae_exchange = \<lparr>ee_give_up_open = None, ee_open = Ok 4, ee_encode = (\<lambda>_. Ok []), ee_give_up_write = None,
       ee_write = Ok (), ee_finish = Ok (), ee_reply = reply\<rparr>, ae_now = 3\<rparr>"

lemma example_attempt:
  "attempt 10 (Opendir 1 path_root) table_default 0
     [example_turn 1 (ReplyRead (Err (Io (OtherIo ''reset'')))),
      example_turn 2 (ReplyRead (Ok ([], Ok (RErr 2))))] =
   (\<lparr>cs_changes = True, cs_resendable = True, cs_lost_once = True, cs_min_generation = 2, cs_attempt = 2,
      cs_status = Ended Errno\<rparr>,
    Finished (Err (Remote 2)) False,
    [\<lparr>sl_generation = 1, sl_pending = 0, sl_request = Opendir 1 path_root, sl_end = SentLost\<rparr>,
     \<lparr>sl_generation = 2, sl_pending = 0, sl_request = Opendir 1 path_root, sl_end = SentAnswered\<rparr>])"
  by (simp add: attempt_def attempt_once_def any_dead_def example_turn_def example_attached_def table_default_def
      takes_def publish_def attached_new_def call_new_def outgoing_def sendable_on_def wait_cancels_def
      call_exchange_def exchange_ended_def lost_def sent_def answered_def codec_error_def retry_safe_def
      incoming_def as_node_one_def)

theorem attempt_sends_witness:
  "\<exists>c' p log. attempt 10 (Opendir 1 path_root) table_default 0
     [example_turn 1 (ReplyRead (Err (Io (OtherIo ''reset'')))),
      example_turn 2 (ReplyRead (Ok ([], Ok (RErr 2))))] = (c', p, log) \<and>
     p \<noteq> Unreachable \<and> length log = 2 \<and> sorted_wrt (<) (map sl_generation log) \<and> lost_ends (butlast log) = 1"
  using attempt_sends [OF example_attempt] example_attempt by (simp add: lost_ends_def)

end
