(* ===== verification/Client.thy ===== *)
theory Client
  imports Caller
begin

text \<open>
  The typed requests of the client (\<open>crates/client/src/client.rs\<close>, \<open>impl Client\<close>), each made with
  one or more calls.  A call is an argument: a function of the request and of the world, which gives
  the call's result and the world it leaves.
\<close>

type_synonym 'w caller = "request \<Rightarrow> 'w \<Rightarrow> (response, client_error) result \<times> 'w"

definition unexpected :: "response \<Rightarrow> client_error" where
  "unexpected resp = Protocol (''unexpected reply '' @ kind_name resp)"

subsection \<open>Replies of one kind\<close>

text \<open>The result of a call with its reply taken as \<open>want\<close> takes it.\<close>

definition expecting :: "(response \<Rightarrow> 'a option) \<Rightarrow> (response, client_error) result \<Rightarrow> ('a, client_error) result" where
  "expecting want r = bind_res r (\<lambda>resp. case want resp of Some a \<Rightarrow> Ok a | None \<Rightarrow> Err (unexpected resp))"

definition want_attr :: "response \<Rightarrow> attr option" where
  "want_attr resp = (case resp of REntry a \<Rightarrow> Some a | RAttr a \<Rightarrow> Some a | _ \<Rightarrow> None)"

definition want_ok :: "response \<Rightarrow> unit option" where
  "want_ok resp = (if resp = ROk then Some () else None)"

definition want_bytes :: "response \<Rightarrow> u8 list option" where
  "want_bytes resp = (case resp of RReadlink b \<Rightarrow> Some b | RRead b \<Rightarrow> Some b | RXattr b \<Rightarrow> Some b | _ \<Rightarrow> None)"

definition call_attr :: "'w caller \<Rightarrow> request \<Rightarrow> 'w \<Rightarrow> (attr, client_error) result \<times> 'w" where
  "call_attr call req w = map_prod (expecting want_attr) id (call req w)"

definition call_ok :: "'w caller \<Rightarrow> request \<Rightarrow> 'w \<Rightarrow> (unit, client_error) result \<times> 'w" where
  "call_ok call req w = map_prod (expecting want_ok) id (call req w)"

definition call_bytes :: "'w caller \<Rightarrow> request \<Rightarrow> 'w \<Rightarrow> (u8 list, client_error) result \<times> 'w" where
  "call_bytes call req w = map_prod (expecting want_bytes) id (call req w)"

subsection \<open>Requests of one call\<close>

definition client_lookup :: "'w caller \<Rightarrow> path \<Rightarrow> name \<Rightarrow> 'w \<Rightarrow> (attr, client_error) result \<times> 'w" where
  "client_lookup call parent name = call_attr call (Lookup parent name)"

definition client_getattr :: "'w caller \<Rightarrow> path option \<Rightarrow> u64 option \<Rightarrow> 'w \<Rightarrow> (attr, client_error) result \<times> 'w" where
  "client_getattr call p fh = call_attr call (Getattr p fh)"

definition client_setattr :: "'w caller \<Rightarrow> path option \<Rightarrow> u64 option \<Rightarrow> set_attr \<Rightarrow> 'w \<Rightarrow> (attr, client_error) result \<times> 'w" where
  "client_setattr call p fh change = call_attr call (Setattr p fh change)"

definition client_readlink :: "'w caller \<Rightarrow> path \<Rightarrow> 'w \<Rightarrow> (u8 list, client_error) result \<times> 'w" where
  "client_readlink call p = call_bytes call (Readlink p)"

definition client_mknod :: "'w caller \<Rightarrow> path \<Rightarrow> name \<Rightarrow> u32 \<Rightarrow> u64 \<Rightarrow> 'w \<Rightarrow> (attr, client_error) result \<times> 'w" where
  "client_mknod call parent name mode rdev = call_attr call (Mknod parent name mode rdev)"

definition client_mkdir :: "'w caller \<Rightarrow> path \<Rightarrow> name \<Rightarrow> u32 \<Rightarrow> 'w \<Rightarrow> (attr, client_error) result \<times> 'w" where
  "client_mkdir call parent name mode = call_attr call (Mkdir parent name mode)"

definition client_unlink :: "'w caller \<Rightarrow> path \<Rightarrow> name \<Rightarrow> 'w \<Rightarrow> (unit, client_error) result \<times> 'w" where
  "client_unlink call parent name = call_ok call (Unlink parent name)"

definition client_rmdir :: "'w caller \<Rightarrow> path \<Rightarrow> name \<Rightarrow> 'w \<Rightarrow> (unit, client_error) result \<times> 'w" where
  "client_rmdir call parent name = call_ok call (Rmdir parent name)"

definition client_symlink :: "'w caller \<Rightarrow> path \<Rightarrow> name \<Rightarrow> u8 list \<Rightarrow> 'w \<Rightarrow> (attr, client_error) result \<times> 'w" where
  "client_symlink call parent name target = call_attr call (SymlinkAt parent name target)"

definition client_rename :: "'w caller \<Rightarrow> path \<Rightarrow> name \<Rightarrow> path \<Rightarrow> name \<Rightarrow> u32 \<Rightarrow> 'w \<Rightarrow> (unit, client_error) result \<times> 'w" where
  "client_rename call parent name newparent newname flags = call_ok call (Rename parent name newparent newname flags)"

definition client_link :: "'w caller \<Rightarrow> path \<Rightarrow> path \<Rightarrow> name \<Rightarrow> 'w \<Rightarrow> (attr, client_error) result \<times> 'w" where
  "client_link call p newparent newname = call_attr call (Link p newparent newname)"

definition client_read :: "'w caller \<Rightarrow> u64 \<Rightarrow> u64 \<Rightarrow> u32 \<Rightarrow> 'w \<Rightarrow> (u8 list, client_error) result \<times> 'w" where
  "client_read call fh offset amount = call_bytes call (Read fh offset amount)"

definition client_write :: "'w caller \<Rightarrow> u64 \<Rightarrow> u64 \<Rightarrow> u8 list \<Rightarrow> 'w \<Rightarrow> (u32, client_error) result \<times> 'w" where
  "client_write call fh offset data w =
     map_prod (expecting (\<lambda>resp. case resp of RWritten n \<Rightarrow> Some n | _ \<Rightarrow> None)) id (call (Write fh offset data) w)"

definition client_copy_file_range :: "'w caller \<Rightarrow> u64 \<Rightarrow> u64 \<Rightarrow> u64 \<Rightarrow> u64 \<Rightarrow> u64 \<Rightarrow> 'w \<Rightarrow> (u32, client_error) result \<times> 'w" where
  "client_copy_file_range call fh_in offset_in fh_out offset_out len w =
     map_prod (expecting (\<lambda>resp. case resp of RCopied n \<Rightarrow> if unat n \<le> unat len then Some n else None | _ \<Rightarrow> None)) id
       (call (CopyFileRange fh_in offset_in fh_out offset_out len) w)"

definition client_lseek :: "'w caller \<Rightarrow> u64 \<Rightarrow> u64 \<Rightarrow> whence \<Rightarrow> 'w \<Rightarrow> (u64, client_error) result \<times> 'w" where
  "client_lseek call fh offset wh w =
     map_prod (expecting (\<lambda>resp. case resp of RSeeked found \<Rightarrow> Some found | _ \<Rightarrow> None)) id (call (Lseek fh offset wh) w)"

definition client_fsync :: "'w caller \<Rightarrow> u64 \<Rightarrow> bool \<Rightarrow> 'w \<Rightarrow> (unit, client_error) result \<times> 'w" where
  "client_fsync call fh datasync = call_ok call (Fsync fh datasync)"

definition client_readdir :: "'w caller \<Rightarrow> u64 \<Rightarrow> u64 \<Rightarrow> u32 \<Rightarrow> 'w \<Rightarrow> (dir_entry list \<times> bool, client_error) result \<times> 'w" where
  "client_readdir call fh offset max_bytes w =
     map_prod (expecting (\<lambda>resp. case resp of RReaddir es end' \<Rightarrow> Some (es, end') | _ \<Rightarrow> None)) id
       (call (Readdir fh offset max_bytes) w)"

definition client_statfs :: "'w caller \<Rightarrow> path \<Rightarrow> 'w \<Rightarrow> (statfs, client_error) result \<times> 'w" where
  "client_statfs call p w =
     map_prod (expecting (\<lambda>resp. case resp of RStatfs s \<Rightarrow> Some s | _ \<Rightarrow> None)) id (call (Statfs p) w)"

definition client_setxattr :: "'w caller \<Rightarrow> path \<Rightarrow> u8 list \<Rightarrow> u8 list \<Rightarrow> u32 \<Rightarrow> 'w \<Rightarrow> (unit, client_error) result \<times> 'w" where
  "client_setxattr call p name val flags = call_ok call (Setxattr p name val flags)"

definition client_getxattr :: "'w caller \<Rightarrow> path \<Rightarrow> u8 list \<Rightarrow> 'w \<Rightarrow> (u8 list, client_error) result \<times> 'w" where
  "client_getxattr call p name = call_bytes call (Getxattr p name)"

definition client_listxattr :: "'w caller \<Rightarrow> path \<Rightarrow> 'w \<Rightarrow> (u8 list, client_error) result \<times> 'w" where
  "client_listxattr call p = call_bytes call (Listxattr p)"

definition client_removexattr :: "'w caller \<Rightarrow> path \<Rightarrow> u8 list \<Rightarrow> 'w \<Rightarrow> (unit, client_error) result \<times> 'w" where
  "client_removexattr call p name = call_ok call (Removexattr p name)"

definition client_access :: "'w caller \<Rightarrow> path \<Rightarrow> u32 \<Rightarrow> 'w \<Rightarrow> (unit, client_error) result \<times> 'w" where
  "client_access call p amode = call_ok call (Access p amode)"

subsection \<open>Preallocation\<close>

text \<open>
  \<open>fallocate\<close>: one request for every \<open>MAX_FALLOCATE\<close> of the range, in order.  What is done of the
  range is a natural number, and an offset is a \<open>u64\<close>.  No more than the range is ever done, so the
  loop's end, with all of it done, is written as at least that.
\<close>

function fallocate_from :: "'w caller \<Rightarrow> u64 \<Rightarrow> u64 \<Rightarrow> nat \<Rightarrow> u32 \<Rightarrow> nat \<Rightarrow> 'w \<Rightarrow> (unit, client_error) result \<times> 'w" where
  "fallocate_from call fh offset len mode fin w =
     (let chunk = min (len - fin) MAX_FALLOCATE;
          (r, w') = call_ok call (Fallocate fh (offset + word_of_nat fin) (word_of_nat chunk) mode) w
      in case r of
           Inl e \<Rightarrow> (Err e, w')
         | Inr _ \<Rightarrow> if fin + chunk \<ge> len then (Ok (), w')
                    else fallocate_from call fh offset len mode (fin + chunk) w')"
  by pat_completeness auto
termination
  by (relation "measure (\<lambda>(call, fh, offset, len, mode, fin, w). len - fin)")
    (auto simp: MAX_FALLOCATE_def min_def)

declare fallocate_from.simps [simp del]

definition client_fallocate :: "'w caller \<Rightarrow> u64 \<Rightarrow> u64 \<Rightarrow> u64 \<Rightarrow> u32 \<Rightarrow> 'w \<Rightarrow> (unit, client_error) result \<times> 'w" where
  "client_fallocate call fh offset len mode w = fallocate_from call fh offset (unat len) mode 0 w"

subsection \<open>Handles\<close>

text \<open>
  \<open>open_handle\<close>, from its call's result on; None where the source is unreachable.  The node of the
  file is \<open>node\<close>'s to say or refuse.
\<close>

definition open_handle_ends :: "u64 \<Rightarrow> path \<Rightarrow> u32 \<Rightarrow> handle_kind \<Rightarrow> opener option \<Rightarrow>
    (attr \<Rightarrow> (u64, client_error) result) \<Rightarrow> (response, client_error) result \<Rightarrow> handle_table \<Rightarrow>
    ((u64 \<times> attr, client_error) result \<times> handle_table) option" where
  "open_handle_ends fh p flags kind opn node opened t =
     (let owed = (\<lambda>e. map_option (\<lambda>t'. (Err e, t')) (owe_release (release_request kind fh) t))
      in case (open_settled opened, opened) of
           (Keep, Inr (ROpened a)) \<Rightarrow>
             (case node a of
                Inr nodeid \<Rightarrow> Some (Ok (fh, a), insert_handle fh nodeid (key_of a) p flags kind opn t)
              | Inl e \<Rightarrow> owed e)
         | (Owe, Inr other) \<Rightarrow> owed (unexpected other)
         | (Owe, Inl e) \<Rightarrow> owed e
         | (Nothing, Inl e) \<Rightarrow> Some (Err e, t)
         | _ \<Rightarrow> None)"

definition open_handle :: "handle_table caller \<Rightarrow> path \<Rightarrow> u32 \<Rightarrow> handle_kind \<Rightarrow> opener option \<Rightarrow>
    (u64 \<Rightarrow> request) \<Rightarrow> (attr \<Rightarrow> (u64, client_error) result) \<Rightarrow> handle_table \<Rightarrow>
    ((u64 \<times> attr, client_error) result \<times> handle_table) option" where
  "open_handle call p flags kind opn build node t =
     (let (t1, fh) = alloc t;
          (opened, t2) = call (build fh) t1
      in open_handle_ends fh p flags kind opn node opened t2)"

definition client_open :: "handle_table caller \<Rightarrow> path \<Rightarrow> u32 \<Rightarrow> opener option \<Rightarrow>
    (attr \<Rightarrow> (u64, client_error) result) \<Rightarrow> handle_table \<Rightarrow> ((u64 \<times> attr, client_error) result \<times> handle_table) option" where
  "client_open call p flags opn node = open_handle call p flags KFile opn (\<lambda>fh. Open fh p flags) node"

definition client_create :: "handle_table caller \<Rightarrow> path \<Rightarrow> name \<Rightarrow> u32 \<Rightarrow> u32 \<Rightarrow> opener option \<Rightarrow>
    (attr \<Rightarrow> (u64, client_error) result) \<Rightarrow> handle_table \<Rightarrow> ((u64 \<times> attr, client_error) result \<times> handle_table) option" where
  "client_create call parent name mode flags opn node t =
     (case join parent name of
        Inl _ \<Rightarrow> Some (Err (Remote ENAMETOOLONG), t)
      | Inr p \<Rightarrow> open_handle call p flags KFile opn (\<lambda>fh. Create fh parent name mode flags) node t)"

definition client_opendir :: "handle_table caller \<Rightarrow> path \<Rightarrow> opener option \<Rightarrow>
    (attr \<Rightarrow> (u64, client_error) result) \<Rightarrow> handle_table \<Rightarrow> ((u64 \<times> attr, client_error) result \<times> handle_table) option" where
  "client_opendir call p opn node = open_handle call p (O_RDONLY OR O_DIRECTORY) KDir opn (\<lambda>fh. Opendir fh p) node"

text \<open>\<open>Caller::release\<close>, from its call's result on, and the kernel's release of a handle.\<close>

definition release_ends :: "request \<Rightarrow> (response, client_error) result \<Rightarrow> handle_table \<Rightarrow>
    ((unit, client_error) result \<times> handle_table) option" where
  "release_ends req released t =
     map_option (\<lambda>t'. (expecting want_ok released, t'))
       (if release_owed released then owe_release req t else Some t)"

definition caller_release :: "handle_table caller \<Rightarrow> request \<Rightarrow> handle_table \<Rightarrow>
    ((unit, client_error) result \<times> handle_table) option" where
  "caller_release call req t = (let (released, t') = call req t in release_ends req released t')"

definition client_release :: "handle_table caller \<Rightarrow> u64 \<Rightarrow> handle_table \<Rightarrow>
    ((unit, client_error) result \<times> handle_table) option" where
  "client_release call fh t =
     (let (t', tell) = release_begins fh t
      in if \<not> tell then Some (Ok (), t') else caller_release call (Release fh False) t')"

definition client_releasedir :: "handle_table caller \<Rightarrow> u64 \<Rightarrow> handle_table \<Rightarrow>
    ((unit, client_error) result \<times> handle_table) option" where
  "client_releasedir call fh t =
     (let (t', tell) = release_begins fh t
      in if \<not> tell then Some (Ok (), t') else caller_release call (Releasedir fh False) t')"

subsection \<open>What a preallocation asks for\<close>

text \<open>A caller that keeps the requests made.\<close>

definition logged :: "'w caller \<Rightarrow> (request list \<times> 'w) caller" where
  "logged call req = (\<lambda>(log, w). let (r, w') = call req w in (r, (log @ [req], w')))"

definition n_chunks :: "nat \<Rightarrow> nat" where
  "n_chunks len = max 1 (div_ceil len MAX_FALLOCATE)"

definition chunk_len :: "nat \<Rightarrow> nat \<Rightarrow> nat" where
  "chunk_len len i = min (len - i * MAX_FALLOCATE) MAX_FALLOCATE"

definition chunk_req :: "u64 \<Rightarrow> u64 \<Rightarrow> nat \<Rightarrow> u32 \<Rightarrow> nat \<Rightarrow> request" where
  "chunk_req fh offset len mode i =
     Fallocate fh (offset + word_of_nat (i * MAX_FALLOCATE)) (word_of_nat (chunk_len len i)) mode"

lemma MAX_FALLOCATE_pos [simp]: "0 < MAX_FALLOCATE"
  by (simp add: MAX_FALLOCATE_def)

lemma last_chunk: "i < n_chunks len \<Longrightarrow> Suc i = n_chunks len \<longleftrightarrow> len \<le> Suc i * MAX_FALLOCATE"
proof -
  assume i: "i < n_chunks len"
  have "div_ceil len MAX_FALLOCATE \<le> Suc i \<longleftrightarrow> len \<le> Suc i * MAX_FALLOCATE"
  proof -
    have "(len + MAX_FALLOCATE - 1) div MAX_FALLOCATE \<le> Suc i \<longleftrightarrow>
        len + MAX_FALLOCATE - 1 < Suc (Suc i) * MAX_FALLOCATE"
      by (metis MAX_FALLOCATE_pos div_less_iff_less_mult less_Suc_eq_le)
    then show ?thesis using MAX_FALLOCATE_pos by (auto simp: div_ceil_def)
  qed
  with i show ?thesis by (auto simp: n_chunks_def)
qed

lemma fallocate_from_asks:
  assumes "fallocate_from (logged call) fh offset len mode fin (log, w) = (r, (log', w'))"
    and "fin = i * MAX_FALLOCATE" and "i < n_chunks len"
  shows "\<exists>k. i < k \<and> k \<le> n_chunks len \<and> log' = log @ map (chunk_req fh offset len mode) [i..<k] \<and>
    (r = Ok () \<longrightarrow> k = n_chunks len)"
  using assms
proof (induction "n_chunks len - i" arbitrary: i fin log w)
  case 0
  then show ?case by simp
next
  case (Suc m)
  let ?req = "chunk_req fh offset len mode i"
  obtain r1 w1 where call: "call ?req w = (r1, w1)" by (metis prod.exhaust)
  have step: "fallocate_from (logged call) fh offset len mode fin (log, w) =
    (case expecting want_ok r1 of
       Inl e \<Rightarrow> (Err e, (log @ [?req], w1))
     | Inr _ \<Rightarrow> if Suc i = n_chunks len then (Ok (), (log @ [?req], w1))
         else fallocate_from (logged call) fh offset len mode (Suc i * MAX_FALLOCATE) (log @ [?req], w1))"
  proof -
    have ends: "len \<le> fin + chunk_len len i \<longleftrightarrow> Suc i = n_chunks len"
      unfolding last_chunk [OF Suc.prems(3)] using Suc.prems(2) by (auto simp: chunk_len_def)
    have "\<not> len \<le> fin + chunk_len len i \<Longrightarrow> fin + chunk_len len i = Suc i * MAX_FALLOCATE"
      using Suc.prems(2) by (auto simp: chunk_len_def)
    then show ?thesis
      using call Suc.prems(2) ends
      by (subst fallocate_from.simps)
        (auto simp: logged_def call_ok_def chunk_req_def chunk_len_def [symmetric] add.commute [of MAX_FALLOCATE]
          split: sum.split)
  qed
  show ?case
  proof (cases "is_ok (expecting want_ok r1) \<and> Suc i \<noteq> n_chunks len")
    case True
    then have "\<exists>k. Suc i < k \<and> k \<le> n_chunks len \<and>
        log' = (log @ [?req]) @ map (chunk_req fh offset len mode) [Suc i..<k] \<and> (r = Ok () \<longrightarrow> k = n_chunks len)"
      using Suc.hyps(2) Suc.prems step
      by (intro Suc.hyps(1) [of "Suc i"]) (auto split: sum.splits)
    then obtain k where k: "Suc i < k" "k \<le> n_chunks len" "r = Ok () \<longrightarrow> k = n_chunks len"
      "log' = log @ ?req # map (chunk_req fh offset len mode) [Suc i..<k]"
      by auto
    then have "log' = log @ map (chunk_req fh offset len mode) [i..<k]"
      by (simp add: upt_conv_Cons [of i k])
    with k show ?thesis by (intro exI [of _ k]) simp
  next
    case False
    then show ?thesis
      using Suc.prems step by (intro exI [of _ "Suc i"]) (auto split: sum.splits if_splits)
  qed
qed

text \<open>The chunks are the range: each of at most \<open>MAX_FALLOCATE\<close>, and together as long as it.\<close>

lemma chunk_sum: "k \<le> n_chunks len \<Longrightarrow> (\<Sum>i<k. chunk_len len i) = min len (k * MAX_FALLOCATE)"
  by (induction k) (auto simp: chunk_len_def)

lemma chunks_cover: "(\<Sum>i<n_chunks len. chunk_len len i) = len"
proof -
  have "0 < n_chunks len" by (simp add: n_chunks_def)
  then have "len \<le> n_chunks len * MAX_FALLOCATE"
    using last_chunk [of "n_chunks len - 1" len] by simp
  then show ?thesis using chunk_sum [of "n_chunks len" len] by simp
qed

text \<open>
   A preallocation asks for its range in consecutive parts of at most \<open>MAX_FALLOCATE\<close>, in order
  and each once, that add up to the range; it stops at the first that fails, and succeeds only when
  the last of them did.
\<close>

theorem fallocate_covers:
  assumes "client_fallocate (logged call) fh offset len mode ([], w) = (r, (log, w'))"
  shows "\<exists>k. 0 < k \<and> k \<le> n_chunks (unat len) \<and> log = map (chunk_req fh offset (unat len) mode) [0..<k] \<and>
      (r = Ok () \<longrightarrow> k = n_chunks (unat len)) \<and>
      (\<Sum>i<n_chunks (unat len). chunk_len (unat len) i) = unat len \<and>
      chunk_len (unat len) i \<le> MAX_FALLOCATE"
proof -
  have "0 < n_chunks (unat len)" by (simp add: n_chunks_def)
  moreover have "chunk_len (unat len) i \<le> MAX_FALLOCATE" by (simp add: chunk_len_def)
  ultimately show ?thesis
    using fallocate_from_asks [OF assms [unfolded client_fallocate_def], of 0] chunks_cover by auto
qed

theorem fallocate_covers_witness:
  "\<exists>log. client_fallocate (logged (\<lambda>req w. (Ok ROk, w))) 1 0 10 0 ([], ()) = (Ok (), (log, ())) \<and>
     log = [Fallocate 1 0 10 0]"
proof -
  have run: "client_fallocate (logged (\<lambda>req w. (Ok ROk, w))) 1 0 10 0 ([], ()) = (Ok (), ([Fallocate 1 0 10 0], ()))"
    by (simp add: client_fallocate_def fallocate_from.simps logged_def call_ok_def expecting_def want_ok_def
        MAX_FALLOCATE_def)
  from fallocate_covers [OF run] run show ?thesis by blast
qed

end
