(* ===== verification/Mount.thy ===== *)
theory Mount
  imports Client
begin

text \<open>
  A mount's handles over time: the steps of \<open>client.rs\<close> and \<open>conn.rs\<close> on the handle table, in any
  order the program can take them.  Beside the table, a state has the opens and the kernel's releases
  in progress (each release with the number of the session it began in), the round of reopens, the
  connection, and two sets only the proofs speak of: the handles the session's server may hold, and
  those the round began with.
\<close>

subsection \<open>State and steps\<close>

record mount =
  mt_table :: handle_table
  mt_opening :: "u64 set"
  mt_releasing :: "u64 \<rightharpoonup> nat"
  mt_round :: "reopen_round option"
  mt_generation :: nat
  mt_conn :: "attached_state option"
  mt_session :: nat
  mt_held :: "u64 set"
  mt_began :: "u64 set"

definition mount_start :: mount where
  "mount_start = \<lparr>mt_table = table_default, mt_opening = {}, mt_releasing = Map.empty, mt_round = None,
     mt_generation = 0, mt_conn = None, mt_session = 0, mt_held = {}, mt_began = {}\<rparr>"

definition mount_init :: "mount \<Rightarrow> bool" where
  "mount_init m \<longleftrightarrow> m = mount_start"

text \<open>An open takes its id; the server may hold the handle from then on, until it refuses the open.\<close>

definition open_starts :: "mount \<Rightarrow> mount \<times> u64" where
  "open_starts m =
     (let (t, fh) = alloc (mt_table m)
      in (m\<lparr>mt_table := t, mt_opening := insert fh (mt_opening m), mt_held := insert fh (mt_held m)\<rparr>, fh))"

definition open_returns :: "u64 \<Rightarrow> path \<Rightarrow> u32 \<Rightarrow> handle_kind \<Rightarrow> opener option \<Rightarrow>
    (attr \<Rightarrow> (u64, client_error) result) \<Rightarrow> (response, client_error) result \<Rightarrow> mount \<Rightarrow> mount option" where
  "open_returns fh p flags kind opn node opened m =
     map_option (\<lambda>(r, t). m\<lparr>mt_table := t, mt_opening := mt_opening m - {fh},
         mt_held := if open_settled opened = Nothing then mt_held m - {fh} else mt_held m\<rparr>)
       (open_handle_ends fh p flags kind opn node opened (mt_table m))"

definition release_starts :: "u64 \<Rightarrow> mount \<Rightarrow> mount" where
  "release_starts fh m =
     (let (t, tell) = release_begins fh (mt_table m)
      in m\<lparr>mt_table := t,
           mt_releasing := if tell then (mt_releasing m)(fh \<mapsto> mt_session m) else mt_releasing m\<rparr>)"

text \<open>
  A release that the session's own server answered, of a handle whose release is not owed as well,
  leaves the server without it.
\<close>

definition kernel_release :: "handle_kind \<Rightarrow> u64 \<Rightarrow> request" where
  "kernel_release kind fh = (case kind of KFile \<Rightarrow> Release fh False | KDir \<Rightarrow> Releasedir fh False)"

definition release_returns :: "handle_kind \<Rightarrow> u64 \<Rightarrow> nat \<Rightarrow> (response, client_error) result \<Rightarrow> mount \<Rightarrow> mount option" where
  "release_returns kind fh session released m =
     map_option (\<lambda>(r, t). m\<lparr>mt_table := t, mt_releasing := (mt_releasing m)(fh := None),
         mt_held := if \<not> release_owed released \<and> session = mt_session m \<and> ht_owed (mt_table m) fh = None
                    then mt_held m - {fh} else mt_held m\<rparr>)
       (release_ends (kernel_release kind fh) released (mt_table m))"

definition owed_starts :: "u64 \<Rightarrow> mount \<Rightarrow> mount option" where
  "owed_starts fh m =
     map_option (\<lambda>(t, req). m\<lparr>mt_table := t\<rparr>) (owed_send fh (mt_generation m) (mt_table m))"

definition owed_returns :: "u64 \<Rightarrow> nat \<Rightarrow> mount \<Rightarrow> mount" where
  "owed_returns fh generation m =
     m\<lparr>mt_table := owed_delivered fh generation (mt_table m),
       mt_held := if map_option or_sending_on (ht_owed (mt_table m) fh) = Some (Some generation)
                  then mt_held m - {fh} else mt_held m\<rparr>"

text \<open>
  The connection manager: the connection ends; the next one resumes the session or begins a new one,
  first killing every handle if the export is another directory.  A new session's server holds only
  what the opens in progress are sent to it for, and what the round reopens.
\<close>

definition conn_ends :: "mount \<Rightarrow> mount" where
  "conn_ends m =
     m\<lparr>mt_table := owed_connection_ended (mt_generation m) (mt_table m), mt_conn := None\<rparr>"

definition conn_resumes :: "bool \<Rightarrow> u64 list \<Rightarrow> mount \<Rightarrow> mount" where
  "conn_resumes replaced order m =
     (let g = mt_generation m + 1
      in m\<lparr>mt_table := (if replaced then kill_all order (mt_table m) else mt_table m),
           mt_generation := g, mt_conn := Some (publish (attached_new g))\<rparr>)"

definition conn_new_session :: "bool \<Rightarrow> u64 list \<Rightarrow> mount \<Rightarrow> mount" where
  "conn_new_session replaced order m =
     (let g = mt_generation m + 1;
          t = owed_moot (if replaced then kill_all order (mt_table m) else mt_table m)
      in m\<lparr>mt_table := t, mt_generation := g, mt_conn := Some (attached_new g),
           mt_session := mt_session m + 1, mt_round := Some (round_new order t),
           mt_held := mt_opening m, mt_began := live_ids t\<rparr>)"

definition reopen_starts :: "u64 \<Rightarrow> mount \<Rightarrow> mount option" where
  "reopen_starts fh m =
     Option.bind (mt_round m) (\<lambda>r. map_option
       (\<lambda>(r', req). m\<lparr>mt_round := Some r', mt_held := insert fh (mt_held m)\<rparr>) (round_send fh (mt_table m) r))"

definition reopen_returns :: "u64 \<Rightarrow> (response, client_error) result \<Rightarrow> mount \<Rightarrow> mount option" where
  "reopen_returns fh outcome m =
     Option.bind (mt_round m) (\<lambda>r. map_option
       (\<lambda>(t, r'). m\<lparr>mt_table := t, mt_round := Some r'\<rparr>) (round_ended fh outcome (mt_table m) r))"

definition conn_publishes :: "mount \<Rightarrow> mount" where
  "conn_publishes m = m\<lparr>mt_round := None, mt_conn := map_option publish (mt_conn m)\<rparr>"

text \<open>
  An open is refused only by the server, with an errno: one given up on, or whose reply is lost, is
  not refused, an open names no owner that could have no counterpart and no handle that could be
  stale, and the mount has not ended.  A release is never interrupted, and names no handle of the
  table; it is answered by the session it began in or a later one, by which time a new session's
  round is over.
\<close>

inductive mount_step :: "mount \<Rightarrow> mount \<Rightarrow> bool" where
  StepOpen: "unat (ht_next (mt_table m)) + 1 < 2 ^ 64 \<Longrightarrow> mount_step m (fst (open_starts m))"
| StepOpened: "fh \<in> mt_opening m \<Longrightarrow> (open_settled opened = Nothing \<Longrightarrow> \<exists>e. opened = Err (Remote e)) \<Longrightarrow>
    open_returns fh p flags kind opn node opened m = Some m' \<Longrightarrow> mount_step m m'"
| StepRelease: "fh \<in> dom (ht_map (mt_table m)) \<Longrightarrow> mount_step m (release_starts fh m)"
| StepReleased: "mt_releasing m fh = Some b \<Longrightarrow> b \<le> s \<Longrightarrow> s \<le> mt_session m \<Longrightarrow>
    released \<notin> {Err Interrupted, Err Stale, Err Closed, Err Unmapped} \<Longrightarrow>
    (\<not> release_owed released \<Longrightarrow> s = mt_session m \<Longrightarrow> mt_round m = None) \<Longrightarrow>
    release_returns kind fh s released m = Some m' \<Longrightarrow> mount_step m m'"
| StepOwedSend: "mt_conn m = Some c \<Longrightarrow> fh \<in> set (owed_sendable (mt_table m) c (at_cancels c)) \<Longrightarrow>
    owed_starts fh m = Some m' \<Longrightarrow> mount_step m m'"
| StepOwedAnswered: "mount_step m (owed_returns fh g m)"
| StepCancel: "mt_conn m = Some c \<Longrightarrow> mount_step m (m\<lparr>mt_conn := Some (cancel_count c)\<rparr>)"
| StepCancelAnswered: "mt_conn m = Some c \<Longrightarrow> cancel_drop c = Some c' \<Longrightarrow> mount_step m (m\<lparr>mt_conn := Some c'\<rparr>)"
| StepConnEnds: "mt_round m = None \<Longrightarrow> mount_step m (conn_ends m)"
| StepResumes: "mt_conn m = None \<Longrightarrow> set order = dom (ht_map (mt_table m)) \<Longrightarrow>
    mount_step m (conn_resumes replaced order m)"
| StepNewSession: "mt_conn m = None \<Longrightarrow> set order = dom (ht_map (mt_table m)) \<Longrightarrow>
    mount_step m (conn_new_session replaced order m)"
| StepReopen: "reopen_starts fh m = Some m' \<Longrightarrow> mount_step m m'"
| StepReopened: "reopen_returns fh outcome m = Some m' \<Longrightarrow> mount_step m m'"
| StepPublish: "mt_round m = Some r \<Longrightarrow> publishable r \<Longrightarrow> mount_step m (conn_publishes m)"

subsection \<open>The invariant\<close>

definition sending_ids :: "reopen_round option \<Rightarrow> u64 set" where
  "sending_ids ro = (case ro of None \<Rightarrow> {} | Some r \<Rightarrow> dom (rr_sending r))"

text \<open>Every handle the server may hold is being opened, being released, owed a release, or open here.\<close>

definition accounted :: "mount \<Rightarrow> bool" where
  "accounted m \<longleftrightarrow> mt_held m \<subseteq> mt_opening m \<union> {fh. mt_releasing m fh = Some (mt_session m)} \<union>
     dom (ht_owed (mt_table m)) \<union> live_ids (mt_table m) \<union> sending_ids (mt_round m)"

text \<open>A round's records are those of the table, where it still has them, and of no other handle.\<close>

definition own_address :: "handle_table \<Rightarrow> u64 \<Rightarrow> nat \<Rightarrow> bool" where
  "own_address t fh a \<longleftrightarrow> a \<in> dom (ht_heap t) \<and> {x. ht_map t x = Some a} \<subseteq> {fh} \<and>
     ht_map t fh \<in> {None, Some a}"

definition in_round :: "reopen_round option \<Rightarrow> u64 \<Rightarrow> nat \<Rightarrow> bool" where
  "in_round ro fh a \<longleftrightarrow> (\<exists>r. ro = Some r \<and> (rr_unsent r fh = Some a \<or> rr_sending r fh = Some a))"

definition round_recs :: "mount \<Rightarrow> bool" where
  "round_recs m \<longleftrightarrow> (\<forall>fh a. in_round (mt_round m) fh a \<longrightarrow> fh \<in> mt_began m \<and> own_address (mt_table m) fh a)"

text \<open>What became of each handle a round began with.\<close>

definition settled :: "handle_table \<Rightarrow> reopen_round \<Rightarrow> u64 \<Rightarrow> bool" where
  "settled t r fh \<longleftrightarrow> fh \<in> dom (rr_unsent r) \<or> fh \<in> dom (rr_sending r) \<or>
     fh \<in> rr_reopened r \<and> (fh \<in> live_ids t \<or> ht_map t fh = None) \<or> fh \<in> dom (ht_owed t)"

definition round_settled :: "mount \<Rightarrow> bool" where
  "round_settled m \<longleftrightarrow> (\<forall>r fh. mt_round m = Some r \<longrightarrow> fh \<in> mt_began m \<longrightarrow> settled (mt_table m) r fh)"

text \<open>A release owed is being sent only on the connection that is up and published.\<close>

definition sends_ok :: "mount \<Rightarrow> bool" where
  "sends_ok m \<longleftrightarrow>
     (\<forall>fh o' g. ht_owed (mt_table m) fh = Some o' \<longrightarrow> or_sending_on o' = Some g \<longrightarrow>
        g = mt_generation m \<and> (\<exists>c. mt_conn m = Some c \<and> at_published c)) \<and>
     (\<forall>r. mt_round m = Some r \<longrightarrow> (\<exists>c. mt_conn m = Some c \<and> \<not> at_published c))"

definition given_ids :: "mount \<Rightarrow> u64 set" where
  "given_ids m = {fh. 0 < unat fh \<and> unat fh \<le> unat (ht_next (mt_table m))}"

definition ids_ok :: "mount \<Rightarrow> bool" where
  "ids_ok m \<longleftrightarrow>
     mt_opening m \<union> dom (ht_map (mt_table m)) \<union> dom (ht_owed (mt_table m)) \<union> dom (mt_releasing m) \<union>
       mt_began m \<union> mt_held m \<subseteq> given_ids m \<and>
     mt_opening m \<inter> (dom (ht_map (mt_table m)) \<union> mt_began m) = {}"

definition mount_ok :: "mount \<Rightarrow> bool" where
  "mount_ok m \<longleftrightarrow> table_ok_counts (mt_table m) \<and> own_recs (mt_table m) \<and>
     (\<forall>fh b. mt_releasing m fh = Some b \<longrightarrow> b \<le> mt_session m) \<and>
     accounted m \<and> round_recs m \<and> round_settled m \<and> sends_ok m \<and> ids_ok m"

lemmas mount_parts = accounted_def round_recs_def round_settled_def sends_ok_def ids_ok_def given_ids_def
  sending_ids_def

subsection \<open>Every step keeps it\<close>

lemma mount_okD:
  assumes "mount_ok m"
  shows "table_ok_counts (mt_table m)" "own_recs (mt_table m)"
    "\<And>fh b. mt_releasing m fh = Some b \<Longrightarrow> b \<le> mt_session m"
    "accounted m" "round_recs m" "round_settled m" "sends_ok m" "ids_ok m"
  using assms unfolding mount_ok_def by blast+

lemma mount_okI:
  assumes "table_ok_counts (mt_table m)" "own_recs (mt_table m)"
    "\<And>fh b. mt_releasing m fh = Some b \<Longrightarrow> b \<le> mt_session m"
    "accounted m" "round_recs m" "round_settled m" "sends_ok m" "ids_ok m"
  shows "mount_ok m"
  using assms unfolding mount_ok_def by blast

lemma live_in_map: "live_ids t \<subseteq> dom (ht_map t)"
  by (auto simp: live_ids_iff)

lemma own_recs_same: "ht_map t' = ht_map t \<Longrightarrow> own_recs t \<Longrightarrow> own_recs t'"
  by (simp add: own_recs_def)

lemma owe_kernel_release [simp]: "owe_release (kernel_release kind fh) t = Some (owe kind fh t)"
  by (cases kind) (simp_all add: owe_release_def owe_def release_request_def kernel_release_def)

text \<open>Steps that leave the records as they are: what is asked of the rest of the state.\<close>

lemma heap_ok_less: "heap_ok t \<Longrightarrow> a \<in> dom (ht_heap t) \<Longrightarrow> a < ht_fresh t"
  unfolding heap_ok_def by blast

lemma own_address_mono:
  assumes "own_address t fh a" "dom (ht_heap t) \<subseteq> dom (ht_heap t')"
    and "\<And>x a. ht_map t' x = Some a \<Longrightarrow> ht_map t x = Some a"
  shows "own_address t' fh a"
proof -
  have "{x. ht_map t' x = Some a} \<subseteq> {x. ht_map t x = Some a}" using assms(3) by blast
  moreover have "ht_map t' fh = None \<or> ht_map t' fh = ht_map t fh"
    using assms(3) by (cases "ht_map t' fh") auto
  ultimately show ?thesis using assms(1,2) unfolding own_address_def by auto
qed

lemma round_recs_mono:
  assumes "round_recs m" "\<And>x a. in_round (mt_round m') x a \<Longrightarrow> in_round (mt_round m) x a" "mt_began m' = mt_began m"
    and "dom (ht_heap (mt_table m)) \<subseteq> dom (ht_heap (mt_table m'))"
    and "\<And>x a. ht_map (mt_table m') x = Some a \<Longrightarrow> ht_map (mt_table m) x = Some a"
  shows "round_recs m'"
  using assms own_address_mono unfolding round_recs_def by metis

lemma mount_ok_same_recs:
  assumes "mount_ok m" and same: "same_recs (mt_table m) (mt_table m')"
    and "mt_round m' = mt_round m" "mt_began m' = mt_began m" "mt_session m' = mt_session m"
      "mt_opening m' = mt_opening m" "ht_next (mt_table m') = ht_next (mt_table m)"
    and rel: "\<And>fh b. mt_releasing m' fh = Some b \<Longrightarrow> mt_releasing m fh = Some b"
    and "accounted m'" "sends_ok m'"
    and owed: "mt_round m = None \<or> dom (ht_owed (mt_table m)) \<subseteq> dom (ht_owed (mt_table m'))"
    and new: "dom (ht_owed (mt_table m')) \<subseteq> given_ids m" "mt_held m' \<subseteq> mt_held m"
  shows "mount_ok m'"
proof -
  have tab: "ht_map (mt_table m') = ht_map (mt_table m)" "ht_heap (mt_table m') = ht_heap (mt_table m)"
    "live_ids (mt_table m') = live_ids (mt_table m)"
    using same same_recs_live [OF same] by (simp_all add: same_recs_def)
  have "table_ok_counts (mt_table m')" "own_recs (mt_table m')"
    using same_recs_ok [OF same] own_recs_same [OF tab(1)] mount_okD(1,2) [OF assms(1)] by blast+
  moreover have "round_recs m'"
    using assms(3,4) tab by (intro round_recs_mono [OF mount_okD(5) [OF assms(1)]]) simp_all
  moreover have "b \<le> mt_session m'" if "mt_releasing m' fh = Some b" for fh b
    using mount_okD(3) [OF assms(1) rel [OF that]] assms(5) by simp
  moreover have "round_settled m'"
    unfolding round_settled_def assms(3,4)
  proof (intro allI impI)
    fix r fh
    assume r: "mt_round m = Some r" "fh \<in> mt_began m"
    then have "settled (mt_table m) r fh"
      using mount_okD(6) [OF assms(1)] by (simp add: round_settled_def)
    moreover from r owed have "dom (ht_owed (mt_table m)) \<subseteq> dom (ht_owed (mt_table m'))"
      by simp
    ultimately show "settled (mt_table m') r fh"
      unfolding settled_def tab by auto
  qed
  moreover have "ids_ok m'"
  proof -
    have "dom (mt_releasing m') \<subseteq> dom (mt_releasing m)" using rel by blast
    moreover have "given_ids m' = given_ids m" by (simp add: given_ids_def assms(7))
    ultimately show ?thesis
      using mount_okD(8) [OF assms(1)] new unfolding ids_ok_def assms(4,6) tab by blast
  qed
  ultimately show ?thesis using assms(9,10) by (intro mount_okI) auto
qed

lemma mount_ok_open_starts:
  assumes "mount_ok m" and "unat (ht_next (mt_table m)) + 1 < 2 ^ 64"
  shows "mount_ok (fst (open_starts m))"
proof -
  let ?t = "mt_table m" and ?m = "fst (open_starts m)"
  have next': "unat (ht_next ?t + 1) = unat (ht_next ?t) + 1"
    using assms(2) by (simp add: unat_word_ariths)
  have m: "mt_table ?m = fst (alloc ?t)" "mt_opening ?m = insert (ht_next ?t + 1) (mt_opening m)"
    "mt_held ?m = insert (ht_next ?t + 1) (mt_held m)" "mt_releasing ?m = mt_releasing m"
    "mt_round ?m = mt_round m" "mt_began ?m = mt_began m" "mt_session ?m = mt_session m"
    "mt_conn ?m = mt_conn m" "mt_generation ?m = mt_generation m"
    by (simp_all add: open_starts_def alloc_def)
  have same: "same_recs ?t (fst (alloc ?t))" by (rule same_recs_ops)
  have new: "ht_next ?t + 1 \<notin> given_ids m" using next' by (simp add: given_ids_def)
  have given: "given_ids ?m = insert (ht_next ?t + 1) (given_ids m)"
    unfolding given_ids_def m by (auto simp: alloc_def next' word_unat_eq_iff)
  have map: "ht_map (fst (alloc ?t)) = ht_map ?t" "ht_heap (fst (alloc ?t)) = ht_heap ?t"
    by (simp_all add: alloc_def)
  have "ids_ok ?m"
    using mount_okD(8) [OF assms(1)] new given unfolding ids_ok_def m map by auto
  moreover have "accounted ?m"
    using mount_okD(4) [OF assms(1)] same_recs_live [OF same] unfolding accounted_def m by auto
  moreover have "round_recs ?m"
    by (intro round_recs_mono [OF mount_okD(5) [OF assms(1)]]) (simp_all add: m map)
  moreover have "round_settled ?m" "sends_ok ?m"
    using mount_okD(6,7) [OF assms(1)] same_recs_live [OF same]
    unfolding round_settled_def settled_def sends_ok_def m map by simp_all
  ultimately show ?thesis
    using same_recs_ok [OF same] own_recs_same [OF map(1)] mount_okD(1-3) [OF assms(1)]
    by (intro mount_okI) (auto simp: m)
qed

lemma mount_ok_insert:
  assumes ok: "mount_ok m" and fh: "fh \<in> mt_opening m" and alive: "\<not> hr_dead r"
  shows "mount_ok (m\<lparr>mt_table := insert_rec fh r (mt_table m), mt_opening := mt_opening m - {fh}\<rparr>)"
    (is "mount_ok ?m")
proof -
  let ?t = "mt_table m"
  have heap: "heap_ok ?t" using mount_okD(1) [OF ok] by (simp add: table_ok_counts_def)
  have fresh: "ht_map ?t x \<noteq> Some (ht_fresh ?t)" for x using heap_ok_fresh [OF heap] .
  have tab: "ht_map (insert_rec fh r ?t) = (ht_map ?t)(fh \<mapsto> ht_fresh ?t)"
    "ht_heap (insert_rec fh r ?t) = (ht_heap ?t)(ht_fresh ?t \<mapsto> r)"
    "ht_owed (insert_rec fh r ?t) = ht_owed ?t" "ht_next (insert_rec fh r ?t) = ht_next ?t"
    by (simp_all add: insert_rec_def Let_def)
  have live: "live_ids (insert_rec fh r ?t) = insert fh (live_ids ?t)"
    using live_ids_insert_rec [OF heap alive] .
  have ids: "fh \<notin> mt_began m" "ht_map ?t fh = None" "fh \<in> given_ids m"
    using mount_okD(8) [OF ok] fh unfolding ids_ok_def by auto
  have "table_ok_counts (insert_rec fh r ?t)"
    using mount_okD(1) [OF ok] client_table.put_over_counted [of ?t fh r]
    by (simp add: table_ok_counts_def insert_rec_ok)
  moreover have "own_recs (insert_rec fh r ?t)"
    using mount_okD(2) [OF ok] fresh unfolding own_recs_def tab by (auto split: if_splits)
  moreover have "accounted ?m"
    using mount_okD(4) [OF ok] live tab unfolding accounted_def by auto
  moreover have "round_recs ?m"
    unfolding round_recs_def
  proof (intro allI impI)
    fix x a
    assume "in_round (mt_round ?m) x a"
    then have old: "x \<in> mt_began m" "own_address ?t x a"
      using mount_okD(5) [OF ok] by (simp_all add: round_recs_def)
    have "a \<in> dom (ht_heap ?t)" using old(2) unfolding own_address_def by blast
    then have "a \<noteq> ht_fresh ?t" using heap_ok_less [OF heap] by blast
    moreover have "x \<noteq> fh" using old(1) ids(1) by blast
    ultimately show "x \<in> mt_began ?m \<and> own_address (mt_table ?m) x a"
      using old by (auto simp: own_address_def tab)
  qed
  moreover have "round_settled ?m"
    using mount_okD(6) [OF ok] ids(1) unfolding round_settled_def settled_def by (auto simp: live tab)
  moreover have "sends_ok ?m"
    using mount_okD(7) [OF ok] unfolding sends_ok_def by (simp add: tab)
  moreover have "ids_ok ?m"
    using mount_okD(8) [OF ok] ids fh unfolding ids_ok_def given_ids_def by (auto simp: tab)
  ultimately show ?thesis using mount_okD(3) [OF ok] by (intro mount_okI) simp_all
qed

lemma open_handle_ends_cases:
  assumes "open_handle_ends fh p flags kind opn node opened t = Some (res, t')"
  obtains (kept) r where "t' = insert_rec fh r t" "\<not> hr_dead r" "open_settled opened \<noteq> Nothing"
  | (owed) "t' = owe kind fh t" "open_settled opened \<noteq> Nothing"
  | (refused) "t' = t" "open_settled opened = Nothing"
  using assms
  by (auto simp: open_handle_ends_def insert_handle_def Let_def
      split: settle_open.splits sum.splits response.splits)

lemma mount_ok_owe:
  assumes ok: "mount_ok m" and fh: "fh \<in> given_ids m"
    and drop: "X \<subseteq> {fh}" and rel: "\<And>x b. rel x = Some b \<Longrightarrow> mt_releasing m x = Some b"
    and kept: "\<And>x. x \<noteq> fh \<Longrightarrow> rel x = mt_releasing m x"
  shows "mount_ok (m\<lparr>mt_table := owe kind fh (mt_table m), mt_opening := mt_opening m - X, mt_releasing := rel\<rparr>)"
    (is "mount_ok ?m")
proof -
  have "mount_ok (m\<lparr>mt_table := owe kind fh (mt_table m), mt_releasing := rel\<rparr>)" (is "mount_ok ?m1")
  proof (rule mount_ok_same_recs [OF ok])
    show "accounted ?m1"
    proof -
      have "x = fh \<or> mt_releasing m x = Some (mt_session m) \<longrightarrow> rel x = Some (mt_session m) \<or> x = fh" for x
        using kept by auto
      then show ?thesis using mount_okD(4) [OF ok] kept unfolding accounted_def by auto
    qed
    show "sends_ok ?m1"
      using mount_okD(7) [OF ok] owe_sends_none [of kind fh "mt_table m"] unfolding sends_ok_def by fastforce
  qed (use mount_okD(8) [OF ok] fh rel in \<open>auto simp: same_recs_ops ids_ok_def\<close>)
  then have m1: "mount_ok ?m1" .
  have "accounted ?m"
    using mount_okD(4) [OF m1] drop unfolding accounted_def by auto
  moreover have "round_recs ?m"
    by (intro round_recs_mono [OF mount_okD(5) [OF m1]]) auto
  moreover have "round_settled ?m" "sends_ok ?m" "ids_ok ?m"
    using mount_okD(6-8) [OF m1] unfolding round_settled_def sends_ok_def ids_ok_def given_ids_def by auto
  ultimately show ?thesis
    using mount_okD(1-3) [OF m1] by (intro mount_okI) simp_all
qed

lemma mount_ok_open_returns:
  assumes ok: "mount_ok m" and fh: "fh \<in> mt_opening m"
    and step: "open_returns fh p flags kind opn node opened m = Some m'"
  shows "mount_ok m'"
proof -
  from step obtain res t where ends: "open_handle_ends fh p flags kind opn node opened (mt_table m) = Some (res, t)"
    and m': "m' = m\<lparr>mt_table := t, mt_opening := mt_opening m - {fh},
      mt_held := if open_settled opened = Nothing then mt_held m - {fh} else mt_held m\<rparr>"
    by (auto simp: open_returns_def)
  from ends show ?thesis
  proof (cases rule: open_handle_ends_cases)
    case (kept r)
    then show ?thesis using mount_ok_insert [OF ok fh, of r] m' by simp
  next
    case owed
    have "fh \<in> given_ids m" using mount_okD(8) [OF ok] fh by (auto simp: ids_ok_def)
    from mount_ok_owe [OF ok this, of "{fh}" "mt_releasing m" kind] owed m'
    show ?thesis by simp
  next
    case refused
    have m': "m' = m\<lparr>mt_opening := mt_opening m - {fh}, mt_held := mt_held m - {fh}\<rparr>"
      using m' refused by simp
    have "accounted m'" using mount_okD(4) [OF ok] m' unfolding accounted_def by auto
    moreover have "round_recs m'"
      using m' by (intro round_recs_mono [OF mount_okD(5) [OF ok]]) auto
    moreover have "round_settled m'" "sends_ok m'" "ids_ok m'"
      using mount_okD(6-8) [OF ok] m' unfolding round_settled_def sends_ok_def ids_ok_def given_ids_def by auto
    ultimately show ?thesis
      using mount_okD(1-3) [OF ok] m' by (intro mount_okI) simp_all
  qed
qed

lemma release_begins_eq:
  assumes "heap_ok t" "fh \<in> dom (ht_map t)"
  shows "release_begins fh t = (drop_rec fh t, fh \<in> live_ids t)"
proof -
  obtain a where a: "ht_map t fh = Some a" using assms(2) by blast
  with assms(1) obtain r where r: "ht_heap t a = Some r" unfolding heap_ok_def by blast
  have "ht_heap (fst (remove_rec fh t)) = ht_heap t" "snd (remove_rec fh t) = Some a"
    using a by (simp_all add: remove_rec_def Let_def)
  then show ?thesis
    using a r by (auto simp: release_begins_def drop_rec_def live_ids_iff split_beta Let_def)
qed

lemma mount_ok_release_starts:
  assumes ok: "mount_ok m" and fh: "fh \<in> dom (ht_map (mt_table m))"
  shows "mount_ok (release_starts fh m)"
proof -
  let ?t = "mt_table m" and ?m = "release_starts fh m"
  have heap: "heap_ok ?t" using mount_okD(1) [OF ok] by (simp add: table_ok_counts_def)
  have m: "mt_table ?m = drop_rec fh ?t" "mt_opening ?m = mt_opening m" "mt_held ?m = mt_held m"
    "mt_releasing ?m = (if fh \<in> live_ids ?t then (mt_releasing m)(fh \<mapsto> mt_session m) else mt_releasing m)"
    "mt_round ?m = mt_round m" "mt_began ?m = mt_began m" "mt_session ?m = mt_session m"
    "mt_conn ?m = mt_conn m" "mt_generation ?m = mt_generation m"
    by (simp_all add: release_starts_def release_begins_eq [OF heap fh])
  have next': "ht_next (drop_rec fh ?t) = ht_next ?t"
    by (simp add: drop_rec_def remove_rec_def Let_def split: option.split)
  have "table_ok_counts (drop_rec fh ?t)"
    using mount_okD(1) [OF ok] client_table.del_counted [of ?t fh] by (simp add: table_ok_counts_def drop_rec_ok)
  moreover have "own_recs (drop_rec fh ?t)"
    using mount_okD(2) [OF ok] unfolding own_recs_def drop_rec_simps by auto
  moreover have "accounted ?m"
    using mount_okD(4) [OF ok] unfolding accounted_def m drop_rec_simps by (auto split: if_splits)
  moreover have "round_recs ?m"
    by (intro round_recs_mono [OF mount_okD(5) [OF ok]]) (auto simp: m drop_rec_simps split: if_splits)
  moreover have "round_settled ?m"
    using mount_okD(6) [OF ok] unfolding round_settled_def settled_def m drop_rec_simps by auto
  moreover have "sends_ok ?m"
    using mount_okD(7) [OF ok] unfolding sends_ok_def m drop_rec_simps by simp
  moreover have "ids_ok ?m"
    using mount_okD(8) [OF ok] fh unfolding ids_ok_def given_ids_def m drop_rec_simps next' by (auto split: if_splits)
  moreover have "b \<le> mt_session ?m" if "mt_releasing ?m x = Some b" for x b
    using mount_okD(3) [OF ok] that unfolding m by (auto split: if_splits)
  ultimately show ?thesis by (intro mount_okI) (simp_all add: m)
qed

lemma mount_ok_release_returns:
  assumes ok: "mount_ok m" and fh: "mt_releasing m fh = Some b" "b \<le> s" "s \<le> mt_session m"
    and step: "release_returns kind fh s released m = Some m'"
  shows "mount_ok m'"
proof (cases "release_owed released")
  case True
  have "fh \<in> given_ids m" using mount_okD(8) [OF ok] fh by (auto simp: ids_ok_def)
  then have "mount_ok (m\<lparr>mt_table := owe kind fh (mt_table m), mt_opening := mt_opening m - {},
      mt_releasing := (mt_releasing m)(fh := None)\<rparr>)"
    by (intro mount_ok_owe [OF ok]) (auto split: if_splits)
  then show ?thesis using step True by (simp add: release_returns_def release_ends_def)
next
  case False
  with step have m': "m' = m\<lparr>mt_releasing := (mt_releasing m)(fh := None),
      mt_held := if s = mt_session m \<and> ht_owed (mt_table m) fh = None then mt_held m - {fh} else mt_held m\<rparr>"
    by (auto simp: release_returns_def release_ends_def)
  have "accounted m'"
    using mount_okD(4) [OF ok] fh m' unfolding accounted_def by (auto split: if_splits)
  moreover have "sends_ok m'"
    using mount_okD(7) [OF ok] m' unfolding sends_ok_def by simp
  ultimately show ?thesis
    by (intro mount_ok_same_recs [OF ok]) (use mount_okD(8) [OF ok] m' in \<open>auto simp: same_recs_def ids_ok_def split: if_splits\<close>)
qed

lemma mount_ok_owed_starts:
  assumes ok: "mount_ok m" and conn: "mt_conn m = Some c" "at_published c"
    and step: "owed_starts fh m = Some m'"
  shows "mount_ok m'"
proof -
  from step obtain t req where send: "owed_send fh (mt_generation m) (mt_table m) = Some (t, req)"
    and m': "m' = m\<lparr>mt_table := t\<rparr>"
    by (auto simp: owed_starts_def)
  have same: "same_recs (mt_table m) t" using same_recs_ops(3) [OF send] .
  have owed: "dom (ht_owed t) = dom (ht_owed (mt_table m))" "ht_next t = ht_next (mt_table m)"
    "\<And>x o'. x \<noteq> fh \<Longrightarrow> ht_owed t x = Some o' \<Longrightarrow> ht_owed (mt_table m) x = Some o'"
    "\<And>o'. ht_owed t fh = Some o' \<Longrightarrow> or_sending_on o' = Some (mt_generation m)"
    using send by (auto simp: owed_send_def split: if_splits)
  have "accounted m'"
    using mount_okD(4) [OF ok] same_recs_live [OF same] owed(1) unfolding m' accounted_def by simp
  moreover have "sends_ok m'"
    unfolding sends_ok_def m'
  proof (intro conjI allI impI)
    fix x o' g
    assume o': "ht_owed (mt_table (m\<lparr>mt_table := t\<rparr>)) x = Some o'" "or_sending_on o' = Some g"
    then show "g = mt_generation (m\<lparr>mt_table := t\<rparr>)"
      using owed(3) [of x o'] owed(4) [of o'] mount_okD(7) [OF ok] unfolding sends_ok_def by (cases "x = fh") auto
    show "\<exists>c. mt_conn (m\<lparr>mt_table := t\<rparr>) = Some c \<and> at_published c" using conn by simp
  next
    fix r
    assume "mt_round (m\<lparr>mt_table := t\<rparr>) = Some r"
    then show "\<exists>c. mt_conn (m\<lparr>mt_table := t\<rparr>) = Some c \<and> \<not> at_published c"
      using mount_okD(7) [OF ok] unfolding sends_ok_def by simp
  qed
  ultimately show ?thesis
    by (intro mount_ok_same_recs [OF ok]) (use mount_okD(8) [OF ok] same owed in \<open>auto simp: m' ids_ok_def\<close>)
qed

lemma mount_ok_owed_returns:
  assumes ok: "mount_ok m"
  shows "mount_ok (owed_returns fh g m)"
proof (cases "map_option or_sending_on (ht_owed (mt_table m) fh) = Some (Some g)")
  case True
  then obtain o' where o': "ht_owed (mt_table m) fh = Some o'" "or_sending_on o' = Some g" by auto
  have t: "owed_delivered fh g (mt_table m) = (mt_table m)\<lparr>ht_owed := (ht_owed (mt_table m))(fh := None)\<rparr>"
    using o' by (simp add: owed_delivered_def)
  have none: "mt_round m = None"
    using mount_okD(7) [OF ok] o' unfolding sends_ok_def by (cases "mt_round m") fastforce+
  have live: "live_ids (owed_delivered fh g (mt_table m)) = live_ids (mt_table m)"
    using same_recs_live [OF same_recs_ops(4)] .
  have "accounted (owed_returns fh g m)"
    using mount_okD(4) [OF ok] True live unfolding accounted_def owed_returns_def t by auto
  moreover have "sends_ok (owed_returns fh g m)"
    using mount_okD(7) [OF ok] unfolding sends_ok_def owed_returns_def t by auto
  ultimately show ?thesis
    by (intro mount_ok_same_recs [OF ok])
      (use mount_okD(8) [OF ok] none in \<open>auto simp: owed_returns_def t same_recs_def ids_ok_def split: if_splits\<close>)
next
  case False
  then have "owed_delivered fh g (mt_table m) = mt_table m"
    by (auto simp: owed_delivered_def split: option.split)
  with False have "owed_returns fh g m = m" by (simp only: owed_returns_def if_False) simp
  with ok show ?thesis by simp
qed

lemma mount_ok_cancels:
  assumes ok: "mount_ok m" and "mt_conn m = Some c" "at_published c' = at_published c"
  shows "mount_ok (m\<lparr>mt_conn := Some c'\<rparr>)"
proof -
  have "sends_ok (m\<lparr>mt_conn := Some c'\<rparr>)"
    using mount_okD(7) [OF ok] assms(2,3) unfolding sends_ok_def by auto
  moreover have "accounted (m\<lparr>mt_conn := Some c'\<rparr>)"
    using mount_okD(4) [OF ok] unfolding accounted_def by simp
  ultimately show ?thesis
    by (intro mount_ok_same_recs [OF ok]) (use mount_okD(8) [OF ok] in \<open>auto simp: same_recs_def ids_ok_def\<close>)
qed

lemma mount_ok_conn_ends:
  assumes ok: "mount_ok m" and none: "mt_round m = None"
  shows "mount_ok (conn_ends m)"
proof -
  let ?t = "owed_connection_ended (mt_generation m) (mt_table m)"
  have "or_sending_on o' = None" if "ht_owed ?t x = Some o'" for x o'
  proof -
    from that obtain o1 where o1: "ht_owed (mt_table m) x = Some o1"
      "o' = (if or_sending_on o1 = Some (mt_generation m) then o1\<lparr>or_sending_on := None\<rparr> else o1)"
      by (auto simp: owed_connection_ended_def)
    have "or_sending_on o1 = None \<or> or_sending_on o1 = Some (mt_generation m)"
      using mount_okD(7) [OF ok] o1(1) unfolding sends_ok_def by (cases "or_sending_on o1") auto
    then show ?thesis using o1(2) by auto
  qed
  then have "sends_ok (conn_ends m)"
    using none by (simp add: sends_ok_def conn_ends_def)
  moreover have "accounted (conn_ends m)"
    using mount_okD(4) [OF ok] same_recs_live [OF same_recs_ops(5)] unfolding accounted_def conn_ends_def by simp
  ultimately show ?thesis
    by (intro mount_ok_same_recs [OF ok])
      (use mount_okD(8) [OF ok] in \<open>auto simp: conn_ends_def same_recs_ops ids_ok_def\<close>)
qed

text \<open>The table as a new connection finds it, every handle killed first if the export is another.\<close>

lemma replaced_table:
  fixes m :: mount and replaced :: bool and order :: "u64 list"
  assumes ok: "mount_ok m" and order: "set order = dom (ht_map (mt_table m))"
  defines "t \<equiv> (if replaced then kill_all order (mt_table m) else mt_table m)"
  shows "ht_map t = ht_map (mt_table m)" "ht_next t = ht_next (mt_table m)" "table_ok_counts t" "own_recs t"
    "dom (ht_owed t) \<union> live_ids t = dom (ht_owed (mt_table m)) \<union> live_ids (mt_table m)"
    "dom (ht_owed t) \<subseteq> given_ids m" "dom (ht_heap t) = dom (ht_heap (mt_table m))"
    "ht_owed t fh = Some o' \<Longrightarrow> ht_owed (mt_table m) fh = Some o' \<or> or_sending_on o' = None"
proof -
  note kill = kill_all_effect [OF order mount_okD(1) [OF ok]]
  show map: "ht_map t = ht_map (mt_table m)" and "ht_next t = ht_next (mt_table m)"
    and "dom (ht_heap t) = dom (ht_heap (mt_table m))" and "table_ok_counts t"
    using kill mount_okD(1) [OF ok] by (simp_all add: t_def)
  show "own_recs t" using own_recs_same [OF map mount_okD(2) [OF ok]] .
  show both: "dom (ht_owed t) \<union> live_ids t = dom (ht_owed (mt_table m)) \<union> live_ids (mt_table m)"
    using kill(4,6) by (auto simp: t_def)
  show "dom (ht_owed t) \<subseteq> given_ids m"
    using both mount_okD(8) [OF ok] live_in_map [of "mt_table m"] unfolding ids_ok_def by blast
  show "ht_owed t fh = Some o' \<Longrightarrow> ht_owed (mt_table m) fh = Some o' \<or> or_sending_on o' = None"
    using kill(7) [of fh o'] by (cases replaced) (auto simp: t_def)
qed

lemma not_sending: "mount_ok m \<Longrightarrow> mt_conn m = None \<Longrightarrow> ht_owed (mt_table m) fh = Some o' \<Longrightarrow> or_sending_on o' = None"
  using mount_okD(7) [of m] unfolding sends_ok_def by (cases "or_sending_on o'") fastforce+

lemma no_round: "mount_ok m \<Longrightarrow> mt_conn m = None \<Longrightarrow> mt_round m = None"
  using mount_okD(7) [of m] unfolding sends_ok_def by (cases "mt_round m") fastforce+

lemma mount_ok_conn_resumes:
  assumes ok: "mount_ok m" and none: "mt_conn m = None" and order: "set order = dom (ht_map (mt_table m))"
  shows "mount_ok (conn_resumes replaced order m)"
proof -
  let ?m = "conn_resumes replaced order m"
  note t = replaced_table [OF ok order, of replaced]
  note round = no_round [OF ok none]
  have m: "mt_table ?m = (if replaced then kill_all order (mt_table m) else mt_table m)"
    "mt_opening ?m = mt_opening m" "mt_held ?m = mt_held m" "mt_releasing ?m = mt_releasing m"
    "mt_round ?m = None" "mt_began ?m = mt_began m" "mt_session ?m = mt_session m"
    "mt_generation ?m = mt_generation m + 1"
    using round by (simp_all add: conn_resumes_def Let_def)
  have "accounted ?m"
    using mount_okD(4) [OF ok] t(5) unfolding accounted_def m round by blast
  moreover have "round_recs ?m" "round_settled ?m"
    by (simp_all add: round_recs_def round_settled_def in_round_def m)
  moreover have "sends_ok ?m"
  proof -
    have "or_sending_on o' = None" if "ht_owed (mt_table ?m) x = Some o'" for x o'
      using t(8) [of x o'] not_sending [OF ok none, of x o'] that unfolding m by blast
    then show ?thesis by (simp add: sends_ok_def m)
  qed
  moreover have "ids_ok ?m"
    using mount_okD(8) [OF ok] t(1,2,6) unfolding ids_ok_def given_ids_def m by auto
  ultimately show ?thesis
    using t(3,4) mount_okD(3) [OF ok] by (intro mount_okI) (simp_all add: m)
qed

lemma map_of_live: "map_of (live order t) fh = Some a \<longleftrightarrow> (fh, a) \<in> set (live order t)"
proof
  assume "(fh, a) \<in> set (live order t)"
  moreover from this obtain b where "map_of (live order t) fh = Some b" by (auto dest: weak_map_of_SomeI)
  moreover from this have "(fh, b) \<in> set (live order t)" by (rule map_of_SomeD)
  ultimately show "map_of (live order t) fh = Some a" by (auto simp: set_live)
qed (rule map_of_SomeD)

lemma mount_ok_new_session:
  assumes ok: "mount_ok m" and none: "mt_conn m = None" and order: "set order = dom (ht_map (mt_table m))"
  shows "mount_ok (conn_new_session replaced order m)"
proof -
  let ?m = "conn_new_session replaced order m"
  define t0 where "t0 = (if replaced then kill_all order (mt_table m) else mt_table m)"
  note t = replaced_table [OF ok order, of replaced, folded t0_def]
  note moot = same_recs_ops(6) [of t0]
  have m: "mt_table ?m = owed_moot t0"
    "mt_opening ?m = mt_opening m" "mt_held ?m = mt_opening m" "mt_releasing ?m = mt_releasing m"
    "mt_round ?m = Some (round_new order (owed_moot t0))" "mt_began ?m = live_ids t0"
    "mt_session ?m = mt_session m + 1" "mt_conn ?m = Some (attached_new (mt_generation m + 1))"
    using same_recs_live [OF moot] by (simp_all add: conn_new_session_def t0_def Let_def)
  have map: "ht_map (owed_moot t0) = ht_map (mt_table m)" "ht_heap (owed_moot t0) = ht_heap t0"
    "live_ids (owed_moot t0) = live_ids t0"
    using moot same_recs_live [OF moot] t(1) by (simp_all add: same_recs_def)
  have round: "in_round (mt_round ?m) fh a \<longleftrightarrow> ht_map t0 fh = Some a \<and> fh \<in> live_ids t0" for fh a
    using order map t(1) live_in_map [of t0]
    by (auto simp: in_round_def m round_new_def map_of_live set_live)
  have "round_recs ?m"
    unfolding round_recs_def
  proof (intro allI impI)
    fix fh a
    assume "in_round (mt_round ?m) fh a"
    then have a: "ht_map t0 fh = Some a" "fh \<in> live_ids t0" using round by auto
    have "own_address (owed_moot t0) fh a"
      using a t(1,4) map unfolding own_address_def own_recs_def by (auto simp: live_ids_iff)
    then show "fh \<in> mt_began ?m \<and> own_address (mt_table ?m) fh a" using a by (simp add: m)
  qed
  moreover have "round_settled ?m"
  proof -
    have "fh \<in> dom (rr_unsent (round_new order (owed_moot t0)))" if "fh \<in> live_ids t0" for fh
      using that round [of fh] live_in_map [of t0] by (fastforce simp: in_round_def m round_new_def)
    then show ?thesis by (simp add: round_settled_def settled_def m)
  qed
  moreover have "accounted ?m" "sends_ok ?m"
    by (auto simp: accounted_def sends_ok_def m attached_new_def)
  moreover have "ids_ok ?m"
    using mount_okD(8) [OF ok] t(1,2) live_in_map [of t0] unfolding ids_ok_def given_ids_def m map by auto
  moreover have "table_ok_counts (owed_moot t0)" "own_recs (owed_moot t0)"
    using same_recs_ok [OF moot t(3)] own_recs_same [of "owed_moot t0" t0] t(1,4) map(1) by auto
  ultimately show ?thesis
    using mount_okD(3) [OF ok] by (intro mount_okI) (auto simp: m intro: le_SucI)
qed

lemma round_recsD: "mount_ok m \<Longrightarrow> in_round (mt_round m) fh a \<Longrightarrow> fh \<in> mt_began m \<and> own_address (mt_table m) fh a"
  using mount_okD(5) [of m] by (simp add: round_recs_def)

lemma mount_ok_reopen_starts:
  assumes ok: "mount_ok m" and step: "reopen_starts fh m = Some m'"
  shows "mount_ok m'"
proof -
  from step obtain r a where r: "mt_round m = Some r" "rr_unsent r fh = Some a"
    and m': "m' = m\<lparr>mt_round := Some (r\<lparr>rr_unsent := (rr_unsent r)(fh := None), rr_sending := (rr_sending r)(fh \<mapsto> a)\<rparr>),
      mt_held := insert fh (mt_held m)\<rparr>"
    by (auto simp: reopen_starts_def round_send_def bind_eq_Some_conv split: option.splits)
  have fh: "fh \<in> mt_began m" using round_recsD [OF ok, of fh a] r by (auto simp: in_round_def)
  have "round_recs m'"
    using r m' by (intro round_recs_mono [OF mount_okD(5) [OF ok]]) (auto simp: in_round_def split: if_splits)
  moreover have "accounted m'"
    using mount_okD(4) [OF ok] r m' unfolding accounted_def sending_ids_def by auto
  moreover have "round_settled m'"
    using mount_okD(6) [OF ok] r m' unfolding round_settled_def settled_def by auto
  moreover have "sends_ok m'"
    using mount_okD(7) [OF ok] r m' unfolding sends_ok_def by simp
  moreover have "ids_ok m'"
    using mount_okD(8) [OF ok] fh m' unfolding ids_ok_def given_ids_def by auto
  ultimately show ?thesis using mount_okD(1-3) [OF ok] m' by (intro mount_okI) simp_all
qed

text \<open>What a reopen may change when it ends: its own handle's record and release, and nothing of another's.\<close>

lemma mount_ok_reopen_ended:
  assumes ok: "mount_ok m" and r: "mt_round m = Some r" and fh: "in_round (mt_round m) fh a"
    and round: "\<And>x a. in_round (Some r') x a \<Longrightarrow> in_round (Some r) x a"
      "dom (rr_unsent r) - {fh} \<subseteq> dom (rr_unsent r')" "dom (rr_sending r) - {fh} \<subseteq> dom (rr_sending r')"
      "rr_reopened r \<subseteq> rr_reopened r'"
    and t: "ht_map t = ht_map (mt_table m)" "ht_next t = ht_next (mt_table m)"
      "dom (ht_heap t) = dom (ht_heap (mt_table m))" "table_ok_counts t" "live_ids (mt_table m) - {fh} \<subseteq> live_ids t"
      "dom (ht_owed (mt_table m)) \<subseteq> dom (ht_owed t)" "dom (ht_owed t) \<subseteq> insert fh (dom (ht_owed (mt_table m)))"
      "\<And>x o'. ht_owed t x = Some o' \<Longrightarrow> ht_owed (mt_table m) x = Some o' \<or> or_sending_on o' = None"
    and here: "fh \<in> dom (ht_owed t) \<or> fh \<in> rr_reopened r' \<and> fh \<in> live_ids t"
  shows "mount_ok (m\<lparr>mt_table := t, mt_round := Some r'\<rparr>)" (is "mount_ok ?m")
proof -
  have began: "fh \<in> mt_began m" using round_recsD [OF ok fh] by simp
  have "accounted ?m"
    using mount_okD(4) [OF ok] r round(3) t(5,6) here unfolding accounted_def sending_ids_def by simp blast
  moreover have "round_recs ?m"
    using r round(1) t(1,3) by (intro round_recs_mono [OF mount_okD(5) [OF ok]]) simp_all
  moreover have "round_settled ?m"
    unfolding round_settled_def
  proof (intro allI impI)
    fix r1 x
    assume r1: "mt_round ?m = Some r1" and x: "x \<in> mt_began ?m"
    have "settled (mt_table m) r x" using mount_okD(6) [OF ok] r x by (simp add: round_settled_def)
    moreover have "x \<noteq> fh \<Longrightarrow> x \<in> dom (rr_unsent r) \<Longrightarrow> x \<in> dom (rr_unsent r')"
      "x \<noteq> fh \<Longrightarrow> x \<in> dom (rr_sending r) \<Longrightarrow> x \<in> dom (rr_sending r')"
      "x \<in> rr_reopened r \<Longrightarrow> x \<in> rr_reopened r'"
      "x \<noteq> fh \<Longrightarrow> x \<in> live_ids (mt_table m) \<Longrightarrow> x \<in> live_ids t"
      "x \<in> dom (ht_owed (mt_table m)) \<Longrightarrow> x \<in> dom (ht_owed t)"
      using round(2-4) t(5,6) by blast+
    moreover have "mt_table ?m = t" "r1 = r'" using r1 by simp_all
    ultimately show "settled (mt_table ?m) r1 x"
      using here t(1) unfolding settled_def by (cases "x = fh"; metis)
  qed
  moreover have "sends_ok ?m"
    using mount_okD(7) [OF ok] r t(8) unfolding sends_ok_def by fastforce
  moreover have "ids_ok ?m"
  proof -
    have "given_ids ?m = given_ids m" by (simp add: given_ids_def t(2))
    moreover have "dom (ht_owed t) \<subseteq> given_ids m"
      using mount_okD(8) [OF ok] t(7) began unfolding ids_ok_def by blast
    ultimately show ?thesis using mount_okD(8) [OF ok] t(1) unfolding ids_ok_def by simp
  qed
  ultimately show ?thesis
    using t(4) own_recs_same [OF t(1)] mount_okD(2,3) [OF ok] by (intro mount_okI) simp_all
qed

lemma round_ended_cases:
  assumes "round_ended fh outcome t r = Some (t', r')"
  obtains a hr where "in_round (Some r) fh a" "ht_heap (apply_reopen a outcome t) a = Some hr"
    "\<And>x a. in_round (Some r') x a \<Longrightarrow> in_round (Some r) x a"
    "dom (rr_unsent r) - {fh} \<subseteq> dom (rr_unsent r')" "dom (rr_sending r) - {fh} \<subseteq> dom (rr_sending r')"
    "rr_reopened r \<subseteq> rr_reopened r'"
    "t' = owe (hr_kind hr) fh (apply_reopen a outcome t) \<and> (hr_dead hr \<or> ht_map t fh = None) \<or>
     t' = apply_reopen a outcome t \<and> fh \<in> rr_reopened r' \<and> \<not> hr_dead hr \<and> ht_map t fh \<noteq> None"
proof -
  define r1 where "r1 = (if rr_sending r fh = None then r\<lparr>rr_unsent := (rr_unsent r)(fh := None)\<rparr>
    else r\<lparr>rr_sending := (rr_sending r)(fh := None)\<rparr>)"
  from assms obtain a where "rr_sending r fh = Some a \<or> rr_sending r fh = None \<and> rr_unsent r fh = Some a"
    by (auto simp: round_ended_def split: option.splits)
  with assms obtain hr where a: "in_round (Some r) fh a" "ht_heap (apply_reopen a outcome t) a = Some hr"
    and t': "t' = owe (hr_kind hr) fh (apply_reopen a outcome t) \<and> (hr_dead hr \<or> ht_map t fh = None) \<and> r' = r1 \<or>
      t' = apply_reopen a outcome t \<and> \<not> hr_dead hr \<and> ht_map t fh \<noteq> None \<and>
      r' = r1\<lparr>rr_reopened := insert fh (rr_reopened r1)\<rparr>"
    by (auto simp: round_ended_def in_round_def r1_def Let_def split: option.splits if_splits)
  then have r': "rr_unsent r' = rr_unsent r1" "rr_sending r' = rr_sending r1" "rr_reopened r \<subseteq> rr_reopened r'"
    by (auto simp: r1_def)
  have "in_round (Some r) x b" if "in_round (Some r') x b" for x b
    using that r' by (auto simp: in_round_def r1_def split: if_splits)
  moreover have "dom (rr_unsent r) - {fh} \<subseteq> dom (rr_unsent r')" "dom (rr_sending r) - {fh} \<subseteq> dom (rr_sending r')"
    using r' by (auto simp: r1_def)
  ultimately show ?thesis using that [OF a] t' r' by auto
qed

lemma mount_ok_reopen_returns:
  assumes ok: "mount_ok m" and step: "reopen_returns fh outcome m = Some m'"
  shows "mount_ok m'"
proof -
  from step obtain r t' r' where r: "mt_round m = Some r"
    and ended: "round_ended fh outcome (mt_table m) r = Some (t', r')"
    and m': "m' = m\<lparr>mt_table := t', mt_round := Some r'\<rparr>"
    by (auto simp: reopen_returns_def bind_eq_Some_conv)
  from ended obtain a hr where a: "in_round (Some r) fh a" "ht_heap (apply_reopen a outcome (mt_table m)) a = Some hr"
    and round: "\<And>x a. in_round (Some r') x a \<Longrightarrow> in_round (Some r) x a"
      "dom (rr_unsent r) - {fh} \<subseteq> dom (rr_unsent r')" "dom (rr_sending r) - {fh} \<subseteq> dom (rr_sending r')"
      "rr_reopened r \<subseteq> rr_reopened r'"
    and t': "t' = owe (hr_kind hr) fh (apply_reopen a outcome (mt_table m)) \<or>
      t' = apply_reopen a outcome (mt_table m) \<and> fh \<in> rr_reopened r' \<and> \<not> hr_dead hr \<and> ht_map (mt_table m) fh \<noteq> None"
    by (rule round_ended_cases) blast
  have own: "own_address (mt_table m) fh a" using round_recsD [OF ok] r a(1) by simp
  have live: "live_ids (mt_table m) - {fh} \<subseteq> live_ids (apply_reopen a outcome (mt_table m))"
    using apply_reopen_live(1) [of "mt_table m" a outcome] own unfolding own_address_def by blast
  have same: "ht_map t' = ht_map (mt_table m)" "ht_next t' = ht_next (mt_table m)"
    "dom (ht_heap t') = dom (ht_heap (mt_table m))" "table_ok_counts t'" "live_ids (mt_table m) - {fh} \<subseteq> live_ids t'"
    "dom (ht_owed (mt_table m)) \<subseteq> dom (ht_owed t')" "dom (ht_owed t') \<subseteq> insert fh (dom (ht_owed (mt_table m)))"
    using t' live apply_reopen_ok [OF mount_okD(1) [OF ok]] same_recs_ok [OF same_recs_ops(1)]
    by - (elim disjE conjE; simp add: subset_insertI)+
  have sends: "ht_owed (mt_table m) x = Some o' \<or> or_sending_on o' = None" if "ht_owed t' x = Some o'" for x o'
    using t' that owe_sends_none [of "hr_kind hr" fh "apply_reopen a outcome (mt_table m)" x o'] by auto
  have "fh \<in> dom (ht_owed t') \<or> fh \<in> rr_reopened r' \<and> fh \<in> live_ids t'"
    using t'
  proof
    assume "t' = owe (hr_kind hr) fh (apply_reopen a outcome (mt_table m))"
    then have "dom (ht_owed t') = insert fh (dom (ht_owed (mt_table m)))" by simp
    then show ?thesis by blast
  next
    assume kept: "t' = apply_reopen a outcome (mt_table m) \<and> fh \<in> rr_reopened r' \<and> \<not> hr_dead hr \<and> ht_map (mt_table m) fh \<noteq> None"
    then have "ht_map t' fh = Some a" using own unfolding own_address_def by auto
    then show ?thesis using kept a(2) by (simp add: live_ids_iff)
  qed
  then show ?thesis
    unfolding m' using r a(1) round same sends by (intro mount_ok_reopen_ended [OF ok r, of fh a]) simp_all
qed

lemma mount_ok_publishes:
  assumes ok: "mount_ok m" and r: "mt_round m = Some r" "publishable r"
  shows "mount_ok (conn_publishes m)"
proof -
  have "accounted (conn_publishes m)"
    using mount_okD(4) [OF ok] r by (auto simp: accounted_def conn_publishes_def sending_ids_def publishable_def)
  moreover have "round_recs (conn_publishes m)" "round_settled (conn_publishes m)"
    by (simp_all add: round_recs_def round_settled_def in_round_def conn_publishes_def)
  moreover have "sends_ok (conn_publishes m)"
    using mount_okD(7) [OF ok] by (fastforce simp: sends_ok_def conn_publishes_def publish_def)
  moreover have "ids_ok (conn_publishes m)"
    using mount_okD(8) [OF ok] by (simp add: ids_ok_def conn_publishes_def given_ids_def)
  ultimately show ?thesis
    using mount_okD(1-3) [OF ok] by (intro mount_okI) (simp_all add: conn_publishes_def)
qed

lemma mount_ok_init: "mount_init m \<Longrightarrow> mount_ok m"
  by (auto simp: mount_init_def mount_start_def mount_ok_def mount_parts table_default_def table_ok_counts_def heap_ok_def
      own_recs_def counted_def rec_at_def keys_where_def in_round_def)

lemma mount_ok_step:
  assumes "mount_step m m'" and ok: "mount_ok m"
  shows "mount_ok m'"
  using assms(1)
proof cases
  case (StepOwedSend c fh)
  moreover from this have "at_published c" by (simp add: owed_sendable_def split: if_splits)
  ultimately show ?thesis using mount_ok_owed_starts [OF ok] by blast
next
  case (StepCancel c)
  then show ?thesis using mount_ok_cancels [OF ok, of c "cancel_count c"] by (simp add: cancel_count_def)
next
  case (StepCancelAnswered c c')
  moreover from this have "at_published c' = at_published c" by (auto simp: cancel_drop_def split: if_splits)
  ultimately show ?thesis using mount_ok_cancels [OF ok, of c c'] by simp
next
  case StepOpen
  then show ?thesis using mount_ok_open_starts [OF ok] by simp
next
  case StepOpened
  then show ?thesis using mount_ok_open_returns [OF ok] by blast
next
  case StepReleased
  then show ?thesis using mount_ok_release_returns [OF ok] by blast
next
  case StepReopen
  then show ?thesis using mount_ok_reopen_starts [OF ok] by blast
next
  case StepReopened
  then show ?thesis using mount_ok_reopen_returns [OF ok] by blast
qed (simp_all add: ok mount_ok_release_starts mount_ok_owed_returns mount_ok_conn_ends mount_ok_conn_resumes
    mount_ok_new_session mount_ok_publishes)

interpretation mount_sys: invariant_system mount_init mount_step mount_ok
  by unfold_locales (simp_all add: mount_ok_init mount_ok_step)

subsection \<open>What a mount promises\<close>

abbreviation mount_reach :: "mount \<Rightarrow> bool" where
  "mount_reach \<equiv> reach mount_init mount_step"

text \<open>A release owed is sent and answered, on a connection published with no cancel pending.\<close>

lemma owed_unsent_iff: "fh \<in> set (owed_unsent t) \<longleftrightarrow> (\<exists>o'. ht_owed t fh = Some o' \<and> or_sending_on o' = None)"
proof -
  have "finite {fh. \<exists>o'. ht_owed t fh = Some o' \<and> or_sending_on o' = None}" by (rule finite)
  then show ?thesis by (simp add: owed_unsent_def)
qed

lemma owed_one:
  assumes ok: "mount_ok m" and conn: "mt_conn m = Some c" "at_published c" "at_cancels c = 0"
    and fh: "fh \<in> dom (ht_owed (mt_table m))"
  shows "\<exists>t. mount_step\<^sup>*\<^sup>* m (m\<lparr>mt_table := t, mt_held := mt_held m - {fh}\<rparr>) \<and>
    ht_owed t = (ht_owed (mt_table m))(fh := None) \<and> live_ids t = live_ids (mt_table m)"
proof -
  have answered: "mount_step m1 (m1\<lparr>mt_table := (mt_table m1)\<lparr>ht_owed := (ht_owed (mt_table m1))(fh := None)\<rparr>,
      mt_held := mt_held m1 - {fh}\<rparr>)"
    if "ht_owed (mt_table m1) fh = Some o1" "or_sending_on o1 = Some g" for m1 o1 g
    using StepOwedAnswered [of m1 fh g] that by (simp add: owed_returns_def owed_delivered_def)
  have live: "live_ids ((mt_table m)\<lparr>ht_owed := x\<rparr>) = live_ids (mt_table m)" for x
    by (rule same_recs_live) (simp add: same_recs_def)
  obtain o' where o': "ht_owed (mt_table m) fh = Some o'" using fh by blast
  show ?thesis
  proof (cases "or_sending_on o'")
    case None
    let ?m1 = "m\<lparr>mt_table := (mt_table m)\<lparr>ht_owed := (ht_owed (mt_table m))(fh \<mapsto> o'\<lparr>or_sending_on := Some (mt_generation m)\<rparr>)\<rparr>\<rparr>"
    have "mount_step m ?m1"
      using None o' conn by (intro StepOwedSend [OF conn(1)]) (auto simp: owed_sendable_def owed_unsent_iff owed_starts_def owed_send_def)
    moreover have "mount_step ?m1 (m\<lparr>mt_table := (mt_table m)\<lparr>ht_owed := (ht_owed (mt_table m))(fh := None)\<rparr>,
        mt_held := mt_held m - {fh}\<rparr>)"
      using answered [of ?m1 "o'\<lparr>or_sending_on := Some (mt_generation m)\<rparr>"] by simp
    ultimately have "mount_step\<^sup>*\<^sup>* m (m\<lparr>mt_table := (mt_table m)\<lparr>ht_owed := (ht_owed (mt_table m))(fh := None)\<rparr>,
        mt_held := mt_held m - {fh}\<rparr>)"
      by (rule converse_rtranclp_into_rtranclp [OF _ r_into_rtranclp])
    then show ?thesis using live by (intro exI [of _ "(mt_table m)\<lparr>ht_owed := (ht_owed (mt_table m))(fh := None)\<rparr>"]) simp
  next
    case (Some g)
    with answered [OF o'] show ?thesis
      using live by (intro exI [of _ "(mt_table m)\<lparr>ht_owed := (ht_owed (mt_table m))(fh := None)\<rparr>"]) auto
  qed
qed

lemma owed_drain:
  assumes "mount_ok m" "mt_conn m = Some c" "at_published c" "at_cancels c = 0"
  shows "\<exists>m'. mount_step\<^sup>*\<^sup>* m m' \<and> ht_owed (mt_table m') = Map.empty \<and> live_ids (mt_table m') = live_ids (mt_table m) \<and>
    mt_opening m' = mt_opening m \<and> mt_releasing m' = mt_releasing m \<and> mt_round m' = mt_round m"
  using assms
proof (induction "card (dom (ht_owed (mt_table m)))" arbitrary: m)
  case 0
  then have "ht_owed (mt_table m) = Map.empty" by simp
  then show ?case by blast
next
  case (Suc n)
  then obtain fh where fh: "fh \<in> dom (ht_owed (mt_table m))" by (metis card.empty ex_in_conv nat.distinct(1))
  from owed_one [OF Suc.prems fh] obtain t where t: "ht_owed t = (ht_owed (mt_table m))(fh := None)"
    "live_ids t = live_ids (mt_table m)" and run: "mount_step\<^sup>*\<^sup>* m (m\<lparr>mt_table := t, mt_held := mt_held m - {fh}\<rparr>)"
    (is "mount_step\<^sup>*\<^sup>* m ?m1") by blast
  have "n = card (dom (ht_owed (mt_table ?m1)))" using Suc.hyps(2) fh t(1) by simp
  from Suc.hyps(1) [OF this mount_sys.inv_run [OF Suc.prems(1) run]] Suc.prems(2-4) t(2)
  obtain m' where "mount_step\<^sup>*\<^sup>* ?m1 m'" "ht_owed (mt_table m') = Map.empty" "live_ids (mt_table m') = live_ids (mt_table m)"
    "mt_opening m' = mt_opening m" "mt_releasing m' = mt_releasing m" "mt_round m' = mt_round m"
    by auto
  with run show ?case by (meson rtranclp_trans)
qed

text \<open>Runs the properties are applied at: an open that was given up on, and a reopen that failed.\<close>

definition example_attr :: attr where
  "example_attr = \<lparr>attr_ino = 5, attr_size = 0, attr_blocks = 0, attr_atime = \<lparr>sec = 0, nsec = 0\<rparr>,
     attr_mtime = \<lparr>sec = 0, nsec = 0\<rparr>, attr_ctime = \<lparr>sec = 0, nsec = 0\<rparr>, attr_kind = Regular, attr_perm = 420,
     attr_nlink = 1, attr_uid = 0, attr_gid = 0, attr_rdev = 0, attr_blksize = 4096, attr_xattr_names = None,
     attr_identity = \<lparr>handle_type = 1, handle = [5]\<rparr>, attr_foreign = False\<rparr>"

definition example_up :: mount where
  "example_up = conn_publishes (conn_new_session False [] mount_start)"

definition example_opening :: mount where
  "example_opening = fst (open_starts example_up)"

definition example_opened :: "(response, client_error) result \<Rightarrow> mount" where
  "example_opened opened = the (open_returns 1 (Path []) 0 KFile None (\<lambda>a. Ok (attr_ino a)) opened example_opening)"

definition example_reopened :: mount where
  "example_reopened = the (reopen_returns 1 (Err Timeout) (the (reopen_starts 1
     (conn_new_session False [1] (conn_ends (example_opened (Ok (ROpened example_attr))))))))"

lemma example_up: "mount_reach example_up"
  unfolding example_up_def
proof (rule reach_step, rule reach_step, rule reach_init)
  show "mount_init mount_start" by (simp add: mount_init_def)
  show "mount_step mount_start (conn_new_session False [] mount_start)"
    by (rule StepNewSession) (simp_all add: mount_start_def table_default_def)
  show "mount_step (conn_new_session False [] mount_start) (conn_publishes (conn_new_session False [] mount_start))"
    by (rule StepPublish [of _ "round_new [] (owed_moot table_default)"])
      (simp_all add: conn_new_session_def mount_start_def Let_def publishable_def round_new_def live_def
        List.map_filter_simps)
qed

lemma example_opening: "mount_reach example_opening"
  unfolding example_opening_def
  by (rule reach_step [OF example_up], rule StepOpen)
    (simp add: example_up_def conn_publishes_def conn_new_session_def mount_start_def table_default_def Let_def)

lemmas example_simps = example_opened_def example_opening_def example_up_def open_returns_def open_starts_def alloc_def
  conn_publishes_def conn_new_session_def mount_start_def table_default_def open_handle_ends_def open_settled_def
  insert_handle_def insert_rec_def rec_at_def owed_moot_def round_new_def live_def

lemma example_opened:
  assumes "opened = Err Interrupted \<or> opened = Ok (ROpened example_attr)"
  shows "mount_reach (example_opened opened)"
proof (rule reach_step [OF example_opening], rule StepOpened)
  show "1 \<in> mt_opening example_opening" by (simp add: example_simps Let_def)
  show "open_returns 1 (Path []) 0 KFile None (\<lambda>a. Ok (attr_ino a)) opened example_opening = Some (example_opened opened)"
    using assms by (auto simp: example_opened_def open_returns_def open_handle_ends_def open_settled_def)
  show "open_settled opened = Nothing \<Longrightarrow> \<exists>e. opened = Err (Remote e)"
    using assms by (auto simp: open_settled_def)
qed

lemma example_owing:
  "mt_held (example_opened (Err Interrupted)) = {1}" "mt_opening (example_opened (Err Interrupted)) = {}"
  "dom (ht_owed (mt_table (example_opened (Err Interrupted)))) = {1}"
  "mt_conn (example_opened (Err Interrupted)) = Some (publish (attached_new 1))"
  "mt_releasing (example_opened (Err Interrupted)) = Map.empty" "mt_round (example_opened (Err Interrupted)) = None"
  "ht_next (mt_table (example_opened (Err Interrupted))) = 1"
  by (auto simp: example_simps owe_def Let_def)

lemma example_new_session:
  "mount_reach (conn_new_session False [1] (conn_ends (example_opened (Ok (ROpened example_attr)))))"
proof (rule reach_step, rule reach_step [OF example_opened])
  let ?m = "example_opened (Ok (ROpened example_attr))"
  show "mount_step ?m (conn_ends ?m)"
    by (rule StepConnEnds) (simp add: example_simps Let_def)
  show "mount_step (conn_ends ?m) (conn_new_session False [1] (conn_ends ?m))"
    by (rule StepNewSession) (simp_all add: conn_ends_def owed_connection_ended_def example_simps Let_def)
qed simp

lemma example_reopened:
  "mount_reach example_reopened"
  "\<exists>r. mt_round example_reopened = Some r \<and> publishable r"
  "1 \<in> mt_began example_reopened"
proof -
  let ?m = "conn_new_session False [1] (conn_ends (example_opened (Ok (ROpened example_attr))))"
  let ?sent = "the (reopen_starts 1 ?m)"
  note simps = example_simps conn_ends_def owed_connection_ended_def Let_def List.map_filter_simps reopen_starts_def
    round_send_def reopen_returns_def round_ended_def apply_reopen_def mark_dead_def example_reopened_def publishable_def
  have "reopen_starts 1 ?m = Some ?sent" by (simp add: simps)
  then have sent: "mount_reach ?sent" by (rule reach_step [OF example_new_session StepReopen])
  have "reopen_returns 1 (Err Timeout) ?sent = Some example_reopened"
    by (simp add: simps)
  then show "mount_reach example_reopened" by (rule reach_step [OF sent StepReopened])
  show "\<exists>r. mt_round example_reopened = Some r \<and> publishable r" "1 \<in> mt_began example_reopened"
    by (simp_all add: simps live_ids_iff fun_eq_iff)
qed





text \<open>
  C9. An id is never used twice: the id an open takes is none of a handle being opened, open, dead
  but not yet released by the kernel, being released, owed a release, held by the server, or reopened.
\<close>

theorem handle_ids_fresh:
  assumes "mount_reach m" "unat (ht_next (mt_table m)) + 1 < 2 ^ 64"
  shows "snd (open_starts m) \<notin> mt_opening m \<union> dom (ht_map (mt_table m)) \<union> dom (ht_owed (mt_table m)) \<union>
    dom (mt_releasing m) \<union> mt_began m \<union> mt_held m"
proof -
  have "snd (open_starts m) \<notin> given_ids m"
    using assms(2) by (simp add: open_starts_def alloc_def given_ids_def unat_word_ariths)
  then show ?thesis
    using mount_okD(8) [OF mount_sys.inv_reach [OF assms(1)]] unfolding ids_ok_def by blast
qed

theorem handle_ids_fresh_witness:
  "snd (open_starts (example_opened (Err Interrupted))) \<notin> mt_held (example_opened (Err Interrupted)) \<and>
   1 \<in> mt_held (example_opened (Err Interrupted))"
  using handle_ids_fresh [OF example_opened, of "Err Interrupted"] by (simp add: example_owing)

text \<open>
  C10. A connection of a new session is published only with every handle that was open settled: each is
  reopened and alive, or reopened and since released by the kernel, or owed a release, the server's
  copy of it included.
\<close>

theorem published_round_settled:
  assumes "mount_reach m" "mt_round m = Some r" "publishable r" "fh \<in> mt_began m"
  shows "fh \<in> rr_reopened r \<and> (fh \<in> live_ids (mt_table m) \<or> ht_map (mt_table m) fh = None) \<or>
    fh \<in> dom (ht_owed (mt_table m))"
  using mount_okD(6) [OF mount_sys.inv_reach [OF assms(1)]] assms(2-4)
  by (auto simp: round_settled_def settled_def publishable_def)

theorem published_round_settled_witness:
  "\<exists>r. mt_round example_reopened = Some r \<and> publishable r \<and>
     (1 \<in> rr_reopened r \<and> (1 \<in> live_ids (mt_table example_reopened) \<or> ht_map (mt_table example_reopened) 1 = None) \<or>
      1 \<in> dom (ht_owed (mt_table example_reopened)))"
  using example_reopened(2) published_round_settled [OF example_reopened(1) _ _ example_reopened(3)] by blast

end
