(* ===== verification/Session.thy ===== *)
theory Session
  imports Errno Messages Counted
begin

text \<open>
  One session of the server and the requests of its connections
  (\<open>SessionState\<close>, \<open>Exchange\<close>, \<open>GuardExchange\<close> and the flow of \<open>handle_request\<close> in
  \<open>crates/server/src/session.rs\<close>).  A session's epoch counts its attachments; a change, a request
  that takes part in the ordering, moves through its phases with the counts kept under the
  attachment's lock.  Each operation is a function that runs under that lock; where the source
  asserts, is unreachable, or would take a counter below zero, the function is None.  Epochs and
  counters are natural numbers: they are counted up one at a time.
\<close>

subsection \<open>State\<close>

type_synonym instant = nat

record attachment =
  a_epoch :: nat
  a_detached_at :: "instant option"
  a_remote :: "string option"
  a_running :: nat
  a_abandoned :: nat
  a_running_older :: nat

definition attachment_new :: attachment where
  "attachment_new = \<lparr>a_epoch = 1, a_detached_at = None, a_remote = None, a_running = 0,
     a_abandoned = 0, a_running_older = 0\<rparr>"

record session =
  se_id :: u64
  se_token :: "u8 list"
  se_attachment :: attachment
  se_holders :: nat

datatype phase_exchange =
    PhHeld | PhReady | PhCancelled | PhSuperseded | PhDropped | PhRunning | PhAbandoned | PhFinished

record exchange =
  ex_ordered :: bool
  ex_phase :: phase_exchange
  ex_holder :: bool

definition exchange_new :: "bool \<Rightarrow> exchange" where
  "exchange_new ordered = \<lparr>ex_ordered = ordered, ex_phase = PhReady, ex_holder = True\<rparr>"

datatype verdict = VUnrun | VFenced | VFinished | VSuperseded

abbreviation epoch_of :: "session \<Rightarrow> nat" where
  "epoch_of s \<equiv> a_epoch (se_attachment s)"

subsection \<open>Operations\<close>

text \<open>\<open>SessionState::hold\<close>, and the \<open>Drop\<close> of the hold.\<close>

definition hold :: "session \<Rightarrow> session" where
  "hold s = s\<lparr>se_holders := se_holders s + 1\<rparr>"

definition let_go :: "session \<Rightarrow> session" where
  "let_go s = s\<lparr>se_holders := se_holders s - 1\<rparr>"

text \<open>\<open>Exchange::end\<close>: a terminal phase, and the hold on the session let go.\<close>

definition ex_end :: "phase_exchange \<Rightarrow> session \<Rightarrow> exchange \<Rightarrow> session \<times> exchange" where
  "ex_end to s e =
     (if ex_holder e then let_go s else s, e\<lparr>ex_phase := to, ex_holder := False\<rparr>)"

text \<open>\<open>begin\<close>; the flag says whether the exchange got a guard, which is to say runs.\<close>

definition begin_ex :: "nat \<Rightarrow> session \<Rightarrow> exchange \<Rightarrow> (session \<times> exchange \<times> bool) option" where
  "begin_ex epoch s e =
     (if \<not> ex_ordered e then
        (if ex_phase e = PhReady then Some (s, e\<lparr>ex_phase := PhRunning\<rparr>, True) else None)
      else if ex_phase e \<noteq> PhReady \<and> ex_phase e \<noteq> PhCancelled then None
      else if ex_phase e = PhCancelled then Some (s, e, False)
      else if epoch_of s \<noteq> epoch then
        (let (s', e') = ex_end PhSuperseded s e in Some (s', e', False))
      else Some (s\<lparr>se_attachment := (se_attachment s)\<lparr>a_running := a_running (se_attachment s) + 1\<rparr>\<rparr>,
                 e\<lparr>ex_phase := PhRunning\<rparr>, True))"

definition abandon :: "nat \<Rightarrow> session \<Rightarrow> exchange \<Rightarrow> (session \<times> exchange \<times> verdict) option" where
  "abandon epoch s e =
     (if \<not> ex_ordered e then None
      else case ex_phase e of
        PhHeld \<Rightarrow> (let (s', e') = ex_end PhCancelled s e in Some (s', e', VUnrun))
      | PhReady \<Rightarrow> (let (s', e') = ex_end PhCancelled s e in Some (s', e', VUnrun))
      | PhSuperseded \<Rightarrow> Some (s, e, VSuperseded)
      | PhRunning \<Rightarrow>
          Some (if epoch_of s = epoch
                then s\<lparr>se_attachment := (se_attachment s)\<lparr>a_abandoned := a_abandoned (se_attachment s) + 1\<rparr>\<rparr>
                else s,
                e\<lparr>ex_phase := PhAbandoned\<rparr>, VFenced)
      | PhCancelled \<Rightarrow> None
      | PhAbandoned \<Rightarrow> None
      | PhDropped \<Rightarrow> None
      | PhFinished \<Rightarrow> Some (s, e, VFinished))"

definition fence_of :: "attachment \<Rightarrow> nat" where
  "fence_of a = a_running_older a + a_abandoned a"

definition fencing :: "nat \<Rightarrow> session \<Rightarrow> exchange \<Rightarrow> exchange \<times> nat" where
  "fencing epoch s e =
     (if \<not> ex_ordered e then (e, 0)
      else let fence = (if epoch_of s = epoch then fence_of (se_attachment s) else 0)
           in (if fence > 0 then e\<lparr>ex_phase := PhHeld\<rparr> else e, fence))"

definition drained :: "nat \<Rightarrow> session \<Rightarrow> exchange \<Rightarrow> (session \<times> exchange \<times> bool option) option" where
  "drained epoch s e =
     (if ex_phase e \<noteq> PhHeld then None
      else if epoch_of s \<noteq> epoch then
        (let (s', e') = ex_end PhSuperseded s e in Some (s', e', Some False))
      else if fence_of (se_attachment s) = 0 then Some (s, e\<lparr>ex_phase := PhReady\<rparr>, Some True)
      else Some (s, e, None))"

definition stopped :: "session \<Rightarrow> exchange \<Rightarrow> (session \<times> exchange) option" where
  "stopped s e = (if ex_phase e \<noteq> PhHeld then None else Some (ex_end PhDropped s e))"

text \<open>A counter counted down; below zero it is None.\<close>

definition dec :: "nat \<Rightarrow> nat option" where
  "dec n = (if n = 0 then None else Some (n - 1))"

text \<open>The counts as a change from the connection of \<open>epoch\<close> ends, given up on or not.\<close>

definition count_down :: "nat \<Rightarrow> bool \<Rightarrow> attachment \<Rightarrow> attachment option" where
  "count_down epoch abandoned a =
     (if a_epoch a = epoch then
        (case dec (a_running a) of
           None \<Rightarrow> None
         | Some running \<Rightarrow>
             (case (if abandoned then dec (a_abandoned a) else Some (a_abandoned a)) of
                None \<Rightarrow> None
              | Some abandoned' \<Rightarrow> Some (a\<lparr>a_running := running, a_abandoned := abandoned'\<rparr>)))
      else
        (case dec (a_running_older a) of
           None \<Rightarrow> None
         | Some older \<Rightarrow> Some (a\<lparr>a_running_older := older\<rparr>)))"

text \<open>The \<open>Drop\<close> of \<open>GuardExchange\<close>; the flag says whether held changes are woken.\<close>

definition finish_ex :: "nat \<Rightarrow> session \<Rightarrow> exchange \<Rightarrow> (session \<times> exchange \<times> bool) option" where
  "finish_ex epoch s e =
     (if \<not> ex_ordered e then (let (s', e') = ex_end PhFinished s e in Some (s', e', False))
      else
        let abandoned = (ex_phase e = PhAbandoned);
            (s1, e1) = ex_end PhFinished s e;
            current = (epoch_of s1 = epoch)
        in case count_down epoch abandoned (se_attachment s1) of
             None \<Rightarrow> None
           | Some a \<Rightarrow>
               Some (s1\<lparr>se_attachment := a\<rparr>, e1,
                 if current then abandoned \<and> a_abandoned a = 0 else a_running_older a = 0))"

text \<open>What \<open>Sessions::resume\<close> does to the attachment.\<close>

definition resume_attachment :: "attachment \<Rightarrow> attachment" where
  "resume_attachment a =
     a\<lparr>a_epoch := a_epoch a + 1, a_detached_at := None,
       a_running_older := a_running_older a + a_running a, a_running := 0, a_abandoned := 0\<rparr>"

text \<open>What \<open>Sessions::detach\<close> does to it, at the instant \<open>now\<close>.\<close>

definition detach_attachment :: "instant \<Rightarrow> nat \<Rightarrow> attachment \<Rightarrow> attachment" where
  "detach_attachment now epoch a =
     (if a_epoch a = epoch then a\<lparr>a_detached_at := Some now\<rparr> else a)"

subsection \<open>The requests of a session\<close>

text \<open>
  Where the task of a request stands in \<open>handle_request\<close>: waiting for its fence; on its way to a
  blocking thread, given up on meanwhile or not; on it, given up on meanwhile or not; or done.
\<close>

datatype task = TDraining | TQueued | TGivenUp | TRunning bool | TEnded

record request_task =
  rt_exchange :: exchange
  rt_epoch :: nat
  rt_task :: task

text \<open>
  A session with its connections that have taken it up, the streams accepted and not yet decoded
  (by their connection's epoch), and its requests.
\<close>

record session_sys =
  ss_session :: session
  ss_conns :: "nat list"
  ss_accepted :: "nat list"
  ss_requests :: "nat \<rightharpoonup> request_task"

definition ss_init :: "session_sys \<Rightarrow> bool" where
  "ss_init y \<longleftrightarrow> (\<exists>i token. y = \<lparr>ss_session = \<lparr>se_id = i, se_token = token,
     se_attachment = attachment_new, se_holders = 0\<rparr>, ss_conns = [], ss_accepted = [],
     ss_requests = Map.empty\<rparr>)"

definition put_request :: "nat \<Rightarrow> session \<Rightarrow> exchange \<Rightarrow> task \<Rightarrow> request_task \<Rightarrow> session_sys \<Rightarrow> session_sys" where
  "put_request k s e tk r y =
     y\<lparr>ss_session := s, ss_requests := (ss_requests y)(k \<mapsto> r\<lparr>rt_exchange := e, rt_task := tk\<rparr>)\<rparr>"

inductive ss_step :: "session_sys \<Rightarrow> session_sys \<Rightarrow> bool" where
  step_attach: "ep \<le> epoch_of (ss_session y) \<Longrightarrow>
    ss_step y (y\<lparr>ss_session := hold (ss_session y), ss_conns := ep # ss_conns y\<rparr>)"
| step_detach: "ep \<in> set (ss_conns y) \<Longrightarrow> s = ss_session y \<Longrightarrow>
    ss_step y (y\<lparr>ss_session :=
        let_go (if in_table then s\<lparr>se_attachment := detach_attachment now ep (se_attachment s)\<rparr> else s),
      ss_conns := remove1 ep (ss_conns y)\<rparr>)"
| step_accept: "ep \<le> epoch_of (ss_session y) \<Longrightarrow>
    ss_step y (y\<lparr>ss_session := hold (ss_session y), ss_accepted := ep # ss_accepted y\<rparr>)"
| step_undecoded: "ep \<in> set (ss_accepted y) \<Longrightarrow>
    ss_step y (y\<lparr>ss_session := let_go (ss_session y), ss_accepted := remove1 ep (ss_accepted y)\<rparr>)"
| step_decoded: "ep \<in> set (ss_accepted y) \<Longrightarrow> ss_requests y k = None \<Longrightarrow>
    fencing ep (ss_session y) (exchange_new ordered) = (e, fence) \<Longrightarrow>
    ss_step y (y\<lparr>ss_accepted := remove1 ep (ss_accepted y),
      ss_requests := (ss_requests y)(k \<mapsto> \<lparr>rt_exchange = e, rt_epoch = ep,
        rt_task = (if fence > 0 then TDraining else TQueued)\<rparr>)\<rparr>)"
| step_drained: "ss_requests y k = Some r \<Longrightarrow> rt_task r = TDraining \<Longrightarrow>
    drained (rt_epoch r) (ss_session y) (rt_exchange r) = Some (s, e, Some current) \<Longrightarrow>
    ss_step y (put_request k s e (if current then TQueued else TEnded) r y)"
| step_cancel_held: "ss_requests y k = Some r \<Longrightarrow> rt_task r = TDraining \<Longrightarrow>
    abandon (rt_epoch r) (ss_session y) (rt_exchange r) = Some (s, e, v) \<Longrightarrow>
    ss_step y (put_request k s e TEnded r y)"
| step_stopped: "ss_requests y k = Some r \<Longrightarrow> rt_task r = TDraining \<Longrightarrow>
    stopped (ss_session y) (rt_exchange r) = Some (s, e) \<Longrightarrow>
    ss_step y (put_request k s e TEnded r y)"
| step_begin: "ss_requests y k = Some r \<Longrightarrow> rt_task r = TQueued \<or> rt_task r = TGivenUp \<Longrightarrow>
    begin_ex (rt_epoch r) (ss_session y) (rt_exchange r) = Some (s, e, guard) \<Longrightarrow>
    ss_step y (put_request k s e (if guard then TRunning False else TEnded) r y)"
| step_cancel: "ss_requests y k = Some r \<Longrightarrow> rt_task r = TQueued \<or> rt_task r = TRunning False \<Longrightarrow>
    ex_ordered (rt_exchange r) \<Longrightarrow>
    abandon (rt_epoch r) (ss_session y) (rt_exchange r) = Some (s, e, v) \<Longrightarrow>
    ss_step y (put_request k s e (if v = VFenced then TRunning True else TGivenUp) r y)"
| step_finish: "ss_requests y k = Some r \<Longrightarrow> rt_task r = TRunning c \<Longrightarrow>
    finish_ex (rt_epoch r) (ss_session y) (rt_exchange r) = Some (s, e, woken) \<Longrightarrow>
    ss_step y (put_request k s e TEnded r y)"
| step_resume: "s = ss_session y \<Longrightarrow>
    ss_step y (y\<lparr>ss_session := s\<lparr>se_attachment := resume_attachment (se_attachment s)\<rparr>\<rparr>)"

subsection \<open>The invariant\<close>

definition terminal :: "phase_exchange \<Rightarrow> bool" where
  "terminal p \<longleftrightarrow> p = PhCancelled \<or> p = PhSuperseded \<or> p = PhDropped \<or> p = PhFinished"

definition runs_change :: "request_task \<Rightarrow> bool" where
  "runs_change r \<longleftrightarrow> ex_ordered (rt_exchange r) \<and>
     (ex_phase (rt_exchange r) = PhRunning \<or> ex_phase (rt_exchange r) = PhAbandoned)"

definition runs_at :: "nat \<Rightarrow> request_task \<Rightarrow> bool" where
  "runs_at ep r \<longleftrightarrow> runs_change r \<and> rt_epoch r = ep"

definition runs_before :: "nat \<Rightarrow> request_task \<Rightarrow> bool" where
  "runs_before ep r \<longleftrightarrow> runs_change r \<and> rt_epoch r < ep"

definition abandoned_at :: "nat \<Rightarrow> request_task \<Rightarrow> bool" where
  "abandoned_at ep r \<longleftrightarrow> ex_ordered (rt_exchange r) \<and> ex_phase (rt_exchange r) = PhAbandoned \<and>
     rt_epoch r = ep"

text \<open>The task of a request and its phase say the same.\<close>

definition task_ok :: "request_task \<Rightarrow> bool" where
  "task_ok r \<longleftrightarrow>
     (case rt_task r of
        TDraining \<Rightarrow> ex_ordered (rt_exchange r) \<and> ex_phase (rt_exchange r) = PhHeld
      | TQueued \<Rightarrow> ex_phase (rt_exchange r) = PhReady
      | TGivenUp \<Rightarrow> ex_ordered (rt_exchange r) \<and> ex_phase (rt_exchange r) = PhCancelled
      | TRunning c \<Rightarrow> ex_phase (rt_exchange r) = (if c then PhAbandoned else PhRunning) \<and>
          (c \<longrightarrow> ex_ordered (rt_exchange r))
      | TEnded \<Rightarrow> terminal (ex_phase (rt_exchange r))) \<and>
     (ex_holder (rt_exchange r) \<longleftrightarrow> \<not> terminal (ex_phase (rt_exchange r)))"

definition holds_session :: "request_task \<Rightarrow> bool" where
  "holds_session r = ex_holder (rt_exchange r)"

text \<open>A change past its fence: running, or ready on the current connection.\<close>

definition past_fence :: "nat \<Rightarrow> request_task \<Rightarrow> bool" where
  "past_fence epoch r \<longleftrightarrow> runs_change r \<or>
     (ex_ordered (rt_exchange r) \<and> ex_phase (rt_exchange r) = PhReady \<and> rt_epoch r = epoch)"

definition counts_ok :: "session \<Rightarrow> (nat \<rightharpoonup> request_task) \<Rightarrow> bool" where
  "counts_ok s m \<longleftrightarrow>
     a_running (se_attachment s) = card (keys_where m (runs_at (epoch_of s))) \<and>
     a_abandoned (se_attachment s) = card (keys_where m (abandoned_at (epoch_of s))) \<and>
     a_running_older (se_attachment s) = card (keys_where m (runs_before (epoch_of s)))"

definition ss_ok :: "session_sys \<Rightarrow> bool" where
  "ss_ok y \<longleftrightarrow>
     finite (dom (ss_requests y)) \<and>
     (\<forall>k r. ss_requests y k = Some r \<longrightarrow> task_ok r \<and> rt_epoch r \<le> epoch_of (ss_session y)) \<and>
     (\<forall>ep \<in> set (ss_accepted y). ep \<le> epoch_of (ss_session y)) \<and>
     counts_ok (ss_session y) (ss_requests y) \<and>
     se_holders (ss_session y) =
       length (ss_conns y) + length (ss_accepted y) + card (keys_where (ss_requests y) holds_session) \<and>
     (\<forall>k k' r r'. ss_requests y k = Some r \<longrightarrow> ss_requests y k' = Some r' \<longrightarrow>
        past_fence (epoch_of (ss_session y)) r \<longrightarrow> runs_change r' \<longrightarrow> rt_epoch r \<le> rt_epoch r')"

lemma ss_ok_request:
  assumes "ss_ok y" "ss_requests y k = Some r"
  shows "task_ok r" and "rt_epoch r \<le> epoch_of (ss_session y)" and "finite (dom (ss_requests y))"
  using assms by (auto simp: ss_ok_def)

lemma ss_ok_order:
  assumes "ss_ok y" "ss_requests y k = Some r" "ss_requests y k' = Some r'"
    "past_fence (epoch_of (ss_session y)) r" "runs_change r'"
  shows "rt_epoch r \<le> rt_epoch r'"
  using assms unfolding ss_ok_def by blast

text \<open>
  A step of one request, from \<open>r\<close> to \<open>r'\<close>, keeps the invariant when the counts follow: each count
  changes by what the request's part of it changes by, and a request newly past its fence finds no
  change of an earlier connection running.
\<close>

lemma ss_ok_put:
  assumes ok: "ss_ok y" and fin: "finite (dom (ss_requests y))"
    and r': "task_ok r'" "rt_epoch r' \<le> epoch_of s'"
    and epoch: "epoch_of s' = epoch_of (ss_session y)"
    and run: "a_running (se_attachment s') + tally (runs_at (epoch_of s')) (ss_requests y k) =
      a_running (se_attachment (ss_session y)) + tally (runs_at (epoch_of s')) (Some r')"
    and abn: "a_abandoned (se_attachment s') + tally (abandoned_at (epoch_of s')) (ss_requests y k) =
      a_abandoned (se_attachment (ss_session y)) + tally (abandoned_at (epoch_of s')) (Some r')"
    and old: "a_running_older (se_attachment s') + tally (runs_before (epoch_of s')) (ss_requests y k) =
      a_running_older (se_attachment (ss_session y)) + tally (runs_before (epoch_of s')) (Some r')"
    and hld: "se_holders s' + length (ss_accepted y) + tally holds_session (ss_requests y k) =
      se_holders (ss_session y) + length acc + tally holds_session (Some r')"
    and acc: "set acc \<subseteq> set (ss_accepted y)"
    and fence: "past_fence (epoch_of s') r' \<Longrightarrow>
      (\<exists>r. ss_requests y k = Some r \<and> past_fence (epoch_of s') r \<and> rt_epoch r = rt_epoch r') \<or>
      (\<forall>j q. ss_requests y j = Some q \<longrightarrow> runs_change q \<longrightarrow> rt_epoch r' \<le> rt_epoch q)"
    and runs: "runs_change r' \<Longrightarrow>
      (\<exists>r. ss_requests y k = Some r \<and> runs_change r \<and> rt_epoch r = rt_epoch r') \<or>
      rt_epoch r' = epoch_of s'"
  shows "ss_ok (y\<lparr>ss_session := s', ss_accepted := acc, ss_requests := (ss_requests y)(k \<mapsto> r')\<rparr>)"
proof -
  note put = card_keys_where_put [OF fin, of k r']
  have "a_running (se_attachment (ss_session y)) = card (keys_where (ss_requests y) (runs_at (epoch_of s')))"
    "a_abandoned (se_attachment (ss_session y)) = card (keys_where (ss_requests y) (abandoned_at (epoch_of s')))"
    "a_running_older (se_attachment (ss_session y)) = card (keys_where (ss_requests y) (runs_before (epoch_of s')))"
    and held: "se_holders (ss_session y) =
       length (ss_conns y) + length (ss_accepted y) + card (keys_where (ss_requests y) holds_session)"
    using ok epoch by (auto simp: ss_ok_def counts_ok_def)
  then have "counts_ok s' ((ss_requests y)(k \<mapsto> r'))"
    using run abn old put [of "runs_at (epoch_of s')"] put [of "abandoned_at (epoch_of s')"]
      put [of "runs_before (epoch_of s')"]
    unfolding counts_ok_def by (intro conjI; linarith)
  moreover have "se_holders s' = length (ss_conns y) + length acc +
      card (keys_where ((ss_requests y)(k \<mapsto> r')) holds_session)"
    using held hld put [of holds_session] by linarith
  moreover have "rt_epoch a \<le> rt_epoch b"
    if "((ss_requests y)(k \<mapsto> r')) i = Some a" "((ss_requests y)(k \<mapsto> r')) j = Some b"
      "past_fence (epoch_of s') a" "runs_change b" for i j a b
  proof (cases "j = k")
    case True
    then have b: "b = r'"
      using that by simp
    have le: "rt_epoch a \<le> epoch_of s'"
      using that(1) r'(2) ss_ok_request(2) [OF ok] epoch by (auto split: if_splits)
    show ?thesis
      using runs that(4) b le that(1,3) ss_ok_order [OF ok, of i a k] epoch
      by (auto split: if_splits)
  next
    case False
    then have b: "ss_requests y j = Some b"
      using that by simp
    show ?thesis
      using that(1,3,4) b fence ss_ok_order [OF ok] epoch by (auto split: if_splits) fastforce
  qed
  ultimately show ?thesis
    using ok fin r' epoch acc unfolding ss_ok_def by auto
qed

subsection \<open>Every step keeps it\<close>

lemmas task_simps = task_ok_def terminal_def runs_change_def runs_at_def runs_before_def
  abandoned_at_def holds_session_def past_fence_def

lemma holder_counted:
  assumes "ss_ok y" "ss_requests y k = Some r" "ex_holder (rt_exchange r)"
  shows "0 < se_holders (ss_session y)"
proof -
  have "k \<in> keys_where (ss_requests y) holds_session"
    using assms by (simp add: holds_session_def)
  then have "0 < card (keys_where (ss_requests y) holds_session)"
    using ss_ok_request(3) [OF assms(1,2)] by (metis card_gt_0_iff empty_iff finite_keys_where)
  then show ?thesis
    using assms(1) by (simp add: ss_ok_def)
qed

lemma running_counted:
  assumes "ss_ok y" "ss_requests y k = Some r" "P r" "card (keys_where (ss_requests y) P) = n"
  shows "0 < n"
proof -
  have "k \<in> keys_where (ss_requests y) P"
    using assms by simp
  then show ?thesis
    using ss_ok_request(3) [OF assms(1,2)] assms(4)
    by (metis card_gt_0_iff empty_iff finite_keys_where)
qed

text \<open>A fence of nothing: no change of an earlier connection runs, and none that was given up on.\<close>

lemma no_fence:
  assumes "ss_ok y" "fence_of (se_attachment (ss_session y)) = 0" "ss_requests y k = Some r" "runs_change r"
  shows "rt_epoch r = epoch_of (ss_session y)" and "ex_phase (rt_exchange r) = PhRunning"
proof -
  let ?ep = "epoch_of (ss_session y)"
  have le: "rt_epoch r \<le> ?ep"
    using assms(1,3) by (rule ss_ok_request)
  have zero: "card (keys_where (ss_requests y) (runs_before ?ep)) = 0"
    "card (keys_where (ss_requests y) (abandoned_at ?ep)) = 0"
    using assms(1,2) by (auto simp: ss_ok_def counts_ok_def fence_of_def)
  have "\<not> runs_before ?ep r" "\<not> abandoned_at ?ep r"
    using running_counted [OF assms(1,3) _ zero(1)] running_counted [OF assms(1,3) _ zero(2)] by auto
  then show "rt_epoch r = ?ep" "ex_phase (rt_exchange r) = PhRunning"
    using assms(4) le by (auto simp: runs_before_def abandoned_at_def runs_change_def)
qed

text \<open>Every change that runs came on the connection of \<open>ep\<close> and is not given up on.\<close>

definition only_runs :: "nat \<Rightarrow> session_sys \<Rightarrow> bool" where
  "only_runs ep y \<longleftrightarrow> (\<forall>k r. ss_requests y k = Some r \<longrightarrow> runs_change r \<longrightarrow>
     rt_epoch r = ep \<and> ex_phase (rt_exchange r) = PhRunning)"

lemma fence_zero_iff:
  assumes ok: "ss_ok y"
  shows "fence_of (se_attachment (ss_session y)) = 0 \<longleftrightarrow> only_runs (epoch_of (ss_session y)) y"
proof
  assume "fence_of (se_attachment (ss_session y)) = 0"
  from no_fence [OF ok this] show "only_runs (epoch_of (ss_session y)) y"
    unfolding only_runs_def by blast
next
  assume all: "only_runs (epoch_of (ss_session y)) y"
  have "keys_where (ss_requests y) (runs_before (epoch_of (ss_session y))) = {}"
    "keys_where (ss_requests y) (abandoned_at (epoch_of (ss_session y))) = {}"
    using all by (fastforce simp: only_runs_def runs_before_def abandoned_at_def runs_change_def)+
  with ok show "fence_of (se_attachment (ss_session y)) = 0"
    by (simp add: ss_ok_def counts_ok_def fence_of_def)
qed

lemma ss_ok_put_request:
  assumes "ss_ok (y\<lparr>ss_session := s, ss_accepted := ss_accepted y,
    ss_requests := (ss_requests y)(k \<mapsto> r\<lparr>rt_exchange := e, rt_task := tk\<rparr>)\<rparr>)"
  shows "ss_ok (put_request k s e tk r y)"
  using assms by (simp add: put_request_def)

lemma ss_ok_ended:
  assumes ok: "ss_ok y" and r: "ss_requests y k = Some r"
    and live: "ex_holder (rt_exchange r)" "\<not> runs_change r" and to: "terminal to"
  shows "ss_ok (put_request k (fst (ex_end to (ss_session y) (rt_exchange r)))
    (snd (ex_end to (ss_session y) (rt_exchange r))) TEnded r y)"
  using ss_ok_request [OF ok r] holder_counted [OF ok r live(1)] live to r
  by (intro ss_ok_put_request ss_ok_put [OF ok])
    (auto simp: ex_end_def let_go_def task_simps)

lemma ss_ok_same_counts:
  assumes ok: "ss_ok y" and r: "ss_requests y k = Some r"
    and same: "ex_ordered e = ex_ordered (rt_exchange r)" "ex_holder e = ex_holder (rt_exchange r)"
    and r': "task_ok (r\<lparr>rt_exchange := e, rt_task := tk\<rparr>)"
    and quiet: "\<not> runs_change r" "\<not> runs_change (r\<lparr>rt_exchange := e, rt_task := tk\<rparr>)"
    and fence: "past_fence (epoch_of (ss_session y)) (r\<lparr>rt_exchange := e, rt_task := tk\<rparr>) \<Longrightarrow>
      \<forall>j q. ss_requests y j = Some q \<longrightarrow> runs_change q \<longrightarrow> rt_epoch r \<le> rt_epoch q"
  shows "ss_ok (put_request k (ss_session y) e tk r y)"
  using ss_ok_request [OF ok r] same r' quiet fence r
  by (intro ss_ok_put_request ss_ok_put [OF ok])
    (auto simp: runs_at_def runs_before_def abandoned_at_def holds_session_def runs_change_def)

lemma ss_ok_drained:
  assumes ok: "ss_ok y" and r: "ss_requests y k = Some r" "rt_task r = TDraining"
    and d: "drained (rt_epoch r) (ss_session y) (rt_exchange r) = Some (s, e, Some current)"
  shows "ss_ok (put_request k s e (if current then TQueued else TEnded) r y)"
proof -
  have t: "task_ok r"
    using ok r(1) by (rule ss_ok_request)
  then have e: "ex_phase (rt_exchange r) = PhHeld" "ex_ordered (rt_exchange r)" "ex_holder (rt_exchange r)"
    using r(2) by (auto simp: task_ok_def terminal_def)
  show ?thesis
  proof (cases "epoch_of (ss_session y) = rt_epoch r")
    case False
    with d e show ?thesis
      using ss_ok_ended [OF ok r(1) e(3), of PhSuperseded]
      by (auto simp: drained_def split_beta Let_def runs_change_def terminal_def)
  next
    case True
    with d e(1) have *: "fence_of (se_attachment (ss_session y)) = 0" "current" "s = ss_session y"
      "e = rt_exchange r\<lparr>ex_phase := PhReady\<rparr>"
      by (auto simp: drained_def split: if_splits)
    have "\<forall>j q. ss_requests y j = Some q \<longrightarrow> runs_change q \<longrightarrow> rt_epoch r \<le> rt_epoch q"
      using no_fence(1) [OF ok *(1)] True by auto
    with * e show ?thesis
      using ss_ok_same_counts [OF ok r(1), of e TQueued]
      by (auto simp: task_ok_def terminal_def runs_change_def)
  qed
qed

lemma ss_ok_begin:
  assumes ok: "ss_ok y" and r: "ss_requests y k = Some r" "rt_task r = TQueued \<or> rt_task r = TGivenUp"
    and b: "begin_ex (rt_epoch r) (ss_session y) (rt_exchange r) = Some (s, e, guard)"
  shows "ss_ok (put_request k s e (if guard then TRunning False else TEnded) r y)"
proof -
  have t: "task_ok r"
    using ok r(1) by (rule ss_ok_request)
  consider (unordered) "\<not> ex_ordered (rt_exchange r)" "guard" "s = ss_session y"
      "e = rt_exchange r\<lparr>ex_phase := PhRunning\<rparr>" "ex_phase (rt_exchange r) = PhReady"
    | (cancelled) "ex_phase (rt_exchange r) = PhCancelled" "\<not> guard" "s = ss_session y" "e = rt_exchange r"
    | (superseded) "ex_phase (rt_exchange r) = PhReady" "\<not> guard"
      "(s, e) = ex_end PhSuperseded (ss_session y) (rt_exchange r)"
    | (runs) "ex_phase (rt_exchange r) = PhReady" "guard" "ex_ordered (rt_exchange r)"
      "epoch_of (ss_session y) = rt_epoch r" "e = rt_exchange r\<lparr>ex_phase := PhRunning\<rparr>"
      "s = (ss_session y)\<lparr>se_attachment := (se_attachment (ss_session y))\<lparr>a_running :=
        a_running (se_attachment (ss_session y)) + 1\<rparr>\<rparr>"
    using b by (auto simp: begin_ex_def split_beta Let_def split: if_splits)
  then show ?thesis
  proof cases
    case unordered
    then show ?thesis
      using t ss_ok_same_counts [OF ok r(1), of e "TRunning False"]
      by (auto simp: task_ok_def terminal_def runs_change_def past_fence_def split: task.splits)
  next
    case cancelled
    then show ?thesis
      using t ss_ok_same_counts [OF ok r(1), of e TEnded]
      by (auto simp: task_ok_def terminal_def runs_change_def past_fence_def)
  next
    case superseded
    then show ?thesis
      using t ss_ok_ended [OF ok r(1), of PhSuperseded]
      by (auto simp: task_ok_def terminal_def runs_change_def prod_eq_iff)
  next
    case runs
    then show ?thesis
      using ss_ok_request [OF ok r(1)] t r
      by (auto intro!: ss_ok_put_request ss_ok_put [OF ok] simp: task_simps)
  qed
qed

lemma ss_ok_cancel_held:
  assumes ok: "ss_ok y" and r: "ss_requests y k = Some r" "rt_task r = TDraining"
    and a: "abandon (rt_epoch r) (ss_session y) (rt_exchange r) = Some (s, e, v)"
  shows "ss_ok (put_request k s e TEnded r y)"
proof -
  have "task_ok r"
    using ok r(1) by (rule ss_ok_request)
  with r(2) a show ?thesis
    using ss_ok_ended [OF ok r(1), of PhCancelled]
    by (auto simp: abandon_def split_beta Let_def task_ok_def terminal_def runs_change_def)
qed

lemma ss_ok_stopped:
  assumes ok: "ss_ok y" and r: "ss_requests y k = Some r" "rt_task r = TDraining"
    and d: "stopped (ss_session y) (rt_exchange r) = Some (s, e)"
  shows "ss_ok (put_request k s e TEnded r y)"
proof -
  have "task_ok r"
    using ok r(1) by (rule ss_ok_request)
  with r(2) d show ?thesis
    using ss_ok_ended [OF ok r(1), of PhDropped]
    by (auto simp: stopped_def task_ok_def terminal_def runs_change_def split: if_splits)
qed

lemma ss_ok_given_up:
  assumes ok: "ss_ok y" and r: "ss_requests y k = Some r" and e: "ex_holder (rt_exchange r)"
    "\<not> runs_change r" "ex_ordered (rt_exchange r)"
  shows "ss_ok (put_request k (fst (ex_end PhCancelled (ss_session y) (rt_exchange r)))
    (snd (ex_end PhCancelled (ss_session y) (rt_exchange r))) TGivenUp r y)"
  using ss_ok_request [OF ok r] holder_counted [OF ok r e(1)] e r
  by (intro ss_ok_put_request ss_ok_put [OF ok]) (auto simp: ex_end_def let_go_def task_simps)

lemma ss_ok_cancel:
  assumes ok: "ss_ok y" and r: "ss_requests y k = Some r" "rt_task r = TQueued \<or> rt_task r = TRunning False"
    and o: "ex_ordered (rt_exchange r)"
    and a: "abandon (rt_epoch r) (ss_session y) (rt_exchange r) = Some (s, e, v)"
  shows "ss_ok (put_request k s e (if v = VFenced then TRunning True else TGivenUp) r y)"
proof -
  have t: "task_ok r"
    using ok r(1) by (rule ss_ok_request)
  show ?thesis
  proof (cases "rt_task r = TQueued")
    case True
    with t a o show ?thesis
      using ss_ok_given_up [OF ok r(1)]
      by (auto simp: abandon_def split_beta Let_def task_ok_def terminal_def runs_change_def)
  next
    case False
    with r(2) t have ph: "ex_phase (rt_exchange r) = PhRunning" "ex_holder (rt_exchange r)"
      by (auto simp: task_ok_def terminal_def)
    with a o have "v = VFenced" "e = rt_exchange r\<lparr>ex_phase := PhAbandoned\<rparr>"
      "s = (if epoch_of (ss_session y) = rt_epoch r
        then (ss_session y)\<lparr>se_attachment := (se_attachment (ss_session y))\<lparr>a_abandoned :=
          a_abandoned (se_attachment (ss_session y)) + 1\<rparr>\<rparr> else ss_session y)"
      by (auto simp: abandon_def)
    then show ?thesis
      using ss_ok_request [OF ok r(1)] t r ph o
      by (auto intro!: ss_ok_put_request ss_ok_put [OF ok] simp: task_simps)
  qed
qed

text \<open>The counts a change that ends is part of are not zero.\<close>

lemma count_down_Some:
  assumes ok: "ss_ok y" and r: "ss_requests y k = Some r" "runs_change r"
  defines "a \<equiv> se_attachment (ss_session y)"
  shows "count_down (rt_epoch r) (ex_phase (rt_exchange r) = PhAbandoned) a =
    Some (if a_epoch a = rt_epoch r
      then a\<lparr>a_running := a_running a - 1, a_abandoned := a_abandoned a -
        (if ex_phase (rt_exchange r) = PhAbandoned then 1 else 0)\<rparr>
      else a\<lparr>a_running_older := a_running_older a - 1\<rparr>)"
    and "a_epoch a = rt_epoch r \<Longrightarrow> 0 < a_running a"
    and "a_epoch a = rt_epoch r \<Longrightarrow> ex_phase (rt_exchange r) = PhAbandoned \<Longrightarrow> 0 < a_abandoned a"
    and "a_epoch a \<noteq> rt_epoch r \<Longrightarrow> 0 < a_running_older a"
proof -
  note le = ss_ok_request(2) [OF ok r(1)]
  have cnt: "card (keys_where (ss_requests y) (runs_at (a_epoch a))) = a_running a"
    "card (keys_where (ss_requests y) (abandoned_at (a_epoch a))) = a_abandoned a"
    "card (keys_where (ss_requests y) (runs_before (a_epoch a))) = a_running_older a"
    using ok by (simp_all add: ss_ok_def counts_ok_def a_def)
  show 1: "0 < a_running a" if "a_epoch a = rt_epoch r"
    using running_counted [OF ok r(1) _ cnt(1)] r(2) that by (simp add: runs_at_def)
  show 2: "0 < a_abandoned a" if "a_epoch a = rt_epoch r" "ex_phase (rt_exchange r) = PhAbandoned"
    using running_counted [OF ok r(1) _ cnt(2)] r(2) that by (simp add: abandoned_at_def runs_change_def)
  show 3: "0 < a_running_older a" if "a_epoch a \<noteq> rt_epoch r"
    using running_counted [OF ok r(1) _ cnt(3)] r(2) that le by (simp add: runs_before_def a_def)
  show "count_down (rt_epoch r) (ex_phase (rt_exchange r) = PhAbandoned) a =
    Some (if a_epoch a = rt_epoch r
      then a\<lparr>a_running := a_running a - 1, a_abandoned := a_abandoned a -
        (if ex_phase (rt_exchange r) = PhAbandoned then 1 else 0)\<rparr>
      else a\<lparr>a_running_older := a_running_older a - 1\<rparr>)"
  proof (cases "a_epoch a = rt_epoch r")
    case True
    with 1 2 show ?thesis
      by (auto simp: count_down_def dec_def)
  next
    case False
    with 3 show ?thesis
      by (auto simp: count_down_def dec_def)
  qed
qed

lemma ss_ok_finish:
  assumes ok: "ss_ok y" and r: "ss_requests y k = Some r" "rt_task r = TRunning c"
    and f: "finish_ex (rt_epoch r) (ss_session y) (rt_exchange r) = Some (s, e, woken)"
  shows "ss_ok (put_request k s e TEnded r y)"
proof (cases "ex_ordered (rt_exchange r)")
  case False
  have "task_ok r"
    using ok r(1) by (rule ss_ok_request)
  with False f r(2) show ?thesis
    using ss_ok_ended [OF ok r(1), of PhFinished]
    by (auto simp: finish_ex_def split_beta Let_def task_ok_def terminal_def runs_change_def split: if_splits)
next
  case True
  have t: "task_ok r"
    using ok r(1) by (rule ss_ok_request)
  then have ph: "ex_phase (rt_exchange r) = (if c then PhAbandoned else PhRunning)"
    "ex_holder (rt_exchange r)" and run: "runs_change r"
    using r(2) True by (auto simp: task_ok_def terminal_def runs_change_def)
  note cd = count_down_Some [OF ok r(1) run]
  have att: "se_attachment (fst (ex_end PhFinished (ss_session y) (rt_exchange r))) = se_attachment (ss_session y)"
    by (simp add: ex_end_def let_go_def)
  have e: "e = (rt_exchange r)\<lparr>ex_phase := PhFinished, ex_holder := False\<rparr>"
    and s: "s = (let_go (ss_session y))\<lparr>se_attachment := the (count_down (rt_epoch r)
      (ex_phase (rt_exchange r) = PhAbandoned) (se_attachment (ss_session y)))\<rparr>"
    using f True cd(1) ph(2)
    by (auto simp: finish_ex_def Let_def split_beta att) (auto simp: ex_end_def)
  show ?thesis
    using ss_ok_request [OF ok r(1)] holder_counted [OF ok r(1) ph(2)] cd r ph True
    by (auto intro!: ss_ok_put_request ss_ok_put [OF ok] simp: task_simps e s let_go_def)
qed

lemma ss_ok_session:
  assumes "ss_ok y" "se_attachment s' = (se_attachment (ss_session y))\<lparr>a_detached_at := at\<rparr>"
    "se_holders s' + length (ss_conns y) + length (ss_accepted y) =
       se_holders (ss_session y) + length conns + length acc"
    "\<forall>ep \<in> set acc. ep \<le> epoch_of (ss_session y)"
  shows "ss_ok (y\<lparr>ss_session := s', ss_conns := conns, ss_accepted := acc\<rparr>)"
  using assms by (auto simp: ss_ok_def counts_ok_def)

lemma length_remove1_Suc: "x \<in> set xs \<Longrightarrow> length xs = Suc (length (remove1 x xs))"
  by (induction xs) auto

lemma attached_counted:
  assumes "ss_ok y" "ep \<in> set (ss_conns y) \<or> ep \<in> set (ss_accepted y)"
  shows "0 < se_holders (ss_session y)"
  using assms by (auto simp: ss_ok_def dest: length_pos_if_in_set)

lemma attachment_detached_same: "a\<lparr>a_detached_at := a_detached_at a\<rparr> = (a :: attachment)"
  by simp

lemma ss_ok_attach:
  "ss_ok y \<Longrightarrow> ep \<le> epoch_of (ss_session y) \<Longrightarrow>
     ss_ok (y\<lparr>ss_session := hold (ss_session y), ss_conns := ep # ss_conns y\<rparr>)"
  using ss_ok_session [of y "hold (ss_session y)" "a_detached_at (se_attachment (ss_session y))"
      "ep # ss_conns y" "ss_accepted y"]
  by (auto simp: hold_def ss_ok_def)

lemma ss_ok_accept:
  "ss_ok y \<Longrightarrow> ep \<le> epoch_of (ss_session y) \<Longrightarrow>
     ss_ok (y\<lparr>ss_session := hold (ss_session y), ss_accepted := ep # ss_accepted y\<rparr>)"
  using ss_ok_session [of y "hold (ss_session y)" "a_detached_at (se_attachment (ss_session y))"
      "ss_conns y" "ep # ss_accepted y"]
  by (auto simp: hold_def ss_ok_def)

lemma ss_ok_detach:
  assumes ok: "ss_ok y" and ep: "ep \<in> set (ss_conns y)"
  defines "s \<equiv> ss_session y"
  shows "ss_ok (y\<lparr>ss_session :=
      let_go (if in_table then s\<lparr>se_attachment := detach_attachment now ep (se_attachment s)\<rparr> else s),
    ss_conns := remove1 ep (ss_conns y)\<rparr>)"
proof -
  let ?s' = "let_go (if in_table then s\<lparr>se_attachment := detach_attachment now ep (se_attachment s)\<rparr> else s)"
  have "se_attachment ?s' = (se_attachment (ss_session y))\<lparr>a_detached_at := a_detached_at (se_attachment ?s')\<rparr>"
    by (simp add: let_go_def detach_attachment_def s_def)
  moreover have "se_holders ?s' + 1 = se_holders (ss_session y)"
    using attached_counted [of y ep] ok ep by (simp add: let_go_def s_def)
  ultimately show ?thesis
    using ss_ok_session [of y ?s' "a_detached_at (se_attachment ?s')" "remove1 ep (ss_conns y)" "ss_accepted y"]
      ok length_remove1_Suc [OF ep] by (auto simp: ss_ok_def)
qed

lemma ss_ok_undecoded:
  assumes ok: "ss_ok y" and ep: "ep \<in> set (ss_accepted y)"
  shows "ss_ok (y\<lparr>ss_session := let_go (ss_session y), ss_accepted := remove1 ep (ss_accepted y)\<rparr>)"
  using ss_ok_session [of y "let_go (ss_session y)" "a_detached_at (se_attachment (ss_session y))"
      "ss_conns y" "remove1 ep (ss_accepted y)"]
    ok attached_counted [of y ep] ep length_remove1_Suc [OF ep]
  by (auto simp: let_go_def ss_ok_def dest: set_remove1_subset [THEN subsetD])

lemma ss_ok_decoded:
  assumes ok: "ss_ok y" and ep: "ep \<in> set (ss_accepted y)" and k: "ss_requests y k = None"
    and f: "fencing ep (ss_session y) (exchange_new ordered) = (e, fence)"
  shows "ss_ok (y\<lparr>ss_accepted := remove1 ep (ss_accepted y),
    ss_requests := (ss_requests y)(k \<mapsto> \<lparr>rt_exchange = e, rt_epoch = ep,
      rt_task = (if fence > 0 then TDraining else TQueued)\<rparr>)\<rparr>)"
proof -
  let ?r = "\<lparr>rt_exchange = e, rt_epoch = ep, rt_task = (if fence > 0 then TDraining else TQueued)\<rparr>"
  have fin: "finite (dom (ss_requests y))" and le: "ep \<le> epoch_of (ss_session y)"
    using ok ep by (auto simp: ss_ok_def)
  have e: "ex_ordered e = ordered" "ex_holder e"
    "ex_phase e = (if fence > 0 then PhHeld else PhReady)" "fence > 0 \<longrightarrow> ordered"
    using f by (auto simp: fencing_def exchange_new_def Let_def split: if_splits)
  have "\<forall>j q. ss_requests y j = Some q \<longrightarrow> runs_change q \<longrightarrow> ep \<le> rt_epoch q"
    if "past_fence (epoch_of (ss_session y)) ?r"
  proof -
    have "ordered" "fence = 0" "ep = epoch_of (ss_session y)"
      using that e by (auto simp: past_fence_def runs_change_def split: if_splits)
    then have "fence_of (se_attachment (ss_session y)) = 0"
      using f by (auto simp: fencing_def exchange_new_def Let_def)
    from no_fence(1) [OF ok this] \<open>ep = _\<close> show ?thesis
      by auto
  qed
  moreover have "task_ok ?r" "\<not> runs_change ?r"
    using e by (auto simp: task_ok_def terminal_def runs_change_def)
  ultimately have "ss_ok (y\<lparr>ss_session := ss_session y, ss_accepted := remove1 ep (ss_accepted y),
      ss_requests := (ss_requests y)(k \<mapsto> ?r)\<rparr>)"
    using k fin le e length_remove1_Suc [OF ep] set_remove1_subset [of ep "ss_accepted y"]
    by (intro ss_ok_put [OF ok]) (auto simp: runs_at_def runs_before_def abandoned_at_def holds_session_def)
  then show ?thesis
    by simp
qed

lemma ss_ok_resume:
  assumes ok: "ss_ok y"
  shows "ss_ok (y\<lparr>ss_session := (ss_session y)\<lparr>se_attachment :=
    resume_attachment (se_attachment (ss_session y))\<rparr>\<rparr>)"
proof -
  let ?ep = "epoch_of (ss_session y)" and ?m = "ss_requests y"
  have fin: "finite (dom ?m)" and le: "\<And>k r. ?m k = Some r \<Longrightarrow> rt_epoch r \<le> ?ep"
    using ok by (auto simp: ss_ok_def)
  have none: "keys_where ?m (runs_at (Suc ?ep)) = {}" "keys_where ?m (abandoned_at (Suc ?ep)) = {}"
    using le by (fastforce simp: runs_at_def abandoned_at_def)+
  have "keys_where ?m (runs_before (Suc ?ep)) =
      keys_where ?m (runs_before ?ep) \<union> keys_where ?m (runs_at ?ep)"
    by (auto simp: runs_before_def runs_at_def)
  moreover have "keys_where ?m (runs_before ?ep) \<inter> keys_where ?m (runs_at ?ep) = {}"
    by (auto simp: runs_before_def runs_at_def)
  ultimately have "card (keys_where ?m (runs_before (Suc ?ep))) =
      card (keys_where ?m (runs_before ?ep)) + card (keys_where ?m (runs_at ?ep))"
    using fin by (simp add: card_Un_disjoint)
  moreover have "past_fence ?ep r" if "?m k = Some r" "past_fence (Suc ?ep) r" for k r
    using that le [OF that(1)] by (auto simp: past_fence_def)
  ultimately show ?thesis
    using ok none unfolding ss_ok_def counts_ok_def resume_attachment_def by (auto intro: le_SucI)
qed

lemmas ss_ok_steps = ss_ok_attach ss_ok_detach ss_ok_accept ss_ok_undecoded ss_ok_decoded
  ss_ok_drained ss_ok_cancel_held ss_ok_stopped ss_ok_begin ss_ok_cancel ss_ok_finish ss_ok_resume

lemma ss_ok_step: "ss_step y y' \<Longrightarrow> ss_ok y \<Longrightarrow> ss_ok y'"
  by (induction rule: ss_step.induct) (hypsubst?, rule ss_ok_steps; assumption)+

interpretation session_sys: invariant_system ss_init ss_step ss_ok
proof unfold_locales
  show "ss_init y \<Longrightarrow> ss_ok y" for y
    by (auto simp: ss_init_def ss_ok_def counts_ok_def attachment_new_def)
qed (rule ss_ok_step)

subsection \<open>Requests over time\<close>

text \<open>What an operation on a request leaves alone, and when it makes a change run.\<close>

definition op_keeps :: "session \<Rightarrow> exchange \<Rightarrow> session \<Rightarrow> exchange \<Rightarrow> bool" where
  "op_keeps s e s' e' \<longleftrightarrow> epoch_of s' = epoch_of s \<and> ex_ordered e' = ex_ordered e \<and>
     (ex_ordered e \<and> ex_phase e' \<in> {PhRunning, PhAbandoned} \<longrightarrow> ex_phase e \<in> {PhRunning, PhAbandoned})"

lemma ex_end_keeps: "terminal to \<Longrightarrow> ex_end to s e = (s', e') \<Longrightarrow> op_keeps s e s' e'"
  by (auto simp: op_keeps_def ex_end_def let_go_def terminal_def)

lemma drained_keeps: "drained ep s e = Some (s', e', x) \<Longrightarrow> op_keeps s e s' e'"
  by (auto simp: drained_def op_keeps_def ex_end_def let_go_def split: if_splits)

lemma stopped_keeps: "stopped s e = Some (s', e') \<Longrightarrow> op_keeps s e s' e'"
  by (auto simp: stopped_def op_keeps_def ex_end_def let_go_def split: if_splits)

lemma abandon_keeps: "abandon ep s e = Some (s', e', v) \<Longrightarrow> op_keeps s e s' e'"
  by (cases "ex_phase e")
    (auto simp: abandon_def op_keeps_def ex_end_def let_go_def split: if_splits)

lemma finish_keeps:
  assumes "finish_ex ep s e = Some (s', e', w)"
  shows "op_keeps s e s' e'"
proof -
  obtain s1 e1 where end1: "ex_end PhFinished s e = (s1, e1)"
    by fastforce
  have "op_keeps s e s1 e1"
    using end1 by (rule ex_end_keeps [rotated]) (simp add: terminal_def)
  moreover have "epoch_of s' = epoch_of s1 \<and> e' = e1"
    using assms by (auto simp: finish_ex_def end1 count_down_def Let_def split: if_splits option.splits)
  ultimately show ?thesis
    by (simp add: op_keeps_def)
qed

lemma begin_keeps:
  assumes "begin_ex ep s e = Some (s', e', g)"
  shows "op_keeps s e s' e' \<or> ep = epoch_of s \<and> ex_ordered e \<and> epoch_of s' = epoch_of s \<and> ex_ordered e'"
  using assms by (auto simp: begin_ex_def op_keeps_def ex_end_def let_go_def split: if_splits)

text \<open>A request keeps its connection's epoch and its part in the ordering, and epochs only grow.\<close>

definition request_evolves :: "session_sys \<Rightarrow> nat \<Rightarrow> request_task \<Rightarrow> session_sys \<Rightarrow> bool" where
  "request_evolves y k r y' \<longleftrightarrow> (\<exists>r'. ss_requests y' k = Some r' \<and> rt_epoch r' = rt_epoch r \<and>
     ex_ordered (rt_exchange r') = ex_ordered (rt_exchange r) \<and>
     epoch_of (ss_session y) \<le> epoch_of (ss_session y') \<and>
     (runs_change r' \<longrightarrow> runs_change r \<or> rt_epoch r = epoch_of (ss_session y)))"

lemma put_request_evolves:
  assumes "ss_requests y k = Some r" "ss_requests y k' = Some r'"
    and "op_keeps (ss_session y) (rt_exchange r') s e \<or>
      rt_epoch r' = epoch_of (ss_session y) \<and> ex_ordered (rt_exchange r') \<and>
      epoch_of s = epoch_of (ss_session y) \<and> ex_ordered e"
  shows "request_evolves y k r (put_request k' s e tk r' y)"
  using assms by (auto simp: request_evolves_def put_request_def op_keeps_def runs_change_def)

lemma ss_step_request:
  assumes "ss_step y y'" "ss_requests y k = Some r"
  shows "request_evolves y k r y'"
  using assms(1)
proof (cases rule: ss_step.cases)
  case (step_drained k' r' s e current)
  then show ?thesis
    using assms(2) by (auto intro!: put_request_evolves dest: drained_keeps)
next
  case (step_cancel_held k' r' s e v)
  then show ?thesis
    using assms(2) by (auto intro!: put_request_evolves dest: abandon_keeps)
next
  case (step_stopped k' r' s e)
  then show ?thesis
    using assms(2) by (auto intro!: put_request_evolves dest: stopped_keeps)
next
  case (step_begin k' r' s e guard)
  then show ?thesis
    using assms(2) by (auto intro!: put_request_evolves dest!: begin_keeps)
next
  case (step_cancel k' r' s e v)
  then show ?thesis
    using assms(2) by (auto intro!: put_request_evolves dest: abandon_keeps)
next
  case (step_finish k' r' c s e woken)
  then show ?thesis
    using assms(2) by (auto intro!: put_request_evolves dest: finish_keeps)
qed (use assms(2) in \<open>auto simp: request_evolves_def hold_def let_go_def detach_attachment_def
    resume_attachment_def\<close>)

text \<open>A change of an earlier connection that does not run never will.\<close>

lemma never_runs:
  assumes "ss_step\<^sup>*\<^sup>* y y'" "ss_requests y k = Some r" "rt_epoch r < epoch_of (ss_session y)" "\<not> runs_change r"
  shows "\<exists>r'. ss_requests y' k = Some r' \<and> \<not> runs_change r' \<and> rt_epoch r' = rt_epoch r \<and>
    epoch_of (ss_session y) \<le> epoch_of (ss_session y')"
  using assms
proof (induction rule: rtranclp_induct)
  case (step y1 y2)
  then obtain r1 where r1: "ss_requests y1 k = Some r1" "\<not> runs_change r1" "rt_epoch r1 = rt_epoch r"
    "epoch_of (ss_session y) \<le> epoch_of (ss_session y1)"
    by blast
  from ss_step_request [OF step.hyps(2) r1(1)] obtain r2 where
    "ss_requests y2 k = Some r2" "rt_epoch r2 = rt_epoch r1"
    "epoch_of (ss_session y1) \<le> epoch_of (ss_session y2)"
    "runs_change r2 \<longrightarrow> runs_change r1 \<or> rt_epoch r1 = epoch_of (ss_session y1)"
    unfolding request_evolves_def by blast
  with r1 step.prems show ?case
    by fastforce
qed auto

text \<open>What a task does next never runs into a refusal of the operation.\<close>

lemma ops_total:
  assumes ok: "ss_ok y" and r: "ss_requests y k = Some r"
  shows "rt_task r = TDraining \<Longrightarrow> drained (rt_epoch r) (ss_session y) (rt_exchange r) \<noteq> None"
    and "rt_task r = TDraining \<Longrightarrow> stopped (ss_session y) (rt_exchange r) \<noteq> None"
    and "rt_task r = TDraining \<Longrightarrow>
      \<exists>s' e'. abandon (rt_epoch r) (ss_session y) (rt_exchange r) = Some (s', e', VUnrun)"
    and "rt_task r = TQueued \<or> rt_task r = TGivenUp \<Longrightarrow>
      begin_ex (rt_epoch r) (ss_session y) (rt_exchange r) \<noteq> None"
    and "rt_task r = TQueued \<or> rt_task r = TRunning False \<Longrightarrow> ex_ordered (rt_exchange r) \<Longrightarrow>
      abandon (rt_epoch r) (ss_session y) (rt_exchange r) \<noteq> None"
    and "rt_task r = TRunning c \<Longrightarrow> finish_ex (rt_epoch r) (ss_session y) (rt_exchange r) \<noteq> None"
proof -
  note t = ss_ok_request(1) [OF ok r, unfolded task_ok_def]
  show "rt_task r = TDraining \<Longrightarrow> drained (rt_epoch r) (ss_session y) (rt_exchange r) \<noteq> None"
    using t by (simp add: drained_def split_beta Let_def)
  show "rt_task r = TDraining \<Longrightarrow> stopped (ss_session y) (rt_exchange r) \<noteq> None"
    using t by (simp add: stopped_def)
  show "rt_task r = TDraining \<Longrightarrow>
      \<exists>s' e'. abandon (rt_epoch r) (ss_session y) (rt_exchange r) = Some (s', e', VUnrun)"
    using t by (simp add: abandon_def split_beta Let_def)
  show "rt_task r = TQueued \<or> rt_task r = TGivenUp \<Longrightarrow>
      begin_ex (rt_epoch r) (ss_session y) (rt_exchange r) \<noteq> None"
    using t by (auto simp: begin_ex_def split_beta Let_def)
  show "rt_task r = TQueued \<or> rt_task r = TRunning False \<Longrightarrow> ex_ordered (rt_exchange r) \<Longrightarrow>
      abandon (rt_epoch r) (ss_session y) (rt_exchange r) \<noteq> None"
    using t by (auto simp: abandon_def split_beta Let_def)
  show "finish_ex (rt_epoch r) (ss_session y) (rt_exchange r) \<noteq> None" if c: "rt_task r = TRunning c"
  proof (cases "ex_ordered (rt_exchange r)")
    case True
    then have "runs_change r"
      using t c by (auto simp: runs_change_def)
    from count_down_Some(1) [OF ok r this] True show ?thesis
      by (simp add: finish_ex_def split_beta Let_def) (simp add: ex_end_def let_go_def)
  qed (simp add: finish_ex_def split_beta Let_def)
qed

subsection \<open>A run\<close>

text \<open>
  A change runs, the session resumes on a newer connection, a change comes on that one, waits for
  the first to end, and begins.
\<close>

definition run_state :: "nat \<Rightarrow> nat \<Rightarrow> nat \<Rightarrow> nat \<Rightarrow> nat list \<Rightarrow> (nat \<rightharpoonup> request_task) \<Rightarrow> session_sys" where
  "run_state epoch running older holders acc m =
     \<lparr>ss_session = \<lparr>se_id = 1, se_token = [], se_attachment = \<lparr>a_epoch = epoch, a_detached_at = None,
        a_remote = None, a_running = running, a_abandoned = 0, a_running_older = older\<rparr>,
        se_holders = holders\<rparr>, ss_conns = [], ss_accepted = acc, ss_requests = m\<rparr>"

definition run_change :: "phase_exchange \<Rightarrow> bool \<Rightarrow> nat \<Rightarrow> task \<Rightarrow> request_task" where
  "run_change phase held ep tk =
     \<lparr>rt_exchange = \<lparr>ex_ordered = True, ex_phase = phase, ex_holder = held\<rparr>, rt_epoch = ep, rt_task = tk\<rparr>"

definition run_began :: session_sys where
  "run_began = run_state 1 1 0 1 [] [0 \<mapsto> run_change PhRunning True 1 (TRunning False)]"

definition run_held :: session_sys where
  "run_held = run_state 2 0 1 2 [] [0 \<mapsto> run_change PhRunning True 1 (TRunning False),
     1 \<mapsto> run_change PhHeld True 2 TDraining]"

definition run_ended :: session_sys where
  "run_ended = run_state 2 0 0 1 [] [0 \<mapsto> run_change PhFinished False 1 TEnded,
     1 \<mapsto> run_change PhHeld True 2 TDraining]"

definition run_ready :: session_sys where
  "run_ready = run_state 2 0 0 1 [] [0 \<mapsto> run_change PhFinished False 1 TEnded,
     1 \<mapsto> run_change PhReady True 2 TQueued]"

lemmas run_defs = run_state_def run_change_def attachment_new_def put_request_def fun_upd_twist
  numeral_2_eq_2

lemma run_began_reach: "reach ss_init ss_step run_began"
proof -
  have "reach ss_init ss_step (run_state 1 0 0 0 [] Map.empty)"
    by (rule reach_init) (simp add: ss_init_def run_defs)
  then have "reach ss_init ss_step (run_state 1 0 0 1 [1] Map.empty)"
    by (rule reach_step) (use step_accept [of 1 "run_state 1 0 0 0 [] Map.empty"] in
      \<open>simp add: run_defs hold_def\<close>)
  then have "reach ss_init ss_step (run_state 1 0 0 1 [] [0 \<mapsto> run_change PhReady True 1 TQueued])"
    by (rule reach_step) (use step_decoded [of 1 "run_state 1 0 0 1 [1] Map.empty" 0 True
      "exchange_new True" 0] in
      \<open>simp add: run_defs fencing_def exchange_new_def fence_of_def\<close>)
  then show ?thesis
    by (rule reach_step) (use step_begin [of "run_state 1 0 0 1 [] [0 \<mapsto> run_change PhReady True 1 TQueued]" 0
      "run_change PhReady True 1 TQueued" "ss_session run_began"
      "rt_exchange (run_change PhRunning True 1 TQueued)" True] in
      \<open>simp add: run_defs run_began_def begin_ex_def\<close>)
qed

lemma run_held_reach: "reach ss_init ss_step run_held"
proof -
  let ?m = "[0 \<mapsto> run_change PhRunning True 1 (TRunning False)]"
  from run_began_reach have "reach ss_init ss_step (run_state 2 0 1 1 [] ?m)"
    by (rule reach_step) (use step_resume [of _ run_began] in
      \<open>simp add: run_defs run_began_def resume_attachment_def\<close>)
  then have "reach ss_init ss_step (run_state 2 0 1 2 [2] ?m)"
    by (rule reach_step) (use step_accept [of 2 "run_state 2 0 1 1 [] ?m"] in \<open>simp add: run_defs hold_def\<close>)
  then show ?thesis
    by (rule reach_step) (use step_decoded [of 2 "run_state 2 0 1 2 [2] ?m" 1 True
      "exchange_new True\<lparr>ex_phase := PhHeld\<rparr>" 1] in
      \<open>simp add: run_defs run_held_def fencing_def exchange_new_def fence_of_def\<close>)
qed

lemma run_ended_reach: "reach ss_init ss_step run_ended"
  using run_held_reach
  by (rule reach_step) (use step_finish [of run_held 0 "run_change PhRunning True 1 (TRunning False)" False
      "ss_session run_ended" "rt_exchange (run_change PhFinished False 1 TEnded)" True] in
    \<open>simp add: run_defs run_held_def run_ended_def finish_ex_def ex_end_def let_go_def count_down_def
      dec_def Let_def\<close>)

lemma run_ready_reach: "reach ss_init ss_step run_ready"
  using run_ended_reach
  by (rule reach_step) (use step_drained [of run_ended 1 "run_change PhHeld True 2 TDraining"
      "ss_session run_ready" "rt_exchange (run_change PhReady True 2 TQueued)" True] in
    \<open>simp add: run_defs run_ended_def run_ready_def drained_def fence_of_def\<close>)

subsection \<open>Properties\<close>

text \<open>
  C1: no overtaking: of a session's changes that run at one time, all came on the same connection.
  A change of a newer connection never runs beside one of an older, however connections are lost
  and the session resumed, and whatever the client gives up on.
\<close>

theorem one_connection_runs:
  assumes "reach ss_init ss_step y"
    and "ss_requests y k = Some r" "runs_change r" "ss_requests y k' = Some r'" "runs_change r'"
  shows "rt_epoch r = rt_epoch r'"
proof -
  have "ss_ok y"
    using assms(1) by (rule session_sys.inv_reach)
  then have "rt_epoch r \<le> rt_epoch r'" "rt_epoch r' \<le> rt_epoch r"
    using assms(2-) by (auto intro: ss_ok_order simp: past_fence_def)
  then show ?thesis
    by simp
qed

theorem one_connection_runs_witness:
  "reach ss_init ss_step run_began \<and>
   (\<exists>r. ss_requests run_began 0 = Some r \<and> runs_change r \<and> rt_epoch r = rt_epoch r)"
proof -
  have "ss_requests run_began 0 = Some (run_change PhRunning True 1 (TRunning False))"
    "runs_change (run_change PhRunning True 1 (TRunning False))"
    by (simp_all add: run_began_def run_state_def run_change_def runs_change_def)
  with one_connection_runs [OF run_began_reach this this] run_began_reach show ?thesis
    by auto
qed

text \<open>
  C2: a resend comes after its original: when a change begins, it is on the session's current
  connection, no change of an earlier connection runs, and none of those ever will, so the change
  an earlier connection carried has run to its end or not at all before its resend begins.
\<close>

theorem original_before_resend:
  assumes "reach ss_init ss_step y"
    and "ss_requests y k = Some r" "ex_ordered (rt_exchange r)"
    and "rt_task r = TQueued \<or> rt_task r = TGivenUp"
    and "begin_ex (rt_epoch r) (ss_session y) (rt_exchange r) = Some (s, e, True)"
    and "ss_requests y k' = Some r'" "ex_ordered (rt_exchange r')" "rt_epoch r' < rt_epoch r"
  shows "rt_epoch r = epoch_of (ss_session y) \<and> \<not> runs_change r' \<and>
    (\<forall>y' q. ss_step\<^sup>*\<^sup>* y y' \<and> ss_requests y' k' = Some q \<longrightarrow> \<not> runs_change q)"
proof -
  have ok: "ss_ok y"
    using assms(1) by (rule session_sys.inv_reach)
  have "ex_phase (rt_exchange r) = PhReady" and ep: "rt_epoch r = epoch_of (ss_session y)"
    using assms(3,5) by (auto simp: begin_ex_def split_beta Let_def split: if_splits)
  then have "past_fence (epoch_of (ss_session y)) r"
    using assms(3) by (simp add: past_fence_def)
  with ss_ok_order [OF ok assms(2,6)] assms(8) have quiet: "\<not> runs_change r'"
    by (meson not_le)
  with never_runs [of y _ k' r'] assms(6,8) ep show ?thesis
    by (metis option.inject)
qed

theorem original_before_resend_witness:
  "reach ss_init ss_step run_ready \<and>
   (\<exists>r s e. ss_requests run_ready 1 = Some r \<and>
      begin_ex (rt_epoch r) (ss_session run_ready) (rt_exchange r) = Some (s, e, True)) \<and>
   (\<exists>r'. ss_requests run_ready 0 = Some r' \<and> \<not> runs_change r')"
proof -
  let ?r = "run_change PhReady True 2 TQueued" and ?r' = "run_change PhFinished False 1 TEnded"
  have 1: "ss_requests run_ready 1 = Some ?r" and 0: "ss_requests run_ready 0 = Some ?r'"
    by (simp_all add: run_ready_def run_state_def)
  obtain s e where b: "begin_ex (rt_epoch ?r) (ss_session run_ready) (rt_exchange ?r) = Some (s, e, True)"
    by (simp add: begin_ex_def run_ready_def run_state_def run_change_def)
  have "\<not> runs_change ?r'"
    using original_before_resend [OF run_ready_reach 1 _ _ b 0] by (simp add: run_change_def)
  with 0 1 b run_ready_reach show ?thesis
    by blast
qed

text \<open>
  C3: the counts of the attachment are what they say: the changes of the current connection that
  run, those of them the client gave up on, and those of earlier connections; the holds are the
  connections and requests of the session under way; and none of the operations a request's task
  makes runs into an assertion, an unreachable arm, or a counter below zero.
\<close>

theorem session_counts_exact:
  assumes "reach ss_init ss_step y"
  defines "a \<equiv> se_attachment (ss_session y)"
  shows "a_running a = card {k. \<exists>r. ss_requests y k = Some r \<and> runs_change r \<and> rt_epoch r = a_epoch a} \<and>
    a_abandoned a = card {k. \<exists>r. ss_requests y k = Some r \<and> abandoned_at (a_epoch a) r} \<and>
    a_running_older a = card {k. \<exists>r. ss_requests y k = Some r \<and> runs_change r \<and> rt_epoch r < a_epoch a} \<and>
    se_holders (ss_session y) = length (ss_conns y) + length (ss_accepted y) +
      card {k. \<exists>r. ss_requests y k = Some r \<and> \<not> terminal (ex_phase (rt_exchange r))} \<and>
    (\<forall>k r. ss_requests y k = Some r \<longrightarrow>
       (let e = rt_exchange r; ep = rt_epoch r; s = ss_session y in
        (rt_task r = TDraining \<longrightarrow> drained ep s e \<noteq> None \<and> stopped s e \<noteq> None \<and>
           (\<exists>s' e'. abandon ep s e = Some (s', e', VUnrun))) \<and>
        (rt_task r = TQueued \<or> rt_task r = TGivenUp \<longrightarrow> begin_ex ep s e \<noteq> None) \<and>
        (rt_task r = TQueued \<or> rt_task r = TRunning False \<longrightarrow> ex_ordered e \<longrightarrow> abandon ep s e \<noteq> None) \<and>
        (\<forall>c. rt_task r = TRunning c \<longrightarrow> finish_ex ep s e \<noteq> None)))"
proof -
  have ok: "ss_ok y"
    using assms(1) by (rule session_sys.inv_reach)
  have "{k. \<exists>r. ss_requests y k = Some r \<and> \<not> terminal (ex_phase (rt_exchange r))} =
      keys_where (ss_requests y) holds_session"
    using ok by (auto simp: ss_ok_def holds_session_def task_ok_def)
  moreover have "let e = rt_exchange r; ep = rt_epoch r; s = ss_session y in
      (rt_task r = TDraining \<longrightarrow> drained ep s e \<noteq> None \<and> stopped s e \<noteq> None \<and>
         (\<exists>s' e'. abandon ep s e = Some (s', e', VUnrun))) \<and>
      (rt_task r = TQueued \<or> rt_task r = TGivenUp \<longrightarrow> begin_ex ep s e \<noteq> None) \<and>
      (rt_task r = TQueued \<or> rt_task r = TRunning False \<longrightarrow> ex_ordered e \<longrightarrow> abandon ep s e \<noteq> None) \<and>
      (\<forall>c. rt_task r = TRunning c \<longrightarrow> finish_ex ep s e \<noteq> None)" if r: "ss_requests y k = Some r" for k r
    unfolding Let_def by (intro conjI impI allI) (rule ops_total [OF ok r]; assumption)+
  moreover have "{k. \<exists>r. ss_requests y k = Some r \<and> runs_change r \<and> rt_epoch r = a_epoch a} =
      keys_where (ss_requests y) (runs_at (a_epoch a))"
    "{k. \<exists>r. ss_requests y k = Some r \<and> abandoned_at (a_epoch a) r} =
      keys_where (ss_requests y) (abandoned_at (a_epoch a))"
    "{k. \<exists>r. ss_requests y k = Some r \<and> runs_change r \<and> rt_epoch r < a_epoch a} =
      keys_where (ss_requests y) (runs_before (a_epoch a))"
    by (auto simp: runs_at_def runs_before_def)
  moreover have "a_running a = card (keys_where (ss_requests y) (runs_at (a_epoch a)))"
    "a_abandoned a = card (keys_where (ss_requests y) (abandoned_at (a_epoch a)))"
    "a_running_older a = card (keys_where (ss_requests y) (runs_before (a_epoch a)))"
    "se_holders (ss_session y) = length (ss_conns y) + length (ss_accepted y) +
       card (keys_where (ss_requests y) holds_session)"
    using ok by (auto simp: ss_ok_def counts_ok_def a_def)
  ultimately show ?thesis
    by presburger
qed

theorem session_counts_exact_witness:
  "reach ss_init ss_step run_held \<and> a_running_older (se_attachment (ss_session run_held)) = 1 \<and>
   card {k. \<exists>r. ss_requests run_held k = Some r \<and> runs_change r \<and>
     rt_epoch r < a_epoch (se_attachment (ss_session run_held))} = 1"
proof -
  have "a_running_older (se_attachment (ss_session run_held)) = 1"
    by (simp add: run_held_def run_state_def)
  then show ?thesis
    using session_counts_exact [OF run_held_reach] run_held_reach by simp
qed

text \<open>
  C4: the fence: a change that comes while changes it must not overtake still run is held, and is
  let go only once every change of the session that runs is of its own connection and not given up
  on; one that comes on a connection no longer current never runs.
\<close>

theorem fence_holds:
  assumes "reach ss_init ss_step y"
  shows "(fencing ep (ss_session y) (exchange_new True) = (e, fence) \<and> ep = epoch_of (ss_session y) \<longrightarrow>
      (fence = 0 \<longleftrightarrow> only_runs ep y) \<and> (ex_phase e = PhHeld \<longleftrightarrow> fence > 0)) \<and>
    (drained ep (ss_session y) e' = Some (s, e'', Some True) \<longrightarrow>
      ep = epoch_of (ss_session y) \<and> only_runs ep y) \<and>
    (ex_ordered e' \<and> ep < epoch_of (ss_session y) \<longrightarrow>
      begin_ex ep (ss_session y) e' \<noteq> Some (s, e'', True) \<and>
      drained ep (ss_session y) e' \<noteq> Some (s, e'', Some True))"
proof -
  have ok: "ss_ok y"
    using assms by (rule session_sys.inv_reach)
  note none = fence_zero_iff [OF ok]
  have fence: "(fence = 0 \<longleftrightarrow> fence_of (se_attachment (ss_session y)) = 0) \<and>
      (ex_phase e = PhHeld \<longleftrightarrow> fence > 0)"
    if "fencing ep (ss_session y) (exchange_new True) = (e, fence)" "ep = epoch_of (ss_session y)"
    using that by (auto simp: fencing_def exchange_new_def Let_def split: if_splits)
  have drain: "ep = epoch_of (ss_session y) \<and> fence_of (se_attachment (ss_session y)) = 0"
    if "drained ep (ss_session y) e' = Some (s, e'', Some True)"
    using that by (auto simp: drained_def split_beta Let_def split: if_splits)
  have "begin_ex ep (ss_session y) e' \<noteq> Some (s, e'', True)"
    if "ex_ordered e'" "ep < epoch_of (ss_session y)"
    using that by (auto simp: begin_ex_def split_beta Let_def)
  with fence drain none show ?thesis
    by (intro conjI impI) auto
qed

theorem fence_holds_witness:
  "reach ss_init ss_step run_held \<and>
   fencing 2 (ss_session run_held) (exchange_new True) = (exchange_new True\<lparr>ex_phase := PhHeld\<rparr>, 1)"
proof -
  have f: "fencing 2 (ss_session run_held) (exchange_new True) = (exchange_new True\<lparr>ex_phase := PhHeld\<rparr>, 1)"
    by (simp add: fencing_def run_held_def run_state_def exchange_new_def fence_of_def)
  with fence_holds [OF run_held_reach, of 2 _ 1] run_held_reach show ?thesis
    by blast
qed

text \<open>
  C5: no wake-up is lost: whenever the end of a change leaves nothing for held changes to wait for
  where there was something, the held changes are woken; and a held change that looks then goes on.
\<close>

theorem held_changes_woken:
  assumes "reach ss_init ss_step y"
    and "ss_requests y k = Some r" "rt_task r = TRunning c"
    and "finish_ex (rt_epoch r) (ss_session y) (rt_exchange r) = Some (s, e, woken)"
    and "0 < fence_of (se_attachment (ss_session y))" "fence_of (se_attachment s) = 0"
  shows "woken \<and> drained (epoch_of s) s held \<noteq> Some (s, held, None)"
proof -
  have "ss_ok y"
    using assms(1) by (rule session_sys.inv_reach)
  have att: "se_attachment (fst (ex_end PhFinished (ss_session y) (rt_exchange r))) = se_attachment (ss_session y)"
    by (simp add: ex_end_def let_go_def)
  have "woken"
    using assms(4-6) att
    by (auto simp: finish_ex_def count_down_def dec_def fence_of_def split_beta Let_def
        split: if_splits option.splits)
  then show ?thesis
    using assms(6) by (auto simp: drained_def split_beta Let_def split: if_splits)
qed

theorem held_changes_woken_witness:
  "\<exists>s e woken. finish_ex 1 (ss_session run_held)
     (rt_exchange (run_change PhRunning True 1 (TRunning False))) = Some (s, e, woken) \<and> woken"
proof -
  have r: "ss_requests run_held 0 = Some (run_change PhRunning True 1 (TRunning False))"
    by (simp add: run_held_def run_state_def)
  have f: "finish_ex 1 (ss_session run_held) (rt_exchange (run_change PhRunning True 1 (TRunning False))) =
      Some (ss_session run_ended, rt_exchange (run_change PhFinished False 1 TEnded), True)"
    by (simp add: run_defs run_held_def run_ended_def finish_ex_def ex_end_def let_go_def count_down_def
        dec_def Let_def)
  have "True \<and> drained (epoch_of (ss_session run_ended)) (ss_session run_ended) held \<noteq>
      Some (ss_session run_ended, held, None)" for held
    using held_changes_woken [OF run_held_reach r, of False "ss_session run_ended" _ True held] f
    by (simp add: run_change_def fence_of_def run_held_def run_ended_def run_state_def)
  with f show ?thesis
    by blast
qed

end
