(* ===== verification/ServerIds.thy ===== *)
theory ServerIds
  imports Owners
begin

text \<open>
  Which owners the server lets through (\<open>crates/server/src/ids.rs\<close>): under \<open>flatten\<close> only its own
  uid and gid cross, in either direction.
\<close>

datatype server_mode = Direct | Flatten

record server_ids =
  ids_mode :: server_mode
  ids_uid :: u32
  ids_gid :: u32

definition server_ids_new :: "server_mode \<Rightarrow> u32 \<Rightarrow> u32 \<Rightarrow> (server_ids, string) result" where
  "server_ids_new mode uid gid =
     (if mode = Flatten \<and> (uid = NOBODY \<or> gid = NOBODY)
      then Err ''--ids flatten cannot run as nobody''
      else Ok \<lparr>ids_mode = mode, ids_uid = uid, ids_gid = gid\<rparr>)"

definition own :: "server_ids \<Rightarrow> kind_owner \<Rightarrow> u32" where
  "own ids kind = (case kind of User \<Rightarrow> ids_uid ids | Group \<Rightarrow> ids_gid ids)"

definition is_system :: "u8 list \<Rightarrow> bool" where
  "is_system name = starts_with name (bytes ''system.'')"

definition admit :: "server_ids \<Rightarrow> request \<Rightarrow> (unit, errno) result" where
  "admit ids req =
     (if ids_mode ids = Direct then Ok ()
      else case req of
        Setattr path fh change \<Rightarrow>
          if (\<exists>uid \<in> set_option (set_uid change). uid \<noteq> ids_uid ids) \<or>
             (\<exists>gid \<in> set_option (set_gid change). gid \<noteq> ids_gid ids)
          then Err EPERM else Ok ()
      | Setxattr path name val flags \<Rightarrow>
          if is_posix_acl name
          then (case acl_owners val of
                  None \<Rightarrow> Err EINVAL
                | Some named \<Rightarrow>
                    if list_all (\<lambda>(kind, i). i = own ids kind) named then Ok () else Err EPERM)
          else if is_system name \<and> \<not> is_posix_acl name then Err EOPNOTSUPP else Ok ()
      | Getxattr path name \<Rightarrow>
          if is_system name \<and> \<not> is_posix_acl name then Err EOPNOTSUPP else Ok ()
      | Removexattr path name \<Rightarrow>
          if is_system name \<and> \<not> is_posix_acl name then Err EOPNOTSUPP else Ok ()
      | _ \<Rightarrow> Ok ())"

definition flatten_owner :: "server_ids \<Rightarrow> kind_owner \<Rightarrow> u32 \<Rightarrow> u32" where
  "flatten_owner ids kind i = (if i = own ids kind then i else NOBODY)"

definition reply_ids :: "server_ids \<Rightarrow> bool \<Rightarrow> response \<Rightarrow> response" where
  "reply_ids ids posix_acl_read resp =
     (if ids_mode ids = Flatten then map_reply posix_acl_read (flatten_owner ids) resp else resp)"

interpretation flatten: owner_policy "flatten_owner ids" "own ids" for ids
  by unfold_locales (simp add: flatten_owner_def)

text \<open>The owners a request asks for.\<close>

definition request_owners :: "request \<Rightarrow> (kind_owner \<times> u32) list" where
  "request_owners req = (case req of
       Setattr path fh change \<Rightarrow>
         (case set_uid change of Some uid \<Rightarrow> [(User, uid)] | None \<Rightarrow> []) @
         (case set_gid change of Some gid \<Rightarrow> [(Group, gid)] | None \<Rightarrow> [])
     | Setxattr path name val flags \<Rightarrow>
         (if is_posix_acl name then (case acl_owners val of Some os \<Rightarrow> os | None \<Rightarrow> []) else [])
     | _ \<Rightarrow> [])"

lemma admit_EPERM:
  "ids_mode ids = Flatten \<Longrightarrow>
     admit ids req = Err EPERM \<longleftrightarrow> \<not> list_all (\<lambda>(kind, i). i = own ids kind) (request_owners req)"
  by (cases req)
    (auto simp: admit_def request_owners_def own_def split: option.splits prod.splits)

subsection \<open>Properties\<close>

text \<open>
  A server that flattens shows no owner but its own: in whatever reply it sends, attributes,
  listings and the entries of a POSIX ACL it was asked for name only its own uid and gid, or
  nobody; and it lets through no request that asks for any other owner.
\<close>

theorem flatten_keeps_owners:
  "ids_mode ids = Flatten \<Longrightarrow>
     (\<forall>(k, i) \<in> set (reply_owners acl (reply_ids ids acl resp)). i = own ids k \<or> i = NOBODY) \<and>
     (admit ids req = Ok () \<longrightarrow> (\<forall>(k, i) \<in> set (request_owners req). i = own ids k))"
  using flatten.reply_only_own [of _ _ acl ids resp] admit_EPERM [of ids req]
  by (auto simp: reply_ids_def list_all_iff)

definition example_acl :: "u8 list" where
  "example_acl = [2, 0, 0, 0, 2, 0, 7, 0, 0xe8, 3, 0, 0, 8, 0, 5, 0, 5, 0, 0, 0]"

lemma example_acl_owners: "acl_owners example_acl = Some [(User, 1000), (Group, 5)]"
  by (simp add: example_acl_def acl_owners_def acl_entries_raw_def ACL_ENTRY_def
      as_chunks_step as_chunks_short owner_of_def u16_from_le_def u32_from_le_def
      ACL_VERSION_def ACL_USER_def ACL_GROUP_def List.map_filter_simps)

theorem flatten_keeps_owners_witness:
  "(let ids = \<lparr>ids_mode = Flatten, ids_uid = 1000, ids_gid = 100\<rparr>;
        req = Setxattr path_root (bytes ''system.posix_acl_access'') example_acl 0
    in reply_owners True (reply_ids ids True (RXattr example_acl)) = [(User, 1000), (Group, NOBODY)] \<and>
       list_all (\<lambda>(k, i). i = own ids k \<or> i = NOBODY)
         (reply_owners True (reply_ids ids True (RXattr example_acl))) \<and>
       admit ids req = Err EPERM)"
proof -
  let ?ids = "\<lparr>ids_mode = Flatten, ids_uid = 1000, ids_gid = 100\<rparr>"
  have "list_all (\<lambda>(k, i). i = own ?ids k \<or> i = NOBODY)
      (reply_owners True (reply_ids ?ids True (RXattr example_acl)))"
    using flatten_keeps_owners [of ?ids True "RXattr example_acl"] by (simp add: list_all_iff)
  moreover have "reply_owners True (reply_ids ?ids True (RXattr example_acl)) =
      [(User, 1000), (Group, NOBODY)]"
    by (simp add: reply_ids_def reply_owners_map example_acl_owners flatten_owner_def own_def
        del: map_reply.simps)
  moreover have "admit ?ids (Setxattr path_root (bytes ''system.posix_acl_access'') example_acl 0) =
      Err EPERM"
    by (simp add: admit_def is_posix_acl_def POSIX_ACL_NAMES_def example_acl_owners own_def)
  ultimately show ?thesis
    by simp
qed

end
