(* ===== verification/Thresholds.thy ===== *)
theory Thresholds
  imports Prelude
begin

text \<open>
  When a growing value is due another report (\<open>doubling_due\<close> of \<open>crates/perf/src/lib.rs\<close>): at a
  first threshold and at each doubling of it.  The loop that finds the highest threshold crossed
  ends for every first threshold but zero.
\<close>

partial_function (option) doubling_loop :: "u64 \<Rightarrow> u64 \<Rightarrow> u64 option" where
  "doubling_loop v threshold =
     (case checked_mul2 threshold of
        Some doubled \<Rightarrow> if doubled \<le> v then doubling_loop v doubled else Some threshold
      | None \<Rightarrow> Some threshold)"

text \<open>Whether a report is due, and the threshold reported at after it.\<close>

definition doubling_due :: "u64 \<Rightarrow> u64 \<Rightarrow> u64 \<Rightarrow> (bool \<times> u64) option" where
  "doubling_due v first reported =
     (case checked_mul2 reported of
        None \<Rightarrow> Some (False, reported)
      | Some doubled \<Rightarrow>
          if v < max first doubled then Some (False, reported)
          else map_option (\<lambda>threshold. (True, threshold)) (doubling_loop v first))"

lemma doubling_loop_spec:
  assumes "1 \<le> t" and "t \<le> v"
  shows "\<exists>r k. doubling_loop v t = Some r \<and> unat r = unat t * 2 ^ k \<and>
    unat r \<le> unat v \<and> unat v < 2 * unat r"
  using assms
proof (induction "unat v - unat t" arbitrary: t rule: less_induct)
  case less
  have t: "1 \<le> unat t" "unat t \<le> unat v"
    using less.prems by (simp_all add: word_le_nat_alt)
  show ?case
  proof (cases "2 * unat t < 2 ^ 64 \<and> 2 * t \<le> v")
    case True
    then have dbl: "unat (2 * t) = 2 * unat t"
      by (simp add: unat_double)
    have "unat v - unat (2 * t) < unat v - unat t" "1 \<le> 2 * t" "2 * t \<le> v"
      using t True dbl by (auto simp: word_le_nat_alt)
    from less.hyps [OF this] obtain r k where
      "doubling_loop v (2 * t) = Some r" "unat r = unat (2 * t) * 2 ^ k"
      "unat r \<le> unat v" "unat v < 2 * unat r"
      by blast
    with True dbl show ?thesis
      by (intro exI [of _ r] exI [of _ "Suc k"])
        (simp add: doubling_loop.simps [of v t] checked_mul2_def)
  next
    case False
    then have "doubling_loop v t = Some t"
      by (subst doubling_loop.simps) (auto simp: checked_mul2_def)
    moreover have "unat v < 2 * unat t"
    proof (cases "2 * unat t < 2 ^ 64")
      case True
      with False have "\<not> 2 * t \<le> v"
        by simp
      with True show ?thesis
        by (simp add: word_le_nat_alt unat_double)
    next
      case False
      then show ?thesis
        using unsigned_less [of v, where ?'a = nat] by simp
    qed
    ultimately show ?thesis
      using t by (intro exI [of _ t] exI [of _ 0]) simp
  qed
qed

lemma doubling_due_cases:
  "checked_mul2 reported = None \<Longrightarrow> doubling_due v first reported = Some (False, reported)"
  "checked_mul2 reported = Some doubled \<Longrightarrow> v < max first doubled \<Longrightarrow>
     doubling_due v first reported = Some (False, reported)"
  "checked_mul2 reported = Some doubled \<Longrightarrow> \<not> v < max first doubled \<Longrightarrow>
     doubling_due v first reported =
       map_option (\<lambda>threshold. (True, threshold)) (doubling_loop v first)"
  unfolding doubling_due_def by (simp_all only: option.case if_True if_False)

lemma doubling_due_total:
  assumes "1 \<le> first"
  shows "\<exists>r. doubling_due v first reported = Some r"
proof (cases "checked_mul2 reported")
  case None
  then show ?thesis
    using doubling_due_cases(1) by blast
next
  case (Some doubled)
  show ?thesis
  proof (cases "v < max first doubled")
    case True
    then show ?thesis
      using doubling_due_cases(2) [OF Some] by blast
  next
    case False
    then have "first \<le> v"
      by (simp add: not_less)
    from doubling_loop_spec [OF assms this] doubling_due_cases(3) [OF Some False] show ?thesis
      by auto
  qed
qed

text \<open>
  With a first threshold of at least one the search for the threshold crossed ends; a report
  is due exactly when the value has reached the first threshold and twice the one reported at
  last, and the threshold then recorded is the first one doubled as often as the value allows.
\<close>

theorem doubling_due_exact:
  assumes "1 \<le> first"
  shows "\<exists>due reported'. doubling_due v first reported = Some (due, reported') \<and>
    (due \<longleftrightarrow> unat first \<le> unat v \<and> 2 * unat reported \<le> unat v) \<and>
    (\<not> due \<longrightarrow> reported' = reported) \<and>
    (due \<longrightarrow> (\<exists>k. unat reported' = unat first * 2 ^ k) \<and>
       unat reported' \<le> unat v \<and> unat v < 2 * unat reported')"
proof (cases "checked_mul2 reported")
  case None
  then have "unat v < 2 * unat reported"
    using unsigned_less [of v, where ?'a = nat] by simp
  with doubling_due_cases(1) [OF None] show ?thesis
    by auto
next
  case (Some doubled)
  then have dbl: "unat doubled = 2 * unat reported"
    by (auto simp: unat_double)
  have below: "v < max first doubled \<longleftrightarrow> \<not> (unat first \<le> unat v \<and> 2 * unat reported \<le> unat v)"
    by (auto simp: max_def word_le_nat_alt word_less_nat_alt dbl)
  show ?thesis
  proof (cases "v < max first doubled")
    case True
    with doubling_due_cases(2) [OF Some True] below show ?thesis
      by auto
  next
    case False
    with below have due: "unat first \<le> unat v" "2 * unat reported \<le> unat v"
      by auto
    then have "first \<le> v"
      by (simp add: word_le_nat_alt)
    from doubling_loop_spec [OF assms this] obtain r k where
      "doubling_loop v first = Some r" "unat r = unat first * 2 ^ k" "unat r \<le> unat v"
      "unat v < 2 * unat r"
      by blast
    with doubling_due_cases(3) [OF Some False] due show ?thesis
      by (intro exI [of _ True] exI [of _ r] conjI impI exI [of _ k]) simp_all
  qed
qed

theorem doubling_due_exact_witness:
  "\<exists>due reported'. doubling_due 100 16 16 = Some (due, reported') \<and> due \<and>
     unat reported' \<le> 100 \<and> 100 < 2 * unat reported'"
proof -
  have "(1 :: u64) \<le> 16"
    by simp
  then obtain due r where "doubling_due 100 16 16 = Some (due, r)"
    "due \<longleftrightarrow> unat (16 :: u64) \<le> unat (100 :: u64) \<and> 2 * unat (16 :: u64) \<le> unat (100 :: u64)"
    "due \<longrightarrow> unat r \<le> unat (100 :: u64) \<and> unat (100 :: u64) < 2 * unat r"
    using doubling_due_exact [of 16 100 16] by blast
  then show ?thesis
    by (intro exI [of _ due] exI [of _ r]) simp
qed

end
