(* ===== verification/ServerHandles.thy ===== *)
theory ServerHandles
  imports Errno Messages Thresholds Counted
begin

text \<open>
  A session's table of open files and directories, and the pool of slots every session's handles
  draw on (\<open>crates/server/src/handles.rs\<close>).  Files, directories and watches are type parameters;
  they are the kernel's.  Counters that are changed under the table's lock are natural numbers, as
  is the pool's: each is at most the number of handles.
\<close>

subsection \<open>The pool\<close>

definition SHARE_MAX :: nat where
  "SHARE_MAX = 16384"

definition RESERVED_FDS :: nat where
  "RESERVED_FDS = 2048"

text \<open>\<open>MAX_CONNECTIONS\<close> and \<open>MAX_DETACHED_SESSIONS\<close>, the sessions that can hold handles at once.\<close>

definition MAX_CONNECTIONS :: nat where
  "MAX_CONNECTIONS = 64"

definition MAX_DETACHED_SESSIONS :: nat where
  "MAX_DETACHED_SESSIONS = 64"

definition pool_capacity :: "u64 \<Rightarrow> nat" where
  "pool_capacity limit = unat limit - min RESERVED_FDS (unat limit div 2)"

definition per_session :: "u64 \<Rightarrow> nat" where
  "per_session limit =
     min (pool_capacity limit div (MAX_CONNECTIONS + MAX_DETACHED_SESSIONS)) SHARE_MAX"

record handle_pool =
  pool_cap :: nat
  pool_used :: nat

definition pool_new :: "nat \<Rightarrow> handle_pool" where
  "pool_new capacity = \<lparr>pool_cap = capacity, pool_used = 0\<rparr>"

definition pool_take :: "handle_pool \<Rightarrow> handle_pool \<times> bool" where
  "pool_take pool =
     (if pool_used pool < pool_cap pool then (pool\<lparr>pool_used := pool_used pool + 1\<rparr>, True)
      else (pool, False))"

definition pool_give :: "nat \<Rightarrow> handle_pool \<Rightarrow> handle_pool" where
  "pool_give slots pool = pool\<lparr>pool_used := pool_used pool - slots\<rparr>"

subsection \<open>A session's handles\<close>

datatype ('f, 'd, 'w) handle =
    HFile 'f path "'w option"
  | HDir 'd "'w option"

definition is_dir :: "('f, 'd, 'w) handle \<Rightarrow> bool" where
  "is_dir h = (case h of HDir _ _ \<Rightarrow> True | HFile _ _ _ \<Rightarrow> False)"

record ('f, 'd, 'w) handles =
  h_map :: "u64 \<rightharpoonup> ('f, 'd, 'w) handle"
  h_share :: nat
  h_reported :: u64
  h_files :: nat
  h_dirs :: nat
  h_notice :: "notice_handles option"

definition handles_new :: "nat \<Rightarrow> ('f, 'd, 'w) handles" where
  "handles_new share = \<lparr>h_map = Map.empty, h_share = share, h_reported = 0, h_files = 0, h_dirs = 0,
     h_notice = None\<rparr>"

definition handles_len :: "('f, 'd, 'w) handles \<Rightarrow> nat" where
  "handles_len t = card (dom (h_map t))"

datatype error_reserve = PoolFull | Duplicate

datatype ('f, 'd, 'w) reserved = Slot u64 | Held "('f, 'd, 'w) handle"

definition reserve :: "u64 \<Rightarrow> handle_pool \<Rightarrow> ('f, 'd, 'w) handles \<Rightarrow>
    handle_pool \<times> (('f, 'd, 'w) reserved, error_reserve) result" where
  "reserve fh pool t =
     (case h_map t fh of
        Some h \<Rightarrow> (pool, Ok (Held h))
      | None \<Rightarrow>
          (case pool_take pool of
             (pool', True) \<Rightarrow> (pool', Ok (Slot fh))
           | (pool', False) \<Rightarrow> (pool', Err PoolFull)))"

text \<open>The handle enters the table and its count.\<close>

definition put_handle :: "u64 \<Rightarrow> ('f, 'd, 'w) handle \<Rightarrow> ('f, 'd, 'w) handles \<Rightarrow> ('f, 'd, 'w) handles" where
  "put_handle fh h t =
     t\<lparr>h_files := h_files t + (if is_dir h then 0 else 1),
       h_dirs := h_dirs t + (if is_dir h then 1 else 0),
       h_map := (h_map t)(fh \<mapsto> h)\<rparr>"

text \<open>
  \<open>Slot::insert\<close>, and the \<open>Drop\<close> of the slot it consumes, which gives the slot back where it is
  still the open's own.  None would be a search for the report threshold that does not end.
\<close>

definition slot_insert :: "u64 \<Rightarrow> ('f, 'd, 'w) handle \<Rightarrow> handle_pool \<Rightarrow> ('f, 'd, 'w) handles \<Rightarrow>
    (handle_pool \<times> ('f, 'd, 'w) handles \<times> (u64 option, error_reserve) result) option" where
  "slot_insert fh h pool t =
     (if h_map t fh \<noteq> None then Some (pool_give 1 pool, t, Err Duplicate)
      else
        let t1 = put_handle fh h t;
            held = handles_len t1
        in case doubling_due (word_of_nat held) (word_of_nat (max (h_share t) 1)) (h_reported t) of
             None \<Rightarrow> None
           | Some (due, reported) \<Rightarrow>
               let t2 = t1\<lparr>h_reported := reported\<rparr>
               in if \<not> due then Some (pool, t2, Ok None)
                  else Some (pool,
                    t2\<lparr>h_notice := Some \<lparr>notice_held = held, notice_share = h_share t\<rparr>\<rparr>,
                    Ok (Some (word_of_nat held))))"

text \<open>The \<open>Drop\<close> of a slot no handle was inserted into.\<close>

definition slot_drop :: "handle_pool \<Rightarrow> handle_pool" where
  "slot_drop pool = pool_give 1 pool"

definition file_and_path :: "u64 \<Rightarrow> ('f, 'd, 'w) handles \<Rightarrow> ('f \<times> path, errno) result" where
  "file_and_path fh t = (case h_map t fh of Some (HFile f p w) \<Rightarrow> Ok (f, p) | _ \<Rightarrow> Err EBADF)"

definition file_of :: "u64 \<Rightarrow> ('f, 'd, 'w) handles \<Rightarrow> ('f, errno) result" where
  "file_of fh t = bind_res (file_and_path fh t) (\<lambda>(f, p). Ok f)"

definition dir_of :: "u64 \<Rightarrow> ('f, 'd, 'w) handles \<Rightarrow> ('d, errno) result" where
  "dir_of fh t = (case h_map t fh of Some (HDir d w) \<Rightarrow> Ok d | _ \<Rightarrow> Err EBADF)"

definition get_handle :: "u64 \<Rightarrow> ('f, 'd, 'w) handles \<Rightarrow> (('f, 'd, 'w) handle, errno) result" where
  "get_handle fh t = (case h_map t fh of Some h \<Rightarrow> Ok h | None \<Rightarrow> Err EBADF)"

definition remove_handle :: "u64 \<Rightarrow> handle_pool \<Rightarrow> ('f, 'd, 'w) handles \<Rightarrow>
    handle_pool \<times> ('f, 'd, 'w) handles \<times> ('f, 'd, 'w) handle option" where
  "remove_handle fh pool t =
     (case h_map t fh of
        None \<Rightarrow> (pool, t, None)
      | Some h \<Rightarrow>
          let t1 = t\<lparr>h_map := (h_map t)(fh := None),
                h_files := h_files t - (if is_dir h then 0 else 1),
                h_dirs := h_dirs t - (if is_dir h then 1 else 0)\<rparr>;
              t2 = (if 2 * handles_len t1 < h_share t then t1\<lparr>h_reported := 0, h_notice := None\<rparr>
                    else t1)
          in (pool_give 1 pool, t2, Some h))"

text \<open>The \<open>Drop\<close> of a session's table.\<close>

definition handles_drop :: "handle_pool \<Rightarrow> ('f, 'd, 'w) handles \<Rightarrow> handle_pool" where
  "handles_drop pool t = pool_give (handles_len t) pool"

subsection \<open>The table's counts\<close>

text \<open>The table with the handle under an id taken out, as \<open>remove_handle\<close> leaves it.\<close>

definition del_handle :: "u64 \<Rightarrow> ('f, 'd, 'w) handles \<Rightarrow> ('f, 'd, 'w) handles" where
  "del_handle fh t = fst (snd (remove_handle fh (pool_new 0) t))"

lemma del_handle_simps:
  "h_map (del_handle fh t) = (h_map t)(fh := None)"
  "h_files (del_handle fh t) = h_files t - tally (\<lambda>h. \<not> is_dir h) (h_map t fh)"
  "h_dirs (del_handle fh t) = h_dirs t - tally is_dir (h_map t fh)"
  "h_share (del_handle fh t) = h_share t"
  by (auto simp: del_handle_def remove_handle_def Let_def split: option.split)

interpretation server_table:
  counted_table "\<lambda>_. True" h_map h_files h_dirs is_dir put_handle del_handle
  by unfold_locales (auto simp: put_handle_def del_handle_simps)

lemma remove_handle_eq:
  "remove_handle fh pool t =
     (case h_map t fh of
        None \<Rightarrow> (pool, t, None)
      | Some h \<Rightarrow> (pool_give 1 pool, del_handle fh t, Some h))"
  by (simp add: del_handle_def remove_handle_def Let_def split: option.split)

definition table_counts :: "('f, 'd, 'w) handles \<Rightarrow> bool" where
  "table_counts t = counted (h_map t) is_dir (h_files t) (h_dirs t)"

lemma table_counts_new: "table_counts (handles_new share)"
  by (simp add: table_counts_def handles_new_def counted_empty)

lemma table_counts_put: "table_counts t \<Longrightarrow> h_map t fh = None \<Longrightarrow> table_counts (put_handle fh h t)"
  unfolding table_counts_def by (rule server_table.put_counted [OF TrueI])

lemma table_counts_del: "table_counts t \<Longrightarrow> table_counts (del_handle fh t)"
  unfolding table_counts_def by (rule server_table.del_counted)

lemma table_counts_finite: "table_counts t \<Longrightarrow> finite (dom (h_map t))"
  by (simp add: table_counts_def counted_def)

lemma len_put:
  "table_counts t \<Longrightarrow> h_map t fh = None \<Longrightarrow> handles_len (put_handle fh h t) = Suc (handles_len t)"
  by (auto simp: handles_len_def put_handle_def table_counts_finite domIff)

lemma len_del:
  "table_counts t \<Longrightarrow> h_map t fh = Some h \<Longrightarrow> handles_len t = Suc (handles_len (del_handle fh t))"
  unfolding handles_len_def del_handle_simps dom_fun_upd
  by (simp only: if_True simp_thms, rule card.remove) (auto simp: table_counts_finite)

text \<open>The search for the report threshold always ends, so an insert always answers.\<close>

lemma share_ge: "0 < n \<Longrightarrow> n < 2 ^ 64 \<Longrightarrow> (1 :: u64) \<le> word_of_nat n"
  by (simp add: word_le_nat_alt unat_of_nat)

lemma slot_insert_cases:
  assumes "h_share t < 2 ^ 64"
  obtains (duplicate) "h_map t fh \<noteq> None" "slot_insert fh h pool t = Some (pool_give 1 pool, t, Err Duplicate)"
  | (kept) t' r where "h_map t fh = None" "slot_insert fh h pool t = Some (pool, t', Ok r)"
    "h_map t' = (h_map t)(fh \<mapsto> h)" "h_share t' = h_share t"
    "h_files t' = h_files (put_handle fh h t)" "h_dirs t' = h_dirs (put_handle fh h t)"
proof (cases "h_map t fh")
  case None
  have "(1 :: u64) \<le> word_of_nat (max (h_share t) 1)"
    using assms by (intro share_ge) (auto simp: max_def)
  from doubling_due_total [OF this] obtain due reported where
    "doubling_due (word_of_nat (handles_len (put_handle fh h t)))
      (word_of_nat (max (h_share t) 1)) (h_reported t) = Some (due, reported)"
    by (metis surj_pair)
  with None show ?thesis
    by (cases due; intro kept) (force simp: slot_insert_def Let_def put_handle_def)+
qed (auto intro: duplicate simp: slot_insert_def)

subsection \<open>Every session's handles and the pool\<close>

text \<open>
  The server's handles as a whole: the pool, the table of each session that has one, and the slots
  reserved for opens that have not inserted yet.  A slot keeps its table alive, so a table is
  dropped only when no slot of it is out.
\<close>

record ('f, 'd, 'w) server_handles =
  sh_pool :: handle_pool
  sh_tables :: "u64 \<rightharpoonup> ('f, 'd, 'w) handles"
  sh_slots :: "(u64 \<times> u64) list"

definition sh_init :: "nat \<Rightarrow> ('f, 'd, 'w) server_handles \<Rightarrow> bool" where
  "sh_init capacity w \<longleftrightarrow> w = \<lparr>sh_pool = pool_new capacity, sh_tables = Map.empty, sh_slots = []\<rparr>"

inductive sh_step :: "('f, 'd, 'w) server_handles \<Rightarrow> ('f, 'd, 'w) server_handles \<Rightarrow> bool" where
  sh_new: "sh_tables w s = None \<Longrightarrow> share < 2 ^ 64 \<Longrightarrow>
    sh_step w (w\<lparr>sh_tables := (sh_tables w)(s \<mapsto> handles_new share)\<rparr>)"
| sh_reserve: "sh_tables w s = Some t \<Longrightarrow> reserve fh (sh_pool w) t = (pool, r) \<Longrightarrow>
    sh_step w (w\<lparr>sh_pool := pool,
      sh_slots := (case r of Inr (Slot _) \<Rightarrow> (s, fh) # sh_slots w | _ \<Rightarrow> sh_slots w)\<rparr>)"
| sh_insert: "(s, fh) \<in> set (sh_slots w) \<Longrightarrow> sh_tables w s = Some t \<Longrightarrow>
    slot_insert fh h (sh_pool w) t = Some (pool, t', r) \<Longrightarrow>
    sh_step w (w\<lparr>sh_pool := pool, sh_tables := (sh_tables w)(s \<mapsto> t'),
      sh_slots := remove1 (s, fh) (sh_slots w)\<rparr>)"
| sh_slot_drop: "slot \<in> set (sh_slots w) \<Longrightarrow>
    sh_step w (w\<lparr>sh_pool := slot_drop (sh_pool w), sh_slots := remove1 slot (sh_slots w)\<rparr>)"
| sh_remove: "sh_tables w s = Some t \<Longrightarrow> remove_handle fh (sh_pool w) t = (pool, t', r) \<Longrightarrow>
    sh_step w (w\<lparr>sh_pool := pool, sh_tables := (sh_tables w)(s \<mapsto> t')\<rparr>)"
| sh_drop: "sh_tables w s = Some t \<Longrightarrow> \<forall>fh. (s, fh) \<notin> set (sh_slots w) \<Longrightarrow>
    sh_step w (w\<lparr>sh_pool := handles_drop (sh_pool w) t, sh_tables := (sh_tables w)(s := None)\<rparr>)"

definition held_by :: "('f, 'd, 'w) server_handles \<Rightarrow> nat" where
  "held_by w = (\<Sum>s \<in> dom (sh_tables w). handles_len (the (sh_tables w s)))"

definition sh_ok :: "nat \<Rightarrow> ('f, 'd, 'w) server_handles \<Rightarrow> bool" where
  "sh_ok capacity w \<longleftrightarrow>
     finite (dom (sh_tables w)) \<and>
     (\<forall>s t. sh_tables w s = Some t \<longrightarrow> table_counts t \<and> h_share t < 2 ^ 64) \<and>
     pool_cap (sh_pool w) = capacity \<and>
     pool_used (sh_pool w) = held_by w + length (sh_slots w) \<and>
     pool_used (sh_pool w) \<le> capacity"

lemma held_by_put:
  assumes "sh_ok capacity w" "sh_tables w s = Some t"
  shows "held_by (w\<lparr>sh_pool := pool, sh_tables := (sh_tables w)(s \<mapsto> t'), sh_slots := slots\<rparr>) + handles_len t =
    held_by w + handles_len t'"
  using assms sum_dom_put [of "sh_tables w" s t handles_len t'] by (simp add: held_by_def sh_ok_def)

lemma sh_ok_reserve:
  assumes ok: "sh_ok capacity w" and t: "sh_tables w s = Some t"
    and r: "reserve fh (sh_pool w) t = (pool, r)"
  shows "sh_ok capacity (w\<lparr>sh_pool := pool,
    sh_slots := (case r of Inr (Slot _) \<Rightarrow> (s, fh) # sh_slots w | _ \<Rightarrow> sh_slots w)\<rparr>)"
  using ok r
  by (auto simp: reserve_def pool_take_def sh_ok_def held_by_def split: option.splits if_splits)

lemma sh_ok_insert:
  assumes ok: "sh_ok capacity w" and t: "sh_tables w s = Some t"
    and slot: "(s, fh) \<in> set (sh_slots w)"
    and ins: "slot_insert fh h (sh_pool w) t = Some (pool, t', r)"
  shows "sh_ok capacity (w\<lparr>sh_pool := pool, sh_tables := (sh_tables w)(s \<mapsto> t'),
    sh_slots := remove1 (s, fh) (sh_slots w)\<rparr>)"
proof -
  have tok: "table_counts t" and share: "h_share t < 2 ^ 64"
    using ok t by (auto simp: sh_ok_def)
  have slots: "length (sh_slots w) = Suc (length (remove1 (s, fh) (sh_slots w)))"
    using slot by (simp add: length_remove1) (metis Suc_pred length_pos_if_in_set)
  note held = held_by_put [OF ok t, where pool = pool and t' = t' and
      slots = "remove1 (s, fh) (sh_slots w)"]
  from share show ?thesis
  proof (cases rule: slot_insert_cases [of t fh h "sh_pool w"])
    case duplicate
    then have "pool = pool_give 1 (sh_pool w)" "t' = t"
      using ins by auto
    then show ?thesis
      using ok tok share held slots by (auto simp: sh_ok_def pool_give_def)
  next
    case (kept t'' r')
    then have *: "pool = sh_pool w" "t' = t''"
      using ins by auto
    have "table_counts t'" "handles_len t' = Suc (handles_len t)" "h_share t' < 2 ^ 64"
      using table_counts_put [OF tok kept(1), of h] len_put [OF tok kept(1), of h] kept share
      by (simp_all add: * table_counts_def handles_len_def put_handle_def)
    then show ?thesis
      using ok held slots by (auto simp: sh_ok_def *)
  qed
qed

lemma sh_ok_remove:
  assumes ok: "sh_ok capacity w" and t: "sh_tables w s = Some t"
    and r: "remove_handle fh (sh_pool w) t = (pool, t', r)"
  shows "sh_ok capacity (w\<lparr>sh_pool := pool, sh_tables := (sh_tables w)(s \<mapsto> t')\<rparr>)"
proof (cases "h_map t fh")
  case None
  then show ?thesis
    using ok t r by (auto simp: remove_handle_eq sh_ok_def held_by_def fun_upd_idem)
next
  case (Some h)
  have tok: "table_counts t" and share: "h_share t < 2 ^ 64"
    using ok t by (auto simp: sh_ok_def)
  from Some r have *: "pool = pool_give 1 (sh_pool w)" "t' = del_handle fh t"
    by (auto simp: remove_handle_eq)
  then show ?thesis
    using ok table_counts_del [OF tok, of fh] len_del [OF tok Some] share
      held_by_put [OF ok t, where pool = pool and t' = t' and slots = "sh_slots w"]
    by (auto simp: sh_ok_def pool_give_def del_handle_simps)
qed

lemma sh_ok_drop:
  assumes ok: "sh_ok capacity w" and t: "sh_tables w s = Some t"
  shows "sh_ok capacity (w\<lparr>sh_pool := handles_drop (sh_pool w) t, sh_tables := (sh_tables w)(s := None)\<rparr>)"
  using ok sum_dom_del [of "sh_tables w" s t handles_len] t
  by (auto simp: sh_ok_def held_by_def handles_drop_def pool_give_def)

lemma sh_ok_slot_drop:
  assumes "sh_ok capacity w" "slot \<in> set (sh_slots w)"
  shows "sh_ok capacity (w\<lparr>sh_pool := slot_drop (sh_pool w), sh_slots := remove1 slot (sh_slots w)\<rparr>)"
proof -
  obtain n where "length (sh_slots w) = Suc n"
    using assms(2) by (cases "sh_slots w") auto
  with assms show ?thesis
    by (auto simp: sh_ok_def held_by_def slot_drop_def pool_give_def length_remove1)
qed

lemma sh_ok_new:
  assumes "sh_ok capacity w" "sh_tables w s = None" "share < 2 ^ 64"
  shows "sh_ok capacity (w\<lparr>sh_tables := (sh_tables w)(s \<mapsto> handles_new share)\<rparr>)"
proof -
  have "handles_len (handles_new share) = 0"
    by (simp add: handles_len_def handles_new_def)
  with assms sum_dom_new [of "sh_tables w" s handles_len "handles_new share"] show ?thesis
    by (auto simp: sh_ok_def held_by_def table_counts_new) (auto simp: handles_new_def)
qed

interpretation server_handles: invariant_system "sh_init capacity" sh_step "sh_ok capacity" for capacity
proof unfold_locales
  show "sh_init capacity w \<Longrightarrow> sh_ok capacity w" for w :: "('f, 'd, 'w) server_handles"
    by (simp add: sh_init_def sh_ok_def held_by_def pool_new_def)
  show "sh_ok capacity w' " if "sh_ok capacity w" "sh_step w w'" for w w' :: "('f, 'd, 'w) server_handles"
    using that(2,1)
    by (cases rule: sh_step.cases)
      (auto intro: sh_ok_new sh_ok_reserve sh_ok_insert sh_ok_slot_drop sh_ok_remove sh_ok_drop)
qed

subsection \<open>Properties\<close>

text \<open>
  C32: however sessions come and go, open, resend, fail and close: the slots the pool counts as
  taken are exactly the handles every session holds and the opens still under way, so none is lost
  and none is given back twice; there are never more than the pool has; and every session's counts
  of its files and directories are the numbers of each in its table.
\<close>

theorem pool_accounts:
  assumes "reach (sh_init capacity) sh_step w"
  shows "pool_used (sh_pool w) = held_by w + length (sh_slots w) \<and>
    pool_used (sh_pool w) \<le> capacity \<and>
    (\<forall>s t. sh_tables w s = Some t \<longrightarrow>
       h_files t = card (keys_where (h_map t) (\<lambda>h. \<not> is_dir h)) \<and>
       h_dirs t = card (keys_where (h_map t) is_dir) \<and> h_files t + h_dirs t = handles_len t)"
proof -
  have ok: "sh_ok capacity w"
    using assms by (rule server_handles.inv_reach)
  have "h_files t = card (keys_where (h_map t) (\<lambda>h. \<not> is_dir h)) \<and>
      h_dirs t = card (keys_where (h_map t) is_dir) \<and> h_files t + h_dirs t = handles_len t"
    if "sh_tables w s = Some t" for s t
  proof -
    have "counted (h_map t) is_dir (h_files t) (h_dirs t)"
      using ok that by (auto simp: sh_ok_def table_counts_def)
    from counted_total [OF this] this show ?thesis
      by (simp add: counted_def handles_len_def)
  qed
  moreover have "pool_used (sh_pool w) = held_by w + length (sh_slots w)" "pool_used (sh_pool w) \<le> capacity"
    using ok by (auto simp: sh_ok_def)
  ultimately show ?thesis
    by blast
qed

theorem pool_accounts_witness:
  "\<exists>w :: (unit, unit, unit) server_handles.
     sh_tables w 7 = Some (handles_new 4) \<and> sh_slots w = [(7, 1)] \<and>
     pool_used (sh_pool w) = held_by w + length (sh_slots w)"
proof -
  let ?w0 = "\<lparr>sh_pool = pool_new 10, sh_tables = Map.empty, sh_slots = []\<rparr> :: (unit, unit, unit) server_handles"
  let ?w1 = "?w0\<lparr>sh_tables := (sh_tables ?w0)(7 \<mapsto> handles_new 4)\<rparr>"
  let ?w2 = "?w1\<lparr>sh_pool := fst (pool_take (pool_new 10)), sh_slots := [(7, 1)]\<rparr>"
  have "reach (sh_init 10) sh_step ?w0"
    by (rule reach_init) (simp add: sh_init_def)
  then have "reach (sh_init 10) sh_step ?w1"
    by (rule reach_step) (rule sh_new, simp_all)
  then have "reach (sh_init 10) sh_step ?w2"
  proof (rule reach_step)
    show "sh_step ?w1 ?w2"
      using sh_reserve [of ?w1 7 "handles_new 4" 1 "fst (pool_take (pool_new 10))" "Inr (Slot 1)"]
      by (simp add: reserve_def handles_new_def pool_take_def pool_new_def)
  qed
  from pool_accounts [OF this] show ?thesis
    by (intro exI [of _ ?w2]) auto
qed

text \<open>
  The life of a handle: an open under an id that is free gets a slot unless the pool is full,
  whatever the session's share; inserting it always answers, and puts the handle under its id and
  changes no other; a second open that raced it is refused and gives its slot back; a resend of the
  open gets the handle that is there and takes nothing; and after a remove the id is free and every
  use of it fails with \<open>EBADF\<close>.
\<close>

theorem handle_lifecycle:
  assumes "h_share t < 2 ^ 64"
  shows "(h_map t fh = None \<longrightarrow>
      snd (reserve fh pool t) = (if pool_used pool < pool_cap pool then Ok (Slot fh) else Err PoolFull)) \<and>
    (h_map t fh = Some h \<longrightarrow> reserve fh pool t = (pool, Ok (Held h)) \<and>
      slot_insert fh h' pool t = Some (pool_give 1 pool, t, Err Duplicate)) \<and>
    (h_map t fh = None \<longrightarrow> (\<exists>t' r. slot_insert fh h' pool t = Some (pool, t', Ok r) \<and>
      h_map t' = (h_map t)(fh \<mapsto> h') \<and> get_handle fh t' = Ok h')) \<and>
    (let (pool', t', r) = remove_handle fh pool t
     in r = h_map t fh \<and> h_map t' = (h_map t)(fh := None) \<and>
        get_handle fh t' = Err EBADF \<and> file_of fh t' = Err EBADF \<and> dir_of fh t' = Err EBADF)"
proof (intro conjI impI)
  show "snd (reserve fh pool t) = (if pool_used pool < pool_cap pool then Ok (Slot fh) else Err PoolFull)"
    if "h_map t fh = None"
    using that by (simp add: reserve_def pool_take_def)
  show "reserve fh pool t = (pool, Ok (Held h))"
    "slot_insert fh h' pool t = Some (pool_give 1 pool, t, Err Duplicate)" if "h_map t fh = Some h"
    using that by (simp_all add: reserve_def slot_insert_def)
  show "\<exists>t' r. slot_insert fh h' pool t = Some (pool, t', Ok r) \<and>
      h_map t' = (h_map t)(fh \<mapsto> h') \<and> get_handle fh t' = Ok h'" if "h_map t fh = None"
    using assms that
    by (cases rule: slot_insert_cases [of t fh h' pool]) (auto simp: get_handle_def)
  show "let (pool', t', r) = remove_handle fh pool t
     in r = h_map t fh \<and> h_map t' = (h_map t)(fh := None) \<and>
        get_handle fh t' = Err EBADF \<and> file_of fh t' = Err EBADF \<and> dir_of fh t' = Err EBADF"
    by (auto simp: remove_handle_eq del_handle_simps get_handle_def file_of_def file_and_path_def
        dir_of_def split: option.split)
qed

theorem handle_lifecycle_witness:
  "\<exists>t' r. slot_insert 1 (HDir () None) (pool_new 10) (handles_new 4 :: (unit, unit, unit) handles) =
     Some (pool_new 10, t', Ok r) \<and> get_handle 1 t' = Ok (HDir () None)"
  using handle_lifecycle [of "handles_new 4 :: (unit, unit, unit) handles" 1 "pool_new 10" undefined "HDir () None"]
  by (auto simp: handles_new_def)

text \<open>
  What startup derives from the open-file limit: the pool never takes a descriptor the process
  does not have and leaves the server its reserve, or half of a limit too small to spare that; the
  shares of every session that can hold handles at once fit in the pool together.
\<close>

theorem shares_fit_pool:
  "pool_capacity limit + min RESERVED_FDS (unat limit div 2) = unat limit \<and>
   unat limit div 2 \<le> pool_capacity limit \<and>
   per_session limit * (MAX_CONNECTIONS + MAX_DETACHED_SESSIONS) \<le> pool_capacity limit \<and>
   per_session limit \<le> SHARE_MAX"
proof -
  have "per_session limit \<le> pool_capacity limit div (MAX_CONNECTIONS + MAX_DETACHED_SESSIONS)"
    by (simp add: per_session_def)
  then have "per_session limit * (MAX_CONNECTIONS + MAX_DETACHED_SESSIONS) \<le>
      pool_capacity limit div (MAX_CONNECTIONS + MAX_DETACHED_SESSIONS) * (MAX_CONNECTIONS + MAX_DETACHED_SESSIONS)"
    by (rule mult_right_mono) simp
  also have "\<dots> \<le> pool_capacity limit"
    by simp
  finally have fit: "per_session limit * (MAX_CONNECTIONS + MAX_DETACHED_SESSIONS) \<le> pool_capacity limit" .
  have "min RESERVED_FDS (unat limit div 2) \<le> unat limit div 2" "2 * (unat limit div 2) \<le> unat limit"
    by simp_all
  then have "pool_capacity limit + min RESERVED_FDS (unat limit div 2) = unat limit"
    "unat limit div 2 \<le> pool_capacity limit"
    unfolding pool_capacity_def by linarith+
  with fit show ?thesis
    by (simp add: per_session_def)
qed

end
