(* ===== verification/Sessions.thy ===== *)
theory Sessions
  imports Session ServerIds ServerHandles
begin

text \<open>
  The table of sessions and the handshake that attaches a connection to one (\<open>Sessions\<close>,
  \<open>authenticate\<close>, \<open>handshake\<close>, \<open>DetachUnlessAcked\<close>, the take-over in \<open>handle_connection\<close>, and the
  notices of \<open>forward_events\<close>, in \<open>crates/server/src/session.rs\<close>).  A session is shared by
  everything that refers to it, so the states of all sessions ever made are kept apart, by id, and
  the table and the dropped sessions are sets of ids.  The order in which a \<open>HashMap\<close> iterates, the
  random token and whether a weak reference still upgrades are arguments.
\<close>

subsection \<open>The table\<close>

record sessions =
  st_states :: "u64 \<rightharpoonup> session"
  st_map :: "u64 set"
  st_dropped :: "u64 set"
  st_next :: u64

definition sessions_new :: sessions where
  "sessions_new = \<lparr>st_states = Map.empty, st_map = {}, st_dropped = {}, st_next = 0\<rparr>"

definition detached_at :: "sessions \<Rightarrow> u64 \<Rightarrow> instant option" where
  "detached_at t i = Option.bind (st_states t i) (\<lambda>s. a_detached_at (se_attachment s))"

definition upd_session :: "u64 \<Rightarrow> (session \<Rightarrow> session) \<Rightarrow> sessions \<Rightarrow> sessions" where
  "upd_session i f t =
     (case st_states t i of None \<Rightarrow> t | Some s \<Rightarrow> t\<lparr>st_states := (st_states t)(i \<mapsto> f s)\<rparr>)"

text \<open>\<open>retire\<close>; \<open>strong\<close> says of which dropped sessions a reference is left.\<close>

definition retire :: "(u64 \<Rightarrow> bool) \<Rightarrow> u64 \<Rightarrow> sessions \<Rightarrow> sessions" where
  "retire strong i t =
     (if i \<in> st_map t
      then t\<lparr>st_map := st_map t - {i}, st_dropped := insert i (Set.filter strong (st_dropped t))\<rparr>
      else t)"

text \<open>The sessions in the table that are detached, in the order it iterates, with since when.\<close>

definition detached_list :: "u64 list \<Rightarrow> sessions \<Rightarrow> (u64 \<times> instant) list" where
  "detached_list order t = List.map_filter (\<lambda>i. map_option (Pair i) (detached_at t i)) order"

definition create :: "(u64 \<Rightarrow> bool) \<Rightarrow> u8 list \<Rightarrow> u64 list \<Rightarrow> sessions \<Rightarrow> sessions \<times> u64 \<times> nat" where
  "create strong token order t =
     (let i = st_next t + 1;
          state = \<lparr>se_id = i, se_token = token, se_attachment = attachment_new, se_holders = 0\<rparr>;
          detached = detached_list order t;
          t1 = (if length detached \<ge> MAX_DETACHED_SESSIONS
                then fold (retire strong) (map fst (take (length detached + 1 - MAX_DETACHED_SESSIONS)
                       (sort_key snd detached))) t
                else t)
      in (t1\<lparr>st_next := i, st_map := insert i (st_map t1), st_states := (st_states t1)(i \<mapsto> state)\<rparr>,
          i, 1))"

definition resume :: "(u64 \<Rightarrow> bool) \<Rightarrow> u64 \<Rightarrow> u8 list \<Rightarrow> sessions \<Rightarrow> sessions \<times> (u64 \<times> nat) option" where
  "resume upgrades i token t =
     (case (if i \<in> st_map t then map_option (\<lambda>s. (s, False)) (st_states t i)
            else if i \<in> st_dropped t \<and> upgrades i
            then Option.bind (st_states t i)
                   (\<lambda>s. if se_holders s = 0 then None else Some (s, True))
            else None) of
        None \<Rightarrow> (t, None)
      | Some (s, dropped) \<Rightarrow>
          if se_token s \<noteq> token then (t, None)
          else
            let t1 = (if dropped then t\<lparr>st_dropped := st_dropped t - {i}, st_map := insert i (st_map t)\<rparr>
                      else t);
                a = resume_attachment (se_attachment s)
            in (t1\<lparr>st_states := (st_states t1)(i \<mapsto> s\<lparr>se_attachment := a\<rparr>)\<rparr>, Some (i, a_epoch a)))"

definition forget_session :: "u64 \<Rightarrow> sessions \<Rightarrow> sessions" where
  "forget_session i t = t\<lparr>st_map := st_map t - {i}\<rparr>"

definition attach :: "u64 \<Rightarrow> sessions \<Rightarrow> sessions" where
  "attach i t = upd_session i hold t"

definition detach :: "instant \<Rightarrow> u64 \<Rightarrow> nat \<Rightarrow> sessions \<Rightarrow> sessions" where
  "detach now i epoch t =
     (if i \<in> st_map t
      then upd_session i (\<lambda>s. s\<lparr>se_attachment := detach_attachment now epoch (se_attachment s)\<rparr>) t
      else t)"

text \<open>\<open>Drop\<close> of \<open>AttachmentConn\<close>: the grace period starts, and the hold is let go.\<close>

definition attachment_drop :: "instant \<Rightarrow> u64 \<Rightarrow> nat \<Rightarrow> sessions \<Rightarrow> sessions" where
  "attachment_drop now i epoch t = upd_session i let_go (detach now i epoch t)"

definition expired :: "instant \<Rightarrow> nat \<Rightarrow> u64 list \<Rightarrow> sessions \<Rightarrow> u64 list" where
  "expired now grace order t =
     filter (\<lambda>i. case detached_at t i of Some at \<Rightarrow> now - at \<ge> grace | None \<Rightarrow> False) order"

definition reap :: "(u64 \<Rightarrow> bool) \<Rightarrow> instant \<Rightarrow> nat \<Rightarrow> u64 list \<Rightarrow> sessions \<Rightarrow> sessions \<times> nat" where
  "reap strong now grace order t =
     (let ids = expired now grace order t in (fold (retire strong) ids t, length ids))"

subsection \<open>The handshake\<close>

definition authenticate :: "u8 list option \<Rightarrow> auth \<Rightarrow> (unit, string) result" where
  "authenticate expected auth =
     (case expected of
        None \<Rightarrow> Ok ()
      | Some e \<Rightarrow>
          (case auth of
             Token given \<Rightarrow> if e = given then Ok () else Err ''invalid token''
           | Anonymous \<Rightarrow> Err ''this server requires a token''))"

datatype error_handshake = HandshakeRejected string | HandshakeRevision u64

text \<open>
  What the handshake decides for a hello: the session attached, its epoch and whether it was
  resumed; or what the client is told and why it was turned down.  \<open>revision\<close> is the server's
  \<open>PROTO_REVISION\<close>, which the build derives from the schema.
\<close>

definition handshake_outcome :: "u64 \<Rightarrow> u8 list option \<Rightarrow> (u64 \<Rightarrow> bool) \<Rightarrow> u8 list \<Rightarrow> u64 list \<Rightarrow> hello \<Rightarrow>
    sessions \<Rightarrow> sessions \<times> (u64 \<times> nat \<times> bool, hello_reply \<times> error_handshake) result" where
  "handshake_outcome revision expected strong token order hello t =
     (if hello_revision hello \<noteq> revision
      then (t, Err (RevisionMismatch revision, HandshakeRevision (hello_revision hello)))
      else case authenticate expected (hello_auth hello) of
        Inl reason \<Rightarrow> (t, Err (Reject reason, HandshakeRejected reason))
      | Inr _ \<Rightarrow>
          (case (case hello_resume hello of
                   Some r \<Rightarrow> resume strong (resume_session_id r) (resume_token_sent r) t
                 | None \<Rightarrow> (t, None)) of
             (t', Some (i, epoch)) \<Rightarrow> (t', Ok (i, epoch, True))
           | (t', None) \<Rightarrow>
               (case create strong token order t' of (t'', i, epoch) \<Rightarrow> (t'', Ok (i, epoch, False)))))"

text \<open>The reply to a handshake that attached a session.\<close>

definition ack_of :: "server_ids \<Rightarrow> u64 \<times> identity \<Rightarrow> sessions \<Rightarrow> u64 \<Rightarrow> bool \<Rightarrow> hello_reply option" where
  "ack_of ids root_key t i resumed = map_option
     (\<lambda>s. Ack (se_id s) (se_token s) resumed (fst root_key) (snd root_key) (ids_uid ids) (ids_gid ids))
     (st_states t i)"

text \<open>The \<open>Drop\<close> of \<open>DetachUnlessAcked\<close>.\<close>

definition unacked_drop :: "instant \<Rightarrow> u64 \<Rightarrow> nat \<Rightarrow> bool \<Rightarrow> bool \<Rightarrow> sessions \<Rightarrow> sessions" where
  "unacked_drop now i epoch resumed acked t =
     (if acked then t else if resumed then detach now i epoch t else forget_session i t)"

subsection \<open>The connection that holds a session\<close>

text \<open>
  The take-over of \<open>handle_connection\<close>: by session, the epoch of the connection that holds it.  The
  answer is None for a connection that comes too late and closes itself, and otherwise the
  connection it takes over from, to be closed.
\<close>

definition take_over :: "u64 \<Rightarrow> nat \<Rightarrow> (u64 \<rightharpoonup> nat) \<Rightarrow> (u64 \<rightharpoonup> nat) \<times> nat option option" where
  "take_over i epoch conns =
     (case conns i of
        Some e \<Rightarrow> if e > epoch then (conns, None) else (conns(i \<mapsto> epoch), Some (Some e))
      | None \<Rightarrow> (conns(i \<mapsto> epoch), Some None))"

text \<open>The \<open>Drop\<close> of \<open>DetachOnDrop\<close>, as far as the connections go.\<close>

definition conn_gone :: "u64 \<Rightarrow> nat \<Rightarrow> (u64 \<rightharpoonup> nat) \<Rightarrow> (u64 \<rightharpoonup> nat)" where
  "conn_gone i epoch conns = (if conns i = Some epoch then conns(i := None) else conns)"

subsection \<open>Notices and outcomes\<close>

definition notice_event :: "notice_handles \<Rightarrow> event" where
  "notice_event n = \<lparr>event_items = [], event_handles = Some n\<rparr>"

definition delivered :: "notice_handles \<Rightarrow> notice_handles option \<Rightarrow> notice_handles option" where
  "delivered sent pending = (if pending = Some sent then None else pending)"

record outcome =
  out_bytes :: nat
  out_items :: nat
  out_errno :: int

definition outcome_default :: outcome where
  "outcome_default = \<lparr>out_bytes = 0, out_items = 0, out_errno = 0\<rparr>"

definition outcome_of :: "response \<Rightarrow> outcome" where
  "outcome_of resp = (case resp of
       RErr errno \<Rightarrow> outcome_default\<lparr>out_errno := errno\<rparr>
     | RRead data \<Rightarrow> outcome_default\<lparr>out_bytes := length data\<rparr>
     | RWritten n \<Rightarrow> outcome_default\<lparr>out_bytes := unat n\<rparr>
     | RCopied n \<Rightarrow> outcome_default\<lparr>out_bytes := unat n\<rparr>
     | RReaddir entries eof \<Rightarrow> outcome_default\<lparr>out_items := length entries\<rparr>
     | _ \<Rightarrow> outcome_default)"

subsection \<open>What the operations do to the table\<close>

lemma retire_simps [simp]:
  "st_map (retire strong i t) = st_map t - {i}"
  "st_states (retire strong i t) = st_states t"
  "st_next (retire strong i t) = st_next t"
  "detached_at (retire strong i t) = detached_at t"
  by (auto simp: retire_def detached_at_def)

lemma fold_retire [simp]:
  "st_map (fold (retire strong) is t) = st_map t - set is"
  "st_states (fold (retire strong) is t) = st_states t"
  "st_next (fold (retire strong) is t) = st_next t"
  by (induction "is" arbitrary: t) auto

lemma detached_list_set:
  "set (detached_list order t) = {(i, at). i \<in> set order \<and> detached_at t i = Some at}"
  by (auto simp: detached_list_def List.map_filter_def) (force simp: image_iff)

lemma detached_list_distinct: "distinct order \<Longrightarrow> distinct (map fst (detached_list order t))"
  unfolding detached_list_def
  by (induction order) (auto simp: List.map_filter_simps List.map_filter_def split: option.split)

text \<open>The sessions evicted are the first of those detached, by when they were.\<close>

lemma evicted_oldest:
  assumes "x \<in> set (take n (sort_key f xs))" "y \<in> set (drop n (sort_key f xs))"
  shows "f x \<le> (f y :: nat)"
proof -
  have "sorted (map f (take n (sort_key f xs) @ drop n (sort_key f xs)))"
    by simp
  then show ?thesis
    using assms unfolding map_append sorted_append by auto
qed

lemma kept_card:
  assumes "distinct (map fst L)" "n \<le> length L"
  shows "card (fst ` set (drop n L)) = length L - n"
    and "fst ` set (take n L) \<inter> fst ` set (drop n L) = {}"
proof -
  have "distinct (map fst (take n L @ drop n L))"
    using assms by simp
  then have d: "distinct (map fst (take n L) @ map fst (drop n L))"
    by (simp only: map_append)
  then have "distinct (map fst (drop n L))"
    by (simp only: distinct_append)
  then have "card (set (map fst (drop n L))) = length (map fst (drop n L))"
    by (rule distinct_card)
  then show "card (fst ` set (drop n L)) = length L - n"
    by simp
  show "fst ` set (take n L) \<inter> fst ` set (drop n L) = {}"
    using d by (simp only: distinct_append set_map)
qed

definition sessions_ok :: "sessions \<Rightarrow> bool" where
  "sessions_ok t \<longleftrightarrow> finite (dom (st_states t)) \<and>
     st_map t \<subseteq> dom (st_states t) \<and> st_dropped t \<subseteq> dom (st_states t) \<and> st_map t \<inter> st_dropped t = {} \<and>
     (\<forall>i s. st_states t i = Some s \<longrightarrow> se_id s = i \<and> unat i \<le> unat (st_next t) \<and> i \<noteq> 0)"

lemma next_fresh:
  assumes "sessions_ok t" "unat (st_next t) < 2 ^ 64 - 1"
  shows "st_states t (st_next t + 1) = None" and "unat (st_next t + 1) = unat (st_next t) + 1"
proof -
  show next1: "unat (st_next t + 1) = unat (st_next t) + 1"
    using assms(2) by (simp add: unat_word_ariths)
  show "st_states t (st_next t + 1) = None"
  proof (rule ccontr)
    assume "st_states t (st_next t + 1) \<noteq> None"
    then have "unat (st_next t + 1) \<le> unat (st_next t)"
      using assms(1) by (auto simp: sessions_ok_def)
    with next1 show False
      by simp
  qed
qed

lemma create_kept:
  assumes order: "distinct order" "set order = st_map t"
  defines "d \<equiv> detached_list order t"
  defines "n \<equiv> (if length d \<ge> MAX_DETACHED_SESSIONS then length d + 1 - MAX_DETACHED_SESSIONS else 0)"
  defines "evicted \<equiv> fst ` set (take n (sort_key snd d))"
  shows "card {j \<in> st_map t - evicted. detached_at t j \<noteq> None} < MAX_DETACHED_SESSIONS"
    and "j \<in> evicted \<Longrightarrow> j \<in> st_map t \<and> (\<exists>at. detached_at t j = Some at \<and>
      (\<forall>k \<in> st_map t - evicted. \<forall>at'. detached_at t k = Some at' \<longrightarrow> at \<le> at'))"
proof -
  let ?L = "sort_key snd d"
  have dist: "distinct (map fst ?L)"
    using detached_list_distinct [OF order(1), of t] by (simp add: d_def distinct_map)
  have all: "set (take n ?L) \<union> set (drop n ?L) = {(i, at). i \<in> st_map t \<and> detached_at t i = Some at}"
    using detached_list_set [of order t] order(2)
    by (metis append_take_drop_id d_def set_append set_sort)
  have n: "n \<le> length ?L"
    by (simp add: n_def MAX_DETACHED_SESSIONS_def)
  have kept: "{j \<in> st_map t - evicted. detached_at t j \<noteq> None} = fst ` set (drop n ?L)"
  proof
    show "{j \<in> st_map t - evicted. detached_at t j \<noteq> None} \<subseteq> fst ` set (drop n ?L)"
    proof
      fix j
      assume j: "j \<in> {j \<in> st_map t - evicted. detached_at t j \<noteq> None}"
      then obtain at where "(j, at) \<in> set (take n ?L) \<union> set (drop n ?L)"
        using all by auto
      with j show "j \<in> fst ` set (drop n ?L)"
        unfolding evicted_def by force
    qed
    show "fst ` set (drop n ?L) \<subseteq> {j \<in> st_map t - evicted. detached_at t j \<noteq> None}"
      using all kept_card(2) [OF dist n] unfolding evicted_def by fastforce
  qed
  have "length d - n < MAX_DETACHED_SESSIONS"
    by (auto simp: n_def MAX_DETACHED_SESSIONS_def)
  with kept_card(1) [OF dist n] show "card {j \<in> st_map t - evicted. detached_at t j \<noteq> None} < MAX_DETACHED_SESSIONS"
    unfolding kept by simp
  assume "j \<in> evicted"
  then obtain at where at: "(j, at) \<in> set (take n ?L)"
    unfolding evicted_def by auto
  then have "j \<in> st_map t" "detached_at t j = Some at"
    using all by auto
  moreover have "at \<le> at'" if "k \<in> st_map t - evicted" "detached_at t k = Some at'" for k at'
  proof -
    have "(k, at') \<in> set (drop n ?L)"
      using that all unfolding evicted_def by force
    from evicted_oldest [OF at this] show ?thesis
      by simp
  qed
  ultimately show "j \<in> st_map t \<and> (\<exists>at. detached_at t j = Some at \<and>
      (\<forall>k \<in> st_map t - evicted. \<forall>at'. detached_at t k = Some at' \<longrightarrow> at \<le> at'))"
    by blast
qed

lemma create_eq:
  defines "d \<equiv> \<lambda>order t. detached_list order t"
  assumes "create strong token order t = (t', i, ep)"
  shows "i = st_next t + 1" and "ep = 1"
    and "st_map t' = insert i (st_map t - fst ` set (take (if length (d order t) \<ge> MAX_DETACHED_SESSIONS
      then length (d order t) + 1 - MAX_DETACHED_SESSIONS else 0) (sort_key snd (d order t))))"
    and "st_states t' = (st_states t)(i \<mapsto> \<lparr>se_id = i, se_token = token,
      se_attachment = attachment_new, se_holders = 0\<rparr>)"
    and "st_next t' = i"
proof -
  have eqs: "t' = fst (create strong token order t)" "i = fst (snd (create strong token order t))"
    "ep = snd (snd (create strong token order t))"
    by (simp_all add: assms(2))
  then show "i = st_next t + 1" "ep = 1"
    by (simp_all add: create_def Let_def)
  then show "st_map t' = insert i (st_map t - fst ` set (take (if length (d order t) \<ge> MAX_DETACHED_SESSIONS
      then length (d order t) + 1 - MAX_DETACHED_SESSIONS else 0) (sort_key snd (d order t))))"
    "st_states t' = (st_states t)(i \<mapsto> \<lparr>se_id = i, se_token = token,
      se_attachment = attachment_new, se_holders = 0\<rparr>)"
    "st_next t' = i"
    unfolding eqs(1) by (simp_all add: create_def Let_def d_def)
qed

lemma retired_dropped:
  "i \<in> set is \<Longrightarrow> i \<in> st_map t \<Longrightarrow> strong i \<Longrightarrow> i \<in> st_dropped (fold (retire strong) is t)"
proof (induction "is" arbitrary: t)
  case (Cons j js)
  have keep: "i \<in> st_dropped (fold (retire strong) ks u)" if "i \<in> st_dropped u" for ks u
    using that Cons.prems(3) by (induction ks arbitrary: u) (auto simp: retire_def)
  show ?case
  proof (cases "i = j")
    case True
    then have "i \<in> st_dropped (retire strong j t)"
      using Cons.prems by (simp add: retire_def)
    then show ?thesis
      by (simp add: keep)
  next
    case False
    then show ?thesis
      using Cons by simp
  qed
qed simp

lemma resume_None_same: "snd (resume upgrades i token t) = None \<Longrightarrow> fst (resume upgrades i token t) = t"
  by (auto simp: resume_def Let_def split: option.splits if_splits)

lemma resume_Some:
  assumes "sessions_ok t" "resume upgrades i token t = (t', Some (j, epoch))"
  shows "j = i" and "i \<in> st_map t'" and "\<exists>s. st_states t i = Some s \<and> se_token s = token"
    and "\<exists>s. st_states t' i = Some s \<and> a_epoch (se_attachment s) = epoch"
  using assms
  by (auto simp: resume_def Let_def split: option.splits if_splits bind_splits)

subsection \<open>Every table the server can have\<close>

inductive sessions_step :: "sessions \<Rightarrow> sessions \<Rightarrow> bool" where
  step_create: "unat (st_next t) < 2 ^ 64 - 1 \<Longrightarrow> create strong token order t = (t', r) \<Longrightarrow> sessions_step t t'"
| step_resume: "resume upgrades i token t = (t', r) \<Longrightarrow> sessions_step t t'"
| step_forget: "sessions_step t (forget_session i t)"
| step_attach: "sessions_step t (attach i t)"
| step_attachment_drop: "sessions_step t (attachment_drop now i epoch t)"
| step_unacked_drop: "sessions_step t (unacked_drop now i epoch resumed acked t)"
| step_reap: "reap strong now grace order t = (t', n) \<Longrightarrow> sessions_step t t'"

lemma retire_ok: "sessions_ok t \<Longrightarrow> sessions_ok (retire strong i t)"
  by (auto simp: sessions_ok_def retire_def)

lemma fold_retire_ok: "sessions_ok t \<Longrightarrow> sessions_ok (fold (retire strong) is t)"
  by (induction "is" arbitrary: t) (auto simp: retire_ok)

lemma upd_session_ok:
  "sessions_ok t \<Longrightarrow> (\<And>s. se_id (f s) = se_id s) \<Longrightarrow> sessions_ok (upd_session i f t)"
  by (auto simp: sessions_ok_def upd_session_def split: option.splits)

lemma detach_ok: "sessions_ok t \<Longrightarrow> sessions_ok (detach now i epoch t)"
  by (auto simp: detach_def intro: upd_session_ok)

lemma create_ok:
  assumes ok: "sessions_ok t" and "unat (st_next t) < 2 ^ 64 - 1"
  shows "sessions_ok (fst (create strong token order t))"
proof -
  define t1 where "t1 = (if length (detached_list order t) \<ge> MAX_DETACHED_SESSIONS
    then fold (retire strong) (map fst (take (length (detached_list order t) + 1 - MAX_DETACHED_SESSIONS)
      (sort_key snd (detached_list order t)))) t else t)"
  have t1: "sessions_ok t1" "st_next t1 = st_next t"
    using ok by (auto simp: t1_def fold_retire_ok)
  have "unat (st_next t1) < 2 ^ 64 - 1"
    using assms(2) t1(2) by simp
  note fresh = next_fresh [OF t1(1) this]
  have "fst (create strong token order t) = t1\<lparr>st_next := st_next t1 + 1,
      st_map := insert (st_next t1 + 1) (st_map t1), st_states := (st_states t1)(st_next t1 + 1 \<mapsto>
        \<lparr>se_id = st_next t1 + 1, se_token = token, se_attachment = attachment_new, se_holders = 0\<rparr>)\<rparr>"
    by (simp add: create_def Let_def t1_def)
  moreover have "st_next t1 + 1 \<notin> st_dropped t1" "st_next t1 + 1 \<noteq> 0"
    using t1(1) fresh by (auto simp: sessions_ok_def)
  ultimately show ?thesis
    using t1(1) fresh(2) by (auto simp: sessions_ok_def intro: le_SucI)
qed

lemma resume_ok: "sessions_ok t \<Longrightarrow> sessions_ok (fst (resume upgrades i token t))"
  by (auto simp: sessions_ok_def resume_def Let_def split: option.splits if_splits bind_splits)

interpretation sessions_table: invariant_system "\<lambda>t. t = sessions_new" sessions_step sessions_ok
proof unfold_locales
  show "t = sessions_new \<Longrightarrow> sessions_ok t" for t
    by (simp add: sessions_new_def sessions_ok_def)
  show "sessions_ok t'" if "sessions_ok t" "sessions_step t t'" for t t'
    using that(2,1)
  proof (induction rule: sessions_step.induct)
    case (step_create t strong token order t' r)
    then show ?case
      using create_ok by (metis fst_conv)
  next
    case (step_resume upgrades i token t t' r)
    then show ?case
      using resume_ok by (metis fst_conv)
  qed (auto simp: attach_def hold_def attachment_drop_def let_go_def unacked_drop_def
      forget_session_def reap_def Let_def intro: upd_session_ok detach_ok fold_retire_ok,
      auto simp: sessions_ok_def)
qed

subsection \<open>Properties\<close>

text \<open>
  Making room for a new session: the session is new, attached at its first epoch, and under
  an id no session has had; at most one fewer than \<open>MAX_DETACHED_SESSIONS\<close> detached sessions stay
  in the table; and only sessions detached at least as long as every one that stays are dropped.
\<close>

theorem create_makes_room:
  assumes "sessions_ok t" "unat (st_next t) < 2 ^ 64 - 1" "distinct order" "set order = st_map t"
    and "create strong token order t = (t', i, ep)"
  shows "st_states t i = None \<and> ep = 1 \<and> i \<in> st_map t' \<and> detached_at t' i = None \<and>
    card {j \<in> st_map t'. detached_at t' j \<noteq> None} < MAX_DETACHED_SESSIONS \<and>
    (\<forall>j \<in> st_map t - st_map t'. \<exists>at. detached_at t j = Some at \<and>
       (\<forall>k \<in> st_map t \<inter> st_map t'. \<forall>at'. detached_at t k = Some at' \<longrightarrow> at \<le> at'))"
proof -
  note eq = create_eq [OF assms(5)]
  note kept = create_kept [OF assms(3,4)]
  have fresh: "st_states t i = None"
    using next_fresh [OF assms(1,2)] eq(1) by simp
  have new: "detached_at t' i = None"
    by (simp add: detached_at_def eq(4) attachment_new_def)
  have old: "j \<noteq> i \<Longrightarrow> detached_at t' j = detached_at t j" for j
    by (simp add: detached_at_def eq(4))
  have "i \<notin> st_map t"
    using fresh assms(1) by (auto simp: sessions_ok_def)
  have "j \<in> st_map t' - {i} \<and> detached_at t j \<noteq> None"
    if "j \<in> st_map t'" "detached_at t' j \<noteq> None" for j
    using that new old [of j] by (cases "j = i") auto
  then have sub: "{j \<in> st_map t'. detached_at t' j \<noteq> None} \<subseteq>
      {j \<in> st_map t' - {i}. detached_at t j \<noteq> None}"
    by blast
  define E where "E = fst ` set (take (if length (detached_list order t) \<ge> MAX_DETACHED_SESSIONS
      then length (detached_list order t) + 1 - MAX_DETACHED_SESSIONS else 0)
      (sort_key snd (detached_list order t)))"
  note map' = eq(3) [folded E_def] and kept = kept [folded E_def]
  have "finite (st_map t)"
    using assms(1) by (auto simp: sessions_ok_def dest: finite_subset)
  then have fin: "finite {j \<in> st_map t - E. detached_at t j \<noteq> None}"
    by simp
  have "{j \<in> st_map t'. detached_at t' j \<noteq> None} \<subseteq> {j \<in> st_map t - E. detached_at t j \<noteq> None}"
    using sub unfolding map' by blast
  from card_mono [OF fin this] kept(1) have "card {j \<in> st_map t'. detached_at t' j \<noteq> None} < MAX_DETACHED_SESSIONS"
    by (rule le_less_trans)
  moreover have "\<exists>at. detached_at t j = Some at \<and>
       (\<forall>k \<in> st_map t \<inter> st_map t'. \<forall>at'. detached_at t k = Some at' \<longrightarrow> at \<le> at')"
    if "j \<in> st_map t - st_map t'" for j
    using kept(2) [of j] that \<open>i \<notin> st_map t\<close> unfolding map' by blast
  ultimately show ?thesis
    using fresh new eq by simp
qed

theorem create_makes_room_witness:
  "\<exists>t' i ep. create (\<lambda>_. True) [1] [] sessions_new = (t', i, ep) \<and> i = 1 \<and> i \<in> st_map t'"
proof -
  obtain t' i ep where c: "create (\<lambda>_. True) [1] [] sessions_new = (t', i, ep)"
    by (metis prod_cases3)
  have "sessions_ok sessions_new" "unat (st_next sessions_new) < 2 ^ 64 - 1" "set [] = st_map sessions_new"
    by (simp_all add: sessions_new_def sessions_ok_def)
  from create_makes_room [OF this(1,2) _ this(3) c] create_eq(1) [OF c] c show ?thesis
    by (auto simp: sessions_new_def)
qed

text \<open>
  C36: resuming: a client gets a session back exactly when the session is in the table, or was
  dropped and something of it is under way, and the client has its token; then the session is in
  the table, at a new epoch of which nothing runs yet, not detached, with every change that ran
  counted among those of earlier connections; and whatever is not resumed is left as it was.
\<close>

theorem resume_exact:
  assumes ok: "sessions_ok t" and r: "resume upgrades i token t = (t', r)"
  shows "(r \<noteq> None \<longleftrightarrow> (\<exists>s. st_states t i = Some s \<and> se_token s = token \<and>
      (i \<in> st_map t \<or> i \<in> st_dropped t \<and> upgrades i \<and> 0 < se_holders s))) \<and>
    (r = None \<longrightarrow> t' = t) \<and>
    (\<forall>s j epoch. r = Some (j, epoch) \<and> st_states t i = Some s \<longrightarrow>
       j = i \<and> i \<in> st_map t' \<and> i \<notin> st_dropped t' \<and> epoch = a_epoch (se_attachment s) + 1 \<and>
       (\<exists>s'. st_states t' = (st_states t)(i \<mapsto> s') \<and> se_holders s' = se_holders s \<and> se_token s' = token \<and>
          a_epoch (se_attachment s') = epoch \<and> a_detached_at (se_attachment s') = None \<and>
          a_running (se_attachment s') = 0 \<and> a_abandoned (se_attachment s') = 0 \<and>
          a_running_older (se_attachment s') =
            a_running_older (se_attachment s) + a_running (se_attachment s)))"
proof (cases "st_states t i")
  case None
  then have "i \<notin> st_map t"
    using ok by (auto simp: sessions_ok_def)
  with None r show ?thesis
    by (auto simp: resume_def split: if_splits)
next
  case (Some s)
  have "\<not> (i \<in> st_map t \<and> i \<in> st_dropped t)"
    using ok by (auto simp: sessions_ok_def)
  with Some r show ?thesis
    by (cases "i \<in> st_map t"; cases "se_token s = token")
      (auto simp: resume_def resume_attachment_def Let_def split: if_splits)
qed

theorem resume_exact_witness:
  "(let t = fst (create (\<lambda>_. True) [1] [] sessions_new)
    in sessions_ok t \<and> snd (resume (\<lambda>_. False) 1 [1] t) = Some (1, 2) \<and>
       snd (resume (\<lambda>_. False) 1 [2] t) = None)"
proof -
  let ?t = "fst (create (\<lambda>_. True) [1] [] sessions_new)"
  have ok: "sessions_ok ?t"
    by (auto simp: create_def sessions_new_def sessions_ok_def Let_def detached_list_def
        List.map_filter_def MAX_DETACHED_SESSIONS_def split: if_splits)
  have states: "st_states ?t 1 = Some \<lparr>se_id = 1, se_token = [1], se_attachment = attachment_new, se_holders = 0\<rparr>"
    "1 \<in> st_map ?t"
    by (simp_all add: create_def sessions_new_def Let_def detached_list_def List.map_filter_def
        MAX_DETACHED_SESSIONS_def)
  obtain t' r where r: "resume (\<lambda>_. False) 1 [1] ?t = (t', r)"
    by fastforce
  obtain t'' r' where r': "resume (\<lambda>_. False) 1 [2] ?t = (t'', r')"
    by fastforce
  have "r \<noteq> None"
    using conjunct1 [OF resume_exact [OF ok r]] states by simp
  then have "r = Some (1, 2)"
    using resume_exact [OF ok r] states by (cases r) (auto simp: attachment_new_def numeral_2_eq_2)
  moreover have "r' = None"
    using conjunct1 [OF resume_exact [OF ok r']] states by (cases r') auto
  ultimately show ?thesis
    using ok r r' by simp
qed

text \<open>
  C37: the handshake: a client built from another schema is told so whatever its credentials, one
  without the server's token is rejected, and neither changes anything; every other client is
  attached to a session, the one it names only if it has that session's token and something is
  left of it to resume; and when the reply cannot be written, a session made for it is gone from
  the table again, and a resumed one's grace period runs.
\<close>

theorem handshake_attaches:
  assumes ok: "sessions_ok t"
    and h: "handshake_outcome revision expected strong token order hello t = (t', res)"
  shows "(hello_revision hello \<noteq> revision \<longrightarrow>
      res = Err (RevisionMismatch revision, HandshakeRevision (hello_revision hello))) \<and>
    (\<forall>reply err. res = Err (reply, err) \<longrightarrow> t' = t \<and>
      (hello_revision hello \<noteq> revision \<or> (\<exists>e. expected = Some e \<and> hello_auth hello \<noteq> Token e))) \<and>
    (\<forall>i epoch resumed. res = Ok (i, epoch, resumed) \<longrightarrow> hello_revision hello = revision \<and>
      (\<forall>e. expected = Some e \<longrightarrow> hello_auth hello = Token e) \<and>
      (resumed \<longrightarrow> (\<exists>r s. hello_resume hello = Some r \<and> resume_session_id r = i \<and>
         st_states t i = Some s \<and> se_token s = resume_token_sent r)) \<and>
      i \<in> st_map t' \<and>
      (if resumed then detached_at (unacked_drop now i epoch resumed False t') i = Some now
       else i \<notin> st_map (unacked_drop now i epoch resumed False t')))"
proof (cases "hello_revision hello = revision")
  case False
  with h show ?thesis
    by (auto simp: handshake_outcome_def)
next
  case rev: True
  show ?thesis
  proof (cases "authenticate expected (hello_auth hello)")
    case (Inl reason)
    with rev h show ?thesis
      by (auto simp: handshake_outcome_def authenticate_def split: option.splits auth.splits if_splits)
  next
    case (Inr u)
    have auth: "\<forall>e. expected = Some e \<longrightarrow> hello_auth hello = Token e"
      using Inr by (auto simp: authenticate_def split: option.splits auth.splits if_splits)
    define res1 where "res1 = (case hello_resume hello of
      Some r \<Rightarrow> resume strong (resume_session_id r) (resume_token_sent r) t | None \<Rightarrow> (t, None))"
    show ?thesis
    proof (cases "snd res1")
      case None
      then have t1: "fst res1 = t"
        using resume_None_same by (auto simp: res1_def split: option.splits)
      obtain t2 i epoch where c: "create strong token order t = (t2, i, epoch)"
        by (metis prod_cases3)
      have "t' = t2" "res = Ok (i, epoch, False)"
        using h rev Inr None t1 c
        by (auto simp: handshake_outcome_def res1_def [symmetric] split: prod.splits option.splits)
      then show ?thesis
        using rev auth create_eq(3) [OF c] by (auto simp: unacked_drop_def forget_session_def)
    next
      case (Some ie)
      then obtain i epoch where ie: "snd res1 = Some (i, epoch)"
        by (metis surj_pair)
      then obtain r where r: "hello_resume hello = Some r"
        and res: "resume strong (resume_session_id r) (resume_token_sent r) t = (fst res1, Some (i, epoch))"
        by (auto simp: res1_def prod_eq_iff split: option.splits)
      have "t' = fst res1" "res = Ok (i, epoch, True)"
        using h rev Inr ie
        by (auto simp: handshake_outcome_def res1_def [symmetric] split: prod.splits option.splits)
      then show ?thesis
        using rev auth r resume_Some [OF ok res]
        by (auto simp: unacked_drop_def detach_def upd_session_def detach_attachment_def detached_at_def)
    qed
  qed
qed

definition example_hello :: hello where
  "example_hello = \<lparr>hello_revision = 5, hello_auth = Token [9], hello_resume = None\<rparr>"

theorem handshake_attaches_witness:
  "\<exists>t' i epoch. handshake_outcome 5 (Some [9]) (\<lambda>_. True) [1] [] example_hello sessions_new =
     (t', Ok (i, epoch, False)) \<and> i \<in> st_map t' \<and> i \<notin> st_map (unacked_drop 0 i epoch False False t')"
proof -
  obtain t' i epoch where h: "handshake_outcome 5 (Some [9]) (\<lambda>_. True) [1] [] example_hello sessions_new =
     (t', Ok (i, epoch, False))"
    by (cases "create (\<lambda>_. True) [1] [] sessions_new")
      (auto simp: handshake_outcome_def example_hello_def authenticate_def)
  have "sessions_ok sessions_new"
    by (simp add: sessions_new_def sessions_ok_def)
  from handshake_attaches [OF this h, of 0] h show ?thesis
    by auto
qed

text \<open>
  Reaping: the sessions that leave the table are exactly those detached for at least the grace
  period; each stays findable among the dropped ones, so what of it still runs can be resumed.
\<close>

theorem reap_expires:
  assumes "set order = st_map t" "distinct order" "reap strong now grace order t = (t', n)"
  shows "st_map t' = {i \<in> st_map t. \<forall>at. detached_at t i = Some at \<longrightarrow> now - at < grace} \<and>
    n = card (st_map t - st_map t') \<and> st_states t' = st_states t \<and>
    (\<forall>i \<in> st_map t - st_map t'. strong i \<longrightarrow> i \<in> st_dropped t')"
proof -
  let ?ids = "expired now grace order t"
  have t': "t' = fold (retire strong) ?ids t" and n: "n = length ?ids"
    using assms(3) by (auto simp: reap_def Let_def)
  have ids: "set ?ids = {i \<in> st_map t. \<exists>at. detached_at t i = Some at \<and> now - at \<ge> grace}"
    using assms(1) by (auto simp: expired_def split: option.splits)
  have "distinct ?ids"
    using assms(2) by (simp add: expired_def)
  then have "n = card (set ?ids)"
    by (simp add: n distinct_card)
  moreover have map': "st_map t' = st_map t - set ?ids"
    by (simp add: t')
  moreover have "st_map t - st_map t' = set ?ids"
    using ids map' by blast
  moreover have "i \<in> st_dropped t'" if "i \<in> set ?ids" "strong i" for i
    using retired_dropped [of i ?ids t strong] that ids by (auto simp: t')
  ultimately show ?thesis
    using ids by (auto simp: t' not_le)
qed

theorem reap_expires_witness:
  "(let t = detach 10 1 1 (fst (create (\<lambda>_. True) [1] [] sessions_new));
        (t', n) = reap (\<lambda>_. True) 100 60 [1] t
    in st_map t = {1} \<and> st_map t' = {} \<and> n = 1 \<and> 1 \<in> st_dropped t')"
proof -
  let ?t = "detach 10 1 1 (fst (create (\<lambda>_. True) [1] [] sessions_new))"
  have m: "set [1] = st_map ?t" and d: "detached_at ?t 1 = Some 10"
    by (simp_all add: create_def sessions_new_def Let_def detached_list_def List.map_filter_def
        MAX_DETACHED_SESSIONS_def detach_def upd_session_def detach_attachment_def attachment_new_def
        detached_at_def)
  obtain t' n where r: "reap (\<lambda>_. True) 100 60 [1] ?t = (t', n)"
    by fastforce
  note reap = reap_expires [OF m _ r]
  have "st_map ?t = {1}"
    using m by simp
  with reap d have "st_map t' = {}"
    by auto
  with reap r \<open>st_map ?t = {1}\<close> show ?thesis
    by auto
qed



end
