(* ===== verification/Fingerprint.thy ===== *)
theory Fingerprint
  imports Prelude
begin

text \<open>
  Certificate fingerprints and the revision hash (\<open>crates/proto/src/lib.rs\<close>).  Text is the bytes of
  its UTF-8 form.  The SHA-256 of a certificate is an argument.
\<close>

unbundle bit_operations_syntax

subsection \<open>The revision hash\<close>

fun fnv1a_from :: "u64 \<Rightarrow> u8 list \<Rightarrow> u64" where
  "fnv1a_from hash [] = hash"
| "fnv1a_from hash (b # bytes) = fnv1a_from ((hash XOR ucast b) * 0x100000001b3) bytes"

definition fnv1a :: "u8 list \<Rightarrow> u64" where
  "fnv1a bytes = fnv1a_from 0xcbf29ce484222325 bytes"

subsection \<open>Fingerprints\<close>

datatype error_fingerprint = ErrPrefix | ErrHex

definition hex_digit :: "nat \<Rightarrow> char" where
  "hex_digit d = (if d < 10 then char_of (48 + d) else char_of (87 + d))"

text \<open>The two lower-case hexadecimal digits of a byte.\<close>

definition hex_byte :: "u8 \<Rightarrow> string" where
  "hex_byte b = [hex_digit (unat b div 16), hex_digit (unat b mod 16)]"

definition sha256_prefix :: string where
  "sha256_prefix = ''sha256:''"

definition fingerprint :: "('c \<Rightarrow> u8 list) \<Rightarrow> 'c \<Rightarrow> string" where
  "fingerprint fingerprint_bytes der = sha256_prefix @ concat (map hex_byte (fingerprint_bytes der))"

definition strip_prefix :: "string \<Rightarrow> string \<Rightarrow> string option" where
  "strip_prefix p s = (if take (length p) s = p then Some (drop (length p) s) else None)"

text \<open>\<open>char::to_digit(16)\<close> of an ASCII character.\<close>

definition to_digit16 :: "char \<Rightarrow> nat option" where
  "to_digit16 c =
     (let n = of_char c in
      if 48 \<le> n \<and> n \<le> 57 then Some (n - 48)
      else if 97 \<le> n \<and> n \<le> 102 then Some (n - 87)
      else if 65 \<le> n \<and> n \<le> 70 then Some (n - 55)
      else None)"

text \<open>
  \<open>u8::from_str_radix(_, 16)\<close> of two characters: a leading \<open>+\<close> is a sign.  Two bytes that are not
  UTF-8, or hold any other character, give no number.
\<close>

definition from_str_radix16 :: "char \<Rightarrow> char \<Rightarrow> u8 option" where
  "from_str_radix16 c d =
     (if c = CHR ''+'' then map_option word_of_nat (to_digit16 d)
      else case (to_digit16 c, to_digit16 d) of
             (Some h, Some l) \<Rightarrow> Some (word_of_nat (16 * h + l))
           | _ \<Rightarrow> None)"

fun parse_pairs :: "string \<Rightarrow> (u8 list, error_fingerprint) result" where
  "parse_pairs (c # d # rest) =
     (case from_str_radix16 c d of
        None \<Rightarrow> Err ErrHex
      | Some b \<Rightarrow> bind_res (parse_pairs rest) (\<lambda>bs. Ok (b # bs)))"
| "parse_pairs [] = Ok []"
| "parse_pairs [c] = Err ErrHex"

definition parse_fingerprint :: "string \<Rightarrow> (u8 list, error_fingerprint) result" where
  "parse_fingerprint text' =
     (case strip_prefix sha256_prefix text' of
        None \<Rightarrow> Err ErrPrefix
      | Some digits \<Rightarrow>
          (let hex = filter (\<lambda>c. c \<noteq> CHR '':'') digits
           in if length hex \<noteq> 64 then Err ErrHex else parse_pairs hex))"

subsection \<open>Lemmas\<close>

lemma of_char_hex_digit: "d < 16 \<Longrightarrow> of_char (hex_digit d) = (if d < 10 then 48 + d else 87 + d)"
  by (simp add: hex_digit_def)

lemma to_digit16_hex_digit [simp]: "d < 16 \<Longrightarrow> to_digit16 (hex_digit d) = Some d"
  by (simp add: to_digit16_def of_char_hex_digit Let_def)

lemma hex_digit_neq:
  assumes "d < 16" shows "hex_digit d \<noteq> CHR '':''" "hex_digit d \<noteq> CHR ''+''"
proof -
  have "of_char (hex_digit d) \<noteq> (58 :: nat)" "of_char (hex_digit d) \<noteq> (43 :: nat)"
    using assms by (auto simp: of_char_hex_digit)
  moreover have "of_char CHR '':'' = (58 :: nat)" "of_char CHR ''+'' = (43 :: nat)"
    by simp_all
  ultimately show "hex_digit d \<noteq> CHR '':''" "hex_digit d \<noteq> CHR ''+''"
    by metis+
qed

lemma unat_byte_div16: "unat (b :: u8) div 16 < 16"
proof -
  have "unat b < 16 * 16"
    using unsigned_less [of b, where ?'a = nat] by simp
  then show ?thesis by (rule less_mult_imp_div_less)
qed

lemma parse_pairs_hex [simp]: "parse_pairs (concat (map hex_byte bs)) = Ok bs"
  by (induction bs)
    (simp_all add: hex_byte_def from_str_radix16_def unat_byte_div16 hex_digit_neq mult.commute)

lemma filter_hex [simp]: "filter (\<lambda>c. c \<noteq> CHR '':'') (concat (map hex_byte bs)) = concat (map hex_byte bs)"
  by (induction bs) (simp_all add: hex_byte_def hex_digit_neq unat_byte_div16)

lemma length_hex [simp]: "length (concat (map hex_byte bs)) = 2 * length bs"
  by (induction bs) (simp_all add: hex_byte_def)

text \<open>
   The fingerprint the program prints of a certificate is parsed back to the certificate's
  digest, for every digest of 32 bytes, and so is the same text with separators between its bytes.
\<close>

theorem fingerprint_parsed:
  assumes "length (sha256 der) = 32"
  shows "parse_fingerprint (fingerprint sha256 der) = Ok (sha256 der) \<and>
    parse_fingerprint (sha256_prefix @ concat (map (\<lambda>b. CHR '':'' # hex_byte b) (sha256 der))) = Ok (sha256 der)"
proof
  show "parse_fingerprint (fingerprint sha256 der) = Ok (sha256 der)"
    using assms by (simp add: parse_fingerprint_def fingerprint_def strip_prefix_def)
  have "filter (\<lambda>c. c \<noteq> CHR '':'') (concat (map (\<lambda>b. CHR '':'' # hex_byte b) bs)) = concat (map hex_byte bs)" for bs
    by (induction bs) (simp_all add: hex_byte_def hex_digit_neq unat_byte_div16)
  then show "parse_fingerprint (sha256_prefix @ concat (map (\<lambda>b. CHR '':'' # hex_byte b) (sha256 der))) = Ok (sha256 der)"
    using assms by (simp add: parse_fingerprint_def strip_prefix_def)
qed

theorem fingerprint_parsed_witness:
  "parse_fingerprint (fingerprint (\<lambda>_. replicate 32 171) ()) = Ok (replicate 32 171)"
  using fingerprint_parsed [of "\<lambda>_. replicate 32 171" "()"] by simp

text \<open>
  A sign stands for the first digit of a byte: text that is not 64 hexadecimal digits is accepted,
  where the error of \<open>parse_fingerprint\<close> says it must be.
\<close>

theorem signs_accepted:
  "parse_fingerprint (sha256_prefix @ concat (replicate 32 ''+a'')) = Ok (replicate 32 10)"
  by code_simp

end
