(* ===== verification/Watch.thy ===== *)
theory Watch
  imports Messages
begin

text \<open>
  What the server makes of file system events (\<open>crates/server/src/watch.rs\<close>, up to the table of
  watched directories, which \<open>WatchTable\<close> has): the log of which session changed which path, the
  items an inotify event stands for, the window they accumulate in, and the batch each session is sent.
  Instants are milliseconds.  inotify's event masks are the bits of the kernel's interface.
\<close>

unbundle bit_operations_syntax

subsection \<open>Batches\<close>

record event_batch =
  eb_items :: "(event_item \<times> u64 option) list"

definition for_session :: "event_batch \<Rightarrow> u64 \<Rightarrow> event option" where
  "for_session batch session_id =
     (let items = map fst (filter (\<lambda>(item, origin). origin \<noteq> Some session_id) (eb_items batch))
      in if items = [] then None else Some \<lparr>event_items = items, event_handles = None\<rparr>)"

subsection \<open>Which session changed which path\<close>

definition CHANGE_LOG_CAPACITY :: nat where "CHANGE_LOG_CAPACITY = 4096"
definition ORIGIN_MEMORY :: nat where "ORIGIN_MEMORY = 1000"

record change_log =
  cl_by_path :: "u8 list \<rightharpoonup> u64 \<times> nat"
  cl_order :: "u8 list list"

definition change_log_default :: change_log where
  "change_log_default = \<lparr>cl_by_path = Map.empty, cl_order = []\<rparr>"

text \<open>The loop that forgets the oldest records, over the queue.\<close>

fun forget_oldest :: "u8 list list \<Rightarrow> (u8 list \<rightharpoonup> u64 \<times> nat) \<Rightarrow> change_log" where
  "forget_oldest [] by_path = \<lparr>cl_by_path = by_path, cl_order = []\<rparr>"
| "forget_oldest (oldest # order) by_path =
     (if length (oldest # order) > CHANGE_LOG_CAPACITY then forget_oldest order (by_path(oldest := None))
      else \<lparr>cl_by_path = by_path, cl_order = oldest # order\<rparr>)"

definition log_record :: "nat \<Rightarrow> path \<Rightarrow> u64 \<Rightarrow> change_log \<Rightarrow> change_log" where
  "log_record now p session_id l =
     (let key = to_os_string p;
          by_path = (cl_by_path l)(key \<mapsto> (session_id, now))
      in if cl_by_path l key = None then forget_oldest (cl_order l @ [key]) by_path
         else l\<lparr>cl_by_path := by_path\<rparr>)"

definition record_entry :: "nat \<Rightarrow> path \<Rightarrow> name \<Rightarrow> u64 \<Rightarrow> change_log \<Rightarrow> change_log" where
  "record_entry now dir n session_id l =
     (case join dir n of Inr p \<Rightarrow> log_record now p session_id l | Inl _ \<Rightarrow> l)"

definition take_origin :: "nat \<Rightarrow> u8 list \<Rightarrow> change_log \<Rightarrow> u64 option \<times> change_log" where
  "take_origin now key l =
     (case cl_by_path l key of
        None \<Rightarrow> (None, l)
      | Some (session, at) \<Rightarrow>
          (if now - at < ORIGIN_MEMORY then Some session else None,
           l\<lparr>cl_by_path := (cl_by_path l)(key := None)\<rparr>))"

subsection \<open>A window's items\<close>

definition MAX_PENDING :: nat where "MAX_PENDING = 10000"

record pending =
  pn_items :: "(event_item \<times> u64 option) list"
  pn_seen :: "event_item set"
  pn_overflow :: bool

definition pending_default :: pending where
  "pending_default = \<lparr>pn_items = [], pn_seen = {}, pn_overflow = False\<rparr>"

definition pending_fold :: "event_item \<Rightarrow> u64 option \<Rightarrow> pending \<Rightarrow> pending" where
  "pending_fold item origin p =
     (if pn_overflow p then p
      else if item = Overflow \<or> length (pn_items p) \<ge> MAX_PENDING
      then \<lparr>pn_items = [], pn_seen = {}, pn_overflow = True\<rparr>
      else if item \<in> pn_seen p then p
      else p\<lparr>pn_seen := insert item (pn_seen p), pn_items := pn_items p @ [(item, origin)]\<rparr>)"

definition pending_flush :: "pending \<Rightarrow> event_batch option \<times> pending" where
  "pending_flush p =
     (if pn_overflow p
      then (Some \<lparr>eb_items = [(Overflow, None)]\<rparr>, \<lparr>pn_items = [], pn_seen = {}, pn_overflow = False\<rparr>)
      else if pn_items p = [] then (None, p)
      else (Some \<lparr>eb_items = pn_items p\<rparr>, p\<lparr>pn_seen := {}, pn_items := []\<rparr>))"

subsection \<open>What an event stands for\<close>

definition IN_MODIFY :: u32 where "IN_MODIFY = 0x2"
definition IN_ATTRIB :: u32 where "IN_ATTRIB = 0x4"
definition IN_MOVED_FROM :: u32 where "IN_MOVED_FROM = 0x40"
definition IN_MOVED_TO :: u32 where "IN_MOVED_TO = 0x80"
definition IN_CREATE :: u32 where "IN_CREATE = 0x100"
definition IN_DELETE :: u32 where "IN_DELETE = 0x200"
definition IN_DELETE_SELF :: u32 where "IN_DELETE_SELF = 0x400"
definition IN_MOVE_SELF :: u32 where "IN_MOVE_SELF = 0x800"
definition IN_UNMOUNT :: u32 where "IN_UNMOUNT = 0x2000"
definition IN_Q_OVERFLOW :: u32 where "IN_Q_OVERFLOW = 0x4000"
definition IN_IGNORED :: u32 where "IN_IGNORED = 0x8000"
definition IN_ISDIR :: u32 where "IN_ISDIR = 0x40000000"

lemmas inotify_bits = IN_MODIFY_def IN_ATTRIB_def IN_MOVED_FROM_def IN_MOVED_TO_def IN_CREATE_def IN_DELETE_def
  IN_DELETE_SELF_def IN_MOVE_SELF_def IN_UNMOUNT_def IN_Q_OVERFLOW_def IN_IGNORED_def IN_ISDIR_def

definition intersects :: "u32 \<Rightarrow> u32 \<Rightarrow> bool" where
  "intersects m bits \<longleftrightarrow> m AND bits \<noteq> 0"

definition contains :: "u32 \<Rightarrow> u32 \<Rightarrow> bool" where
  "contains m bits \<longleftrightarrow> m AND bits = bits"

definition origin_key :: "event_item \<Rightarrow> u8 list option" where
  "origin_key item =
     (case item of
        EventEntry dir n \<Rightarrow> (case join dir n of Inr p \<Rightarrow> Some (to_os_string p) | Inl _ \<Rightarrow> None)
      | EventData p \<Rightarrow> Some (to_os_string p)
      | Overflow \<Rightarrow> None
      | Unwatched _ \<Rightarrow> None)"

definition items_for :: "path \<Rightarrow> u32 \<Rightarrow> name \<Rightarrow> event_item list" where
  "items_for dir m n =
     (if intersects m (IN_CREATE OR IN_DELETE OR IN_MOVED_FROM OR IN_MOVED_TO) then [EventEntry dir n] else []) @
     (if intersects m (IN_MODIFY OR IN_ATTRIB)
      then (case join dir n of Inr p \<Rightarrow> [EventData p] | Inl _ \<Rightarrow> []) else [])"

text \<open>\<open>fold_events\<close>: each item with the session it came from, if its record is still there.\<close>

fun fold_events :: "nat \<Rightarrow> event_item list \<Rightarrow> change_log \<Rightarrow> pending \<Rightarrow> change_log \<times> pending" where
  "fold_events now [] l p = (l, p)"
| "fold_events now (item # items) l p =
     (case origin_key item of
        None \<Rightarrow> fold_events now items l (pending_fold item None p)
      | Some key \<Rightarrow>
          (let (origin, l') = take_origin now key l
           in fold_events now items l' (pending_fold item origin p)))"

subsection \<open>The directories a request names\<close>

definition parent_of :: "path \<Rightarrow> path" where
  "parent_of p = (case split_last p of Some (parent, n) \<Rightarrow> parent | None \<Rightarrow> path_root)"

fun dirs_named :: "request \<Rightarrow> path list" where
  "dirs_named (Lookup parent n) = [parent]"
| "dirs_named (Mknod parent n mode rdev) = [parent]"
| "dirs_named (Mkdir parent n mode) = [parent]"
| "dirs_named (Unlink parent n) = [parent]"
| "dirs_named (Rmdir parent n) = [parent]"
| "dirs_named (SymlinkAt parent n target) = [parent]"
| "dirs_named (Create fh parent n mode flags) = [parent]"
| "dirs_named (Rename parent n newparent newname flags) = [parent, newparent]"
| "dirs_named (Link path newparent newname) = [parent_of path, newparent]"
| "dirs_named (Getattr path fh) = (case path of Some p \<Rightarrow> [parent_of p] | None \<Rightarrow> [])"
| "dirs_named (Setattr path fh change) = (case path of Some p \<Rightarrow> [parent_of p] | None \<Rightarrow> [])"
| "dirs_named (Readlink path) = [parent_of path]"
| "dirs_named (Open fh path flags) = [parent_of path]"
| "dirs_named (Setxattr path n val flags) = [parent_of path]"
| "dirs_named (Getxattr path n) = [parent_of path]"
| "dirs_named (Listxattr path) = [parent_of path]"
| "dirs_named (Removexattr path n) = [parent_of path]"
| "dirs_named (Access path amode) = [parent_of path]"
| "dirs_named (Opendir fh path) = [path]"
| "dirs_named (Read fh offset amount) = []"
| "dirs_named (Write fh offset data) = []"
| "dirs_named (Release fh ordered) = []"
| "dirs_named (Fsync fh datasync) = []"
| "dirs_named (Readdir fh offset max_bytes) = []"
| "dirs_named (Releasedir fh ordered) = []"
| "dirs_named (Statfs path) = []"
| "dirs_named (CopyFileRange fh_in offset_in fh_out offset_out len) = []"
| "dirs_named (Fallocate fh offset len mode) = []"
| "dirs_named (Lseek fh offset whence) = []"

subsection \<open>What a window's batch says\<close>

text \<open>The reference: the first of each item, in the order they came, apart from those already seen.\<close>

fun fresh_items :: "event_item set \<Rightarrow> (event_item \<times> u64 option) list \<Rightarrow> (event_item \<times> u64 option) list" where
  "fresh_items seen [] = []"
| "fresh_items seen ((item, origin) # xs) =
     (if item \<in> seen then fresh_items seen xs else (item, origin) # fresh_items (insert item seen) xs)"

definition folded :: "(event_item \<times> u64 option) list \<Rightarrow> pending" where
  "folded xs = fold (\<lambda>(item, origin). pending_fold item origin) xs pending_default"

lemma fresh_items_append:
  "fresh_items seen (xs @ ys) = fresh_items seen xs @ fresh_items (seen \<union> fst ` set xs) ys"
  by (induction seen xs rule: fresh_items.induct) (auto simp: insert_absorb)

lemma fresh_items_fst: "fst ` set (fresh_items seen xs) = fst ` set xs - seen"
  by (induction seen xs rule: fresh_items.induct) auto

lemma fresh_items_distinct: "distinct (map fst (fresh_items seen xs))"
proof (induction seen xs rule: fresh_items.induct)
  case (2 seen item origin xs)
  have "item \<notin> fst ` set (fresh_items (insert item seen) xs)" by (simp add: fresh_items_fst)
  with 2 show ?case by simp
qed simp

text \<open>Whether the window has collapsed: an item came while it was full, or an overflow did.\<close>

definition collapses :: "(event_item \<times> u64 option) list \<Rightarrow> bool" where
  "collapses xs \<longleftrightarrow> Overflow \<in> fst ` set xs \<or> xs \<noteq> [] \<and> length (fresh_items {} (butlast xs)) \<ge> MAX_PENDING"

lemma length_fresh_butlast: "length (fresh_items {} (butlast xs)) \<le> length (fresh_items {} xs)"
  by (cases xs rule: rev_cases) (simp_all add: fresh_items_append)

lemma folded_eq:
  "folded xs = (if collapses xs then \<lparr>pn_items = [], pn_seen = {}, pn_overflow = True\<rparr>
     else \<lparr>pn_items = fresh_items {} xs, pn_seen = fst ` set xs, pn_overflow = False\<rparr>)"
proof (induction xs rule: rev_induct)
  case Nil
  then show ?case by (simp add: folded_def pending_default_def collapses_def)
next
  case (snoc x xs)
  obtain item origin where x: "x = (item, origin)" by (cases x)
  have "folded (xs @ [x]) = pending_fold item origin (folded xs)" by (simp add: folded_def x)
  moreover have "collapses (xs @ [x]) \<longleftrightarrow> collapses xs \<or> item = Overflow \<or> length (fresh_items {} xs) \<ge> MAX_PENDING"
    using length_fresh_butlast [of xs] by (auto simp: collapses_def x MAX_PENDING_def)
  moreover have "insert item (fst ` set xs) = fst ` set xs" if "item \<in> fst ` set xs" using that by blast
  ultimately show ?case
    using snoc.IH by (auto simp: pending_fold_def fresh_items_append x)
qed

lemma flushed_eq:
  "pending_flush (folded xs) =
     (if xs = [] then None
      else Some \<lparr>eb_items = (if collapses xs then [(Overflow, None)] else fresh_items {} xs)\<rparr>, pending_default)"
proof (cases xs)
  case (Cons x ys)
  then have "fresh_items {} xs \<noteq> []" by (cases x) simp
  with Cons show ?thesis by (simp add: pending_flush_def folded_eq pending_default_def)
qed (simp add: pending_flush_def folded_eq collapses_def pending_default_def)



text \<open>
  A change by anyone else that comes in the same window as a session's own change of the path is not
  reported to that session: the items are the same, and the first one's origin stands for both.
\<close>

lemma others_change_hidden:
  assumes "item \<noteq> Overflow"
  shows "\<exists>batch. pending_flush (folded [(item, Some s), (item, other)]) = (Some batch, pending_default) \<and>
    for_session batch s = None"
  using assms by (auto simp: flushed_eq collapses_def MAX_PENDING_def for_session_def)

subsection \<open>What the log remembers\<close>

text \<open>The specification: the last record of every path, until it is taken.\<close>

datatype log_op = OpRecord nat path u64 | OpTake nat "u8 list"

fun log_run :: "log_op list \<Rightarrow> change_log \<Rightarrow> u64 option list \<times> change_log" where
  "log_run [] l = ([], l)"
| "log_run (OpRecord now p s # ops) l = log_run ops (log_record now p s l)"
| "log_run (OpTake now key # ops) l =
     (let (origin, l') = take_origin now key l; (origins, l'') = log_run ops l' in (origin # origins, l''))"

fun spec_run :: "log_op list \<Rightarrow> (u8 list \<rightharpoonup> u64 \<times> nat) \<Rightarrow> u64 option list" where
  "spec_run [] m = []"
| "spec_run (OpRecord now p s # ops) m = spec_run ops (m(to_os_string p \<mapsto> (s, now)))"
| "spec_run (OpTake now key # ops) m =
     (case m key of Some (s, at) \<Rightarrow> if now - at < ORIGIN_MEMORY then Some s else None | None \<Rightarrow> None) #
       spec_run ops (m(key := None))"

definition log_ok :: "change_log \<Rightarrow> bool" where
  "log_ok l \<longleftrightarrow> length (cl_order l) \<le> CHANGE_LOG_CAPACITY \<and> dom (cl_by_path l) \<subseteq> set (cl_order l)"

lemma forget_oldest_effect:
  "cl_by_path (forget_oldest order m) \<subseteq>\<^sub>m m"
  "length (cl_order (forget_oldest order m)) \<le> CHANGE_LOG_CAPACITY"
  "dom m \<subseteq> set order \<Longrightarrow> dom (cl_by_path (forget_oldest order m)) \<subseteq> set (cl_order (forget_oldest order m))"
proof -
  show "cl_by_path (forget_oldest order m) \<subseteq>\<^sub>m m"
    by (induction order arbitrary: m) (auto intro: map_le_trans [OF _ upd_None_map_le])
  show "length (cl_order (forget_oldest order m)) \<le> CHANGE_LOG_CAPACITY"
    by (induction order arbitrary: m) auto
  show "dom m \<subseteq> set order \<Longrightarrow> dom (cl_by_path (forget_oldest order m)) \<subseteq> set (cl_order (forget_oldest order m))"
  proof (induction order arbitrary: m)
    case (Cons oldest order)
    then have "dom (m(oldest := None)) \<subseteq> set order" by auto
    from Cons.IH [OF this] Cons.prems show ?case by (simp add: fun_upd_def)
  qed simp
qed

lemma forget_oldest_few:
  "length order \<le> CHANGE_LOG_CAPACITY \<Longrightarrow> forget_oldest order m = \<lparr>cl_by_path = m, cl_order = order\<rparr>"
  by (cases order) simp_all

lemma log_record_effect:
  "log_ok l \<Longrightarrow> log_ok (log_record now p s l)"
  "cl_by_path l \<subseteq>\<^sub>m m \<Longrightarrow> cl_by_path (log_record now p s l) \<subseteq>\<^sub>m m(to_os_string p \<mapsto> (s, now))"
  "length (cl_order l) < CHANGE_LOG_CAPACITY \<Longrightarrow>
     cl_by_path (log_record now p s l) = (cl_by_path l)(to_os_string p \<mapsto> (s, now)) \<and>
     length (cl_order (log_record now p s l)) \<le> length (cl_order l) + 1"
proof -
  show "log_ok l \<Longrightarrow> log_ok (log_record now p s l)"
    using forget_oldest_effect(2,3) [where order = "cl_order l @ [to_os_string p]" and m = "(cl_by_path l)(to_os_string p \<mapsto> (s, now))"]
    by (auto simp: log_ok_def log_record_def Let_def)
  have m: "(cl_by_path l)(to_os_string p \<mapsto> (s, now)) \<subseteq>\<^sub>m m(to_os_string p \<mapsto> (s, now))" if "cl_by_path l \<subseteq>\<^sub>m m"
    using that by (auto simp: map_le_def)
  show "cl_by_path l \<subseteq>\<^sub>m m \<Longrightarrow> cl_by_path (log_record now p s l) \<subseteq>\<^sub>m m(to_os_string p \<mapsto> (s, now))"
    using map_le_trans [OF forget_oldest_effect(1) m] m by (simp add: log_record_def Let_def)
  show "length (cl_order l) < CHANGE_LOG_CAPACITY \<Longrightarrow>
     cl_by_path (log_record now p s l) = (cl_by_path l)(to_os_string p \<mapsto> (s, now)) \<and>
     length (cl_order (log_record now p s l)) \<le> length (cl_order l) + 1"
    by (simp add: log_record_def Let_def forget_oldest_few)
qed

lemma take_origin_effect:
  assumes "take_origin now key l = (origin, l')"
  shows "log_ok l \<Longrightarrow> log_ok l'" "cl_by_path l' = (cl_by_path l)(key := None)" "cl_order l' = cl_order l"
    "origin = (case cl_by_path l key of Some (s, at) \<Rightarrow> if now - at < ORIGIN_MEMORY then Some s else None | None \<Rightarrow> None)"
proof -
  show by_path: "cl_by_path l' = (cl_by_path l)(key := None)" and order: "cl_order l' = cl_order l"
    using assms by (auto simp: take_origin_def split: option.splits prod.splits)
  show "log_ok l \<Longrightarrow> log_ok l'" unfolding log_ok_def by_path order by auto
  show "origin = (case cl_by_path l key of Some (s, at) \<Rightarrow> if now - at < ORIGIN_MEMORY then Some s else None | None \<Rightarrow> None)"
    using assms by (auto simp: take_origin_def split: option.splits)
qed

definition records :: "log_op list \<Rightarrow> nat" where
  "records ops = length (filter (\<lambda>op. case op of OpRecord _ _ _ \<Rightarrow> True | _ \<Rightarrow> False) ops)"

lemma log_run_refines:
  "log_ok l \<Longrightarrow> cl_by_path l \<subseteq>\<^sub>m m \<Longrightarrow> log_run ops l = (origins, l') \<Longrightarrow>
     log_ok l' \<and> list_all2 (\<lambda>origin promised. origin = None \<or> origin = promised) origins (spec_run ops m)"
proof (induction ops l arbitrary: m origins rule: log_run.induct)
  case (3 now key ops l)
  obtain origin l1 where t: "take_origin now key l = (origin, l1)" by (cases "take_origin now key l")
  obtain os where run: "log_run ops l1 = (os, l')" "origins = origin # os"
    using "3.prems"(3) t by (auto split: prod.splits)
  note eff = take_origin_effect [OF t]
  have "cl_by_path l1 \<subseteq>\<^sub>m m(key := None)" using "3.prems"(2) eff(2) by (auto simp: map_le_def)
  from "3.IH" [OF t [symmetric] refl eff(1) [OF "3.prems"(1)] this run(1)]
  have "log_ok l'" "list_all2 (\<lambda>origin promised. origin = None \<or> origin = promised) os (spec_run ops (m(key := None)))"
    by blast+
  moreover have "cl_by_path l key = None \<or> cl_by_path l key = m key"
    using "3.prems"(2) by (auto simp: map_le_def)
  ultimately show ?case using eff(4) run(2) by auto
next
  case (2 now p s ops l)
  from "2.IH" [OF log_record_effect(1) [OF "2.prems"(1)] log_record_effect(2) [OF "2.prems"(2)]] "2.prems"(3) show ?case by (simp add: fun_upd_def)
qed simp

lemma log_run_exact:
  "cl_by_path l = m \<Longrightarrow> length (cl_order l) + records ops \<le> CHANGE_LOG_CAPACITY \<Longrightarrow> fst (log_run ops l) = spec_run ops m"
proof (induction ops l arbitrary: m rule: log_run.induct)
  case (2 now p s ops l)
  then have "length (cl_order l) < CHANGE_LOG_CAPACITY" by (simp add: records_def)
  from log_record_effect(3) [OF this, of now p s] 2 show ?case by (simp add: records_def fun_upd_def)
next
  case (3 now key ops l)
  obtain origin l1 where t: "take_origin now key l = (origin, l1)" by (cases "take_origin now key l")
  note eff = take_origin_effect [OF t]
  have "fst (log_run ops l1) = spec_run ops (m(key := None))"
    using "3.IH" [OF t [symmetric] refl eff(2)] "3.prems" eff(3) by (simp add: records_def fun_upd_def)
  then show ?case using t eff(4) "3.prems"(1) by (simp add: split_beta)
qed simp

text \<open>
  C27. The log refines a map of the last record of each path: whatever is recorded and taken, an event is
  attributed to no session but the one whose change of that path is the last recorded, not yet taken
  and less than a second old; and until the log has been full, to every such session.  It never holds
  more than its capacity.
\<close>

theorem log_refines_last_record:
  "list_all2 (\<lambda>origin promised. origin = None \<or> origin = promised)
     (fst (log_run ops change_log_default)) (spec_run ops Map.empty) \<and>
   card (dom (cl_by_path (snd (log_run ops change_log_default)))) \<le> CHANGE_LOG_CAPACITY \<and>
   (records ops \<le> CHANGE_LOG_CAPACITY \<longrightarrow> fst (log_run ops change_log_default) = spec_run ops Map.empty)"
proof -
  let ?l = "snd (log_run ops change_log_default)"
  have "log_ok change_log_default" by (simp add: log_ok_def change_log_default_def)
  from log_run_refines [OF this, of Map.empty ops] have ok: "log_ok ?l"
    and "list_all2 (\<lambda>origin promised. origin = None \<or> origin = promised)
      (fst (log_run ops change_log_default)) (spec_run ops Map.empty)"
    by (simp_all add: change_log_default_def prod_eq_iff)
  moreover have "card (dom (cl_by_path ?l)) \<le> CHANGE_LOG_CAPACITY"
    using ok card_mono [of "set (cl_order ?l)" "dom (cl_by_path ?l)"] card_length [of "cl_order ?l"]
    by (simp add: log_ok_def)
  moreover have "fst (log_run ops change_log_default) = spec_run ops Map.empty" if "records ops \<le> CHANGE_LOG_CAPACITY"
    using log_run_exact [of change_log_default Map.empty ops] that by (simp add: change_log_default_def)
  ultimately show ?thesis by blast
qed

theorem log_refines_last_record_witness:
  "(let ops = [OpRecord 0 path_root 7, OpTake 1 [], OpTake 2 []]
    in records ops \<le> CHANGE_LOG_CAPACITY \<and> spec_run ops Map.empty = [Some 7, None] \<and>
       fst (log_run ops change_log_default) = [Some 7, None])"
proof -
  let ?ops = "[OpRecord 0 path_root 7, OpTake 1 [], OpTake 2 []]"
  have "records ?ops \<le> CHANGE_LOG_CAPACITY" by (simp add: records_def CHANGE_LOG_CAPACITY_def)
  moreover have "spec_run ?ops Map.empty = [Some 7, None]"
    by (simp add: path_root_def to_os_string_def ORIGIN_MEMORY_def)
  ultimately show ?thesis using log_refines_last_record [of ?ops] by simp
qed

text \<open>
  A record can be forgotten as it is made, with no newer one anywhere: a path recorded, taken and recorded
  again has two places in the queue, and the older one's turn removes the record of the newer.
\<close>

lemma fresh_record_forgotten:
  assumes "cl_order l = to_os_string p # rest" "length rest + 1 = CHANGE_LOG_CAPACITY"
    and "cl_by_path l (to_os_string p) = None"
  shows "cl_by_path (log_record now p s l) (to_os_string p) = None"
proof -
  have "forget_oldest (cl_order l @ [to_os_string p]) m =
      forget_oldest (rest @ [to_os_string p]) (m(to_os_string p := None))" for m
    using assms by simp
  moreover have "cl_by_path (forget_oldest order m) x = None" if "m x = None" for order m x
    using forget_oldest_effect(1) [of order m] that by (metis domIff map_le_implies_dom_le subsetD)
  ultimately show ?thesis using assms(3) by (simp add: log_record_def Let_def)
qed

end
