(* ===== verification/WatchTable.thy ===== *)
theory WatchTable
  imports Watch Errno "HOL-Library.AList" "HOL-Library.Product_Lexorder" "HOL-Library.List_Lexorder" "HOL-Library.Sublist"
begin

text \<open>
  The table of watched directories (\<open>crates/server/src/watch.rs\<close>, \<open>Table\<close>).  What it needs of the system
  (\<open>trait Marks\<close>) is a parameter: functions of a system state that each call may change in any way, as
  the file system does meanwhile.  That state, and the notices the calls put out, are kept beside the
  table.  A directory's mark is shared with the requests and handles that hold it, so what changes of
  it (when it was used, its holds) is kept by the mark's number.  A \<open>HashMap\<close> of children is the list of
  its entries, in the order it iterates.  \<open>watched\<close> is an integer, so that a subtraction below zero,
  which would panic or wrap, shows.  Log lines and counters of events are left out.
\<close>

subsection \<open>State\<close>

record ('w, 'd, 's) marks =
  mk_open :: "path \<Rightarrow> 's \<Rightarrow> ('d, errno) result \<times> 's"
  mk_open_child :: "'d \<Rightarrow> name \<Rightarrow> 's \<Rightarrow> ('d, errno) result \<times> 's"
  mk_add :: "'d \<Rightarrow> 's \<Rightarrow> ('w, errno) result \<times> 's"
  mk_rm :: "'w \<Rightarrow> 's \<Rightarrow> 's"

datatype 'w watch_state = Watched 'w | Unwatchable nat

datatype 'w node = Node (n_state: "'w watch_state") (n_mark: nat) (n_children: "(name \<times> 'w node) list")

record ('w, 's) table =
  tb_root :: "'w node"
  tb_by_wd :: "'w \<rightharpoonup> path"
  tb_watched :: int
  tb_budget :: nat
  tb_capped :: "(nat \<times> nat) option"
  tb_round :: nat
  tb_dead :: bool
  tb_used :: "nat \<Rightarrow> nat"
  tb_holds :: "nat \<Rightarrow> nat"
  tb_fresh :: nat
  tb_sys :: 's
  tb_out :: "event_item list"

definition UNWATCHABLE_RETRY :: nat where "UNWATCHABLE_RETRY = 60000"
definition EVICT_BATCH :: nat where "EVICT_BATCH = 512"
definition BUDGET_MAX :: nat where "BUDGET_MAX = 65536"
definition BUDGET_FALLBACK :: nat where "BUDGET_FALLBACK = 8192"
definition LIMITED_HOLD :: nat where "LIMITED_HOLD = 600000"

definition is_watched :: "'w node \<Rightarrow> bool" where
  "is_watched n = (case n_state n of Watched _ \<Rightarrow> True | Unwatchable _ \<Rightarrow> False)"

text \<open>\<open>Node::new\<close>, with a new mark used in the round that is on.\<close>

definition new_node :: "'w watch_state \<Rightarrow> ('w, 's) table \<Rightarrow> 'w node \<times> ('w, 's) table" where
  "new_node st t =
     (Node st (tb_fresh t) [],
      t\<lparr>tb_fresh := tb_fresh t + 1, tb_used := (tb_used t)(tb_fresh t := tb_round t),
        tb_holds := (tb_holds t)(tb_fresh t := 0)\<rparr>)"

definition stamp :: "nat \<Rightarrow> ('w, 's) table \<Rightarrow> ('w, 's) table" where
  "stamp m t = t\<lparr>tb_used := (tb_used t)(m := tb_round t)\<rparr>"

definition hold :: "nat \<Rightarrow> ('w, 's) table \<Rightarrow> ('w, 's) table" where
  "hold m t = t\<lparr>tb_holds := (tb_holds t)(m := tb_holds t m + 1)\<rparr>"

definition armed_drop :: "nat \<Rightarrow> ('w, 's) table \<Rightarrow> ('w, 's) table" where
  "armed_drop m t = t\<lparr>tb_holds := (tb_holds t)(m := tb_holds t m - 1)\<rparr>"

text \<open>A call to the system.\<close>

definition asks :: "('s \<Rightarrow> 'a \<times> 's) \<Rightarrow> ('w, 's) table \<Rightarrow> 'a \<times> ('w, 's) table" where
  "asks f t = (let (a, s) = f (tb_sys t) in (a, t\<lparr>tb_sys := s\<rparr>))"

definition table_new :: "('w, 'd, 's) marks \<Rightarrow> nat \<Rightarrow> 's \<Rightarrow> (('w, 's) table, errno) result" where
  "table_new k budget s =
     (let (opened, s1) = mk_open k path_root s
      in bind_res opened (\<lambda>dir.
           let (added, s2) = mk_add k dir s1
           in bind_res added (\<lambda>wd. Ok
                \<lparr>tb_root = Node (Watched wd) 0 [], tb_by_wd = [wd \<mapsto> path_root], tb_watched = 0, tb_budget = budget,
                  tb_capped = None, tb_round = 0, tb_dead = False, tb_used = (\<lambda>_. 0), tb_holds = (\<lambda>_. 0),
                  tb_fresh = 1, tb_sys = s2, tb_out = []\<rparr>)))"

definition budget_at :: "nat \<Rightarrow> ('w, 's) table \<Rightarrow> nat \<times> ('w, 's) table" where
  "budget_at now t =
     (case tb_capped t of
        Some (cap, until) \<Rightarrow> if now < until then (cap, t) else (tb_budget t, t\<lparr>tb_capped := None\<rparr>)
      | None \<Rightarrow> (tb_budget t, t))"

subsection \<open>The tree\<close>

fun node_at :: "'w node \<Rightarrow> name list \<Rightarrow> 'w node option" where
  "node_at n [] = Some n"
| "node_at n (x # xs) = (case map_of (n_children n) x of None \<Rightarrow> None | Some c \<Rightarrow> node_at c xs)"

definition node :: "('w, 's) table \<Rightarrow> path \<Rightarrow> 'w node option" where
  "node t p = node_at (tb_root t) (names p)"

text \<open>A change made through \<open>node_mut\<close>, to the node at a path, if there is one.\<close>

fun node_mut :: "('w node \<Rightarrow> 'w node) \<Rightarrow> name list \<Rightarrow> 'w node \<Rightarrow> 'w node" where
  "node_mut f [] n = f n"
| "node_mut f (x # xs) n =
     (case map_of (n_children n) x of
        None \<Rightarrow> n
      | Some c \<Rightarrow> Node (n_state n) (n_mark n) (AList.update x (node_mut f xs c) (n_children n)))"

fun deepest_watched :: "'w node \<Rightarrow> name list \<Rightarrow> 'w node" where
  "deepest_watched n [] = n"
| "deepest_watched n (x # xs) =
     (case map_of (n_children n) x of
        Some c \<Rightarrow> if is_watched c then deepest_watched c xs else n
      | None \<Rightarrow> n)"

definition detach :: "path \<Rightarrow> ('w, 's) table \<Rightarrow> 'w node option \<times> ('w, 's) table" where
  "detach p t =
     (case split_last p of
        None \<Rightarrow> (None, t)
      | Some (parent, x) \<Rightarrow>
          (case node t parent of
             None \<Rightarrow> (None, t)
           | Some n \<Rightarrow>
               (map_of (n_children n) x,
                t\<lparr>tb_root := node_mut (\<lambda>n. Node (n_state n) (n_mark n) (AList.delete x (n_children n)))
                  (names parent) (tb_root t)\<rparr>)))"

text \<open>\<open>drop_tree\<close>, and its loop over the children; \<open>announce\<close> is whether it was given where to put notices.\<close>

definition drop_watch :: "('w, 'd, 's) marks \<Rightarrow> bool \<Rightarrow> 'w watch_state \<Rightarrow> path \<Rightarrow> ('w, 's) table \<Rightarrow> ('w, 's) table" where
  "drop_watch k announce st p t =
     (case st of
        Unwatchable _ \<Rightarrow> t
      | Watched wd \<Rightarrow>
          (let t1 = (if tb_by_wd t wd \<noteq> None
                     then t\<lparr>tb_by_wd := (tb_by_wd t)(wd := None), tb_sys := mk_rm k wd (tb_sys t)\<rparr> else t)
           in t1\<lparr>tb_watched := tb_watched t1 - 1,
                 tb_out := (if announce then tb_out t1 @ [Unwatched p] else tb_out t1)\<rparr>))"

fun drop_tree :: "('w, 'd, 's) marks \<Rightarrow> bool \<Rightarrow> 'w node \<Rightarrow> path \<Rightarrow> ('w, 's) table \<Rightarrow> ('w, 's) table"
  and drop_children :: "('w, 'd, 's) marks \<Rightarrow> bool \<Rightarrow> (name \<times> 'w node) list \<Rightarrow> path \<Rightarrow> ('w, 's) table \<Rightarrow> ('w, 's) table" where
  "drop_tree k announce (Node st m cs) p t = drop_watch k announce st p (drop_children k announce cs p t)"
| "drop_children k announce [] p t = t"
| "drop_children k announce ((x, c) # cs) p t =
     drop_children k announce cs p
       (drop_tree k announce c (case join p x of Inr q \<Rightarrow> q | Inl _ \<Rightarrow> p) t)"

text \<open>\<open>put\<close>: the node at a path whose parent the table has; whatever was there is dropped.\<close>

definition put :: "('w, 'd, 's) marks \<Rightarrow> path \<Rightarrow> 'w node \<Rightarrow> ('w, 's) table \<Rightarrow> ('w, 's) table" where
  "put k p n t =
     (case split_last p of
        None \<Rightarrow> t
      | Some (parent, x) \<Rightarrow>
          (case node t parent of
             None \<Rightarrow> drop_tree k True n p t
           | Some slot \<Rightarrow>
               (let t1 = t\<lparr>tb_root := node_mut (\<lambda>s. Node (n_state s) (n_mark s) (AList.update x n (n_children s)))
                           (names parent) (tb_root t)\<rparr>
                in case map_of (n_children slot) x of
                     None \<Rightarrow> t1
                   | Some displaced \<Rightarrow> drop_tree k True displaced p t1)))"

fun rekey :: "('w, 'd, 's) marks \<Rightarrow> 'w node \<Rightarrow> path \<Rightarrow> ('w, 's) table \<Rightarrow> 'w node \<times> ('w, 's) table"
  and rekey_children :: "('w, 'd, 's) marks \<Rightarrow> (name \<times> 'w node) list \<Rightarrow> path \<Rightarrow> ('w, 's) table \<Rightarrow>
    (name \<times> 'w node) list \<times> ('w, 's) table" where
  "rekey k (Node st m cs) p t =
     (let t1 = (case st of Watched wd \<Rightarrow> t\<lparr>tb_by_wd := (tb_by_wd t)(wd \<mapsto> p)\<rparr> | Unwatchable _ \<Rightarrow> t);
          (cs', t2) = rekey_children k cs p t1
      in (Node st m cs', t2))"
| "rekey_children k [] p t = ([], t)"
| "rekey_children k ((x, c) # cs) p t =
     (case join p x of
        Inr q \<Rightarrow>
          (let (c', t1) = rekey k c q t; (cs', t2) = rekey_children k cs p t1
           in ((x, c') # cs', t2))
      | Inl _ \<Rightarrow> rekey_children k cs p (drop_tree k True c p t))"

definition reroot :: "('w, 'd, 's) marks \<Rightarrow> path \<Rightarrow> path \<Rightarrow> ('w, 's) table \<Rightarrow> bool \<times> ('w, 's) table" where
  "reroot k src to t =
     (case detach src t of
        (None, t1) \<Rightarrow> (False, t1)
      | (Some n, t1) \<Rightarrow> (let (n', t2) = rekey k n to t1 in (True, put k to n' t2)))"

subsection \<open>Making room\<close>

text \<open>\<open>leaves_of\<close>, over the children of a node.\<close>

fun leaves_in :: "(nat \<Rightarrow> nat) \<Rightarrow> (nat \<Rightarrow> nat) \<Rightarrow> name list \<Rightarrow> (name \<times> 'w node) list \<Rightarrow> name list \<Rightarrow> (nat \<times> name list) list" where
  "leaves_in used holds keep [] ns = []"
| "leaves_in used holds keep ((x, Node st m cs) # rest) ns =
     (case st of
        Unwatchable _ \<Rightarrow> []
      | Watched _ \<Rightarrow>
          if list_ex (\<lambda>(y, c). is_watched c) cs then leaves_in used holds keep cs (ns @ [x])
          else if holds m = 0 \<and> \<not> prefix (ns @ [x]) keep then [(used m, ns @ [x])] else []) @
     leaves_in used holds keep rest ns"

definition leaves_of :: "name list \<Rightarrow> ('w, 's) table \<Rightarrow> (nat \<times> name list) list" where
  "leaves_of keep t = leaves_in (tb_used t) (tb_holds t) keep (n_children (tb_root t)) []"

text \<open>The ones used longest ago, the deepest of them first: the order \<open>select_nth_unstable_by\<close> selects by.\<close>

definition leaf_key :: "nat \<times> name list \<Rightarrow> nat \<times> int \<times> name list" where
  "leaf_key = (\<lambda>(used, ns). (used, - int (length ns), ns))"

definition evict_one :: "('w, 'd, 's) marks \<Rightarrow> name list \<Rightarrow> ('w, 's) table \<Rightarrow> ('w, 's) table" where
  "evict_one k ns t =
     (case detach (Path ns) t of
        (Some n, t1) \<Rightarrow> drop_tree k True n (Path ns) t1
      | (None, t1) \<Rightarrow> t1)"

function evict_loop :: "('w, 'd, 's) marks \<Rightarrow> name list \<Rightarrow> nat \<Rightarrow> nat \<Rightarrow> ('w, 's) table \<Rightarrow> ('w, 's) table" where
  "evict_loop k keep want dropped t =
     (if dropped < want
      then (let leaves = leaves_of keep t
            in if leaves = [] then t
               else (let amount = min (want - dropped) (length leaves);
                         victims = map snd (take amount (sort_key leaf_key leaves))
                     in evict_loop k keep want (dropped + amount) (fold (evict_one k) victims t)))
      else t)"
  by auto
termination
  by (relation "measure (\<lambda>(k, keep, want, dropped, t). want - dropped)") (auto simp: Let_def min_def neq_Nil_conv)

declare evict_loop.simps [simp del]

definition evict :: "('w, 'd, 's) marks \<Rightarrow> path \<Rightarrow> nat \<Rightarrow> ('w, 's) table \<Rightarrow> ('w, 's) table" where
  "evict k keep now t =
     (let (budget, t1) = budget_at now t;
          over = nat (tb_watched t1 + 1) - budget;
          want = max over (max 1 (min (budget div 16) EVICT_BATCH));
          t2 = t1\<lparr>tb_round := tb_round t1 + 1\<rparr>
      in evict_loop k (names keep) want 0 t2)"

definition limited :: "nat \<Rightarrow> ('w, 's) table \<Rightarrow> ('w, 's) table" where
  "limited now t = t\<lparr>tb_capped := Some (nat (tb_watched t), now + LIMITED_HOLD)\<rparr>"

subsection \<open>Watching a directory\<close>

definition place :: "('w, 'd, 's) marks \<Rightarrow> path \<Rightarrow> 'w \<Rightarrow> nat \<Rightarrow> ('w, 's) table \<Rightarrow> bool \<times> ('w, 's) table" where
  "place k p wd now t =
     (case tb_by_wd t wd of
        Some old \<Rightarrow> if old = p then (True, t) else reroot k old p t
      | None \<Rightarrow>
          (let (budget, t1) = budget_at now t;
               t2 = (if tb_watched t1 \<ge> int budget then evict k p now t1 else t1);
               t3 = t2\<lparr>tb_by_wd := (tb_by_wd t2)(wd \<mapsto> p), tb_watched := tb_watched t2 + 1\<rparr>;
               (n, t4) = new_node (Watched wd) t3
           in (True, put k p n t4)))"

definition install :: "('w, 'd, 's) marks \<Rightarrow> path \<Rightarrow> 'd \<Rightarrow> nat \<Rightarrow> ('w, 's) table \<Rightarrow> bool \<times> ('w, 's) table" where
  "install k p dir now t =
     (let (added, t1) = asks (mk_add k dir) t;
          (added, t2) =
            (if added = Err ENOSPC \<and> tb_watched t1 > 0
             then asks (mk_add k dir) (evict k p now (limited now t1)) else (added, t1))
      in case added of
           Inr wd \<Rightarrow> place k p wd now t2
         | Inl _ \<Rightarrow> (let (n, t3) = new_node (Unwatchable (now + UNWATCHABLE_RETRY)) t2 in (False, put k p n t3)))"

definition verify :: "('w, 'd, 's) marks \<Rightarrow> path \<Rightarrow> 'd \<Rightarrow> nat \<Rightarrow> ('w, 's) table \<Rightarrow> bool \<times> ('w, 's) table" where
  "verify k p dir now t =
     (case map_option n_state (node t p) of
        Some (Watched wd) \<Rightarrow>
          (let (added, t1) = asks (mk_add k dir) t
           in case added of
                Inr found \<Rightarrow>
                  if found = wd then (True, t1)
                  else (let t2 = (case detach p t1 of
                                    (Some stale, t') \<Rightarrow> drop_tree k True stale p t'
                                  | (None, t') \<Rightarrow> t')
                        in place k p found now t2)
              | Inl _ \<Rightarrow> (False, t1))
      | _ \<Rightarrow> (False, t))"

text \<open>The loop of \<open>extend\<close>: the names before, those still to watch, and the directory that was opened last.\<close>

fun extend_from :: "('w, 'd, 's) marks \<Rightarrow> name list \<Rightarrow> name list \<Rightarrow> 'd \<Rightarrow> nat \<Rightarrow> ('w, 's) table \<Rightarrow> ('w, 's) table" where
  "extend_from k ns [] dir now t = t"
| "extend_from k ns (x # xs) dir now t =
     (let (opened, t1) = asks (mk_open_child k dir x) t
      in case opened of
           Inl _ \<Rightarrow> t1
         | Inr child \<Rightarrow>
             (let (installed, t2) = install k (Path (ns @ [x])) child now t1
              in if installed then extend_from k (ns @ [x]) xs child now t2 else t2))"

definition extend_watch :: "('w, 'd, 's) marks \<Rightarrow> name list \<Rightarrow> nat \<Rightarrow> nat \<Rightarrow> ('w, 's) table \<Rightarrow> ('w, 's) table" where
  "extend_watch k ns depth now t =
     (let (opened, t1) = asks (mk_open k (Path (take depth ns))) t
      in case opened of
           Inl _ \<Rightarrow> t1
         | Inr dir \<Rightarrow>
             (let (verified, t2) = (if depth > 0 then verify k (Path (take depth ns)) dir now t1 else (True, t1))
              in if verified then extend_from k (take depth ns) (drop depth ns) dir now t2 else t2))"

datatype touched = TouchDone "nat option" | TouchMissing

fun touch_from :: "nat \<Rightarrow> 'w node \<Rightarrow> name list \<Rightarrow> ('w, 's) table \<Rightarrow> touched \<times> ('w, 's) table" where
  "touch_from now n [] t = (TouchDone (Some (n_mark n)), hold (n_mark n) t)"
| "touch_from now n (x # xs) t =
     (case map_of (n_children n) x of
        None \<Rightarrow> (TouchMissing, t)
      | Some c \<Rightarrow>
          (case n_state c of
             Watched _ \<Rightarrow> touch_from now c xs (stamp (n_mark c) t)
           | Unwatchable retry_at \<Rightarrow>
               if now < retry_at then (TouchDone (Some (n_mark n)), hold (n_mark n) t) else (TouchMissing, t)))"

definition touch :: "path \<Rightarrow> nat \<Rightarrow> ('w, 's) table \<Rightarrow> touched \<times> ('w, 's) table" where
  "touch dir now t = (if tb_dead t then (TouchDone None, t) else touch_from now (tb_root t) (names dir) t)"

text \<open>How many of the names lead down watched directories.\<close>

fun watched_depth :: "'w node \<Rightarrow> name list \<Rightarrow> nat" where
  "watched_depth n [] = 0"
| "watched_depth n (x # xs) =
     (case map_of (n_children n) x of
        Some c \<Rightarrow> if is_watched c then watched_depth c xs + 1 else 0
      | None \<Rightarrow> 0)"

definition arm :: "('w, 'd, 's) marks \<Rightarrow> path \<Rightarrow> nat \<Rightarrow> ('w, 's) table \<Rightarrow> nat option \<times> ('w, 's) table" where
  "arm k dir now t =
     (case touch dir now t of
        (TouchDone held, t1) \<Rightarrow> (held, t1)
      | (TouchMissing, t1) \<Rightarrow>
          (let t2 = extend_watch k (names dir) (watched_depth (tb_root t1) (names dir)) now t1;
               m = n_mark (deepest_watched (tb_root t2) (names dir))
           in (Some m, hold m t2)))"

subsection \<open>Events\<close>

record 'w raw_event =
  re_wd :: 'w
  re_mask :: u32
  re_cookie :: u32
  re_name :: "u8 list option"

definition structural :: "'w raw_event \<Rightarrow> bool" where
  "structural e \<longleftrightarrow>
     intersects (re_mask e) (IN_Q_OVERFLOW OR IN_IGNORED OR IN_UNMOUNT OR IN_DELETE_SELF) \<or>
     contains (re_mask e) IN_ISDIR \<and> intersects (re_mask e) (IN_MOVED_FROM OR IN_MOVED_TO OR IN_DELETE)"

text \<open>\<open>Table::is\<close>.\<close>

definition is_dir :: "('w, 'd, 's) marks \<Rightarrow> 'd \<Rightarrow> 'w \<Rightarrow> ('w, 's) table \<Rightarrow> bool \<times> ('w, 's) table" where
  "is_dir k dir wd t =
     (let (added, t1) = asks (mk_add k dir) t
      in case added of
           Inr found \<Rightarrow>
             if found = wd then (True, t1)
             else (False, if tb_by_wd t1 found = None then t1\<lparr>tb_sys := mk_rm k found (tb_sys t1)\<rparr> else t1)
         | Inl _ \<Rightarrow> (False, t1))"

definition still_there :: "('w, 'd, 's) marks \<Rightarrow> path \<Rightarrow> ('w, 's) table \<Rightarrow> bool \<times> ('w, 's) table" where
  "still_there k p t =
     (case map_option n_state (node t p) of
        Some (Watched wd) \<Rightarrow>
          (let (opened, t1) = asks (mk_open k p) t
           in case opened of Inr dir \<Rightarrow> is_dir k dir wd t1 | Inl _ \<Rightarrow> (False, t1))
      | _ \<Rightarrow> (False, t))"

text \<open>\<open>recheck_below\<close>: the children to check, in a directory opened again, at the names.\<close>

fun recheck_below :: "('w, 'd, 's) marks \<Rightarrow> (name \<times> 'w node) list \<Rightarrow> 'd \<Rightarrow> name list \<Rightarrow> ('w, 's) table \<Rightarrow>
    (name \<times> 'w node) list \<times> ('w, 's) table" where
  "recheck_below k [] parent ns t = ([], t)"
| "recheck_below k ((x, Node st m cs) # rest) parent ns t =
     (let (here, t1) =
            (case st of
               Unwatchable _ \<Rightarrow> (None, t)
             | Watched wd \<Rightarrow>
                 (let (opened, t1) = asks (mk_open_child k parent x) t
                  in case opened of
                       Inl _ \<Rightarrow> (None, t1)
                     | Inr dir \<Rightarrow> (let (same, t2) = is_dir k dir wd t1 in (if same then Some dir else None, t2))));
          (kept, t2) =
            (case here of
               Some dir \<Rightarrow>
                 (let (cs', t2) = recheck_below k cs dir (ns @ [x]) t1 in ([(x, Node st m cs')], t2))
             | None \<Rightarrow> ([], drop_tree k True (Node st m cs) (Path (ns @ [x])) t1));
          (kept', t3) = recheck_below k rest parent ns t2
      in (kept @ kept', t3))"

definition recheck :: "('w, 'd, 's) marks \<Rightarrow> ('w, 's) table \<Rightarrow> ('w, 's) table" where
  "recheck k t =
     (let r = tb_root t;
          children = n_children r;
          t1 = t\<lparr>tb_root := Node (n_state r) (n_mark r) []\<rparr>;
          (opened, t2) = asks (mk_open k path_root) t1
      in case opened of
           Inr dir \<Rightarrow>
             (let (kept, t3) = recheck_below k children dir [] t2
              in t3\<lparr>tb_root := Node (n_state (tb_root t3)) (n_mark (tb_root t3)) kept\<rparr>)
         | Inl _ \<Rightarrow> fold (\<lambda>(x, n). drop_tree k True n (Path [x])) children t2)"

definition die :: "('w, 's) table \<Rightarrow> ('w, 's) table" where
  "die t = t\<lparr>tb_root := Node (n_state (tb_root t)) (n_mark (tb_root t)) [], tb_by_wd := Map.empty, tb_watched := 0,
     tb_dead := True\<rparr>"

definition report :: "'w raw_event \<Rightarrow> ('w, 's) table \<Rightarrow> (path \<times> name) option \<times> ('w, 's) table" where
  "report e t =
     (case tb_by_wd t (re_wd e) of
        None \<Rightarrow> (None, t)
      | Some dir \<Rightarrow>
          (case re_name e of
             None \<Rightarrow>
               (None, if is_root dir \<and> intersects (re_mask e) (IN_MODIFY OR IN_ATTRIB)
                      then t\<lparr>tb_out := tb_out t @ [EventData dir]\<rparr> else t)
           | Some bs \<Rightarrow>
               (case name_new bs of
                  Inl _ \<Rightarrow> (None, t)
                | Inr x \<Rightarrow> (Some (dir, x), t\<lparr>tb_out := tb_out t @ items_for dir (re_mask e) x\<rparr>))))"

type_synonym 'w moving = "(u32 \<times> path \<times> 'w node) list"

text \<open>Dropping every directory still on the move.\<close>

definition drop_moving :: "('w, 'd, 's) marks \<Rightarrow> 'w moving \<Rightarrow> ('w, 's) table \<Rightarrow> ('w, 's) table" where
  "drop_moving k = fold (\<lambda>(cookie, p, n). drop_tree k True n p)"

text \<open>What \<open>apply\<close> does about a directory event it has reported, at the entry's path.\<close>

definition dir_event :: "('w, 'd, 's) marks \<Rightarrow> 'w raw_event \<Rightarrow> path \<Rightarrow> 'w moving \<Rightarrow> ('w, 's) table \<Rightarrow>
    'w moving \<times> ('w, 's) table" where
  "dir_event k e p moving t =
     (if contains (re_mask e) IN_MOVED_FROM
      then (let (there, t1) = still_there k p t
            in if there then (moving, t1)
               else (case detach p t1 of
                       (Some n, t2) \<Rightarrow> (AList.update (re_cookie e) (p, n) moving, t2)
                     | (None, t2) \<Rightarrow> (moving, t2)))
      else if contains (re_mask e) IN_MOVED_TO
      then (let arrived = map_of moving (re_cookie e);
                moving1 = AList.delete (re_cookie e) moving;
                (there, t1) = still_there k p t
            in if there
               then (moving1, case arrived of Some (src, n) \<Rightarrow> drop_tree k True n src t1 | None \<Rightarrow> t1)
               else (let t2 = (case detach p t1 of
                                 (Some old, t') \<Rightarrow> drop_tree k True old p t'
                               | (None, t') \<Rightarrow> t')
                     in (moving1,
                         case arrived of
                           Some (src, n) \<Rightarrow> (let (n', t3) = rekey k n p t2 in put k p n' t3)
                         | None \<Rightarrow> t2)))
      else if contains (re_mask e) IN_DELETE
      then (let (there, t1) = still_there k p t
            in if there then (moving, t1)
               else (case detach p t1 of
                       (Some n, t2) \<Rightarrow> (moving, drop_tree k True n p t2)
                     | (None, t2) \<Rightarrow> (moving, t2)))
      else (moving, t))"

definition apply_event :: "('w, 'd, 's) marks \<Rightarrow> 'w raw_event \<Rightarrow> 'w moving \<Rightarrow> ('w, 's) table \<Rightarrow> 'w moving \<times> ('w, 's) table" where
  "apply_event k e moving t =
     (if contains (re_mask e) IN_Q_OVERFLOW
      then (let t1 = drop_moving k moving t in ([], recheck k (t1\<lparr>tb_out := tb_out t1 @ [Overflow]\<rparr>)))
      else case tb_by_wd t (re_wd e) of
        None \<Rightarrow> (moving, t)
      | Some dir \<Rightarrow>
          if intersects (re_mask e) (IN_IGNORED OR IN_UNMOUNT OR IN_DELETE_SELF)
          then (moving,
                if is_root dir then (let t1 = die t in t1\<lparr>tb_out := tb_out t1 @ [Overflow]\<rparr>)
                else if contains (re_mask e) IN_IGNORED
                then (case detach dir t of (Some n, t1) \<Rightarrow> drop_tree k False n dir t1 | (None, t1) \<Rightarrow> t1)
                else t)
          else if contains (re_mask e) IN_MOVE_SELF then (moving, t)
          else (case report e t of
                  (None, t1) \<Rightarrow> (moving, t1)
                | (Some (dir, x), t1) \<Rightarrow>
                    if \<not> contains (re_mask e) IN_ISDIR then (moving, t1)
                    else (case join dir x of
                            Inl _ \<Rightarrow> (moving, t1)
                          | Inr p \<Rightarrow> dir_event k e p moving t1)))"

fun apply_events :: "('w, 'd, 's) marks \<Rightarrow> 'w raw_event list \<Rightarrow> 'w moving \<Rightarrow> ('w, 's) table \<Rightarrow> ('w, 's) table" where
  "apply_events k [] moving t = drop_moving k moving t"
| "apply_events k (e # es) moving t =
     (if tb_dead t then drop_moving k moving t
      else (let (moving1, t1) = apply_event k e moving t in apply_events k es moving1 t1))"

subsection \<open>The budget\<close>

text \<open>\<open>budget_from\<close>, of what was read and parsed of the system's limit, if it was.\<close>

definition budget_from :: "nat option \<Rightarrow> nat" where
  "budget_from limit =
     (case limit of Some l \<Rightarrow> max 1 (min (l div 2) BUDGET_MAX) | None \<Rightarrow> BUDGET_FALLBACK)"

end
