(* ===== verification/WatchInv.thy ===== *)
theory WatchInv
  imports WatchTable "HOL-Library.Multiset"
begin

text \<open>
  What the table of watched directories keeps, whatever the system answers: the descriptors lead back
  exactly to the watched directories of the tree, and \<open>watched\<close> counts them.  The tree is read through
  \<open>info_at\<close>, the state and mark at a path; counts and descriptors through \<open>wdm\<close>, the multiset of a
  tree's descriptors.
\<close>

subsection \<open>Reading a tree\<close>

definition info_at :: "'w node \<Rightarrow> name list \<Rightarrow> ('w watch_state \<times> nat) option" where
  "info_at n ns = map_option (\<lambda>c. (n_state c, n_mark c)) (node_at n ns)"

definition watched_at :: "'w node \<Rightarrow> name list \<Rightarrow> 'w option" where
  "watched_at n ns = (case node_at n ns of
       Some c \<Rightarrow> (case n_state c of Watched w \<Rightarrow> Some w | Unwatchable _ \<Rightarrow> None)
     | None \<Rightarrow> None)"

fun tree_ok :: "'w node \<Rightarrow> bool" and trees_ok :: "(name \<times> 'w node) list \<Rightarrow> bool" where
  "tree_ok (Node st m cs) \<longleftrightarrow> distinct (map fst cs) \<and> trees_ok cs"
| "trees_ok [] \<longleftrightarrow> True"
| "trees_ok ((x, c) # cs) \<longleftrightarrow> tree_ok c \<and> trees_ok cs"

fun wd_of_state :: "'w watch_state \<Rightarrow> 'w multiset" where
  "wd_of_state (Watched w) = {#w#}"
| "wd_of_state (Unwatchable _) = {#}"

fun wdm :: "'w node \<Rightarrow> 'w multiset" and wdms :: "(name \<times> 'w node) list \<Rightarrow> 'w multiset" where
  "wdm (Node st m cs) = wd_of_state st + wdms cs"
| "wdms [] = {#}"
| "wdms ((x, c) # cs) = wdm c + wdms cs"

lemma wdm_eq: "wdm n = wd_of_state (n_state n) + wdms (n_children n)"
  by (cases n) simp

lemma tree_ok_eq: "tree_ok n \<longleftrightarrow> distinct (map fst (n_children n)) \<and> trees_ok (n_children n)"
  by (cases n) simp

lemma watched_at_Nil: "watched_at n [] = Some w \<longleftrightarrow> n_state n = Watched w"
  by (simp add: watched_at_def split: watch_state.split)

lemma watched_at_Cons:
  "watched_at n (x # xs) = (case map_of (n_children n) x of None \<Rightarrow> None | Some c \<Rightarrow> watched_at c xs)"
  by (simp add: watched_at_def split: option.split)

lemma watched_at_info: "watched_at n ns = Some w \<longleftrightarrow> (\<exists>m. info_at n ns = Some (Watched w, m))"
  by (auto simp: watched_at_def info_at_def split: option.splits watch_state.splits)

lemma watched_at_cong: "info_at n xs = info_at n' xs \<Longrightarrow> watched_at n xs = watched_at n' xs"
  by (cases "node_at n xs"; cases "node_at n' xs") (simp_all add: watched_at_def info_at_def)

lemma trees_ok_iff: "trees_ok cs \<longleftrightarrow> (\<forall>(x, c) \<in> set cs. tree_ok c)"
  by (induction cs) auto

lemma wdms_iff: "w \<in># wdms cs \<longleftrightarrow> (\<exists>(x, c) \<in> set cs. w \<in># wdm c)"
  by (induction cs) auto

subsection \<open>Changing one\<close>

lemma wdms_delete:
  "distinct (map fst cs) \<Longrightarrow> map_of cs x = Some c \<Longrightarrow> wdms cs = wdm c + wdms (AList.delete x cs)"
proof (induction cs)
  case (Cons y cs)
  then show ?case
  proof (cases y)
    case (Pair z d)
    show ?thesis
    proof (cases "z = x")
      case True
      with Cons.prems Pair have "x \<notin> fst ` set cs" by auto
      then have "AList.delete x cs = cs" by (simp add: delete_id)
      with True Cons.prems Pair show ?thesis by simp
    next
      case False
      with Cons Pair show ?thesis by simp
    qed
  qed
qed simp

lemma wdms_delete_absent: "map_of cs x = None \<Longrightarrow> AList.delete x cs = cs"
  by (simp add: map_of_eq_None_iff delete_id)

lemma wdms_update:
  "distinct (map fst cs) \<Longrightarrow>
     wdms (AList.update x n cs) + (case map_of cs x of Some c \<Rightarrow> wdm c | None \<Rightarrow> {#}) = wdms cs + wdm n"
proof (induction cs)
  case (Cons y cs)
  obtain z d where y: "y = (z, d)" by (cases y)
  show ?case
  proof (cases "z = x")
    case False
    with Cons y show ?thesis by (simp add: add.assoc)
  qed (simp add: y)
qed simp

lemma trees_ok_update: "trees_ok cs \<Longrightarrow> tree_ok n \<Longrightarrow> trees_ok (AList.update x n cs)"
  by (induction cs) auto

lemma trees_ok_delete: "trees_ok cs \<Longrightarrow> trees_ok (AList.delete x cs)"
  by (auto simp: trees_ok_iff AList.delete_eq)

lemma map_of_tree_ok: "trees_ok cs \<Longrightarrow> map_of cs x = Some c \<Longrightarrow> tree_ok c"
  by (auto simp: trees_ok_iff dest!: map_of_SomeD)

lemma child_ok:
  assumes "tree_ok n" "map_of (n_children n) x = Some d"
  shows "tree_ok d" "distinct (map fst (n_children n))"
proof -
  have "trees_ok (n_children n)" using assms(1) by (simp add: tree_ok_eq)
  from map_of_tree_ok [OF this assms(2)] show "tree_ok d" .
  show "distinct (map fst (n_children n))" using assms(1) by (simp add: tree_ok_eq)
qed

lemma node_at_tree_ok: "tree_ok n \<Longrightarrow> node_at n ns = Some c \<Longrightarrow> tree_ok c"
proof (induction n ns rule: node_at.induct)
  case (2 n x xs)
  then obtain d where d: "map_of (n_children n) x = Some d" "node_at d xs = Some c" by (auto split: option.splits)
  from 2(1) [OF d(1) child_ok(1) [OF 2(2) d(1)] d(2)] show ?case .
qed simp

lemma node_mut_state: "n_state (f n) = n_state n \<Longrightarrow> n_state (node_mut f ns n) = n_state n"
  "ns \<noteq> [] \<Longrightarrow> n_state (node_mut f ns n) = n_state n" "ns \<noteq> [] \<Longrightarrow> n_mark (node_mut f ns n) = n_mark n"
  by (cases ns; simp split: option.split)+

lemma mset_exchange:
  fixes a b c d e f :: "'a multiset"
  assumes "a + d = b + e" "e + c = d + f"
  shows "a + c = b + f"
proof -
  have "a + c + d = (a + d) + c" by (simp add: ac_simps)
  also have "\<dots> = b + (e + c)" unfolding assms(1) by (simp add: ac_simps)
  also have "\<dots> = b + f + d" unfolding assms(2) by (simp add: ac_simps)
  finally show ?thesis by simp
qed

lemma node_mut_wdm:
  assumes "tree_ok n" "node_at n ns = Some c"
  shows "wdm (node_mut f ns n) + wdm c = wdm n + wdm (f c)"
  using assms
proof (induction f ns n rule: node_mut.induct)
  case (2 f x xs n)
  then obtain d where d: "map_of (n_children n) x = Some d" "node_at d xs = Some c" by (auto split: option.splits)
  note ok = child_ok [OF "2.prems"(1) d(1)]
  have "wdms (AList.update x (node_mut f xs d) (n_children n)) + wdm d = wdms (n_children n) + wdm (node_mut f xs d)"
    using wdms_update [OF ok(2), of x "node_mut f xs d"] d(1) by simp
  moreover have "wdm (node_mut f xs d) + wdm c = wdm d + wdm (f c)"
    using "2.IH" [OF d(1) ok(1) d(2)] .
  ultimately have "wdms (AList.update x (node_mut f xs d) (n_children n)) + wdm c = wdms (n_children n) + wdm (f c)"
    by (rule mset_exchange)
  then show ?case using d(1) by (simp add: wdm_eq [of n] add.assoc)
qed simp

lemma node_mut_tree_ok:
  "tree_ok n \<Longrightarrow> (\<And>c. node_at n ns = Some c \<Longrightarrow> tree_ok (f c)) \<Longrightarrow> tree_ok (node_mut f ns n)"
proof (induction f ns n rule: node_mut.induct)
  case (2 f x xs n)
  show ?case
  proof (cases "map_of (n_children n) x")
    case (Some d)
    then have "tree_ok (node_mut f xs d)"
      using "2.IH" [OF Some child_ok(1) [OF "2.prems"(1) Some]] "2.prems"(2) Some by simp
    then show ?thesis
      using "2.prems"(1) Some by (simp add: tree_ok_eq [of n] trees_ok_update distinct_update)
  qed (use "2.prems" in simp)
qed simp

lemma node_at_mut:
  assumes "node_at n ns = Some c"
  shows "info_at (node_mut f ns n) xs =
    (if prefix ns xs then info_at (f c) (drop (length ns) xs) else info_at n xs)"
  using assms
proof (induction f ns n arbitrary: xs rule: node_mut.induct)
  case (2 f x ys n)
  then obtain d where d: "map_of (n_children n) x = Some d" "node_at d ys = Some c" by (auto split: option.splits)
  show ?case
  proof (cases xs)
    case Nil
    then show ?thesis using d(1) by (simp add: info_at_def)
  next
    case (Cons z zs)
    have IH: "info_at (node_mut f ys d) zs = (if prefix ys zs then info_at (f c) (drop (length ys) zs) else info_at d zs)"
      using "2.IH" [OF d] .
    show ?thesis
    proof (cases "z = x")
      case True
      then show ?thesis using IH d(1) Cons by (simp add: info_at_def update_conv')
    next
      case False
      then show ?thesis using d(1) Cons by (simp add: info_at_def update_conv')
    qed
  qed
qed simp

lemma node_at_append: "node_at n (xs @ ys) = (case node_at n xs of None \<Rightarrow> None | Some c \<Rightarrow> node_at c ys)"
  by (induction n xs rule: node_at.induct) (auto split: option.split)

lemma info_at_append: "info_at n (xs @ ys) = (case node_at n xs of None \<Rightarrow> None | Some c \<Rightarrow> info_at c ys)"
  by (simp add: info_at_def node_at_append split: option.split)

lemma watched_at_wdm: "watched_at n ns = Some w \<Longrightarrow> w \<in># wdm n"
proof (induction n ns rule: node_at.induct)
  case (1 n)
  then show ?case by (simp add: watched_at_Nil wdm_eq [of n])
next
  case (2 n x xs)
  then obtain c where "map_of (n_children n) x = Some c" "w \<in># wdm c"
    by (auto simp: watched_at_Cons split: option.splits)
  then show ?case by (auto simp: wdm_eq [of n] wdms_iff dest!: map_of_SomeD)
qed

lemma wdm_watched_at: "tree_ok n \<Longrightarrow> w \<in># wdm n \<Longrightarrow> \<exists>ns. watched_at n ns = Some w"
  and wdms_watched_at: "trees_ok cs \<Longrightarrow> w \<in># wdms cs \<Longrightarrow> \<exists>(x, c) \<in> set cs. \<exists>ns. watched_at c ns = Some w"
proof (induction n and cs rule: wdm_wdms.induct)
  case (1 st m cs)
  show ?case
  proof (cases "w \<in># wd_of_state st")
    case True
    then show ?thesis by (intro exI [of _ "[]"]) (cases st; simp add: watched_at_Nil)
  next
    case False
    with 1 obtain x c ns where "(x, c) \<in> set cs" "watched_at c ns = Some w" by auto
    moreover from this 1 have "map_of cs x = Some c" by simp
    ultimately show ?thesis by (intro exI [of _ "x # ns"]) (simp add: watched_at_Cons)
  qed
qed auto

subsection \<open>The invariant\<close>

definition anchored :: "name list \<Rightarrow> 'w node \<Rightarrow> ('w \<rightharpoonup> path) \<Rightarrow> bool" where
  "anchored p n by_wd \<longleftrightarrow> (\<forall>ns w. watched_at n ns = Some w \<longrightarrow> by_wd w = Some (Path (p @ ns)))"

definition tracked :: "'w multiset \<Rightarrow> ('w, 's) table \<Rightarrow> bool" where
  "tracked M t \<longleftrightarrow> finite (dom (tb_by_wd t)) \<and> M = mset_set (dom (tb_by_wd t)) \<and>
     tb_watched t = int (card (dom (tb_by_wd t))) - 1 \<and>
     (\<forall>w p. tb_by_wd t w = Some p \<longrightarrow> byte_len p \<le> PATH_MAX)"

text \<open>\<open>F\<close> has the descriptors of the directories on the move, which the tree is without.\<close>

definition watch_ok :: "'w multiset \<Rightarrow> ('w, 's) table \<Rightarrow> bool" where
  "watch_ok F t \<longleftrightarrow> tracked (wdm (tb_root t) + F) t \<and> anchored [] (tb_root t) (tb_by_wd t) \<and> tree_ok (tb_root t) \<and>
     is_watched (tb_root t)"

text \<open>What no dropping changes: the tree and the marks, the budget and the rounds.\<close>

definition same_tree :: "('w, 's) table \<Rightarrow> ('w, 's) table \<Rightarrow> bool" where
  "same_tree t t' \<longleftrightarrow> tb_root t' = tb_root t \<and> tb_used t' = tb_used t \<and> tb_holds t' = tb_holds t \<and>
     tb_fresh t' = tb_fresh t \<and> tb_round t' = tb_round t \<and> tb_budget t' = tb_budget t \<and>
     tb_capped t' = tb_capped t \<and> tb_dead t' = tb_dead t"

lemma same_tree_refl [simp]: "same_tree t t"
  by (simp add: same_tree_def)

lemma same_tree_trans: "same_tree t t1 \<Longrightarrow> same_tree t1 t2 \<Longrightarrow> same_tree t t2"
  by (simp add: same_tree_def)

lemma mset_set_minus:
  assumes "finite A" "M + N = mset_set A"
  shows "M = mset_set (A - set_mset N)"
proof (rule multiset_eqI)
  fix x
  have "count M x + count N x = (if x \<in> A then 1 else 0)"
    using assms by (metis count_union count_mset_set' )
  then have "count M x = (if x \<in> A \<and> count N x = 0 then 1 else 0)"
    by (cases "x \<in> A"; cases "count N x") (simp_all del: count_eq_zero_iff)
  then show "count M x = count (mset_set (A - set_mset N)) x"
    using assms(1) by (simp add: count_mset_set' count_eq_zero_iff)
qed

lemma tracked_drop:
  assumes "tracked (M + N) t" "tb_by_wd t' = (tb_by_wd t) |` (- set_mset N)" "tb_watched t' = tb_watched t - int (size N)"
  shows "tracked M t'"
proof -
  have dom: "dom (tb_by_wd t') = dom (tb_by_wd t) - set_mset N" using assms(2) by auto
  have "M = mset_set (dom (tb_by_wd t) - set_mset N)"
    using assms(1) mset_set_minus [of "dom (tb_by_wd t)" M N] by (simp add: tracked_def)
  moreover have "size (M + N) = card (dom (tb_by_wd t))" using assms(1) by (simp only: tracked_def size_mset_set)
  ultimately show ?thesis
    using assms dom by (auto simp: tracked_def restrict_map_def split: if_splits)
qed

subsection \<open>Dropping\<close>

lemma drop_watch_effect:
  "tb_by_wd (drop_watch k a st p t) = (tb_by_wd t) |` (- set_mset (wd_of_state st))"
  "tb_watched (drop_watch k a st p t) = tb_watched t - int (size (wd_of_state st))"
  "same_tree t (drop_watch k a st p t)"
  by (cases st; auto simp: drop_watch_def Let_def same_tree_def restrict_map_def fun_eq_iff)+

lemma drop_tree_effect:
  "tb_by_wd (drop_tree k a n p t) = (tb_by_wd t) |` (- set_mset (wdm n)) \<and>
   tb_watched (drop_tree k a n p t) = tb_watched t - int (size (wdm n)) \<and> same_tree t (drop_tree k a n p t)"
  and drop_children_effect:
  "tb_by_wd (drop_children k a cs p t) = (tb_by_wd t) |` (- set_mset (wdms cs)) \<and>
   tb_watched (drop_children k a cs p t) = tb_watched t - int (size (wdms cs)) \<and> same_tree t (drop_children k a cs p t)"
proof (induction k a n p t and k a cs p t rule: drop_tree_drop_children.induct)
  case (1 k a st m cs p t)
  then show ?case
    using drop_watch_effect [where k = k and a = a and st = st and p = p and t = "drop_children k a cs p t"] same_tree_trans [of t "drop_children k a cs p t"]
    by (auto simp: ac_simps intro!: arg_cong2 [of _ _ _ _ restrict_map])
next
  case (3 k a x c cs p t)
  then show ?case
    using same_tree_trans [of t "drop_tree k a c (case join p x of Inr q \<Rightarrow> q | Inl _ \<Rightarrow> p) t"]
    by (auto simp: ac_simps intro!: arg_cong2 [of _ _ _ _ restrict_map])
qed (auto simp: restrict_map_def)

lemma drop_tree_tracked: "tracked (M + wdm n) t \<Longrightarrow> tracked M (drop_tree k a n p t)"
  using tracked_drop [of M "wdm n" t "drop_tree k a n p t"] drop_tree_effect [of k a n p t] by blast

lemma anchored_restrict:
  assumes "anchored p n by_wd" "\<And>w. w \<in># wdm n \<Longrightarrow> w \<notin> X"
  shows "anchored p n (by_wd |` (- X))"
  using assms watched_at_wdm by (fastforce simp: anchored_def restrict_map_def)

lemma tracked_disjoint: "tracked (M + N) t \<Longrightarrow> w \<in># M \<Longrightarrow> w \<notin># N"
proof
  assume t: "tracked (M + N) t" and w: "w \<in># M" "w \<in># N"
  then have "count (mset_set (dom (tb_by_wd t))) w \<ge> 2"
    by (metis add_mono_thms_linordered_semiring(1) count_greater_eq_one_iff count_union one_add_one tracked_def)
  then show False by (auto simp: count_mset_set' split: if_splits)
qed

lemma drop_tree_ok:
  assumes "watch_ok (F + wdm n) t"
  shows "watch_ok F (drop_tree k a n p t)" "tb_root (drop_tree k a n p t) = tb_root t"
proof -
  note eff = drop_tree_effect [of k a n p t]
  show root: "tb_root (drop_tree k a n p t) = tb_root t" using eff by (simp add: same_tree_def)
  have tr: "tracked ((wdm (tb_root t) + F) + wdm n) t" using assms by (simp add: watch_ok_def ac_simps)
  have "anchored [] (tb_root t) ((tb_by_wd t) |` (- set_mset (wdm n)))"
    using assms tracked_disjoint [OF tr] by (intro anchored_restrict) (auto simp: watch_ok_def)
  then show "watch_ok F (drop_tree k a n p t)"
    using assms drop_tree_tracked [OF tr] eff root by (simp add: watch_ok_def)
qed

lemma watch_ok_cong:
  "watch_ok F t \<Longrightarrow> tb_root t' = tb_root t \<Longrightarrow> tb_by_wd t' = tb_by_wd t \<Longrightarrow> tb_watched t' = tb_watched t \<Longrightarrow> watch_ok F t'"
  by (simp add: watch_ok_def tracked_def)

lemma watch_ok_updates [simp]:
  "watch_ok F (t\<lparr>tb_sys := s\<rparr>) = watch_ok F t" "watch_ok F (t\<lparr>tb_out := out\<rparr>) = watch_ok F t"
  "watch_ok F (t\<lparr>tb_round := r\<rparr>) = watch_ok F t" "watch_ok F (t\<lparr>tb_capped := c\<rparr>) = watch_ok F t"
  "watch_ok F (hold m t) = watch_ok F t" "watch_ok F (stamp m t) = watch_ok F t" "watch_ok F (armed_drop m t) = watch_ok F t"
  "watch_ok F (snd (new_node st t)) = watch_ok F t" "watch_ok F (limited now t) = watch_ok F t"
  by (simp_all add: watch_ok_def tracked_def hold_def stamp_def armed_drop_def new_node_def limited_def)

subsection \<open>Taking out and putting in\<close>

text \<open>The tree below a path, and the rest of it.\<close>

definition without :: "name list \<Rightarrow> 'w node \<Rightarrow> 'w node \<Rightarrow> bool" where
  "without ns n n' \<longleftrightarrow> (\<forall>xs. info_at n' xs = (if prefix ns xs then None else info_at n xs))"

lemma watched_at_without: "without ns n n' \<Longrightarrow> watched_at n' xs = Some w \<Longrightarrow> watched_at n xs = Some w"
  by (auto simp: watched_at_info without_def split: if_splits)

lemma info_at_Node:
  "info_at (Node st m cs) [] = Some (st, m)"
  "info_at (Node st m cs) (x # xs) = (case map_of cs x of None \<Rightarrow> None | Some c \<Rightarrow> info_at c xs)"
  by (simp_all add: info_at_def split: option.split)

lemma delete_child:
  assumes "tree_ok n"
  shows "wdm (Node (n_state n) (n_mark n) (AList.delete x (n_children n))) +
      (case map_of (n_children n) x of Some c \<Rightarrow> wdm c | None \<Rightarrow> {#}) = wdm n"
    "tree_ok (Node (n_state n) (n_mark n) (AList.delete x (n_children n)))"
    "without [x] n (Node (n_state n) (n_mark n) (AList.delete x (n_children n)))"
proof -
  have d: "distinct (map fst (n_children n))" "trees_ok (n_children n)" using assms by (simp_all add: tree_ok_eq)
  show "wdm (Node (n_state n) (n_mark n) (AList.delete x (n_children n))) +
      (case map_of (n_children n) x of Some c \<Rightarrow> wdm c | None \<Rightarrow> {#}) = wdm n"
  proof (cases "map_of (n_children n) x")
    case None
    then show ?thesis by (simp add: wdms_delete_absent wdm_eq [of n])
  next
    case (Some c)
    from wdms_delete [OF d(1) Some] Some show ?thesis by (simp only: wdm.simps wdm_eq [of n] option.case ac_simps)
  qed
  show "tree_ok (Node (n_state n) (n_mark n) (AList.delete x (n_children n)))"
    using d by (simp add: trees_ok_delete distinct_delete)
  have "info_at (Node (n_state n) (n_mark n) (AList.delete x (n_children n))) xs =
      (if prefix [x] xs then None else info_at n xs)" for xs
    by (cases n; cases xs) (simp_all add: info_at_Node delete_conv')
  then show "without [x] n (Node (n_state n) (n_mark n) (AList.delete x (n_children n)))"
    by (simp add: without_def)
qed

lemma detach_root: "is_root p \<Longrightarrow> detach p t = (None, t)"
  by (simp add: detach_def split_last_def is_root_def)

lemma detached_ok:
  assumes ok: "watch_ok F t" and detach: "detach p t = (r, t')"
  shows "watch_ok (F + (case r of Some n \<Rightarrow> wdm n | None \<Rightarrow> {#})) t'"
    "r = (if is_root p then None else node t p)"
    "\<not> is_root p \<Longrightarrow> without (names p) (tb_root t) (tb_root t')"
    "t' = t\<lparr>tb_root := tb_root t'\<rparr>"
proof -
  have root: "is_root p \<Longrightarrow> r = None \<and> t' = t" using detach detach_root [of p t] by simp
  have "\<not> is_root p \<Longrightarrow> r = node t p \<and> without (names p) (tb_root t) (tb_root t') \<and> t' = t\<lparr>tb_root := tb_root t'\<rparr> \<and>
      watch_ok (F + (case r of Some n \<Rightarrow> wdm n | None \<Rightarrow> {#})) t'"
  proof -
    assume "\<not> is_root p"
    then obtain parent x where sp: "split_last p = Some (parent, x)" using split_last_None [of p] by (cases "split_last p") auto
    then have p: "names p = names parent @ [x]" by (simp add: split_last_Some)
    have at: "node t p = (case node t parent of None \<Rightarrow> None | Some n \<Rightarrow> map_of (n_children n) x)"
      by (simp add: node_def p node_at_append split: option.split)
    show ?thesis
    proof (cases "node t parent")
      case None
      then have "info_at (tb_root t) xs = None" if "prefix (names p) xs" for xs
        using that by (auto simp: prefix_def p node_def info_at_append)
      with None detach sp at ok show ?thesis by (auto simp: detach_def without_def)
    next
      case (Some n)
      let ?f = "\<lambda>n. Node (n_state n) (n_mark n) (AList.delete x (n_children n))"
      have n: "node_at (tb_root t) (names parent) = Some n" using Some by (simp add: node_def)
      have tree: "tree_ok (tb_root t)" using ok by (simp add: watch_ok_def)
      note del = delete_child [OF node_at_tree_ok [OF tree n], of x]
      have r: "r = map_of (n_children n) x" and t': "t' = t\<lparr>tb_root := node_mut ?f (names parent) (tb_root t)\<rparr>"
        using detach sp Some by (auto simp: detach_def)
      have w: "without (names p) (tb_root t) (tb_root t')"
        unfolding without_def t'
      proof
        fix xs
        show "info_at (tb_root (t\<lparr>tb_root := node_mut ?f (names parent) (tb_root t)\<rparr>)) xs =
            (if prefix (names p) xs then None else info_at (tb_root t) xs)"
          using del(3) by (auto simp: node_at_mut [OF n] without_def p prefix_def info_at_append n)
      qed
      have "wdm (tb_root t') + wdm n = wdm (tb_root t) + wdm (?f n)"
        using node_mut_wdm [OF tree n, of ?f] by (simp add: t')
      moreover have "wdm (?f n) + (case r of Some c \<Rightarrow> wdm c | None \<Rightarrow> {#}) = wdm n + {#}" using del(1) r by simp
      ultimately have "wdm (tb_root t') + (case r of Some c \<Rightarrow> wdm c | None \<Rightarrow> {#}) = wdm (tb_root t) + {#}"
        by (rule mset_exchange)
      then have wr: "wdm (tb_root t') + (F + (case r of Some c \<Rightarrow> wdm c | None \<Rightarrow> {#})) = wdm (tb_root t) + F"
        by (simp add: ac_simps)
      have "tree_ok (node_mut ?f (names parent) (tb_root t))"
        by (rule node_mut_tree_ok [OF tree]) (use n del(2) in simp)
      then have "tree_ok (tb_root t')" by (simp add: t')
      moreover have "is_watched (tb_root t')" using ok by (simp add: t' is_watched_def node_mut_state(1) watch_ok_def)
      moreover have "anchored [] (tb_root t') (tb_by_wd t')"
        using ok watched_at_without [OF w] by (auto simp: watch_ok_def anchored_def t')
      moreover have "tracked (wdm (tb_root t') + (F + (case r of Some c \<Rightarrow> wdm c | None \<Rightarrow> {#}))) t'"
        unfolding wr using ok by (simp add: watch_ok_def tracked_def t')
      ultimately show ?thesis using w r at Some t' by (simp add: watch_ok_def)
    qed
  qed
  with root ok show "watch_ok (F + (case r of Some n \<Rightarrow> wdm n | None \<Rightarrow> {#})) t'"
    "r = (if is_root p then None else node t p)"
    "\<not> is_root p \<Longrightarrow> without (names p) (tb_root t) (tb_root t')"
    "t' = t\<lparr>tb_root := tb_root t'\<rparr>"
    by (cases "is_root p"; auto)+
qed

lemma watched_below: "node_at n p = Some c \<Longrightarrow> watched_at n (p @ ns) = watched_at c ns"
  by (simp add: watched_at_def node_at_append)

lemma detached:
  assumes ok: "watch_ok F t" and detach: "detach p t = (Some n, t')"
  shows "watch_ok (F + wdm n) t'" "tree_ok n" "anchored (names p) n (tb_by_wd t')" "\<not> is_root p"
    "without (names p) (tb_root t) (tb_root t')" "t' = t\<lparr>tb_root := tb_root t'\<rparr>"
proof -
  note d = detached_ok [OF ok detach]
  show "watch_ok (F + wdm n) t'" using d(1) by simp
  show root: "\<not> is_root p" using d(2) by (auto split: if_splits)
  then have n: "node_at (tb_root t) (names p) = Some n" using d(2) by (simp add: node_def)
  show "tree_ok n" using node_at_tree_ok [OF _ n] ok by (simp add: watch_ok_def)
  show t': "t' = t\<lparr>tb_root := tb_root t'\<rparr>" using d(4) .
  have "tb_by_wd t' = tb_by_wd t" by (subst t') simp
  then show "anchored (names p) n (tb_by_wd t')"
    using ok watched_below [OF n] by (simp add: watch_ok_def anchored_def)
  show "without (names p) (tb_root t) (tb_root t')" using d(3) [OF root] .
qed

lemma detach_drop_ok:
  assumes "watch_ok F t"
  shows "watch_ok F (case detach p t of (Some n, t1) \<Rightarrow> drop_tree k a n q t1 | (None, t1) \<Rightarrow> t1)"
proof (cases "detach p t")
  case (Pair r t1)
  show ?thesis
  proof (cases r)
    case None
    then show ?thesis using detached_ok(1) [OF assms Pair] Pair by simp
  next
    case (Some n)
    then show ?thesis using drop_tree_ok(1) [OF detached(1) [OF assms]] Pair by simp
  qed
qed

lemma update_child:
  fixes x :: name
  assumes "tree_ok s" "tree_ok n"
  defines "s' \<equiv> Node (n_state s) (n_mark s) (AList.update x n (n_children s))"
  shows "wdm s' + (case map_of (n_children s) x of Some c \<Rightarrow> wdm c | None \<Rightarrow> {#}) = wdm s + wdm n"
    "tree_ok s'" "info_at s' (y # ys) = (if y = x then info_at n ys else info_at s (y # ys))" "info_at s' [] = info_at s []"
proof -
  have d: "distinct (map fst (n_children s))" "trees_ok (n_children s)" using assms(1) by (simp_all add: tree_ok_eq)
  show "wdm s' + (case map_of (n_children s) x of Some c \<Rightarrow> wdm c | None \<Rightarrow> {#}) = wdm s + wdm n"
    using wdms_update [OF d(1), of x n] by (simp add: s'_def wdm_eq [of s] add.assoc)
  show "tree_ok s'" using d assms(2) by (simp add: s'_def trees_ok_update distinct_update)
  show "info_at s' (y # ys) = (if y = x then info_at n ys else info_at s (y # ys))" "info_at s' [] = info_at s []"
    by (cases s; simp add: s'_def info_at_Node update_conv')+
qed

text \<open>Putting a node in its place: what the tree is afterwards, the displaced node apart.\<close>

lemma grafted:
  fixes x :: name
  assumes ok: "watch_ok (F + wdm n) t" and n: "tree_ok n" "anchored (names p) n (tb_by_wd t)"
    and p: "names p = names parent @ [x]" and slot: "node t parent = Some slot"
  defines "t1 \<equiv> t\<lparr>tb_root := node_mut (\<lambda>s. Node (n_state s) (n_mark s) (AList.update x n (n_children s)))
                       (names parent) (tb_root t)\<rparr>"
  shows "watch_ok (F + (case map_of (n_children slot) x of Some c \<Rightarrow> wdm c | None \<Rightarrow> {#})) t1"
    "info_at (tb_root t1) xs =
      (if prefix (names p) xs then info_at n (drop (length (names p)) xs) else info_at (tb_root t) xs)"
proof -
  let ?f = "\<lambda>s. Node (n_state s) (n_mark s) (AList.update x n (n_children s))"
  let ?old = "case map_of (n_children slot) x of Some c \<Rightarrow> wdm c | None \<Rightarrow> {#}"
  have s: "node_at (tb_root t) (names parent) = Some slot" using slot by (simp add: node_def)
  have tree: "tree_ok (tb_root t)" using ok by (simp add: watch_ok_def)
  note upd = update_child [OF node_at_tree_ok [OF tree s] n(1), of x]
  show info: "info_at (tb_root t1) xs =
      (if prefix (names p) xs then info_at n (drop (length (names p)) xs) else info_at (tb_root t) xs)" for xs
  proof (cases "prefix (names parent) xs")
    case True
    then obtain ys where xs: "xs = names parent @ ys" by (auto simp: prefix_def)
    have "info_at (tb_root t1) xs = info_at (?f slot) ys" 
      using node_at_mut [OF s, of ?f xs] by (simp add: t1_def xs)
    moreover have "info_at (tb_root t) xs = info_at slot ys" by (simp add: xs info_at_append s)
    ultimately show ?thesis using upd(3,4) by (cases ys) (auto simp: xs p)
  next
    case False
    then have "\<not> prefix (names p) xs" by (auto simp: p prefix_def)
    with False show ?thesis by (simp add: t1_def node_at_mut [OF s])
  qed
  have "wdm (tb_root t1) + wdm slot = wdm (tb_root t) + wdm (?f slot)"
    using node_mut_wdm [OF tree s, of ?f] by (simp add: t1_def)
  moreover have "wdm (?f slot) + ?old = wdm slot + wdm n" using upd(1) .
  ultimately have "wdm (tb_root t1) + ?old = wdm (tb_root t) + wdm n" by (rule mset_exchange)
  then have wr: "wdm (tb_root t1) + (F + ?old) = wdm (tb_root t) + (F + wdm n)" by (simp add: ac_simps)
  have "tracked (wdm (tb_root t1) + (F + ?old)) t1"
    unfolding wr using ok by (simp add: watch_ok_def tracked_def t1_def)
  moreover have "tree_ok (node_mut ?f (names parent) (tb_root t))"
    by (rule node_mut_tree_ok [OF tree]) (use s upd(2) in simp)
  then have "tree_ok (tb_root t1)" by (simp add: t1_def)
  moreover have "is_watched (tb_root t1)" using ok by (simp add: t1_def is_watched_def node_mut_state(1) watch_ok_def)
  moreover have "tb_by_wd t w = Some (Path ns)" if "watched_at (tb_root t1) ns = Some w" for ns w
  proof (cases "prefix (names p) ns")
    case True
    then obtain ys where "ns = names p @ ys" by (auto simp: prefix_def)
    with that n(2) show ?thesis by (auto simp: watched_at_info info anchored_def)
  next
    case False
    with that ok show ?thesis by (auto simp: watched_at_info info anchored_def watch_ok_def)
  qed
  then have "anchored [] (tb_root t1) (tb_by_wd t1)" by (simp add: anchored_def t1_def)
  ultimately show "watch_ok (F + ?old) t1" by (simp add: watch_ok_def)
qed

lemma put_ok:
  assumes ok: "watch_ok (F + wdm n) t" and n: "tree_ok n" "anchored (names p) n (tb_by_wd t)" and p: "\<not> is_root p"
  shows "watch_ok F (put k p n t)"
proof -
  obtain parent x where sp: "split_last p = Some (parent, x)" using p split_last_None [of p] by (cases "split_last p") auto
  then have names: "names p = names parent @ [x]" by (simp add: split_last_Some)
  show ?thesis
  proof (cases "node t parent")
    case None
    then show ?thesis using drop_tree_ok(1) [OF ok] sp by (simp add: put_def)
  next
    case (Some slot)
    from grafted(1) [OF ok n names Some] Some sp show ?thesis
      by (auto simp: put_def drop_tree_ok(1) split: option.splits)
  qed
qed

subsection \<open>Moving\<close>

definition anchored_children :: "name list \<Rightarrow> (name \<times> 'w node) list \<Rightarrow> ('w \<rightharpoonup> path) \<Rightarrow> bool" where
  "anchored_children p cs by_wd \<longleftrightarrow> (\<forall>(x, c) \<in> set cs. anchored (p @ [x]) c by_wd)"

lemma anchored_Node:
  assumes "anchored_children p cs by_wd" "\<And>w. st = Watched w \<Longrightarrow> by_wd w = Some (Path p)"
  shows "anchored p (Node st m cs) by_wd"
  unfolding anchored_def
proof (intro allI impI)
  fix ns w
  assume w: "watched_at (Node st m cs) ns = Some w"
  show "by_wd w = Some (Path (p @ ns))"
  proof (cases ns)
    case Nil
    then show ?thesis using w assms(2) by (simp add: watched_at_Nil)
  next
    case (Cons x xs)
    with w obtain c where "map_of cs x = Some c" "watched_at c xs = Some w"
      by (auto simp: watched_at_Cons split: option.splits)
    then show ?thesis using assms(1) Cons by (auto simp: anchored_children_def anchored_def dest!: map_of_SomeD)
  qed
qed

lemma anchored_agree:
  assumes "anchored p n by_wd" "\<And>w. w \<in># wdm n \<Longrightarrow> by_wd' w = by_wd w"
  shows "anchored p n by_wd'"
  using assms watched_at_wdm by (fastforce simp: anchored_def)

lemma tracked_in: "tracked (M + N) t \<Longrightarrow> w \<in># N \<Longrightarrow> tb_by_wd t w \<noteq> None"
proof -
  assume t: "tracked (M + N) t" and "w \<in># N"
  then have "w \<in># mset_set (dom (tb_by_wd t))" by (metis tracked_def union_iff)
  moreover have "finite (dom (tb_by_wd t))" using t by (simp add: tracked_def)
  ultimately show ?thesis by auto
qed

lemma tracked_move:
  assumes "tracked M t" "w \<in># M" "byte_len p \<le> PATH_MAX"
  shows "tracked M (t\<lparr>tb_by_wd := (tb_by_wd t)(w \<mapsto> p)\<rparr>)"
proof -
  have "tb_by_wd t w \<noteq> None" using assms tracked_in [of "{#}" M t w] by simp
  then have "dom ((tb_by_wd t)(w \<mapsto> p)) = dom (tb_by_wd t)" by auto
  then show ?thesis using assms by (auto simp: tracked_def split: if_splits)
qed

text \<open>What recording a tree under another path leaves: all of it that fits, where it now is.\<close>

definition rekeyed :: "'w multiset \<Rightarrow> 'w multiset \<Rightarrow> ('w, 's) table \<Rightarrow> ('w, 's) table \<Rightarrow> bool" where
  "rekeyed M N t t' \<longleftrightarrow> tracked M t' \<and> same_tree t t' \<and> (\<forall>w. w \<notin># N \<longrightarrow> tb_by_wd t' w = tb_by_wd t w)"

lemma rekeyed_trans:
  "rekeyed M N t t1 \<Longrightarrow> rekeyed M' N' t1 t2 \<Longrightarrow> rekeyed M' (N + N') t t2"
  using same_tree_trans by (auto simp: rekeyed_def)

lemma rekeyed_drop: "tracked (M + wdm c) t \<Longrightarrow> rekeyed M (wdm c) t (drop_tree k a c p t)"
  using drop_tree_effect [of k a c p t] drop_tree_tracked [of M c t k a p] by (auto simp: rekeyed_def restrict_map_def)

lemma rekey_effect:
  "tracked (M + wdm n) t \<Longrightarrow> tree_ok n \<Longrightarrow> byte_len p \<le> PATH_MAX \<Longrightarrow> rekey k n p t = (n', t') \<Longrightarrow>
     rekeyed (M + wdm n') (wdm n) t t' \<and> tree_ok n' \<and> anchored (names p) n' (tb_by_wd t')"
  and rekey_children_effect:
  "tracked (M + wdms cs) t \<Longrightarrow> trees_ok cs \<Longrightarrow> distinct (map fst cs) \<Longrightarrow> byte_len p \<le> PATH_MAX \<Longrightarrow>
     rekey_children k cs p t = (cs', t') \<Longrightarrow>
     rekeyed (M + wdms cs') (wdms cs) t t' \<and> trees_ok cs' \<and> distinct (map fst cs') \<and>
     fst ` set cs' \<subseteq> fst ` set cs \<and> anchored_children (names p) cs' (tb_by_wd t')"
proof (induction k n p t and k cs p t arbitrary: M n' t' and M cs' t' rule: rekey_rekey_children.induct)
  case (1 k st m cs p t)
  let ?t1 = "case st of Watched wd \<Rightarrow> t\<lparr>tb_by_wd := (tb_by_wd t)(wd \<mapsto> p)\<rparr> | Unwatchable _ \<Rightarrow> t"
  obtain cs' where cs': "rekey_children k cs p ?t1 = (cs', t')" "n' = Node st m cs'"
    using "1.prems"(4) by (auto simp: Let_def split: prod.splits)
  have tr: "tracked ((M + wd_of_state st) + wdms cs) ?t1"
    using "1.prems"(1,3) tracked_move [of "M + wdm (Node st m cs)" t] by (cases st) (simp_all add: ac_simps)
  have IH: "rekeyed (M + wd_of_state st + wdms cs') (wdms cs) ?t1 t'" "trees_ok cs'" "distinct (map fst cs')"
    "anchored_children (names p) cs' (tb_by_wd t')"
    using "1.IH" [OF refl tr _ _ "1.prems"(3) cs'(1)] "1.prems"(2) by auto
  have "tb_by_wd t' w = Some p" if "st = Watched w" for w
    using that tracked_disjoint [OF tr, of w] IH(1) by (simp add: rekeyed_def)
  then have "anchored (names p) n' (tb_by_wd t')" unfolding cs'(2) using IH(4) by (intro anchored_Node) simp_all
  moreover have "rekeyed (M + wdm n') (wdm (Node st m cs)) t t'"
    using IH(1) by (cases st) (auto simp: rekeyed_def same_tree_def cs'(2) ac_simps)
  ultimately show ?case using IH(2,3) cs'(2) by simp
next
  case (2 k p t)
  then show ?case by (simp add: rekeyed_def anchored_children_def)
next
  case (3 k x c cs p t)
  show ?case
  proof (cases "join p x")
    case (Inl e)
    have "tracked ((M + wdms cs) + wdm c) t" using "3.prems"(1) by (simp add: ac_simps)
    note drop = rekeyed_drop [OF this, where k = k and a = True and p = p]
    then have "tracked (M + wdms cs) (drop_tree k True c p t)" by (simp add: rekeyed_def)
    from "3.IH"(1) [OF Inl this] "3.prems" Inl
    have "rekeyed (M + wdms cs') (wdms cs) (drop_tree k True c p t) t'" "trees_ok cs'" "distinct (map fst cs')"
      "fst ` set cs' \<subseteq> fst ` set cs" "anchored_children (names p) cs' (tb_by_wd t')"
      by auto
    then show ?thesis using rekeyed_trans [OF drop] by auto
  next
    case (Inr q)
    obtain c' t1 where c': "rekey k c q t = (c', t1)" by (cases "rekey k c q t")
    obtain cs1 where cs1: "rekey_children k cs p t1 = (cs1, t')" "cs' = (x, c') # cs1"
      using "3.prems"(5) Inr c' by (auto simp: Let_def split: prod.splits)
    have q: "names q = names p @ [x]" "byte_len q \<le> PATH_MAX" using Inr by (auto simp: join_Ok)
    have "tracked ((M + wdms cs) + wdm c) t" using "3.prems"(1) by (simp add: ac_simps)
    from "3.IH"(2) [OF Inr this _ q(2) c'] "3.prems"(2)
    have one: "rekeyed (M + wdms cs + wdm c') (wdm c) t t1" "tree_ok c'" "anchored (names q) c' (tb_by_wd t1)" by auto
    then have tr: "tracked ((M + wdm c') + wdms cs) t1" by (simp add: rekeyed_def ac_simps)
    from "3.IH"(3) [OF Inr refl c' [symmetric] this _ _ "3.prems"(4) cs1(1)] "3.prems"(2,3)
    have rest: "rekeyed (M + wdm c' + wdms cs1) (wdms cs) t1 t'" "trees_ok cs1" "distinct (map fst cs1)"
      "fst ` set cs1 \<subseteq> fst ` set cs" "anchored_children (names p) cs1 (tb_by_wd t')" by auto
    have "tb_by_wd t' w = tb_by_wd t1 w" if "w \<in># wdm c'" for w
      using rest(1) tracked_disjoint [OF tr, of w] that by (simp add: rekeyed_def)
    then have "anchored (names p @ [x]) c' (tb_by_wd t')" using anchored_agree [OF one(3)] q(1) by simp
    then show ?thesis
      using one(2) rest cs1(2) rekeyed_trans [OF one(1) rest(1)] "3.prems"(3)
      by (auto simp: anchored_children_def ac_simps)
  qed
qed

lemma rekey_ok:
  assumes ok: "watch_ok (F + wdm n) t" and n: "tree_ok n" and p: "byte_len p \<le> PATH_MAX" and re: "rekey k n p t = (n', t')"
  shows "watch_ok (F + wdm n') t'" "tree_ok n'" "anchored (names p) n' (tb_by_wd t')"
proof -
  have tr: "tracked ((wdm (tb_root t) + F) + wdm n) t" using ok by (simp add: watch_ok_def ac_simps)
  note eff = rekey_effect [OF tr n p re]
  have root: "tb_root t' = tb_root t" using eff by (simp add: rekeyed_def same_tree_def)
  have "anchored [] (tb_root t) (tb_by_wd t')"
  proof (rule anchored_agree [where by_wd = "tb_by_wd t"])
    show "anchored [] (tb_root t) (tb_by_wd t)" using ok by (simp add: watch_ok_def)
    fix w
    assume "w \<in># wdm (tb_root t)"
    then show "tb_by_wd t' w = tb_by_wd t w" using tracked_disjoint [OF tr, of w] eff by (simp add: rekeyed_def)
  qed
  then show "watch_ok (F + wdm n') t'" using ok eff root by (simp add: watch_ok_def rekeyed_def ac_simps)
  show "tree_ok n'" "anchored (names p) n' (tb_by_wd t')" using eff by blast+
qed

lemma reroot_ok:
  assumes ok: "watch_ok F t" and p: "\<not> is_root p" "byte_len p \<le> PATH_MAX"
  shows "watch_ok F (snd (reroot k src p t))"
proof (cases "detach src t")
  case (Pair r t1)
  show ?thesis
  proof (cases r)
    case None
    then show ?thesis using detached_ok(1) [OF ok Pair] Pair by (simp add: reroot_def)
  next
    case (Some n)
    note d = detached [OF ok Pair [unfolded Some]]
    obtain n' t2 where re: "rekey k n p t1 = (n', t2)" by (cases "rekey k n p t1")
    from put_ok [OF rekey_ok [OF d(1,2) p(2) re] p(1)] show ?thesis using Pair Some re by (simp add: reroot_def)
  qed
qed

subsection \<open>Making room\<close>

text \<open>Nothing is gone without a notice of where it was.\<close>

definition announces :: "('w, 's) table \<Rightarrow> ('w, 's) table \<Rightarrow> bool" where
  "announces t t' \<longleftrightarrow> set (tb_out t) \<subseteq> set (tb_out t') \<and>
     (\<forall>w p. tb_by_wd t w = Some p \<longrightarrow> tb_by_wd t' w = Some p \<or> tb_by_wd t' w = None \<and> Unwatched p \<in> set (tb_out t')) \<and>
     tb_by_wd t' \<subseteq>\<^sub>m tb_by_wd t"

lemma announces_refl [simp]: "announces t t"
  by (simp add: announces_def)

lemma announcesD:
  "announces t t' \<Longrightarrow> tb_by_wd t w = Some p \<Longrightarrow>
     tb_by_wd t' w = Some p \<or> tb_by_wd t' w = None \<and> Unwatched p \<in> set (tb_out t')"
  by (simp add: announces_def)

lemma announces_trans:
  assumes a: "announces t t1" and b: "announces t1 t2"
  shows "announces t t2"
proof -
  have le: "tb_by_wd t2 \<subseteq>\<^sub>m tb_by_wd t1" "set (tb_out t1) \<subseteq> set (tb_out t2)" using b by (simp_all add: announces_def)
  have "tb_by_wd t2 w = Some p \<or> tb_by_wd t2 w = None \<and> Unwatched p \<in> set (tb_out t2)" if "tb_by_wd t w = Some p" for w p
  proof (cases "tb_by_wd t1 w")
    case None
    then have "tb_by_wd t2 w = None" using le(1) by (metis domIff map_le_implies_dom_le subsetD)
    then show ?thesis using announcesD [OF a that] None le(2) by auto
  next
    case (Some q)
    then show ?thesis using announcesD [OF a that] announcesD [OF b Some] by auto
  qed
  then show ?thesis using a b le map_le_trans [OF le(1), of "tb_by_wd t"] by (auto simp: announces_def)
qed

lemma byte_len_append: "byte_len (Path ns) \<le> byte_len (Path (ns @ ms))"
proof (induction ms rule: rev_induct)
  case (snoc m ms)
  then show ?case using byte_len_snoc [of "ns @ ms" m] by simp
qed simp

lemma drop_watch_out:
  "set (tb_out t) \<subseteq> set (tb_out (drop_watch k a st p t))"
  "a \<Longrightarrow> st = Watched w \<Longrightarrow> Unwatched p \<in> set (tb_out (drop_watch k a st p t))"
  by (cases st; auto simp: drop_watch_def Let_def)+

lemma drop_tree_out:
  "set (tb_out t) \<subseteq> set (tb_out (drop_tree k a n p t)) \<and>
   (a \<longrightarrow> (\<forall>ns w. watched_at n ns = Some w \<longrightarrow> byte_len (Path (names p @ ns)) \<le> PATH_MAX \<longrightarrow>
      Unwatched (Path (names p @ ns)) \<in> set (tb_out (drop_tree k a n p t))))"
  and drop_children_out:
  "set (tb_out t) \<subseteq> set (tb_out (drop_children k a cs p t)) \<and>
   (a \<longrightarrow> (\<forall>x c ns w. (x, c) \<in> set cs \<longrightarrow> watched_at c ns = Some w \<longrightarrow> byte_len (Path (names p @ x # ns)) \<le> PATH_MAX \<longrightarrow>
      Unwatched (Path (names p @ x # ns)) \<in> set (tb_out (drop_children k a cs p t))))"
proof (induction k a n p t and k a cs p t rule: drop_tree_drop_children.induct)
  case (1 k a st m cs p t)
  let ?t = "drop_children k a cs p t"
  have grow: "set (tb_out ?t) \<subseteq> set (tb_out (drop_watch k a st p ?t))" by (rule drop_watch_out)
  have "Unwatched (Path (names p @ ns)) \<in> set (tb_out (drop_tree k a (Node st m cs) p t))"
    if a and w: "watched_at (Node st m cs) ns = Some w" and len: "byte_len (Path (names p @ ns)) \<le> PATH_MAX" for ns w
  proof (cases ns)
    case Nil
    then show ?thesis using w drop_watch_out(2) [OF \<open>a\<close>, of st w p k ?t] by (simp add: watched_at_Nil)
  next
    case (Cons x xs)
    with w obtain c where "(x, c) \<in> set cs" "watched_at c xs = Some w"
      by (auto simp: watched_at_Cons dest: map_of_SomeD split: option.splits)
    then show ?thesis using 1 \<open>a\<close> len Cons grow by auto
  qed
  then show ?case using 1 grow by auto
next
  case (3 k a x c cs p t)
  let ?q = "case join p x of Inr q \<Rightarrow> q | Inl _ \<Rightarrow> p"
  let ?t = "drop_tree k a c ?q t"
  have grow: "set (tb_out ?t) \<subseteq> set (tb_out (drop_children k a cs p ?t))" using 3(2) by blast
  have "Unwatched (Path (names p @ y # ns)) \<in> set (tb_out (drop_children k a cs p ?t))"
    if a and y: "(y, d) \<in> set ((x, c) # cs)" and w: "watched_at d ns = Some w"
      and len: "byte_len (Path (names p @ y # ns)) \<le> PATH_MAX" for y d ns w
  proof (cases "(y, d) \<in> set cs")
    case True
    then show ?thesis using 3(2) \<open>a\<close> w len by blast
  next
    case False
    then have yd: "y = x" "d = c" using y by auto
    have "byte_len (Path (names p @ [x])) \<le> PATH_MAX" using byte_len_append [of "names p @ [x]" ns] len yd by simp
    then have "join p x = Ok (Path (names p @ [x]))" by (simp add: join_Ok)
    then have "Unwatched (Path (names p @ x # ns)) \<in> set (tb_out ?t)" using 3(1) \<open>a\<close> w len yd by simp
    then show ?thesis using grow yd by blast
  qed
  then show ?case using 3 by (auto 4 3)
qed simp

lemma restrict_map_le: "m |` A \<subseteq>\<^sub>m m"
  by (auto simp: map_le_def restrict_map_def split: if_splits)

text \<open>Dropping a tree that is where the table says it is.\<close>

lemma drop_tree_announces:
  assumes t: "tracked (M + wdm n) t" and n: "tree_ok n" "anchored (names p) n (tb_by_wd t)"
  shows "announces t (drop_tree k True n p t)"
proof -
  note eff = drop_tree_effect [of k True n p t] and out = drop_tree_out [of t k True n p]
  have "Unwatched q \<in> set (tb_out (drop_tree k True n p t))" if w: "tb_by_wd t w = Some q" "w \<in># wdm n" for w q
  proof -
    obtain ns where ns: "watched_at n ns = Some w" using wdm_watched_at [OF n(1) w(2)] by blast
    then have "q = Path (names p @ ns)" using n(2) w(1) by (simp add: anchored_def)
    moreover have "byte_len q \<le> PATH_MAX" using t w(1) by (simp add: tracked_def)
    ultimately show ?thesis using out ns by simp
  qed
  then have "tb_by_wd (drop_tree k True n p t) w = Some q \<or>
      tb_by_wd (drop_tree k True n p t) w = None \<and> Unwatched q \<in> set (tb_out (drop_tree k True n p t))"
    if "tb_by_wd t w = Some q" for w q
    using that eff by (cases "w \<in># wdm n") (simp_all add: restrict_map_def)
  moreover have "tb_by_wd (drop_tree k True n p t) \<subseteq>\<^sub>m tb_by_wd t" using eff restrict_map_le by simp
  ultimately show ?thesis using out by (simp add: announces_def)
qed

lemma announces_cong:
  "tb_by_wd t' = tb_by_wd t \<Longrightarrow> tb_out t' = tb_out t \<Longrightarrow> announces t t'"
  by (simp add: announces_def)

text \<open>What dropping the directory at a path leaves.\<close>

definition thinned :: "'w multiset \<Rightarrow> name list \<Rightarrow> ('w, 's) table \<Rightarrow> ('w, 's) table \<Rightarrow> bool" where
  "thinned F ns t t' \<longleftrightarrow> watch_ok F t' \<and> announces t t' \<and> without ns (tb_root t) (tb_root t') \<and>
     tb_used t' = tb_used t \<and> tb_holds t' = tb_holds t \<and> tb_dead t' = tb_dead t"

lemma evict_one_effect:
  assumes ok: "watch_ok F t" and ns: "ns \<noteq> []"
  shows "thinned F ns t (evict_one k ns t)"
proof (cases "detach (Path ns) t")
  case (Pair r t1)
  note d = detached_ok [OF ok Pair]
  have root: "\<not> is_root (Path ns)" using ns by (simp add: is_root_def)
  have t1: "t1 = t\<lparr>tb_root := tb_root t1\<rparr>" using d(4) .
  have fields: "tb_by_wd t1 = tb_by_wd t" "tb_out t1 = tb_out t" "tb_used t1 = tb_used t" "tb_holds t1 = tb_holds t"
    "tb_dead t1 = tb_dead t"
    by (subst t1; simp)+
  show ?thesis
  proof (cases r)
    case None
    then show ?thesis
      using d(1) d(3) [OF root] fields Pair by (simp add: thinned_def evict_one_def announces_cong)
  next
    case (Some n)
    note n = detached [OF ok Pair [unfolded Some]]
    have "tracked ((wdm (tb_root t1) + F) + wdm n) t1" using n(1) by (simp add: watch_ok_def ac_simps)
    from drop_tree_announces [OF this n(2,3), where k = k] have "announces t (drop_tree k True n (Path ns) t1)"
      using announces_trans [OF announces_cong [of t1 t]] fields by simp
    then show ?thesis
      using drop_tree_ok [OF n(1), of k True "Path ns"] drop_tree_effect [of k True n "Path ns" t1] n(5) fields Pair Some
      by (simp add: thinned_def evict_one_def same_tree_def)
  qed
qed

lemma leaves_inD:
  "(u, v) \<in> set (leaves_in used holds keep cs ns) \<Longrightarrow> trees_ok cs \<Longrightarrow> distinct (map fst cs) \<Longrightarrow>
     \<exists>vs c. v = ns @ vs \<and> vs \<noteq> [] \<and> node_at (Node st m cs) vs = Some c \<and> holds (n_mark c) = 0 \<and> \<not> prefix v keep \<and>
       (\<forall>(y, d) \<in> set (n_children c). \<not> is_watched d)"
proof (induction used holds keep cs ns arbitrary: st m rule: leaves_in.induct)
  case (2 used holds keep x st' m' cs rest ns)
  show ?case
  proof (cases "(u, v) \<in> set (leaves_in used holds keep rest ns)")
    case True
    from "2.IH"(2) [OF True, of st m] "2.prems"(2,3) obtain vs c where
      vs: "v = ns @ vs" "vs \<noteq> []" "node_at (Node st m rest) vs = Some c" "holds (n_mark c) = 0" "\<not> prefix v keep"
      "\<forall>(y, d) \<in> set (n_children c). \<not> is_watched d" by auto
    obtain y ys where ys: "vs = y # ys" using vs(2) by (cases vs) auto
    then have "map_of rest y \<noteq> None" using vs(3) by (auto split: option.splits)
    then have "y \<noteq> x" using "2.prems"(3) by (auto simp: map_of_eq_None_iff)
    then have "node_at (Node st m ((x, Node st' m' cs) # rest)) vs = Some c" using vs(3) ys by simp
    then show ?thesis using vs by blast
  next
    case False
    then obtain w where st': "st' = Watched w" using "2.prems"(1) by (cases st') auto
    show ?thesis
    proof (cases "list_ex (\<lambda>(y, c). is_watched c) cs")
      case True
      with False "2.prems"(1) st' have "(u, v) \<in> set (leaves_in used holds keep cs (ns @ [x]))" by simp
      from "2.IH"(1) [OF st' True this, of st' m'] "2.prems"(2,3) obtain vs c where
        "v = (ns @ [x]) @ vs" "node_at (Node st' m' cs) vs = Some c" "holds (n_mark c) = 0" "\<not> prefix v keep"
        "\<forall>(y, d) \<in> set (n_children c). \<not> is_watched d" by auto
      then show ?thesis by (intro exI [of _ "x # vs"] exI [of _ c]) simp
    next
      case none: False
      with False "2.prems"(1) st' have "v = ns @ [x]" "holds m' = 0" "\<not> prefix v keep" by (auto split: if_splits)
      with none show ?thesis
        by (intro exI [of _ "[x]"] exI [of _ "Node st' m' cs"]) (auto simp: list_ex_iff)
    qed
  qed
qed simp

lemma leaves_ofD:
  assumes "watch_ok F t" "(u, v) \<in> set (leaves_of keep t)"
  obtains c where "v \<noteq> []" "node_at (tb_root t) v = Some c" "tb_holds t (n_mark c) = 0" "\<not> prefix v keep"
    "\<forall>(y, d) \<in> set (n_children c). \<not> is_watched d"
proof -
  have "trees_ok (n_children (tb_root t))" "distinct (map fst (n_children (tb_root t)))"
    using assms(1) by (simp_all add: watch_ok_def tree_ok_eq)
  from leaves_inD [OF assms(2) [unfolded leaves_of_def] this, of "n_state (tb_root t)" "n_mark (tb_root t)"] that
  show ?thesis by auto
qed

text \<open>The directories eviction leaves alone: those on the path being watched, and the held ones.\<close>

definition spared :: "name list \<Rightarrow> ('w, 's) table \<Rightarrow> name list \<Rightarrow> bool" where
  "spared keep t ns \<longleftrightarrow> prefix ns keep \<or>
     (\<exists>c. node_at (tb_root t) ns = Some c \<and> tb_holds t (n_mark c) > 0 \<and> (\<forall>xs. prefix xs ns \<longrightarrow> watched_at (tb_root t) xs \<noteq> None))"

lemma victim_not_spared:
  assumes ok: "watch_ok F t" and leaf: "(u, v) \<in> set (leaves_of keep t)" and "spared keep t ns"
  shows "\<not> prefix v ns"
proof
  assume v: "prefix v ns"
  obtain c where c: "node_at (tb_root t) v = Some c" "tb_holds t (n_mark c) = 0" "\<not> prefix v keep"
    "\<forall>(y, d) \<in> set (n_children c). \<not> is_watched d"
    using leaves_ofD [OF ok leaf] by blast
  have "\<not> prefix ns keep" using v c(3) prefix_order.trans by blast
  with assms(3) obtain d where d: "node_at (tb_root t) ns = Some d" "tb_holds t (n_mark d) > 0"
    and chain: "\<And>xs. prefix xs ns \<Longrightarrow> watched_at (tb_root t) xs \<noteq> None"
    by (auto simp: spared_def)
  obtain zs where zs: "ns = v @ zs" using v by (auto simp: prefix_def)
  show False
  proof (cases zs)
    case Nil
    then show ?thesis using c(1,2) d zs by simp
  next
    case (Cons y ys)
    have "watched_at c [y] \<noteq> None" using chain [of "v @ [y]"] watched_below [OF c(1), of "[y]"] zs Cons by simp
    then obtain e where "map_of (n_children c) y = Some e" "is_watched e"
      by (auto simp: watched_at_def is_watched_def split: option.splits watch_state.splits)
    then show ?thesis using c(4) by (auto dest!: map_of_SomeD)
  qed
qed

lemma evict_all_effect:
  assumes "watch_ok F t" "\<forall>v \<in> set vs. v \<noteq> []"
  shows "watch_ok F (fold (evict_one k) vs t) \<and> announces t (fold (evict_one k) vs t) \<and>
    tb_holds (fold (evict_one k) vs t) = tb_holds t \<and> tb_dead (fold (evict_one k) vs t) = tb_dead t \<and>
    (\<forall>xs. (\<forall>v \<in> set vs. \<not> prefix v xs) \<longrightarrow> info_at (tb_root (fold (evict_one k) vs t)) xs = info_at (tb_root t) xs)"
  using assms
proof (induction vs arbitrary: t)
  case (Cons v vs)
  have one: "thinned F v t (evict_one k v t)" using evict_one_effect [OF Cons.prems(1), of v k] Cons.prems(2) by simp
  then have "watch_ok F (evict_one k v t)" by (simp add: thinned_def)
  from Cons.IH [OF this] Cons.prems(2) one show ?case
    by (auto simp: thinned_def without_def intro: announces_trans)
qed simp

lemma spared_cong:
  assumes "spared keep t ns" "\<And>xs. prefix xs ns \<Longrightarrow> info_at (tb_root t') xs = info_at (tb_root t) xs" "tb_holds t' = tb_holds t"
  shows "spared keep t' ns"
proof (cases "prefix ns keep")
  case False
  with assms(1) obtain c where c: "node_at (tb_root t) ns = Some c" "tb_holds t (n_mark c) > 0"
    and chain: "\<And>xs. prefix xs ns \<Longrightarrow> watched_at (tb_root t) xs \<noteq> None"
    by (auto simp: spared_def)
  have "watched_at (tb_root t') xs = watched_at (tb_root t) xs" if "prefix xs ns" for xs
    using assms(2) [OF that] by (rule watched_at_cong)
  moreover obtain d where "node_at (tb_root t') ns = Some d" "n_mark d = n_mark c"
    using assms(2) [of ns] c(1) by (auto simp: info_at_def)
  ultimately show ?thesis using c chain assms(3) by (auto simp: spared_def)
qed (simp add: spared_def)

lemma evict_loop_effect:
  assumes "watch_ok F t"
  shows "watch_ok F (evict_loop k keep want dropped t) \<and> announces t (evict_loop k keep want dropped t) \<and>
    tb_holds (evict_loop k keep want dropped t) = tb_holds t \<and> tb_dead (evict_loop k keep want dropped t) = tb_dead t \<and>
    (\<forall>ns. spared keep t ns \<longrightarrow> info_at (tb_root (evict_loop k keep want dropped t)) ns = info_at (tb_root t) ns)"
  using assms
proof (induction k keep want dropped t rule: evict_loop.induct)
  case (1 k keep want dropped t)
  let ?leaves = "leaves_of keep t"
  let ?amount = "min (want - dropped) (length ?leaves)"
  let ?vs = "map snd (take ?amount (sort_key leaf_key ?leaves))"
  let ?t = "fold (evict_one k) ?vs t"
  show ?case
  proof (cases "dropped < want \<and> ?leaves \<noteq> []")
    case False
    then show ?thesis using 1(2) by (subst (1 2 3 4 5) evict_loop.simps) (auto simp: Let_def)
  next
    case True
    have eq: "evict_loop k keep want dropped t = evict_loop k keep want (dropped + ?amount) ?t"
      using True by (subst evict_loop.simps) (simp add: Let_def)
    have leaf: "\<exists>u. (u, v) \<in> set ?leaves" if "v \<in> set ?vs" for v
      using that by (auto dest!: in_set_takeD)
    then have "v \<noteq> []" if "v \<in> set ?vs" for v using leaves_ofD [OF 1(2)] that by metis
    then have all: "watch_ok F ?t" "announces t ?t" "tb_holds ?t = tb_holds t" "tb_dead ?t = tb_dead t"
      "\<And>xs. (\<forall>v \<in> set ?vs. \<not> prefix v xs) \<Longrightarrow> info_at (tb_root ?t) xs = info_at (tb_root t) xs"
      using evict_all_effect [OF 1(2), of ?vs k] by blast+
    have keeps: "info_at (tb_root ?t) xs = info_at (tb_root t) xs" if "spared keep t ns" "prefix xs ns" for ns xs
      using victim_not_spared [OF 1(2) _ that(1)] leaf that(2) prefix_order.trans by (intro all(5)) blast
    from 1(1) [OF _ refl _ refl refl all(1)] True
    have IH: "watch_ok F (evict_loop k keep want (dropped + ?amount) ?t)"
      "announces ?t (evict_loop k keep want (dropped + ?amount) ?t)"
      "tb_holds (evict_loop k keep want (dropped + ?amount) ?t) = tb_holds ?t"
      "tb_dead (evict_loop k keep want (dropped + ?amount) ?t) = tb_dead ?t"
      "\<And>ns. spared keep ?t ns \<Longrightarrow> info_at (tb_root (evict_loop k keep want (dropped + ?amount) ?t)) ns = info_at (tb_root ?t) ns"
      by blast+
    have "info_at (tb_root (evict_loop k keep want (dropped + ?amount) ?t)) ns = info_at (tb_root t) ns" if "spared keep t ns" for ns
      using IH(5) [OF spared_cong [OF that keeps [OF that] all(3)]] keeps [OF that] by simp
    then show ?thesis unfolding eq using IH(1,3,4) announces_trans [OF all(2) IH(2)] all(3,4) by simp
  qed
qed

end
