(* ===== verification/WatchSteps.thy ===== *)
theory WatchSteps
  imports WatchInv
begin

text \<open>
  The steps of the table of watched directories keep its invariant: watching a directory, with the room it
  makes for it, and applying a read's worth of events, with the directories that are on the move
  between the two halves of their renames.  The system is a parameter throughout.
\<close>

subsection \<open>Watching a directory\<close>

lemma budget_at_effect:
  "budget_at now t = (b, t1) \<Longrightarrow> t1 = t\<lparr>tb_capped := tb_capped t1\<rparr>"
  by (cases t) (auto simp: budget_at_def split: option.splits if_splits)

lemma evict_effect:
  assumes ok: "watch_ok F t"
  shows "watch_ok F (evict k keep now t)" "announces t (evict k keep now t)"
    "tb_holds (evict k keep now t) = tb_holds t" "tb_dead (evict k keep now t) = tb_dead t"
    "spared (names keep) t ns \<Longrightarrow> info_at (tb_root (evict k keep now t)) ns = info_at (tb_root t) ns"
proof -
  obtain b t1 where b: "budget_at now t = (b, t1)" by (cases "budget_at now t")
  then obtain c where t1: "t1 = t\<lparr>tb_capped := c\<rparr>" by (blast dest: budget_at_effect)
  let ?t2 = "t1\<lparr>tb_round := tb_round t1 + 1\<rparr>"
  obtain want where ev: "evict k keep now t = evict_loop k (names keep) want 0 ?t2"
    using b by (simp add: evict_def)
  have t2: "watch_ok F ?t2" "announces t ?t2" "tb_holds ?t2 = tb_holds t" "tb_dead ?t2 = tb_dead t" "tb_root ?t2 = tb_root t"
    using ok by (simp_all add: t1 announces_cong)
  note loop = evict_loop_effect [OF t2(1), of k "names keep" want 0]
  show "watch_ok F (evict k keep now t)" "tb_holds (evict k keep now t) = tb_holds t"
    "tb_dead (evict k keep now t) = tb_dead t"
    unfolding ev using loop t2(3,4) by simp_all
  show "announces t (evict k keep now t)" unfolding ev using loop announces_trans [OF t2(2)] by blast
  assume "spared (names keep) t ns"
  then have "spared (names keep) ?t2 ns" using t2(3,5) by (simp add: spared_def)
  then show "info_at (tb_root (evict k keep now t)) ns = info_at (tb_root t) ns"
    unfolding ev using loop t2(5) by simp
qed

lemma new_watch_ok:
  assumes ok: "watch_ok F t" and w: "tb_by_wd t w = None" and p: "byte_len p \<le> PATH_MAX"
  shows "watch_ok (F + {#w#}) (t\<lparr>tb_by_wd := (tb_by_wd t)(w \<mapsto> p), tb_watched := tb_watched t + 1\<rparr>)" (is "watch_ok _ ?t")
proof -
  have tr: "tracked (wdm (tb_root t) + F) t" using ok by (simp add: watch_ok_def)
  have new: "w \<notin># wdm (tb_root t)" using tracked_in [of F "wdm (tb_root t)" t w] tr w by (auto simp: ac_simps)
  have "tracked (wdm (tb_root t) + (F + {#w#})) ?t"
    using tr w p by (auto simp: tracked_def domIff split: if_splits)
  moreover have "anchored [] (tb_root t) ((tb_by_wd t)(w \<mapsto> p))"
  proof (rule anchored_agree [where by_wd = "tb_by_wd t"])
    show "anchored [] (tb_root t) (tb_by_wd t)" using ok by (simp add: watch_ok_def)
  qed (use new in auto)
  ultimately show ?thesis using ok by (simp add: watch_ok_def)
qed

lemma place_ok:
  assumes ok: "watch_ok F t" and p: "\<not> is_root p" "byte_len p \<le> PATH_MAX"
  shows "watch_ok F (snd (place k p wd now t))"
proof (cases "tb_by_wd t wd")
  case (Some old)
  then show ?thesis using ok reroot_ok [OF ok p, of k old] by (simp add: place_def)
next
  case None
  obtain b t1 where b: "budget_at now t = (b, t1)" by (cases "budget_at now t")
  then obtain c where t1: "t1 = t\<lparr>tb_capped := c\<rparr>" by (blast dest: budget_at_effect)
  define t2 where "t2 = (if tb_watched t1 \<ge> int b then evict k p now t1 else t1)"
  have ok1: "watch_ok F t1" using ok by (simp add: t1)
  have ok2: "watch_ok F t2" using evict_effect(1) [OF ok1, of k p now] ok1 by (simp add: t2_def)
  have "tb_by_wd t2 \<subseteq>\<^sub>m tb_by_wd t1" using evict_effect(2) [OF ok1, of k p now] by (simp add: t2_def announces_def)
  then have free: "tb_by_wd t2 wd = None" using None 
    using map_le_implies_dom_le [of "tb_by_wd t2" "tb_by_wd t1"] by (auto simp: t1 domIff)
  let ?t3 = "t2\<lparr>tb_by_wd := (tb_by_wd t2)(wd \<mapsto> p), tb_watched := tb_watched t2 + 1\<rparr>"
  obtain n t4 where n: "new_node (Watched wd) ?t3 = (n, t4)" by (cases "new_node (Watched wd) ?t3")
  have n': "n = Node (Watched wd) (tb_fresh t2) []" "tb_by_wd t4 = (tb_by_wd t2)(wd \<mapsto> p)"
    using n by (auto simp: new_node_def)
  have "watch_ok (F + wdm n) t4"
    using new_watch_ok [OF ok2 free p(2)] watch_ok_updates(8) [of "F + {#wd#}" "Watched wd" ?t3] n n'(1) by simp
  moreover have "anchored (names p) n (tb_by_wd t4)"
    unfolding n' by (rule anchored_Node) (simp_all add: anchored_children_def)
  ultimately have "watch_ok F (put k p n t4)" using p(1) n'(1) by (intro put_ok) simp_all
  then show ?thesis using None b n by (simp add: place_def t2_def)
qed

lemma asks_effect: "asks f t = (a, t1) \<Longrightarrow> \<exists>s. t1 = t\<lparr>tb_sys := s\<rparr>"
  by (auto simp: asks_def split: prod.splits)

lemma asks_ok: "watch_ok F t \<Longrightarrow> watch_ok F (snd (asks f t))"
  by (simp add: asks_def split_beta)

lemma install_ok:
  assumes ok: "watch_ok F t" and p: "\<not> is_root p" "byte_len p \<le> PATH_MAX"
  shows "watch_ok F (snd (install k p dir now t))"
proof -
  obtain a1 t1 where a1: "asks (mk_add k dir) t = (a1, t1)" by (cases "asks (mk_add k dir) t")
  then have ok1: "watch_ok F t1" using asks_ok [OF ok, of "mk_add k dir"] by simp
  obtain a2 t2 where a2: "(if a1 = Err ENOSPC \<and> tb_watched t1 > 0
      then asks (mk_add k dir) (evict k p now (limited now t1)) else (a1, t1)) = (a2, t2)" by fastforce
  have "watch_ok F (evict k p now (limited now t1))" using evict_effect(1) [of F "limited now t1" k p now] ok1 by simp
  then have ok2: "watch_ok F t2" using a2 ok1 asks_ok [of F _ "mk_add k dir"] by (auto split: if_splits simp: prod_eq_iff)
  obtain n t3 where n: "new_node (Unwatchable (now + UNWATCHABLE_RETRY)) t2 = (n, t3)"
    by (cases "new_node (Unwatchable (now + UNWATCHABLE_RETRY)) t2")
  have n': "n = Node (Unwatchable (now + UNWATCHABLE_RETRY)) (tb_fresh t2) []" using n by (simp add: new_node_def)
  have "anchored (names p) n (tb_by_wd t3)"
    unfolding n' by (rule anchored_Node) (simp_all add: anchored_children_def)
  moreover have "watch_ok F t3"
    using ok2 watch_ok_updates(8) [of F "Unwatchable (now + UNWATCHABLE_RETRY)" t2] n by simp
  ultimately have "watch_ok F (put k p n t3)"
    using p(1) by (intro put_ok) (simp_all add: n')
  then show ?thesis
    using a1 a2 n place_ok [OF ok2 p, of k _ now] by (auto simp: install_def Let_def split: sum.split)
qed

lemma verify_ok:
  assumes ok: "watch_ok F t" and p: "\<not> is_root p" "byte_len p \<le> PATH_MAX"
  shows "watch_ok F (snd (verify k p dir now t))"
proof -
  obtain a1 t1 where a1: "asks (mk_add k dir) t = (a1, t1)" by (cases "asks (mk_add k dir) t")
  then have ok1: "watch_ok F t1" using asks_ok [OF ok, of "mk_add k dir"] by simp
  let ?t2 = "case detach p t1 of (Some stale, t') \<Rightarrow> drop_tree k True stale p t' | (None, t') \<Rightarrow> t'"
  have "watch_ok F ?t2" using detach_drop_ok [OF ok1, where p = p and k = k and a = True and q = p] .
  from place_ok [OF this p, of k _ now] show ?thesis
    using ok ok1 a1 by (auto simp: verify_def Let_def split: option.split watch_state.split sum.split)
qed

lemma extend_from_ok:
  assumes "watch_ok F t" "byte_len (Path (ns @ xs)) \<le> PATH_MAX"
  shows "watch_ok F (extend_from k ns xs dir now t)"
  using assms
proof (induction k ns xs dir now t rule: extend_from.induct)
  case (2 k ns x xs dir now t)
  obtain o1 t1 where o1: "asks (mk_open_child k dir x) t = (o1, t1)" by (cases "asks (mk_open_child k dir x) t")
  then have ok1: "watch_ok F t1" using asks_ok [OF "2.prems"(1), of "mk_open_child k dir x"] by simp
  have p: "\<not> is_root (Path (ns @ [x]))" "byte_len (Path (ns @ [x])) \<le> PATH_MAX"
    using "2.prems"(2) byte_len_append [of "ns @ [x]" xs] by (simp_all add: is_root_def)
  show ?case
  proof (cases o1)
    case (Inl e)
    then show ?thesis using o1 ok1 by simp
  next
    case (Inr child)
    obtain i t2 where i: "install k (Path (ns @ [x])) child now t1 = (i, t2)"
      by (cases "install k (Path (ns @ [x])) child now t1")
    then have "watch_ok F t2" using install_ok [OF ok1 p, of k child now] by simp
    moreover from this have "watch_ok F (extend_from k (ns @ [x]) xs child now t2)" if i
      using "2.IH" [OF o1 [symmetric] refl Inr i [symmetric] refl that] "2.prems"(2) by simp
    ultimately show ?thesis using o1 Inr i by simp
  qed
qed simp

lemma extend_ok:
  assumes ok: "watch_ok F t" and len: "byte_len (Path ns) \<le> PATH_MAX" and depth: "depth \<le> length ns"
  shows "watch_ok F (extend_watch k ns depth now t)"
proof -
  let ?p = "Path (take depth ns)"
  obtain o1 t1 where o1: "asks (mk_open k ?p) t = (o1, t1)" by (cases "asks (mk_open k ?p) t")
  then have ok1: "watch_ok F t1" using asks_ok [OF ok, of "mk_open k ?p"] by simp
  show ?thesis
  proof (cases o1)
    case (Inl e)
    then show ?thesis using o1 ok1 by (simp add: extend_watch_def)
  next
    case (Inr dir)
    obtain v t2 where v: "(if depth > 0 then verify k ?p dir now t1 else (True, t1)) = (v, t2)" by fastforce
    have "byte_len ?p \<le> PATH_MAX" using len byte_len_append [of "take depth ns" "drop depth ns"] by simp
    then have "watch_ok F (snd (verify k ?p dir now t1))" if "depth > 0"
      using that depth verify_ok [OF ok1, of ?p k dir now] by (cases ns) (simp_all add: is_root_def)
    then have "watch_ok F t2" using v ok1 by (auto split: if_splits)
    then show ?thesis
      using o1 Inr v extend_from_ok [of F t2 "take depth ns" "drop depth ns" k dir now] len by (simp add: extend_watch_def)
  qed
qed

lemma watched_depth_le: "watched_depth n ns \<le> length ns"
  by (induction n ns rule: watched_depth.induct) (auto split: option.split)

lemma touch_from_effect:
  "touch_from now n ns t = (r, t1) \<Longrightarrow>
     \<exists>u h. t1 = t\<lparr>tb_used := u, tb_holds := h\<rparr> \<and> (r = TouchMissing \<longrightarrow> h = tb_holds t)"
proof (induction now n ns t rule: touch_from.induct)
  case (1 now n t)
  then show ?case by (cases t) (auto simp: hold_def)
next
  case (2 now n x xs t)
  have self: "\<exists>u h. t = t\<lparr>tb_used := u, tb_holds := h\<rparr> \<and> (TouchMissing = TouchMissing \<longrightarrow> h = tb_holds t)" by (cases t) auto
  show ?case
  proof (cases "map_of (n_children n) x")
    case None
    then show ?thesis using "2.prems" self by simp
  next
    case (Some c)
    show ?thesis
    proof (cases "n_state c")
      case (Watched w)
      from "2.IH" [OF Some Watched] "2.prems" Some Watched obtain u h
        where "t1 = (stamp (n_mark c) t)\<lparr>tb_used := u, tb_holds := h\<rparr>" "r = TouchMissing \<longrightarrow> h = tb_holds (stamp (n_mark c) t)"
        by auto
      then show ?thesis by (auto simp: stamp_def)
    next
      case (Unwatchable at)
      then show ?thesis using "2.prems" Some self by (cases t) (auto simp: hold_def split: if_splits)
    qed
  qed
qed

lemma touch_ok: "watch_ok F t \<Longrightarrow> watch_ok F (snd (touch dir now t))"
  using touch_from_effect [of now "tb_root t" "names dir" t]
  by (cases "touch_from now (tb_root t) (names dir) t") (auto simp: touch_def intro: watch_ok_cong)

lemma arm_ok:
  assumes ok: "watch_ok F t" and len: "byte_len dir \<le> PATH_MAX"
  shows "watch_ok F (snd (arm k dir now t))"
proof -
  obtain r t1 where r: "touch dir now t = (r, t1)" by (cases "touch dir now t")
  have "watch_ok F t1" using touch_ok [OF ok, of dir now] r by simp
  from extend_ok [OF this _ watched_depth_le, of "names dir" k _ now] show ?thesis
    using \<open>watch_ok F t1\<close> r len by (auto simp: arm_def Let_def split: touched.split)
qed

subsection \<open>Checking against the file system\<close>

text \<open>Looking changes nothing but the system.\<close>

definition looked :: "('w, 's) table \<Rightarrow> ('w, 's) table \<Rightarrow> bool" where
  "looked t t' \<longleftrightarrow> (\<exists>s. t' = t\<lparr>tb_sys := s\<rparr>)"

lemma looked_refl [simp]: "looked t t"
  unfolding looked_def by (intro exI [of _ "tb_sys t"]) simp

lemma looked_trans: "looked t t1 \<Longrightarrow> looked t1 t2 \<Longrightarrow> looked t t2"
  by (auto simp: looked_def)

lemma looked_sys [simp]: "looked t (t\<lparr>tb_sys := s\<rparr>)"
  by (auto simp: looked_def)

lemma looked_asks: "asks f t = (a, t1) \<Longrightarrow> looked t t1"
  using asks_effect by (auto simp: looked_def)

lemma looked_ok: "looked t t' \<Longrightarrow> watch_ok F t \<Longrightarrow> watch_ok F t'"
  by (auto simp: looked_def)

lemma looked_fields:
  "looked t t' \<Longrightarrow> tb_root t' = tb_root t \<and> tb_by_wd t' = tb_by_wd t \<and> tb_out t' = tb_out t \<and> tb_dead t' = tb_dead t \<and>
     tb_watched t' = tb_watched t \<and> same_tree t t'"
  by (auto simp: looked_def same_tree_def)

lemma looked_is_dir: "is_dir k dir wd t = (b, t1) \<Longrightarrow> looked t t1"
proof -
  assume d: "is_dir k dir wd t = (b, t1)"
  obtain a t2 where a: "asks (mk_add k dir) t = (a, t2)" by (cases "asks (mk_add k dir) t")
  have "looked t2 t1" using d a by (auto simp: is_dir_def Let_def split: sum.splits if_splits)
  then show ?thesis using looked_trans [OF looked_asks [OF a]] by blast
qed

lemma looked_still_there: "still_there k p t = (b, t1) \<Longrightarrow> looked t t1"
proof -
  assume d: "still_there k p t = (b, t1)"
  obtain a t2 where a: "asks (mk_open k p) t = (a, t2)" by (cases "asks (mk_open k p) t")
  have "t1 = t \<or> looked t2 t1"
    using d a looked_is_dir [of k _ _ t2 b t1]
    by (auto simp: still_there_def Let_def split: option.splits watch_state.splits sum.splits)
  then show ?thesis using looked_trans [OF looked_asks [OF a]] by auto
qed

text \<open>\<open>recheck_below\<close> keeps each child that is still there, and drops the others with a notice.\<close>

lemma tracked_looked: "looked t t' \<Longrightarrow> tracked M t \<Longrightarrow> tracked M t'"
  by (auto simp: looked_def tracked_def)

lemma announces_looked: "looked t t' \<Longrightarrow> announces t t'"
  by (auto simp: looked_def announces_cong)

lemma anchored_announced:
  assumes "anchored p n (tb_by_wd t)" "announces t t'" "\<And>w. w \<in># wdm n \<Longrightarrow> tb_by_wd t' w \<noteq> None"
  shows "anchored p n (tb_by_wd t')"
proof (rule anchored_agree [OF assms(1)])
  fix w
  assume "w \<in># wdm n"
  then obtain q where "tb_by_wd t' w = Some q" using assms(3) by blast
  then show "tb_by_wd t' w = tb_by_wd t w" using assms(2) by (force simp: announces_def map_le_def)
qed

lemma wdms_append: "wdms (xs @ ys) = wdms xs + wdms ys"
  by (induction xs) (auto simp: ac_simps)

definition rechecked :: "'w multiset \<Rightarrow> name list \<Rightarrow> (name \<times> 'w node) list \<Rightarrow> ('w, 's) table \<Rightarrow>
    (name \<times> 'w node) list \<Rightarrow> ('w, 's) table \<Rightarrow> bool" where
  "rechecked M ns cs t cs' t' \<longleftrightarrow> tracked (M + wdms cs') t' \<and> announces t t' \<and> same_tree t t' \<and>
     trees_ok cs' \<and> distinct (map fst cs') \<and> fst ` set cs' \<subseteq> fst ` set cs \<and> anchored_children ns cs' (tb_by_wd t')"

lemma anchored_children_Cons:
  "anchored_children ns ((x, c) # cs) m \<longleftrightarrow> anchored (ns @ [x]) c m \<and> anchored_children ns cs m"
  by (simp add: anchored_children_def)

lemma anchored_children_announced:
  assumes "anchored_children ns cs (tb_by_wd t)" "announces t t'" "tracked (M + wdms cs) t'"
  shows "anchored_children ns cs (tb_by_wd t')"
  unfolding anchored_children_def
proof (clarify)
  fix x c
  assume c: "(x, c) \<in> set cs"
  show "anchored (ns @ [x]) c (tb_by_wd t')"
  proof (rule anchored_announced [OF _ assms(2)])
    show "anchored (ns @ [x]) c (tb_by_wd t)" using assms(1) c by (auto simp: anchored_children_def)
    fix w
    assume "w \<in># wdm c"
    then have "w \<in># wdms cs" using c by (auto simp: wdms_iff)
    then show "tb_by_wd t' w \<noteq> None" by (rule tracked_in [OF assms(3)])
  qed
qed

lemma anchored_node_children: "tree_ok (Node st m cs) \<Longrightarrow> anchored p (Node st m cs) by_wd \<Longrightarrow> anchored_children p cs by_wd"
  unfolding anchored_children_def
proof (clarify)
  fix x c
  assume ok: "tree_ok (Node st m cs)" and a: "anchored p (Node st m cs) by_wd" and c: "(x, c) \<in> set cs"
  have "map_of cs x = Some c" using ok c by simp
  then have "watched_at (Node st m cs) (x # ns) = watched_at c ns" for ns by (simp add: watched_at_Cons)
  then show "anchored (p @ [x]) c by_wd" using a unfolding anchored_def by (metis append.assoc append_Cons append_Nil)
qed

lemma recheck_below_effect:
  "tracked (M + wdms cs) t \<Longrightarrow> trees_ok cs \<Longrightarrow> distinct (map fst cs) \<Longrightarrow> anchored_children ns cs (tb_by_wd t) \<Longrightarrow>
     recheck_below k cs parent ns t = (cs', t') \<Longrightarrow> rechecked M ns cs t cs' t'"
proof (induction k cs parent ns t arbitrary: M cs' t' rule: recheck_below.induct)
  case (1 k parent ns t)
  then show ?case by (simp add: rechecked_def)
next
  case (2 k x st m cs rest parent ns t)
  let ?n = "Node st m cs"
  let ?here = "case st of Unwatchable _ \<Rightarrow> (None, t)
    | Watched wd \<Rightarrow>
        (let (opened, t1) = asks (mk_open_child k parent x) t
         in case opened of
              Inl _ \<Rightarrow> (None, t1)
            | Inr dir \<Rightarrow> (let (same, t2) = is_dir k dir wd t1 in (if same then Some dir else None, t2)))"
  obtain here t1 where here: "?here = (here, t1)" by fastforce
  have look: "looked t t1"
  proof (cases st)
    case (Watched wd)
    obtain a t2 where a: "asks (mk_open_child k parent x) t = (a, t2)" by (cases "asks (mk_open_child k parent x) t")
    have "looked t2 t1"
      using here Watched a looked_is_dir [of k _ wd t2] by (auto simp: Let_def split: sum.splits prod.splits)
    then show ?thesis using looked_trans [OF looked_asks [OF a]] by blast
  qed (use here in simp)
  obtain kept t2 where kept: "(case here of
      Some dir \<Rightarrow> (let (cs', t2) = recheck_below k cs dir (ns @ [x]) t1 in ([(x, Node st m cs')], t2))
    | None \<Rightarrow> ([], drop_tree k True ?n (Path (ns @ [x])) t1)) = (kept, t2)" by fastforce
  obtain kept' where rest: "recheck_below k rest parent ns t2 = (kept', t')" and cs': "cs' = kept @ kept'"
    using "2.prems"(5) here kept by (simp add: Let_def split: prod.splits)
  have tr1: "tracked ((M + wdms rest) + wdm ?n) t1" "anchored (ns @ [x]) ?n (tb_by_wd t1)" "tree_ok ?n"
    "anchored_children ns rest (tb_by_wd t1)"
    using tracked_looked [OF look "2.prems"(1)] "2.prems"(2,4) looked_fields [OF look]
    by (simp_all add: ac_simps anchored_children_Cons)
  have first: "rechecked (M + wdms rest) ns [(x, ?n)] t1 kept t2"
  proof (cases here)
    case None
    then have "kept = []" "t2 = drop_tree k True ?n (Path (ns @ [x])) t1" using kept by auto
    moreover have "announces t1 (drop_tree k True ?n (Path (ns @ [x])) t1)"
      using drop_tree_announces [OF tr1(1,3), of "Path (ns @ [x])" k] tr1(2) by simp
    ultimately show ?thesis
      using drop_tree_tracked [OF tr1(1), of k True "Path (ns @ [x])"] drop_tree_effect [of k True ?n "Path (ns @ [x])" t1]
      by (simp add: rechecked_def anchored_children_def)
  next
    case (Some dir)
    obtain cs1 where cs1: "recheck_below k cs dir (ns @ [x]) t1 = (cs1, t2)" "kept = [(x, Node st m cs1)]"
      using kept Some by (auto split: prod.splits)
    have "tracked ((M + wdms rest + wd_of_state st) + wdms cs) t1" using tr1(1) by (simp add: ac_simps)
    from "2.IH"(1) [OF here [symmetric] refl Some this _ _ _ cs1(1)] tr1(3) anchored_node_children [OF tr1(3,2)]
    have IH: "rechecked (M + wdms rest + wd_of_state st) (ns @ [x]) cs t1 cs1 t2" by simp
    have "tb_by_wd t2 w = Some (Path (ns @ [x]))" if st: "st = Watched w" for w
    proof -
      have "tb_by_wd t1 w = Some (Path (ns @ [x]))" using tr1(2) st by (auto simp: anchored_def dest: spec [of _ "[]"] simp: watched_at_Nil)
      moreover have "tb_by_wd t2 w \<noteq> None"
        using IH st tracked_in [of "M + wdms rest + wdms cs1" "{#w#}" t2 w] by (simp add: rechecked_def ac_simps)
      ultimately show ?thesis using IH announcesD [of t1 t2 w] by (auto simp: rechecked_def)
    qed
    then have "anchored (ns @ [x]) (Node st m cs1) (tb_by_wd t2)"
      using IH by (intro anchored_Node) (simp_all add: rechecked_def)
    then show ?thesis using IH cs1(2) by (simp add: rechecked_def anchored_children_def ac_simps)
  qed
  have tr2: "tracked ((M + wdms kept) + wdms rest) t2" using first by (simp add: rechecked_def ac_simps)
  have "anchored_children ns rest (tb_by_wd t2)"
    using anchored_children_announced [OF tr1(4) _ tr2] first by (simp add: rechecked_def)
  from "2.IH"(2) [OF here [symmetric] refl kept [symmetric] refl tr2 _ _ this rest] "2.prems"(2,3)
  have second: "rechecked (M + wdms kept) ns rest t2 kept' t'" by simp
  have "anchored_children ns kept (tb_by_wd t')"
    using anchored_children_announced [of ns kept t2 t' "M + wdms kept'"] first second by (simp add: rechecked_def ac_simps)
  moreover have "announces t t'"
    using announces_trans [OF announces_looked [OF look]] announces_trans [of t1 t2 t'] first second by (simp add: rechecked_def)
  moreover have "same_tree t t'"
    using same_tree_trans [of t t1] same_tree_trans [of t1 t2 t'] looked_fields [OF look] first second by (simp add: rechecked_def)
  moreover have "distinct (map fst (kept @ kept'))" "fst ` set (kept @ kept') \<subseteq> fst ` set ((x, ?n) # rest)"
  proof -
    have sub: "fst ` set kept \<subseteq> {x}" "fst ` set kept' \<subseteq> fst ` set rest" "x \<notin> fst ` set rest"
      using first second "2.prems"(3) by (simp_all add: rechecked_def)
    then have "fst ` set kept \<inter> fst ` set kept' = {}" by blast
    then show "distinct (map fst (kept @ kept'))" using first second by (simp add: rechecked_def)
    show "fst ` set (kept @ kept') \<subseteq> fst ` set ((x, ?n) # rest)" using sub by auto
  qed
  ultimately show ?case
    using first second by (auto simp: rechecked_def cs' wdms_append trees_ok_iff anchored_children_def ac_simps)
qed

lemma children_anchored: "tree_ok n \<Longrightarrow> anchored p n by_wd \<Longrightarrow> anchored_children p (n_children n) by_wd"
  using anchored_node_children [of "n_state n" "n_mark n" "n_children n"] by simp

lemma drop_all_ok:
  "watch_ok (F + wdms cs) t \<Longrightarrow> watch_ok F (fold (\<lambda>(x, n). drop_tree k True n (q x)) cs t)"
proof (induction cs arbitrary: t)
  case (Cons c cs)
  obtain x n where c: "c = (x, n)" by (cases c)
  have "watch_ok ((F + wdms cs) + wdm n) t" using Cons.prems by (simp add: c ac_simps)
  from Cons.IH [OF drop_tree_ok(1) [OF this]] show ?case by (simp add: c)
qed simp

lemma drop_all_dead: "tb_dead (fold (\<lambda>(x, n). drop_tree k True n (q x)) cs t) = tb_dead t"
proof (induction cs arbitrary: t)
  case (Cons c cs)
  then show ?case using drop_tree_effect [of k True "snd c" "q (fst c)" t] by (simp add: split_beta same_tree_def)
qed simp

lemma recheck_ok:
  assumes ok: "watch_ok F t"
  shows "watch_ok F (recheck k t)" "tb_dead (recheck k t) = tb_dead t"
proof -
  let ?r = "tb_root t"
  let ?t1 = "t\<lparr>tb_root := Node (n_state ?r) (n_mark ?r) []\<rparr>"
  obtain o1 t2 where o1: "asks (mk_open k path_root) ?t1 = (o1, t2)" by (cases "asks (mk_open k path_root) ?t1")
  note look = looked_fields [OF looked_asks [OF o1]]
  have cs: "trees_ok (n_children ?r)" "distinct (map fst (n_children ?r))" using ok by (simp_all add: watch_ok_def tree_ok_eq)
  obtain w where w: "n_state ?r = Watched w" using ok by (auto simp: watch_ok_def is_watched_def split: watch_state.splits)
  have here: "tb_by_wd t w = Some (Path [])"
    using ok w by (auto simp: watch_ok_def anchored_def watched_at_Nil dest: spec [of _ "[]"])
  have empty: "anchored [] (Node (Watched w) m []) (tb_by_wd t')" if "tb_by_wd t' w = Some (Path [])" for t' :: "('a, 'b) table" and m
    using that by (intro anchored_Node) (simp_all add: anchored_children_def)
  have "watch_ok (F + wdms (n_children ?r)) ?t1"
    using ok w here empty [of t] by (simp add: watch_ok_def tracked_def is_watched_def wdm_eq [of ?r] ac_simps)
  then have ok2: "watch_ok (F + wdms (n_children ?r)) t2" using looked_ok [OF looked_asks [OF o1]] by blast
  have "watch_ok F (recheck k t) \<and> tb_dead (recheck k t) = tb_dead t"
  proof (cases o1)
    case (Inl e)
    then show ?thesis
      using drop_all_ok [OF ok2, of k "\<lambda>x. Path [x]"] drop_all_dead [of k "\<lambda>x. Path [x]" "n_children ?r" t2] o1 look
      by (simp add: recheck_def)
  next
    case (Inr dir)
    obtain kept t3 where rb: "recheck_below k (n_children ?r) dir [] t2 = (kept, t3)"
      by (cases "recheck_below k (n_children ?r) dir [] t2")
    have "tracked ((F + {#w#}) + wdms (n_children ?r)) t2" using ok2 look w by (simp add: watch_ok_def ac_simps)
    moreover have "anchored_children [] (n_children ?r) (tb_by_wd t2)"
      using children_anchored [of ?r "[]"] ok look by (simp add: watch_ok_def)
    ultimately have re: "rechecked (F + {#w#}) [] (n_children ?r) t2 kept t3" using cs rb by (intro recheck_below_effect)
    then have root: "tb_root t3 = Node (Watched w) (n_mark ?r) []" "tb_dead t3 = tb_dead t"
      using look w by (simp_all add: rechecked_def same_tree_def)
    have "tb_by_wd t3 w \<noteq> None"
      using re tracked_in [of "F + wdms kept" "{#w#}" t3 w] by (simp add: rechecked_def ac_simps)
    then have "tb_by_wd t3 w = Some (Path [])"
      using re announcesD [of t2 t3 w "Path []"] here look by (auto simp: rechecked_def)
    then have "anchored [] (Node (Watched w) (n_mark ?r) kept) (tb_by_wd t3)"
      using re by (intro anchored_Node) (simp_all add: rechecked_def)
    then show ?thesis
      using re root o1 Inr rb by (simp add: recheck_def watch_ok_def rechecked_def tracked_def is_watched_def ac_simps)
  qed
  then show "watch_ok F (recheck k t)" "tb_dead (recheck k t) = tb_dead t" by blast+
qed

subsection \<open>Events\<close>

text \<open>The directories on the move are what the tree is without.\<close>

definition mvm :: "'w moving \<Rightarrow> 'w multiset" where
  "mvm mv = sum_list (map (\<lambda>(cookie, p, n). wdm n) mv)"

definition moving_ok :: "'w moving \<Rightarrow> bool" where
  "moving_ok mv \<longleftrightarrow> distinct (map fst mv) \<and> (\<forall>(cookie, p, n) \<in> set mv. tree_ok n)"

lemma mvm_simps [simp]: "mvm [] = {#}" "mvm ((cookie, p, n) # mv) = wdm n + mvm mv"
  by (simp_all add: mvm_def)

lemma mvm_delete:
  "distinct (map fst mv) \<Longrightarrow> map_of mv cookie = Some (p, n) \<Longrightarrow> mvm mv = mvm (AList.delete cookie mv) + wdm n"
proof (induction mv)
  case (Cons m mv)
  obtain c q d where m: "m = (c, q, d)" by (cases m)
  show ?case
  proof (cases "c = cookie")
    case True
    then have "AList.delete cookie mv = mv" using Cons.prems m by (simp add: delete_id)
    then show ?thesis using True Cons.prems m by (simp add: ac_simps)
  next
    case False
    then show ?thesis using Cons m by (simp add: ac_simps)
  qed
qed simp

lemma mvm_update_new: "cookie \<notin> fst ` set mv \<Longrightarrow> mvm (AList.update cookie (p, n) mv) = mvm mv + wdm n"
  by (induction mv) (auto simp: ac_simps)

lemma set_update_subset: "set (AList.update x v xs) \<subseteq> insert (x, v) (set xs)"
  by (induction xs) auto

lemma moving_ok_update: "moving_ok mv \<Longrightarrow> tree_ok n \<Longrightarrow> moving_ok (AList.update cookie (p, n) mv)"
  using set_update_subset [of cookie "(p, n)" mv] by (fastforce simp: moving_ok_def distinct_update)

lemma moving_ok_delete: "moving_ok mv \<Longrightarrow> moving_ok (AList.delete cookie mv)"
  using distinct_delete [of mv cookie] by (auto simp: moving_ok_def AList.delete_eq)

lemma drop_moving_ok: "watch_ok (F + mvm mv) t \<Longrightarrow> watch_ok F (drop_moving k mv t)"
proof (induction mv arbitrary: t)
  case (Cons m mv)
  obtain c q n where m: "m = (c, q, n)" by (cases m)
  have "watch_ok ((F + mvm mv) + wdm n) t" using Cons.prems by (simp add: m ac_simps)
  from Cons.IH [OF drop_tree_ok(1) [OF this]] show ?case by (simp add: m drop_moving_def)
qed (simp add: drop_moving_def)

lemma drop_moving_dead: "tb_dead (drop_moving k mv t) = tb_dead t"
proof (induction mv arbitrary: t)
  case (Cons m mv)
  then show ?case
    using drop_tree_effect [of k True "snd (snd m)" "fst (snd m)" t] by (simp add: split_beta same_tree_def drop_moving_def)
qed (simp add: drop_moving_def)

definition apply_ok :: "'w moving \<Rightarrow> ('w, 's) table \<Rightarrow> bool" where
  "apply_ok mv t \<longleftrightarrow> watch_ok (mvm mv) t \<and> moving_ok mv"

lemma detach_to_moving:
  assumes ok: "apply_ok mv t" and new: "cookie \<notin> fst ` set mv"
    and d: "(case detach p t of (Some n, t2) \<Rightarrow> (AList.update cookie (p, n) mv, t2) | (None, t2) \<Rightarrow> (mv, t2)) = (mv', t')"
  shows "apply_ok mv' t'" "fst ` set mv' \<subseteq> insert cookie (fst ` set mv)"
proof -
  have w: "watch_ok (mvm mv) t" "moving_ok mv" using ok by (simp_all add: apply_ok_def)
  obtain r t2 where r: "detach p t = (r, t2)" by (cases "detach p t")
  have "apply_ok mv' t' \<and> fst ` set mv' \<subseteq> insert cookie (fst ` set mv)"
  proof (cases r)
    case None
    then show ?thesis using d r detached_ok(1) [OF w(1) r] w(2) by (auto simp: apply_ok_def)
  next
    case (Some n)
    then have e: "mv' = AList.update cookie (p, n) mv" "t' = t2" using d r by auto
    note n = detached [OF w(1) r [unfolded Some]]
    have "watch_ok (mvm mv') t'" using n(1) mvm_update_new [OF new, of p n] e by simp
    moreover have "moving_ok mv'" using moving_ok_update [OF w(2) n(2)] e by simp
    moreover have "fst ` set mv' \<subseteq> insert cookie (fst ` set mv)"
      using dom_update [of cookie "(p, n)" mv] e by simp
    ultimately show ?thesis by (simp add: apply_ok_def)
  qed
  then show "apply_ok mv' t'" "fst ` set mv' \<subseteq> insert cookie (fst ` set mv)" by blast+
qed

lemma arrived_ok:
  assumes ok: "apply_ok mv t" and p: "\<not> is_root p" "byte_len p \<le> PATH_MAX"
  shows "apply_ok (AList.delete cookie mv)
      (case map_of mv cookie of Some (src, n) \<Rightarrow> drop_tree k True n src t | None \<Rightarrow> t)"
    "apply_ok (AList.delete cookie mv)
      (case map_of mv cookie of Some (src, n) \<Rightarrow> (let (n', t3) = rekey k n p t in put k p n' t3) | None \<Rightarrow> t)"
proof -
  have w: "watch_ok (mvm mv) t" "moving_ok mv" "moving_ok (AList.delete cookie mv)"
    using ok moving_ok_delete by (auto simp: apply_ok_def)
  have "apply_ok (AList.delete cookie mv)
      (case map_of mv cookie of Some (src, n) \<Rightarrow> drop_tree k True n src t | None \<Rightarrow> t) \<and>
    apply_ok (AList.delete cookie mv)
      (case map_of mv cookie of Some (src, n) \<Rightarrow> (let (n', t3) = rekey k n p t in put k p n' t3) | None \<Rightarrow> t)"
  proof (cases "map_of mv cookie")
    case None
    then have "AList.delete cookie mv = mv" by (simp add: map_of_eq_None_iff delete_id)
    then show ?thesis using ok None by simp
  next
    case (Some sn)
    obtain src n where sn: "sn = (src, n)" by (cases sn)
    have n: "tree_ok n" using w(2) map_of_SomeD [OF Some] sn by (auto simp: moving_ok_def)
    have "mvm mv = mvm (AList.delete cookie mv) + wdm n"
      using mvm_delete [of mv cookie src n] w(2) Some sn by (simp add: moving_ok_def)
    then have wn: "watch_ok (mvm (AList.delete cookie mv) + wdm n) t" using w(1) by simp
    obtain n' t3 where re: "rekey k n p t = (n', t3)" by (cases "rekey k n p t")
    have "watch_ok (mvm (AList.delete cookie mv)) (put k p n' t3)"
      using put_ok [OF rekey_ok [OF wn n p(2) re] p(1)] .
    then show ?thesis using Some sn re w(3) drop_tree_ok(1) [OF wn, of k True src] by (simp add: apply_ok_def)
  qed
  then show "apply_ok (AList.delete cookie mv)
      (case map_of mv cookie of Some (src, n) \<Rightarrow> drop_tree k True n src t | None \<Rightarrow> t)"
    "apply_ok (AList.delete cookie mv)
      (case map_of mv cookie of Some (src, n) \<Rightarrow> (let (n', t3) = rekey k n p t in put k p n' t3) | None \<Rightarrow> t)"
    by blast+
qed

text \<open>The cookie that ties the halves of a rename together is unique: a batch has one first half of each.\<close>

definition cookie_new :: "'w raw_event \<Rightarrow> 'w moving \<Rightarrow> bool" where
  "cookie_new e mv \<longleftrightarrow> (contains (re_mask e) IN_MOVED_FROM \<longrightarrow> re_cookie e \<notin> fst ` set mv)"

definition cookies_after :: "'w raw_event \<Rightarrow> 'w moving \<Rightarrow> u32 set" where
  "cookies_after e mv = fst ` set mv \<union> (if contains (re_mask e) IN_MOVED_FROM then {re_cookie e} else {})"

lemma fst_set_delete: "fst ` set (AList.delete x mv) \<subseteq> fst ` set mv"
  by (auto simp: AList.delete_eq)

lemma dir_event_ok:
  assumes ok: "apply_ok mv t" and new: "cookie_new e mv" and p: "\<not> is_root p" "byte_len p \<le> PATH_MAX"
    and e: "dir_event k e p mv t = (mv', t')"
  shows "apply_ok mv' t' \<and> fst ` set mv' \<subseteq> cookies_after e mv"
proof -
  obtain there t1 where there: "still_there k p t = (there, t1)" by (cases "still_there k p t")
  have ok1: "apply_ok mv t1" using ok looked_ok [OF looked_still_there [OF there]] by (simp add: apply_ok_def)
  let ?gone = "case detach p t1 of (Some n, t2) \<Rightarrow> drop_tree k True n p t2 | (None, t2) \<Rightarrow> t2"
  have gone: "apply_ok mv ?gone"
    using ok1 detach_drop_ok [of "mvm mv" t1, where p = p and k = k and a = True and q = p] by (simp add: apply_ok_def)
  consider (from') "contains (re_mask e) IN_MOVED_FROM"
    | (to) "\<not> contains (re_mask e) IN_MOVED_FROM" "contains (re_mask e) IN_MOVED_TO"
    | (delete) "\<not> contains (re_mask e) IN_MOVED_FROM" "\<not> contains (re_mask e) IN_MOVED_TO" "contains (re_mask e) IN_DELETE"
    | (other) "\<not> contains (re_mask e) IN_MOVED_FROM" "\<not> contains (re_mask e) IN_MOVED_TO" "\<not> contains (re_mask e) IN_DELETE"
    by blast
  then show ?thesis
  proof cases
    case from'
    show ?thesis
    proof (cases there)
      case True
      then show ?thesis using from' e there ok1 by (auto simp: dir_event_def cookies_after_def)
    next
      case False
      have "(case detach p t1 of (Some n, t2) \<Rightarrow> (AList.update (re_cookie e) (p, n) mv, t2) | (None, t2) \<Rightarrow> (mv, t2)) = (mv', t')"
        using from' e there False by (simp add: dir_event_def)
      from detach_to_moving [OF ok1 _ this] new from' show ?thesis by (auto simp: cookie_new_def cookies_after_def)
    qed
  next
    case to
    then have "mv' = AList.delete (re_cookie e) mv"
      using e there by (auto simp: dir_event_def Let_def split: if_splits)
    moreover have "apply_ok mv' t'"
      using to e there arrived_ok(1) [OF ok1 p, of "re_cookie e" k] arrived_ok(2) [OF gone p, of "re_cookie e" k]
      by (auto simp: dir_event_def Let_def split: if_splits)
    ultimately show ?thesis using fst_set_delete [of "re_cookie e" mv] by (auto simp: cookies_after_def)
  next
    case delete
    then show ?thesis
      using e there ok1 gone by (auto simp: dir_event_def cookies_after_def split: if_splits prod.splits option.splits)
  next
    case other
    then show ?thesis using e ok by (auto simp: dir_event_def cookies_after_def)
  qed
qed

lemma report_effect:
  assumes "report e t = (r, t1)"
  shows "\<exists>out. t1 = t\<lparr>tb_out := out\<rparr>"
proof -
  have "\<exists>out. t = t\<lparr>tb_out := out\<rparr>" by (intro exI [of _ "tb_out t"]) simp
  then show ?thesis using assms by (auto simp: report_def split: option.splits sum.splits if_splits)
qed

lemma apply_event_ok:
  assumes ok: "apply_ok mv t" and new: "cookie_new e mv" and e: "apply_event k e mv t = (mv', t')" and alive: "\<not> tb_dead t'"
  shows "apply_ok mv' t' \<and> fst ` set mv' \<subseteq> cookies_after e mv"
proof -
  have keep: "fst ` set mv \<subseteq> cookies_after e mv" by (auto simp: cookies_after_def)
  show ?thesis
  proof (cases "contains (re_mask e) IN_Q_OVERFLOW")
    case True
    have "watch_ok {#} (drop_moving k mv t)" using ok drop_moving_ok [of "{#}" mv t k] by (simp add: apply_ok_def)
    then have "watch_ok {#} (recheck k ((drop_moving k mv t)\<lparr>tb_out := out\<rparr>))" for out by (intro recheck_ok(1)) simp
    then show ?thesis using True e by (auto simp: apply_event_def Let_def apply_ok_def moving_ok_def)
  next
    case overflow: False
    show ?thesis
    proof (cases "tb_by_wd t (re_wd e)")
      case None
      then show ?thesis using overflow e ok keep by (auto simp: apply_event_def)
    next
      case (Some dir)
      show ?thesis
      proof (cases "intersects (re_mask e) (IN_IGNORED OR IN_UNMOUNT OR IN_DELETE_SELF)")
        case True
        have "apply_ok mv (case detach dir t of (Some n, t1) \<Rightarrow> drop_tree k False n dir t1 | (None, t1) \<Rightarrow> t1)"
          using ok detach_drop_ok [of "mvm mv" t, where p = dir and k = k and a = False and q = dir] by (simp add: apply_ok_def)
        then show ?thesis
          using overflow Some True e ok keep alive by (auto simp: apply_event_def Let_def die_def split: if_splits)
      next
        case own: False
        show ?thesis
        proof (cases "contains (re_mask e) IN_MOVE_SELF")
          case True
          then show ?thesis using overflow Some own e ok keep by (auto simp: apply_event_def)
        next
          case False
          obtain r t1 where r: "report e t = (r, t1)" by (cases "report e t")
          then have ok1: "apply_ok mv t1" using report_effect [OF r] ok by (auto simp: apply_ok_def)
          have eq: "apply_event k e mv t = (case r of None \<Rightarrow> (mv, t1)
            | Some (dir, x) \<Rightarrow> if \<not> contains (re_mask e) IN_ISDIR then (mv, t1)
                else (case join dir x of Inl _ \<Rightarrow> (mv, t1) | Inr p \<Rightarrow> dir_event k e p mv t1))"
            using overflow Some own False r by (simp add: apply_event_def split: option.split)
          show ?thesis
          proof (cases "\<exists>dir x p. r = Some (dir, x) \<and> contains (re_mask e) IN_ISDIR \<and> join dir x = Ok p")
            case True
            then obtain dir x p where p: "r = Some (dir, x)" "contains (re_mask e) IN_ISDIR" "join dir x = Ok p" by blast
            then have "\<not> is_root p" "byte_len p \<le> PATH_MAX" by (auto simp: join_Ok is_root_def)
            from dir_event_ok [OF ok1 new this] e p show ?thesis by (simp add: eq)
          next
            case False
            then have "(mv', t') = (mv, t1)" using e by (auto simp: eq split: option.splits if_splits sum.splits)
            then show ?thesis using ok1 keep by simp
          qed
        qed
      qed
    qed
  qed
qed

definition first_halves :: "'w raw_event list \<Rightarrow> u32 list" where
  "first_halves es = map re_cookie (filter (\<lambda>e. contains (re_mask e) IN_MOVED_FROM) es)"

lemma apply_events_ok:
  assumes "apply_ok mv t" "distinct (first_halves es)" "set (first_halves es) \<inter> fst ` set mv = {}"
    and "\<not> tb_dead (apply_events k es mv t)"
  shows "watch_ok {#} (apply_events k es mv t)"
  using assms
proof (induction k es mv t rule: apply_events.induct)
  case (1 k mv t)
  then show ?case using drop_moving_ok [of "{#}" mv t k] by (simp add: apply_ok_def)
next
  case (2 k e es mv t)
  have dead: "tb_dead (apply_events k es' mv' t')" if "tb_dead t'" for es' mv' t'
    using that by (cases es') (simp_all add: drop_moving_dead)
  have alive: "\<not> tb_dead t" using "2.prems"(4) dead [of t "e # es" mv] by blast
  obtain mv1 t1 where e: "apply_event k e mv t = (mv1, t1)" by (cases "apply_event k e mv t")
  have run: "apply_events k (e # es) mv t = apply_events k es mv1 t1" using alive e by simp
  have alive1: "\<not> tb_dead t1" using "2.prems"(4) dead [of t1 es mv1] unfolding run by blast
  have "cookie_new e mv" using "2.prems"(3) by (auto simp: cookie_new_def first_halves_def)
  from apply_event_ok [OF "2.prems"(1) this e alive1]
  have ok1: "apply_ok mv1 t1" and sub: "fst ` set mv1 \<subseteq> cookies_after e mv" by blast+
  have "set (first_halves es) \<inter> cookies_after e mv = {}"
    using "2.prems"(2,3) by (auto simp: cookies_after_def first_halves_def split: if_splits)
  then have "set (first_halves es) \<inter> fst ` set mv1 = {}" using sub by blast
  moreover have "distinct (first_halves es)" using "2.prems"(2) by (simp add: first_halves_def split: if_splits)
  ultimately show ?case
    using "2.IH" [OF alive e [symmetric] refl ok1] "2.prems"(4) unfolding run by blast
qed

subsection \<open>The table over time\<close>

text \<open>
  What happens to a table: a request has a directory watched, a guard is dropped, a batch of events is
  applied or, with nothing structural among them, reported, the notices are taken, and the file system
  goes on meanwhile.
\<close>

definition watch_init :: "('w, 'd, 's) marks \<Rightarrow> ('w, 's) table \<Rightarrow> bool" where
  "watch_init k t \<longleftrightarrow> (\<exists>budget s. table_new k budget s = Ok t)"

inductive watch_step :: "('w, 'd, 's) marks \<Rightarrow> ('w, 's) table \<Rightarrow> ('w, 's) table \<Rightarrow> bool" for k where
  WatchArm: "byte_len dir \<le> PATH_MAX \<Longrightarrow> watch_step k t (snd (arm k dir now t))"
| WatchDrop: "watch_step k t (armed_drop m t)"
| WatchApply: "distinct (first_halves es) \<Longrightarrow> watch_step k t (apply_events k es [] t)"
| WatchReport: "\<not> structural e \<Longrightarrow> watch_step k t (snd (report e t))"
| WatchTaken: "watch_step k t (t\<lparr>tb_out := []\<rparr>)"
| WatchSystem: "watch_step k t (t\<lparr>tb_sys := s\<rparr>)"

definition watch_inv :: "('w, 's) table \<Rightarrow> bool" where
  "watch_inv t \<longleftrightarrow> tb_dead t \<or> watch_ok {#} t"

lemma watch_inv_init: "watch_init k t \<Longrightarrow> watch_inv t"
proof -
  assume "watch_init k t"
  then obtain wd budget s where t: "t = \<lparr>tb_root = Node (Watched wd) 0 [], tb_by_wd = [wd \<mapsto> path_root], tb_watched = 0,
      tb_budget = budget, tb_capped = None, tb_round = 0, tb_dead = False, tb_used = (\<lambda>_. 0), tb_holds = (\<lambda>_. 0),
      tb_fresh = 1, tb_sys = s, tb_out = []\<rparr>"
    by (auto simp: watch_init_def table_new_def Let_def split_beta)
  have "anchored [] (Node (Watched wd) 0 []) [wd \<mapsto> path_root]"
    by (rule anchored_Node) (simp_all add: anchored_children_def path_root_def)
  then show ?thesis
    by (simp add: t watch_inv_def watch_ok_def tracked_def is_watched_def path_root_def byte_len_def)
qed

lemma watch_inv_step:
  assumes "watch_inv t" "watch_step k t t'"
  shows "watch_inv t'"
  using assms(2)
proof cases
  case (WatchArm dir now)
  show ?thesis
  proof (cases "tb_dead t")
    case True
    then show ?thesis using WatchArm by (simp add: arm_def touch_def watch_inv_def)
  next
    case False
    then show ?thesis using WatchArm arm_ok [of "{#}" t dir k now] assms(1) by (simp add: watch_inv_def)
  qed
next
  case (WatchApply es)
  show ?thesis
  proof (cases "tb_dead t")
    case True
    then show ?thesis using WatchApply by (cases es) (simp_all add: watch_inv_def drop_moving_def)
  next
    case False
    then have "apply_ok [] t" using assms(1) by (simp add: watch_inv_def apply_ok_def moving_ok_def)
    then show ?thesis using apply_events_ok [of "[]" t es k] WatchApply by (auto simp: watch_inv_def)
  qed
next
  case (WatchReport e)
  obtain r t1 where r: "report e t = (r, t1)" by (cases "report e t")
  then show ?thesis using WatchReport report_effect [OF r] assms(1) by (auto simp: watch_inv_def)
qed (use assms(1) in \<open>auto simp: watch_inv_def armed_drop_def [abs_def] watch_ok_def tracked_def\<close>)

interpretation watch_sys: invariant_system "watch_init k" "watch_step k" watch_inv for k
  by unfold_locales (simp_all add: watch_inv_init watch_inv_step)

end
