(* ===== verification/WatchPromises.thy ===== *)
theory WatchPromises
  imports WatchSteps
begin

text \<open>
  What the table of watched directories promises: the descriptors and the tree agree whatever the system
  does, a system with watches to give and a file system that stands still has every directory a request
  names watched, and what is dropped to make room is announced and is nothing that is held.  Last, a
  batch of events that the table gets wrong.
\<close>

subsection \<open>Descriptors and the tree\<close>

lemma watch_ok_exact:
  assumes ok: "watch_ok {#} t"
  shows "tb_by_wd t w = Some p \<longleftrightarrow> watched_at (tb_root t) (names p) = Some w"
proof
  assume w: "tb_by_wd t w = Some p"
  have "w \<in># wdm (tb_root t)" using ok w by (simp add: watch_ok_def tracked_def domIff)
  then obtain ns where ns: "watched_at (tb_root t) ns = Some w" using wdm_watched_at [of "tb_root t" w] ok by (auto simp: watch_ok_def)
  then have "tb_by_wd t w = Some (Path ns)" using ok by (simp add: watch_ok_def anchored_def)
  then show "watched_at (tb_root t) (names p) = Some w" using w ns by auto
next
  assume "watched_at (tb_root t) (names p) = Some w"
  then show "tb_by_wd t w = Some p" using ok by (simp add: watch_ok_def anchored_def)
qed

lemma watch_ok_count: "watch_ok {#} t \<Longrightarrow> finite (dom (tb_by_wd t)) \<and> tb_watched t = int (card (dom (tb_by_wd t))) - 1"
  by (simp add: watch_ok_def tracked_def)

subsection \<open>A system that stands still\<close>

text \<open>
  Directories open as what is at their path, each has a descriptor of its own, and there are watches to
  give: \<open>at\<close> is where an opened directory is, \<open>wd\<close> the descriptor of the directory at a path.
\<close>

definition steady :: "('w, 'd, 's) marks \<Rightarrow> ('d \<Rightarrow> name list) \<Rightarrow> (name list \<Rightarrow> 'w) \<Rightarrow> bool" where
  "steady k at wd \<longleftrightarrow> inj wd \<and>
     (\<forall>p s. \<exists>d. fst (mk_open k p s) = Ok d \<and> at d = names p) \<and>
     (\<forall>d x s. \<exists>c. fst (mk_open_child k d x s) = Ok c \<and> at c = at d @ [x]) \<and>
     (\<forall>d s. fst (mk_add k d s) = Ok (wd (at d)))"

text \<open>A table of such a system, with everything down to a path watched.\<close>

definition in_place :: "(name list \<Rightarrow> 'w) \<Rightarrow> ('w, 's) table \<Rightarrow> bool" where
  "in_place wd t \<longleftrightarrow> watch_ok {#} t \<and> (\<forall>w p. tb_by_wd t w = Some p \<longrightarrow> w = wd (names p))"

definition watched_to :: "('w, 's) table \<Rightarrow> name list \<Rightarrow> bool" where
  "watched_to t ns \<longleftrightarrow> (\<forall>xs. prefix xs ns \<longrightarrow> watched_at (tb_root t) xs \<noteq> None)"

lemma in_placeD: "in_place wd t \<Longrightarrow> tb_by_wd t w = Some p \<Longrightarrow> w = wd (names p)"
  by (simp add: in_place_def)

lemma in_place_le: "in_place wd t \<Longrightarrow> watch_ok {#} t' \<Longrightarrow> tb_by_wd t' \<subseteq>\<^sub>m tb_by_wd t \<Longrightarrow> in_place wd t'"
  unfolding in_place_def by (metis domI map_le_def)

lemma watched_to_snoc: "watched_to t (ns @ [x]) \<longleftrightarrow> watched_to t ns \<and> watched_at (tb_root t) (ns @ [x]) \<noteq> None"
  by (auto simp: watched_to_def)

lemma put_fresh:
  assumes "watch_ok ({#} + wdm n) t" "tree_ok n" "anchored (names p) n (tb_by_wd t)"
    and p: "names p = names parent @ [x]" "node t parent = Some slot"
  shows "info_at (tb_root (put k p n t)) xs =
      (if prefix (names p) xs then info_at n (drop (length (names p)) xs) else info_at (tb_root t) xs)"
    "tb_by_wd (put k p n t) \<subseteq>\<^sub>m tb_by_wd t"
proof -
  let ?t1 = "t\<lparr>tb_root := node_mut (\<lambda>s. Node (n_state s) (n_mark s) (AList.update x n (n_children s))) (names parent) (tb_root t)\<rparr>"
  have sp: "split_last p = Some (parent, x)" using p(1) by (simp add: split_last_Some)
  have put: "put k p n t = (case map_of (n_children slot) x of None \<Rightarrow> ?t1 | Some old \<Rightarrow> drop_tree k True old p ?t1)"
    using p(2) sp by (simp add: put_def Let_def)
  have same: "tb_root (put k p n t) = tb_root ?t1" "tb_by_wd (put k p n t) \<subseteq>\<^sub>m tb_by_wd ?t1"
    unfolding put using drop_tree_effect [of k True _ p ?t1] restrict_map_le
    by (auto simp: same_tree_def split: option.split)
  show "info_at (tb_root (put k p n t)) xs =
      (if prefix (names p) xs then info_at n (drop (length (names p)) xs) else info_at (tb_root t) xs)"
    unfolding same(1) by (rule grafted(2) [OF assms(1-3) p])
  show "tb_by_wd (put k p n t) \<subseteq>\<^sub>m tb_by_wd t" using same(2) by simp
qed

lemma place_steady:
  assumes t: "in_place wd t" "watched_to t ns" and inj: "inj wd" and len: "byte_len (Path (ns @ [x])) \<le> PATH_MAX"
    and place: "place k (Path (ns @ [x])) (wd (ns @ [x])) now t = (r, t')"
  shows "r \<and> in_place wd t' \<and> watched_to t' (ns @ [x])"
proof -
  let ?p = "Path (ns @ [x])" and ?w = "wd (ns @ [x])"
  have ok: "watch_ok {#} t" using t(1) by (simp add: in_place_def)
  have p: "\<not> is_root ?p" by (simp add: is_root_def)
  have ok': "watch_ok {#} t'" using place_ok [OF ok p len, of k ?w now] place by simp
  show ?thesis
  proof (cases "tb_by_wd t ?w")
    case (Some old)
    then have "wd (ns @ [x]) = wd (names old)" using t(1) by (simp add: in_place_def)
    then have "names old = ns @ [x]" using inj by (simp add: inj_eq)
    then have old: "old = ?p" by (cases old) simp
    then have "r" "t' = t" using place Some by (simp_all add: place_def)
    then show ?thesis using t watch_ok_exact [OF ok, of ?w ?p] Some old by (simp add: watched_to_snoc)
  next
    case None
    obtain b t1 where b: "budget_at now t = (b, t1)" by (cases "budget_at now t")
    then obtain c where t1: "t1 = t\<lparr>tb_capped := c\<rparr>" by (blast dest: budget_at_effect)
    define t2 where "t2 = (if tb_watched t1 \<ge> int b then evict k ?p now t1 else t1)"
    have ok1: "watch_ok {#} t1" using ok by (simp add: t1)
    note ev = evict_effect [OF ok1, where k = k and keep = ?p and now = now]
    have ok2: "watch_ok {#} t2" using ev(1) ok1 by (simp add: t2_def)
    have le2: "tb_by_wd t2 \<subseteq>\<^sub>m tb_by_wd t" using ev(2) by (simp add: t2_def t1 announces_def)
    have root2: "info_at (tb_root t2) xs = info_at (tb_root t) xs" if "prefix xs (ns @ [x])" for xs
      using ev(5) [where ns = xs] that by (auto simp: t2_def t1 spared_def)
    have free: "tb_by_wd t2 ?w = None"
      using None map_le_implies_dom_le [OF le2] by (auto simp: domIff)
    let ?t3 = "t2\<lparr>tb_by_wd := (tb_by_wd t2)(?w \<mapsto> ?p), tb_watched := tb_watched t2 + 1\<rparr>"
    obtain n t4 where n: "new_node (Watched ?w) ?t3 = (n, t4)" by (cases "new_node (Watched ?w) ?t3")
    have n': "n = Node (Watched ?w) (tb_fresh t2) []" "tb_by_wd t4 = (tb_by_wd t2)(?w \<mapsto> ?p)" "tb_root t4 = tb_root t2"
      using n by (auto simp: new_node_def)
    have ok4: "watch_ok ({#} + wdm n) t4"
      using new_watch_ok [OF ok2 free len] watch_ok_updates(8) [of "{#} + {#?w#}" "Watched ?w" ?t3] n n'(1) by simp
    have an: "anchored (names ?p) n (tb_by_wd t4)"
      unfolding n' by (rule anchored_Node) (simp_all add: anchored_children_def)
    have "info_at (tb_root t4) ns \<noteq> None"
      using t(2) root2 [of ns] by (auto simp: watched_to_def n'(3) watched_at_def info_at_def split: option.splits)
    then obtain slot where slot: "node t4 (Path ns) = Some slot" by (auto simp: info_at_def node_def)
    have res: "r" "t' = put k ?p n t4" using place None b n by (simp_all add: place_def t2_def)
    note put = put_fresh [OF ok4 _ an, where parent = "Path ns" and x = x and slot = slot and k = k]
    have info: "info_at (tb_root t') xs = (if prefix (ns @ [x]) xs then info_at n (drop (length (ns @ [x])) xs)
        else info_at (tb_root t2) xs)" for xs
      using put(1) [where xs = xs] slot n' res(2) by simp
    have "watched_at (tb_root t') xs \<noteq> None" if xs: "prefix xs (ns @ [x])" for xs
    proof (cases "xs = ns @ [x]")
      case True
      then show ?thesis using info [of xs] by (auto simp: watched_at_info n'(1) info_at_Node)
    next
      case False
      then have "prefix xs ns" "\<not> prefix (ns @ [x]) xs" using xs prefix_order.antisym [OF xs] by auto
      then show ?thesis using info [of xs] root2 [OF xs] watched_at_cong [of "tb_root t'" xs "tb_root t"] t(2)
        by (auto simp: watched_to_def)
    qed
    moreover have "in_place wd t'"
    proof -
      have "w' = wd (names q)" if "tb_by_wd t' w' = Some q" for w' q
      proof (cases "w' = ?w")
        case True
        then show ?thesis using that put(2) slot n' res(2) by (force simp: map_le_def)
      next
        case False
        then have "tb_by_wd t2 w' = Some q" using that put(2) slot n' res(2) by (force simp: map_le_def)
        then have "tb_by_wd t w' = Some q" using le2 by (force simp: map_le_def)
        then show ?thesis using t(1) by (simp add: in_place_def)
      qed
      then show ?thesis using ok' by (simp add: in_place_def)
    qed
    ultimately show ?thesis using res(1) by (simp add: watched_to_def)
  qed
qed

lemma asks_eq: "asks f t = (fst (f (tb_sys t)), t\<lparr>tb_sys := snd (f (tb_sys t))\<rparr>)"
  by (simp add: asks_def split_beta)

lemma steady_asks:
  assumes "steady k at wd"
  shows "\<exists>d s. asks (mk_open k p) t = (Ok d, t\<lparr>tb_sys := s\<rparr>) \<and> at d = names p"
    "\<exists>c s. asks (mk_open_child k d x) t = (Ok c, t\<lparr>tb_sys := s\<rparr>) \<and> at c = at d @ [x]"
    "\<exists>s. asks (mk_add k d) t = (Ok (wd (at d)), t\<lparr>tb_sys := s\<rparr>)"
proof -
  have k: "\<exists>d. fst (mk_open k p (tb_sys t)) = Ok d \<and> at d = names p"
    "\<exists>c. fst (mk_open_child k d x (tb_sys t)) = Ok c \<and> at c = at d @ [x]"
    "fst (mk_add k d (tb_sys t)) = Ok (wd (at d))"
    using assms by (simp_all add: steady_def)
  show "\<exists>d s. asks (mk_open k p) t = (Ok d, t\<lparr>tb_sys := s\<rparr>) \<and> at d = names p"
    "\<exists>c s. asks (mk_open_child k d x) t = (Ok c, t\<lparr>tb_sys := s\<rparr>) \<and> at c = at d @ [x]"
    "\<exists>s. asks (mk_add k d) t = (Ok (wd (at d)), t\<lparr>tb_sys := s\<rparr>)"
    using k by (auto simp: asks_eq)
qed

lemma in_place_sys [simp]: "in_place wd (t\<lparr>tb_sys := s\<rparr>) = in_place wd t" "watched_to (t\<lparr>tb_sys := s\<rparr>) ns = watched_to t ns"
  by (simp_all add: in_place_def watched_to_def)

lemma extend_from_steady:
  assumes "in_place wd t" "watched_to t ns" "steady k at wd" "byte_len (Path (ns @ xs)) \<le> PATH_MAX" "at dir = ns"
  shows "in_place wd (extend_from k ns xs dir now t) \<and> watched_to (extend_from k ns xs dir now t) (ns @ xs)"
  using assms
proof (induction xs arbitrary: ns dir t)
  case (Cons x xs)
  obtain c s1 where c: "asks (mk_open_child k dir x) t = (Ok c, t\<lparr>tb_sys := s1\<rparr>)" "at c = ns @ [x]"
    using steady_asks(2) [OF Cons.prems(3), of dir x t] Cons.prems(5) by auto
  let ?t1 = "t\<lparr>tb_sys := s1\<rparr>"
  obtain s2 where a: "asks (mk_add k c) ?t1 = (Ok (wd (ns @ [x])), ?t1\<lparr>tb_sys := s2\<rparr>)"
    using steady_asks(3) [OF Cons.prems(3), of c ?t1] c(2) by auto
  let ?t2 = "?t1\<lparr>tb_sys := s2\<rparr>"
  obtain r t3 where r: "place k (Path (ns @ [x])) (wd (ns @ [x])) now ?t2 = (r, t3)"
    by (cases "place k (Path (ns @ [x])) (wd (ns @ [x])) now ?t2")
  have i: "install k (Path (ns @ [x])) c now ?t1 = (r, t3)" using a r by (simp add: install_def)
  have "byte_len (Path (ns @ [x])) \<le> PATH_MAX" using Cons.prems(4) byte_len_append [of "ns @ [x]" xs] by simp
  from place_steady [where wd = wd, OF _ _ _ this r] have "r" "in_place wd t3" "watched_to t3 (ns @ [x])"
    using Cons.prems(1-3) by (simp_all add: steady_def)
  then show ?case using c i Cons.IH [of t3 "ns @ [x]" c] Cons.prems(3,4) by simp
qed simp

lemma extend_steady:
  assumes t: "in_place wd t" "watched_to t (take depth ns)" and k: "steady k at wd"
    and len: "byte_len (Path ns) \<le> PATH_MAX"
  shows "in_place wd (extend_watch k ns depth now t) \<and> watched_to (extend_watch k ns depth now t) ns"
proof -
  let ?p = "Path (take depth ns)"
  obtain d s1 where d: "asks (mk_open k ?p) t = (Ok d, t\<lparr>tb_sys := s1\<rparr>)" "at d = take depth ns"
    using steady_asks(1) [OF k, of ?p t] by auto
  let ?t1 = "t\<lparr>tb_sys := s1\<rparr>"
  obtain s2 where a: "asks (mk_add k d) ?t1 = (Ok (wd (take depth ns)), ?t1\<lparr>tb_sys := s2\<rparr>)"
    using steady_asks(3) [OF k, of d ?t1] d(2) by auto
  obtain w where w: "watched_at (tb_root t) (take depth ns) = Some w" using t(2) by (auto simp: watched_to_def)
  have "tb_by_wd t w = Some ?p" using w t(1) watch_ok_exact [of t w ?p] by (simp add: in_place_def)
  then have "w = wd (take depth ns)" using in_placeD [OF t(1)] by fastforce
  moreover have "map_option n_state (node ?t1 ?p) = Some (Watched w)"
    using w by (auto simp: node_def watched_at_def split: option.splits watch_state.splits)
  ultimately have "verify k ?p d now ?t1 = (True, ?t1\<lparr>tb_sys := s2\<rparr>)" using a by (auto simp: verify_def)
  then show ?thesis
    using d extend_from_steady [of wd "t\<lparr>tb_sys := _\<rparr>" "take depth ns" k at "drop depth ns" d now] t k len
    by (cases "depth = 0") (simp_all add: extend_watch_def)
qed

lemma watched_at_root: "watched_at n [] = None \<longleftrightarrow> \<not> is_watched n"
  by (simp add: watched_at_def is_watched_def split: watch_state.split)

lemma watched_to_Cons:
  "(\<forall>xs. prefix xs (y # ys) \<longrightarrow> watched_at n xs \<noteq> None) \<longleftrightarrow> is_watched n \<and>
     (\<exists>c. map_of (n_children n) y = Some c \<and> (\<forall>xs. prefix xs ys \<longrightarrow> watched_at c xs \<noteq> None))"
proof
  assume all: "\<forall>xs. prefix xs (y # ys) \<longrightarrow> watched_at n xs \<noteq> None"
  then have "watched_at n [] \<noteq> None" "watched_at n [y] \<noteq> None" by simp_all
  moreover from this(2) obtain c where c: "map_of (n_children n) y = Some c" by (auto simp: watched_at_Cons split: option.splits)
  moreover have "watched_at c xs \<noteq> None" if "prefix xs ys" for xs
    using all [rule_format, of "y # xs"] that c by (simp add: watched_at_Cons)
  ultimately show "is_watched n \<and> (\<exists>c. map_of (n_children n) y = Some c \<and> (\<forall>xs. prefix xs ys \<longrightarrow> watched_at c xs \<noteq> None))"
    by (auto simp: watched_at_root)
next
  assume r: "is_watched n \<and> (\<exists>c. map_of (n_children n) y = Some c \<and> (\<forall>xs. prefix xs ys \<longrightarrow> watched_at c xs \<noteq> None))"
  show "\<forall>xs. prefix xs (y # ys) \<longrightarrow> watched_at n xs \<noteq> None"
  proof (intro allI impI)
    fix xs
    assume "prefix xs (y # ys)"
    then show "watched_at n xs \<noteq> None" using r by (cases xs) (auto simp: watched_at_root watched_at_Cons)
  qed
qed

lemma deepest_watched_to:
  "(\<forall>xs. prefix xs ns \<longrightarrow> watched_at n xs \<noteq> None) \<Longrightarrow> node_at n ns = Some (deepest_watched n ns)"
proof (induction ns arbitrary: n)
  case (Cons y ys)
  then obtain c where c: "map_of (n_children n) y = Some c" "\<forall>xs. prefix xs ys \<longrightarrow> watched_at c xs \<noteq> None"
    unfolding watched_to_Cons by blast
  then have "is_watched c" using watched_at_root [of c] by (metis Nil_prefix)
  then show ?case using c Cons.IH [of c] by simp
qed simp

lemma watched_depth_to:
  "is_watched n \<Longrightarrow> prefix xs (take (watched_depth n ns) ns) \<Longrightarrow> watched_at n xs \<noteq> None"
proof (induction n ns arbitrary: xs rule: watched_depth.induct)
  case (2 n y ys)
  show ?case
  proof (cases xs)
    case Nil
    then show ?thesis using "2.prems"(1) by (simp add: watched_at_root)
  next
    case (Cons z zs)
    then show ?thesis using "2.prems" "2.IH" by (auto simp: watched_at_Cons split: option.splits if_splits)
  qed
qed (simp add: watched_at_root)

text \<open>A failed watch that is not yet due to be tried again.\<close>

definition waits_at :: "'w node \<Rightarrow> nat \<Rightarrow> name list \<Rightarrow> bool" where
  "waits_at n now xs \<longleftrightarrow> (\<exists>u m. info_at n xs = Some (Unwatchable u, m) \<and> now < u)"

lemma waits_at_Cons: "waits_at n now (x # xs) \<longleftrightarrow> (\<exists>c. map_of (n_children n) x = Some c \<and> waits_at c now xs)"
  by (cases n) (auto simp: waits_at_def info_at_Node split: option.splits)

lemma touch_from_done:
  assumes "touch_from now n ns t = (TouchDone r, t1)" "\<forall>xs. prefix xs ns \<longrightarrow> \<not> waits_at n now xs" "is_watched n"
  shows "(\<forall>xs. prefix xs ns \<longrightarrow> watched_at n xs \<noteq> None) \<and>
    r = Some (n_mark (deepest_watched n ns)) \<and> tb_holds t1 (n_mark (deepest_watched n ns)) = tb_holds t (n_mark (deepest_watched n ns)) + 1"
  using assms
proof (induction now n ns t rule: touch_from.induct)
  case (1 now n t)
  then show ?case by (auto simp: watched_at_root hold_def)
next
  case (2 now n x xs t)
  from "2.prems"(1) obtain c where c: "map_of (n_children n) x = Some c" by (auto split: option.splits)
  have below: "\<not> waits_at c now ys" if "prefix ys xs" for ys
    using "2.prems"(2) [rule_format, of "x # ys"] that c by (simp add: waits_at_Cons)
  show ?case
  proof (cases "n_state c")
    case (Watched w)
    then have "is_watched c" by (simp add: is_watched_def)
    then show ?thesis
      using "2.IH" [OF c Watched] "2.prems"(1,3) below c Watched unfolding watched_to_Cons by (simp add: stamp_def)
  next
    case (Unwatchable u)
    have "info_at c [] = Some (Unwatchable u, n_mark c)" using Unwatchable by (cases c) (simp add: info_at_Node)
    then have "\<not> now < u" using below [of "[]"] by (auto simp: waits_at_def)
    then show ?thesis using "2.prems"(1) c Unwatchable by simp
  qed
qed

lemma arm_steady:
  assumes t: "in_place wd t" "\<not> tb_dead t" and k: "steady k at wd" and len: "byte_len dir \<le> PATH_MAX"
    and waits: "\<forall>xs. prefix xs (names dir) \<longrightarrow> \<not> waits_at (tb_root t) now xs" and arm: "arm k dir now t = (r, t')"
  shows "watched_to t' (names dir) \<and>
    (\<exists>n. node t' dir = Some n \<and> r = Some (n_mark n) \<and> tb_holds t' (n_mark n) > 0)"
proof -
  have root: "is_watched (tb_root t)" using t(1) by (simp add: in_place_def watch_ok_def)
  obtain a t1 where a: "touch_from now (tb_root t) (names dir) t = (a, t1)" by (cases "touch_from now (tb_root t) (names dir) t")
  obtain u h where t1: "t1 = t\<lparr>tb_used := u, tb_holds := h\<rparr>" using touch_from_effect [OF a] by blast
  show ?thesis
  proof (cases a)
    case (TouchDone held)
    then have "r = held" "t' = t1" using arm a t(2) by (simp_all add: arm_def touch_def)
    then show ?thesis
      using touch_from_done [OF a [unfolded TouchDone] waits root] deepest_watched_to [of "names dir" "tb_root t"]
      by (auto simp: t1 watched_to_def node_def)
  next
    case TouchMissing
    let ?depth = "watched_depth (tb_root t) (names dir)"
    define t2 where "t2 = extend_watch k (names dir) ?depth now t1"
    have "in_place wd t1" using t(1) by (simp add: t1 in_place_def watch_ok_def tracked_def)
    moreover have "watched_to t1 (take ?depth (names dir))"
      using watched_depth_to [OF root] by (simp add: watched_to_def t1)
    ultimately have t2: "watched_to t2 (names dir)"
      using extend_steady [OF _ _ k] len unfolding t2_def by (cases dir) simp
    have "r = Some (n_mark (deepest_watched (tb_root t2) (names dir)))" "t' = hold (n_mark (deepest_watched (tb_root t2) (names dir))) t2"
      using arm a t(2) TouchMissing by (auto simp: arm_def touch_def Let_def t2_def t1)
    then show ?thesis
      using t2 deepest_watched_to [of "names dir" "tb_root t2"] by (simp add: watched_to_def node_def hold_def)
  qed
qed

subsection \<open>What the table promises\<close>

text \<open>
  A system to run: descriptors are the paths of the directories, and its state says whether anything but the
  root can be opened.
\<close>

definition system_of :: "(bool \<Rightarrow> bool) \<Rightarrow> (name list, name list, bool) marks" where
  "system_of up =
     \<lparr>mk_open = (\<lambda>p s. (if up s \<or> names p = [] then Ok (names p) else Err ENOENT, s)),
      mk_open_child = (\<lambda>d x s. (if up s then Ok (d @ [x]) else Err ENOENT, s)),
      mk_add = (\<lambda>d s. (Ok d, s)), mk_rm = (\<lambda>_ s. s)\<rparr>"

lemma system_of_sel [simp]:
  "mk_open (system_of up) p s = (if up s \<or> names p = [] then Ok (names p) else Err ENOENT, s)"
  "mk_open_child (system_of up) d x s = (if up s then Ok (d @ [x]) else Err ENOENT, s)"
  "mk_add (system_of up) d s = (Ok d, s)" "mk_rm (system_of up) d s = s"
  by (simp_all add: system_of_def)

lemma system_steady: "steady (system_of (\<lambda>_. True)) (\<lambda>d. d) (\<lambda>ns. ns)"
  by (simp add: steady_def)

definition first_table :: "(name list, bool) table" where
  "first_table = \<lparr>tb_root = Node (Watched []) 0 [], tb_by_wd = [[] \<mapsto> path_root], tb_watched = 0,
      tb_budget = 2, tb_capped = None, tb_round = 0, tb_dead = False, tb_used = (\<lambda>_. 0), tb_holds = (\<lambda>_. 0),
      tb_fresh = 1, tb_sys = True, tb_out = []\<rparr>"

lemma first_init: "watch_init (system_of up) first_table"
  by (auto simp: watch_init_def table_new_def first_table_def path_root_def bind_res_def intro!: exI [of _ 2] exI [of _ True])

abbreviation dir_a :: name where
  "dir_a \<equiv> Name [97]"

abbreviation dir_b :: name where
  "dir_b \<equiv> Name [98]"

text \<open>The table once \<open>a\<close> is watched.\<close>

definition a_table :: "(bool \<Rightarrow> bool) \<Rightarrow> (name list, bool) table" where
  "a_table up = snd (arm (system_of up) (Path [dir_a]) 0 first_table)"

lemma a_table_reach: "reach (watch_init (system_of up)) (watch_step (system_of up)) (a_table up)"
  unfolding a_table_def
  by (rule reach_step, rule reach_init, rule first_init, rule WatchArm) (simp add: byte_len_def PATH_MAX_def)

lemma a_table_eq:
  "up True \<Longrightarrow> a_table up = first_table\<lparr>tb_root := Node (Watched []) 0 [(dir_a, Node (Watched [dir_a]) 1 [])],
     tb_by_wd := [[] \<mapsto> path_root, [dir_a] \<mapsto> Path [dir_a]], tb_watched := 1, tb_holds := (\<lambda>_. 0)(1 := 1),
     tb_fresh := 2, tb_used := (\<lambda>_. 0)(1 := 0)\<rparr>"
  by (simp add: a_table_def arm_def touch_def first_table_def extend_watch_def asks_def path_root_def install_def place_def
      budget_at_def new_node_def put_def split_last_def node_def hold_def is_watched_def)

lemmas a_table_sel = a_table_eq first_table_def



text \<open>
  C26. Making room drops no directory on the way to the one it is made for, and none that a request or an
  open handle holds, reached through watched directories; and every descriptor that is let go has
  its directory announced as unwatched, so that clients stop trusting what they know of it.
\<close>

theorem eviction_spares_and_tells:
  assumes "reach (watch_init k) (watch_step k) t" "\<not> tb_dead t"
  shows "let t' = evict k keep now t in
    (spared (names keep) t ns \<longrightarrow> info_at (tb_root t') ns = info_at (tb_root t) ns) \<and>
    (tb_by_wd t w = Some p \<longrightarrow> tb_by_wd t' w = Some p \<or> tb_by_wd t' w = None \<and> Unwatched p \<in> set (tb_out t'))"
proof -
  have "watch_ok {#} t" using watch_sys.inv_reach [of k t] assms by (simp add: watch_inv_def)
  note ev = evict_effect [OF this, where k = k and keep = keep and now = now]
  show ?thesis using ev(5) announcesD [OF ev(2), of w p] by (simp add: Let_def)
qed

text \<open>Held, \<open>a\<close> stays; once its guard is dropped it goes, with a notice.\<close>

theorem eviction_spares_and_tells_witness:
  "(let k = system_of (\<lambda>_. True); t = a_table (\<lambda>_. True); t1 = armed_drop 1 t in
     info_at (tb_root (evict k (Path [dir_b]) 0 t)) [dir_a] = Some (Watched [dir_a], 1) \<and>
     tb_by_wd (evict k (Path [dir_b]) 0 t1) [dir_a] = None \<and>
     Unwatched (Path [dir_a]) \<in> set (tb_out (evict k (Path [dir_b]) 0 t1)))"
proof -
  let ?k = "system_of (\<lambda>_. True)" and ?t = "a_table (\<lambda>_. True)"
  let ?t1 = "armed_drop 1 ?t"
  have r: "reach (watch_init ?k) (watch_step ?k) ?t1" by (rule reach_step [OF a_table_reach WatchDrop])
  have alive: "\<not> tb_dead ?t" "\<not> tb_dead ?t1" by (simp_all add: a_table_sel armed_drop_def)
  have "watched_at (tb_root ?t) xs \<noteq> None" if "prefix xs [dir_a]" for xs
    using that by (auto simp: a_table_sel watched_at_def prefix_Cons)
  then have "spared [dir_b] ?t [dir_a]" by (simp add: spared_def a_table_sel)
  then have "info_at (tb_root (evict ?k (Path [dir_b]) 0 ?t)) [dir_a] = info_at (tb_root ?t) [dir_a]"
    using eviction_spares_and_tells [OF a_table_reach alive(1), where keep = "Path [dir_b]" and ns = "[dir_a]" and now = 0]
    by (simp add: Let_def)
  moreover have "info_at (tb_root ?t) [dir_a] = Some (Watched [dir_a], 1)" by (simp add: a_table_sel info_at_Node)
  moreover have "tb_by_wd (evict ?k (Path [dir_b]) 0 ?t1) [dir_a] = None"
    by (simp add: a_table_sel armed_drop_def evict_def budget_at_def evict_loop.simps leaves_of_def evict_one_def detach_def
        split_last_def drop_watch_def node_def)
  ultimately show ?thesis
    using eviction_spares_and_tells [OF r alive(2), where keep = "Path [dir_b]" and w = "[dir_a]" and p = "Path [dir_a]" and now = 0]
    by (simp add: Let_def a_table_sel armed_drop_def)
qed

text \<open>
  C25. While the file system stands still and there are watches to give, having a directory watched works: every
  directory down to it is watched, and what the request gets is the guard of that directory itself,
  held, unless a watch on the way has failed within the last minute.
\<close>

theorem arm_watches:
  assumes "in_place wd t" "\<not> tb_dead t" "steady k at wd" "byte_len dir \<le> PATH_MAX"
    and "\<forall>xs. prefix xs (names dir) \<longrightarrow> \<not> waits_at (tb_root t) now xs"
  shows "case arm k dir now t of (r, t') \<Rightarrow>
    watched_to t' (names dir) \<and> (\<exists>n. node t' dir = Some n \<and> r = Some (n_mark n) \<and> tb_holds t' (n_mark n) > 0)"
  using arm_steady [OF assms] by (cases "arm k dir now t") simp

theorem arm_watches_witness:
  "(let (r, t') = arm (system_of (\<lambda>_. True)) (Path [dir_a, dir_b]) 0 (a_table (\<lambda>_. True)) in
      watched_at (tb_root t') [dir_a, dir_b] \<noteq> None \<and> r \<noteq> None)"
proof -
  let ?k = "system_of (\<lambda>_. True)" and ?t = "a_table (\<lambda>_. True)"
  have alive: "\<not> tb_dead ?t" by (simp add: a_table_sel)
  have "watch_ok {#} ?t" using watch_sys.inv_reach [OF a_table_reach [of "\<lambda>_. True"]] alive by (simp add: watch_inv_def)
  then have "in_place (\<lambda>ns. ns) ?t" by (auto simp: in_place_def a_table_sel path_root_def split: if_splits)
  moreover have "byte_len (Path [dir_a, dir_b]) \<le> PATH_MAX" by (simp add: byte_len_def PATH_MAX_def)
  moreover have "\<not> waits_at (tb_root ?t) 0 xs" if "prefix xs [dir_a, dir_b]" for xs
    using that by (auto simp: a_table_sel waits_at_def info_at_Node prefix_Cons)
  ultimately show ?thesis
    using arm_watches [OF _ alive system_steady, of "Path [dir_a, dir_b]" 0] by (auto simp: watched_to_def split: prod.splits)
qed

subsection \<open>A batch the table gets wrong\<close>

text \<open>
  A directory moves away and the root's watch ends in the same batch: \<open>die\<close> sets the count to nothing,
  and dropping what was on the move then takes one from it.
\<close>

abbreviation ev :: "name list \<Rightarrow> u32 \<Rightarrow> u32 \<Rightarrow> name \<Rightarrow> name list raw_event" where
  "ev w m c x \<equiv> \<lparr>re_wd = w, re_mask = m, re_cookie = c, re_name = Some (as_bytes x)\<rparr>"

lemma names_ab [simp]: "name_new [97] = Ok dir_a" "name_new [98] = Ok dir_b"
  "join (Path []) dir_a = Ok (Path [dir_a])" "join (Path []) dir_b = Ok (Path [dir_b])"
  by (simp_all add: name_new_def NAME_MAX_def slash_def dot_def join_def from_names_def byte_len_def PATH_MAX_def)

lemmas event_defs = apply_event_def contains_def intersects_def IN_MOVED_FROM_def IN_MOVED_TO_def IN_ISDIR_def IN_IGNORED_def
  IN_Q_OVERFLOW_def IN_UNMOUNT_def IN_DELETE_SELF_def IN_MOVE_SELF_def report_def path_root_def is_root_def
  dir_event_def still_there_def detach_def drop_moving_def drop_watch_def die_def node_def asks_def split_last_def

lemma count_below_zero:
  "\<exists>t. reach (watch_init (system_of (\<lambda>s. s))) (watch_step (system_of (\<lambda>s. s))) t \<and> tb_watched t = - 1"
proof (intro exI conjI)
  let ?k = "system_of (\<lambda>s. s)"
  let ?es = "[ev [] (IN_MOVED_FROM OR IN_ISDIR) 7 dir_a, \<lparr>re_wd = [], re_mask = IN_IGNORED, re_cookie = 0, re_name = None\<rparr>]"
  let ?t = "(a_table (\<lambda>s. s))\<lparr>tb_sys := False\<rparr>"
  have "reach (watch_init ?k) (watch_step ?k) ?t" by (rule reach_step [OF a_table_reach WatchSystem])
  then show "reach (watch_init ?k) (watch_step ?k) (apply_events ?k ?es [] ?t)"
    by (rule reach_step, intro WatchApply) (simp add: first_halves_def contains_def IN_MOVED_FROM_def IN_IGNORED_def)
  show "tb_watched (apply_events ?k ?es [] ?t) = - 1"
    by (simp add: a_table_sel event_defs)
qed

end
