(* ===== verification/Effects.thy ===== *)
theory Effects
  imports Prelude
begin

text \<open>
  Functions of a state that may fail and may never return, the shape of everything here that makes
  system calls or waits for a reply: the \<open>?\<close> operator over them, and rules that take one apart to show
  what it keeps of the state and what it returns.
\<close>

subsection \<open>Steps\<close>

type_synonym ('x, 'a, 'e) io = "'x \<Rightarrow> (('a, 'e) result \<times> 'x) option"

definition ret :: "'a \<Rightarrow> ('x, 'a, 'e) io" where
  "ret a x = Some (Ok a, x)"

definition fail :: "'e \<Rightarrow> ('x, 'a, 'e) io" where
  "fail e x = Some (Err e, x)"

text \<open>The \<open>?\<close> operator over the state.\<close>

definition bind_io :: "('x, 'a, 'e) io \<Rightarrow> ('a \<Rightarrow> ('x, 'b, 'e) io) \<Rightarrow> ('x, 'b, 'e) io" where
  "bind_io m f x = (case m x of
       None \<Rightarrow> None
     | Some (Inl e, y) \<Rightarrow> Some (Inl e, y)
     | Some (Inr a, y) \<Rightarrow> f a y)"

text \<open>The result of a step as a value, for a \<open>match\<close> on it.\<close>

definition outcome_of :: "('x, 'a, 'e) io \<Rightarrow> ('x, ('a, 'e) result, 'f) io" where
  "outcome_of m x = (case m x of None \<Rightarrow> None | Some (r, y) \<Rightarrow> Some (Ok r, y))"

text \<open>\<open>map_err\<close> and the conversions of errors a \<open>?\<close> makes.\<close>

definition err_io :: "('e \<Rightarrow> 'f) \<Rightarrow> ('x, 'a, 'e) io \<Rightarrow> ('x, 'a, 'f) io" where
  "err_io g m x = (case m x of None \<Rightarrow> None | Some (r, y) \<Rightarrow> Some (map_err g r, y))"

definition lift_res :: "('a, 'e) result \<Rightarrow> ('x, 'a, 'e) io" where
  "lift_res r x = Some (r, x)"

lemma bind_io_simps [simp]:
  "bind_io (ret a) f = f a" "bind_io (fail e) f = fail e"
  by (simp_all add: fun_eq_iff bind_io_def ret_def fail_def)

lemma bind_io_assoc: "bind_io (bind_io m f) g = bind_io m (\<lambda>a. bind_io (f a) g)"
  by (auto simp: fun_eq_iff bind_io_def split: option.split sum.split)

lemma bind_io_Some:
  "bind_io m f x = Some (r, y) \<longleftrightarrow>
     (\<exists>e. m x = Some (Err e, y) \<and> r = Err e) \<or> (\<exists>a z. m x = Some (Ok a, z) \<and> f a z = Some (r, y))"
  by (auto simp: bind_io_def split: option.splits sum.splits)

subsection \<open>What a function keeps\<close>

text \<open>
  A predicate on the state that a function keeps, whatever it returns; the rules take a function apart
  into its steps.
\<close>

definition keeps :: "('x \<Rightarrow> bool) \<Rightarrow> ('x, 'a, 'e) io \<Rightarrow> bool" where
  "keeps P m \<longleftrightarrow> (\<forall>x r y. P x \<longrightarrow> m x = Some (r, y) \<longrightarrow> P y)"

named_theorems keeps_intros \<open>what the functions of a state keep\<close>

lemma keepsD: "keeps P m \<Longrightarrow> P x \<Longrightarrow> m x = Some (r, y) \<Longrightarrow> P y"
  by (auto simp: keeps_def)

lemma keeps_ret [keeps_intros]: "keeps P (ret a)"
  by (simp add: keeps_def ret_def)

lemma keeps_fail [keeps_intros]: "keeps P (fail e)"
  by (simp add: keeps_def fail_def)

lemma keeps_lift_res [keeps_intros]: "keeps P (lift_res r)"
  by (simp add: keeps_def lift_res_def)

lemma keeps_bind [keeps_intros]: "keeps P m \<Longrightarrow> (\<And>a. keeps P (f a)) \<Longrightarrow> keeps P (bind_io m f)"
  unfolding keeps_def bind_io_Some by blast

lemma keeps_outcome [keeps_intros]: "keeps P m \<Longrightarrow> keeps P (outcome_of m)"
  by (auto simp: keeps_def outcome_of_def split: option.splits)

lemma keeps_err_io [keeps_intros]: "keeps P m \<Longrightarrow> keeps P (err_io g m)"
  by (auto simp: keeps_def err_io_def split: option.splits)

lemma keeps_if [keeps_intros]: "(b \<Longrightarrow> keeps P m) \<Longrightarrow> (\<not> b \<Longrightarrow> keeps P m') \<Longrightarrow> keeps P (if b then m else m')"
  by simp

lemma keeps_option [keeps_intros]:
  "(x = None \<Longrightarrow> keeps P m) \<Longrightarrow> (\<And>a. x = Some a \<Longrightarrow> keeps P (f a)) \<Longrightarrow> keeps P (case x of None \<Rightarrow> m | Some a \<Rightarrow> f a)"
  by (simp split: option.split)

lemma keeps_sum [keeps_intros]:
  "(\<And>e. r = Err e \<Longrightarrow> keeps P (g e)) \<Longrightarrow> (\<And>a. r = Ok a \<Longrightarrow> keeps P (f a)) \<Longrightarrow> keeps P (case r of Inl e \<Rightarrow> g e | Inr a \<Rightarrow> f a)"
  by (simp split: sum.split)

lemma keeps_prod [keeps_intros]: "(\<And>a b. z = (a, b) \<Longrightarrow> keeps P (f a b)) \<Longrightarrow> keeps P (case z of (a, b) \<Rightarrow> f a b)"
  by (simp split: prod.split)

lemma keeps_let [keeps_intros]: "(\<And>a. a = v \<Longrightarrow> keeps P (f a)) \<Longrightarrow> keeps P (Let v f)"
  by (simp add: Let_def)

subsection \<open>What a function returns\<close>

text \<open>A predicate every value a function returns satisfies.\<close>

definition yields :: "('a \<Rightarrow> bool) \<Rightarrow> ('x, 'a, 'e) io \<Rightarrow> bool" where
  "yields Q m \<longleftrightarrow> (\<forall>x a y. m x = Some (Ok a, y) \<longrightarrow> Q a)"

named_theorems yields_intros \<open>what the functions of a state return\<close>

lemma yieldsD: "yields Q m \<Longrightarrow> m x = Some (Ok a, y) \<Longrightarrow> Q a"
  by (auto simp: yields_def)

lemma yields_ret [yields_intros]: "Q a \<Longrightarrow> yields Q (ret a)"
  by (simp add: yields_def ret_def)

lemma yields_fail [yields_intros]: "yields Q (fail e)"
  by (simp add: yields_def fail_def)

lemma yields_bind: "yields R m \<Longrightarrow> (\<And>a. R a \<Longrightarrow> yields Q (f a)) \<Longrightarrow> yields Q (bind_io m f)"
  unfolding yields_def bind_io_Some by blast

lemma yields_after [yields_intros]: "(\<And>a. yields Q (f a)) \<Longrightarrow> yields Q (bind_io m f)"
  by (rule yields_bind [where R = "\<lambda>_. True"]) (auto simp: yields_def)

lemma yields_if [yields_intros]: "(b \<Longrightarrow> yields Q m) \<Longrightarrow> (\<not> b \<Longrightarrow> yields Q m') \<Longrightarrow> yields Q (if b then m else m')"
  by simp

lemma yields_sum [yields_intros]:
  "(\<And>e. r = Err e \<Longrightarrow> yields Q (g e)) \<Longrightarrow> (\<And>a. r = Ok a \<Longrightarrow> yields Q (f a)) \<Longrightarrow> yields Q (case r of Inl e \<Rightarrow> g e | Inr a \<Rightarrow> f a)"
  by (simp split: sum.split)

end
