(* ===== verification/Kernel.thy ===== *)
theory Kernel
  imports Messages Errno Effects
begin

text \<open>
  The system calls the server makes (\<open>export.rs\<close>, \<open>dirents.rs\<close>, \<open>ops.rs\<close> and \<open>watch.rs\<close> of
  \<open>crates/server/src\<close>), and what a function that makes them is: it takes the state of the system, may
  never return, and returns a result and the state it leaves.  The kernel is a parameter: for each kind
  of result, a function of the call and of a state it may change in any way.  The calls made so far are
  kept beside that state, so that theorems can speak of them.  Descriptors are closed when their owner
  goes; the closing is left out.
\<close>

unbundle bit_operations_syntax

type_synonym fd = nat

record file_time =
  ft_sec :: int
  ft_nsec :: int

text \<open>
  The calls and their arguments, by what they act on: a path under a directory's descriptor (empty for the
  descriptor itself), two of those, a path of its own, or a descriptor.
\<close>

datatype at_op =
    SysOpenat2 u32 u32 u64
  | SysStatx u32 u32
  | SysNameToHandleAt u32
  | SysFstatat u32
  | SysReadlinkat
  | SysMknodat u32 u32 u64
  | SysMkdirat u32
  | SysUnlinkat bool
  | SysSymlinkat "u8 list"
  | SysFchownat "u32 option" "u32 option" u32
  | SysUtimensat file_time file_time u32

datatype at2_op = SysRenameat2 u32 | SysLinkat u32

datatype path_op =
    SysOpen u32
  | SysListxattr nat
  | SysLlistxattr nat
  | SysGetxattr "u8 list" nat
  | SysSetxattr "u8 list" "u8 list" u32
  | SysRemovexattr "u8 list"
  | SysFaccessat u32 u32
  | SysChmod u32
  | SysInotifyAdd u32

datatype fd_op =
    SysFstatfs
  | SysPread u64 nat
  | SysPwrite u64 "u8 list"
  | SysFallocate u32 int int
  | SysLseek int nat
  | SysFsync
  | SysFdatasync
  | SysGetdents64 nat
  | SysDup
  | SysFchown "u32 option" "u32 option"
  | SysFchmod u32
  | SysFtruncate int
  | SysFutimens file_time file_time

datatype syscall =
    CallAt fd "u8 list" at_op
  | CallAt2 fd "u8 list" fd "u8 list" at2_op
  | CallPath "u8 list" path_op
  | CallFd fd fd_op
  | CallCopyFileRange fd int fd int nat
  | CallInotifyRm int

record statx =
  stx_mask :: u32
  stx_attributes :: u64
  stx_attributes_mask :: u64
  stx_ino :: u64
  stx_size :: u64
  stx_blocks :: u64
  stx_atime :: time_spec
  stx_mtime :: time_spec
  stx_ctime :: time_spec
  stx_mode :: u16
  stx_nlink :: u32
  stx_uid :: u32
  stx_gid :: u32
  stx_rdev_major :: u32
  stx_rdev_minor :: u32
  stx_dev_major :: u32
  stx_dev_minor :: u32
  stx_blksize :: u32
  stx_subvol :: u64

text \<open>\<open>statfs64\<close>, as far as it is read.\<close>

record statfs64 =
  f_blocks :: u64
  f_bfree :: u64
  f_bavail :: u64
  f_files :: u64
  f_ffree :: u64
  f_bsize :: u64
  f_namelen :: u64
  f_frsize :: u64
  f_type :: int

text \<open>The kernel, with \<open>makedev\<close> of the C library and the clock.\<close>

record 's kernel =
  k_unit :: "syscall \<Rightarrow> 's \<Rightarrow> (unit, errno) result \<times> 's"
  k_fd :: "syscall \<Rightarrow> 's \<Rightarrow> (fd, errno) result \<times> 's"
  k_num :: "syscall \<Rightarrow> 's \<Rightarrow> (int, errno) result \<times> 's"
  k_bytes :: "syscall \<Rightarrow> 's \<Rightarrow> (u8 list, errno) result \<times> 's"
  k_statx :: "syscall \<Rightarrow> 's \<Rightarrow> (statx, errno) result \<times> 's"
  k_handle :: "syscall \<Rightarrow> 's \<Rightarrow> (identity, errno) result \<times> 's"
  k_statfs :: "syscall \<Rightarrow> 's \<Rightarrow> (statfs64, errno) result \<times> 's"
  k_now :: "'s \<Rightarrow> nat"
  k_makedev :: "u32 \<Rightarrow> u32 \<Rightarrow> u64"

record 's world =
  w_sys :: 's
  w_trace :: "syscall list"

text \<open>One call.\<close>

definition call_sys :: "(syscall \<Rightarrow> 's \<Rightarrow> ('a, errno) result \<times> 's) \<Rightarrow> syscall \<Rightarrow> ('s world, 'a, errno) io" where
  "call_sys f c w = (let (r, s) = f c (w_sys w) in Some (r, \<lparr>w_sys = s, w_trace = w_trace w @ [c]\<rparr>))"

text \<open>Every call made so far is of a kind.\<close>

definition calls_all :: "(syscall \<Rightarrow> bool) \<Rightarrow> 's world \<Rightarrow> bool" where
  "calls_all ok w \<longleftrightarrow> list_all ok (w_trace w)"

lemma keeps_call [keeps_intros]: "ok c \<Longrightarrow> keeps (calls_all ok) (call_sys f c)"
  by (auto simp: keeps_def calls_all_def call_sys_def Let_def split_beta)

end
