(* ===== verification/Export.thy ===== *)
theory Export
  imports Kernel
begin

text \<open>
  The exported directory and how client paths become descriptors (\<open>crates/server/src/export.rs\<close>): the
  resolution of paths, and the attributes of a node.  Every function is its system calls, in their order.
  Log lines are left out.
\<close>

subsection \<open>Constants\<close>

definition AT_SYMLINK_NOFOLLOW :: u32 where "AT_SYMLINK_NOFOLLOW = 0x100"
definition AT_EACCESS :: u32 where "AT_EACCESS = 0x200"
definition AT_SYMLINK_FOLLOW :: u32 where "AT_SYMLINK_FOLLOW = 0x400"
definition AT_EMPTY_PATH :: u32 where "AT_EMPTY_PATH = 0x1000"
definition AT_STATX_SYNC_AS_STAT :: u32 where "AT_STATX_SYNC_AS_STAT = 0"
definition AT_HANDLE_FID :: u32 where "AT_HANDLE_FID = 0x200"
definition STATX_BASIC_STATS :: u32 where "STATX_BASIC_STATS = 0x7ff"
definition STATX_SUBVOL :: u32 where "STATX_SUBVOL = 0x8000"
definition STATX_ATTR_MOUNT_ROOT :: u64 where "STATX_ATTR_MOUNT_ROOT = 0x2000"

lemmas at_bits = AT_SYMLINK_NOFOLLOW_def AT_EACCESS_def AT_SYMLINK_FOLLOW_def AT_EMPTY_PATH_def
  AT_STATX_SYNC_AS_STAT_def AT_HANDLE_FID_def

text \<open>Beneath, no symlinks, no magic links, no other mount.\<close>

definition RESOLVE :: u64 where "RESOLVE = 0x08 OR 0x04 OR 0x02 OR 0x01"

definition XATTR_NAMES_MAX :: nat where "XATTR_NAMES_MAX = 1024"

subsection \<open>Subvolumes and file types\<close>

datatype subvol = SubvolId u64 | SubvolDev u32 u32

definition subvol_of :: "statx \<Rightarrow> subvol" where
  "subvol_of st =
     (if stx_mask st AND STATX_SUBVOL = 0 then SubvolDev (stx_dev_major st) (stx_dev_minor st)
      else SubvolId (stx_subvol st))"

definition kind_from_mode :: "u32 \<Rightarrow> file_kind option" where
  "kind_from_mode mode =
     (let t = mode AND S_IFMT
      in if t = S_IFREG then Some Regular
         else if t = S_IFDIR then Some Directory
         else if t = S_IFLNK then Some Symlink
         else if t = S_IFIFO then Some Fifo
         else if t = S_IFSOCK then Some Socket
         else if t = S_IFCHR then Some CharDevice
         else if t = S_IFBLK then Some BlockDevice
         else None)"

subsection \<open>Calls on a node\<close>

text \<open>\<open>format!("{}")\<close> of a descriptor.\<close>

fun decimal :: "nat \<Rightarrow> u8 list" where
  "decimal n = (if n < 10 then [] else decimal (n div 10)) @ [word_of_nat (48 + n mod 10)]"

declare decimal.simps [simp del]

definition proc_path :: "fd \<Rightarrow> u8 list" where
  "proc_path d = bytes ''/proc/self/fd/'' @ decimal d"

definition file_handle :: "'s kernel \<Rightarrow> fd \<Rightarrow> u8 list \<Rightarrow> u32 \<Rightarrow> ('s world, identity, errno) io" where
  "file_handle k dir p flags = call_sys (k_handle k) (CallAt dir p (SysNameToHandleAt flags))"

definition statx :: "'s kernel \<Rightarrow> fd \<Rightarrow> u8 list \<Rightarrow> u32 \<Rightarrow> ('s world, statx, errno) io" where
  "statx k dir p flags =
     call_sys (k_statx k) (CallAt dir p (SysStatx (flags OR AT_STATX_SYNC_AS_STAT) (STATX_BASIC_STATS OR STATX_SUBVOL)))"

text \<open>\<open>split(|b| *b == 0)\<close>.\<close>

fun split_nul :: "u8 list \<Rightarrow> u8 list list" where
  "split_nul [] = [[]]"
| "split_nul (b # bs) =
     (if b = 0 then [] # split_nul bs
      else (case split_nul bs of [] \<Rightarrow> [[b]] | c # cs \<Rightarrow> (b # c) # cs))"

definition xattr_names_by_path :: "'s kernel \<Rightarrow> u8 list \<Rightarrow> (nat \<Rightarrow> path_op) \<Rightarrow> ('s world, u8 list list option, errno) io" where
  "xattr_names_by_path k p op =
     bind_io (outcome_of (call_sys (k_bytes k) (CallPath p (op XATTR_NAMES_MAX)))) (\<lambda>got.
       case got of
         Inl _ \<Rightarrow> ret None
       | Inr buf \<Rightarrow> ret (Some (filter (\<lambda>n. n \<noteq> []) (split_nul buf))))"

definition xattr_names :: "'s kernel \<Rightarrow> fd \<Rightarrow> ('s world, u8 list list option, errno) io" where
  "xattr_names k d = xattr_names_by_path k (proc_path d) SysListxattr"

definition xattr_names_at :: "'s kernel \<Rightarrow> fd \<Rightarrow> name \<Rightarrow> ('s world, u8 list list option, errno) io" where
  "xattr_names_at k dir n = xattr_names_by_path k (proc_path dir @ slash # as_bytes n) SysLlistxattr"

subsection \<open>The export\<close>

record export =
  ex_root :: fd
  ex_root_ino :: u64
  ex_root_identity :: identity
  ex_root_subvol :: subvol
  ex_handle_flags :: u32

definition root_key :: "export \<Rightarrow> u64 \<times> identity" where
  "root_key ex = (ex_root_ino ex, ex_root_identity ex)"

definition openat2 :: "'s kernel \<Rightarrow> fd \<Rightarrow> u8 list \<Rightarrow> u32 \<Rightarrow> u32 \<Rightarrow> ('s world, fd, errno) io" where
  "openat2 k dir p flags mode = call_sys (k_fd k) (CallAt dir p (SysOpenat2 flags mode RESOLVE))"

definition openat2_root :: "'s kernel \<Rightarrow> export \<Rightarrow> path \<Rightarrow> u32 \<Rightarrow> u32 \<Rightarrow> ('s world, fd, errno) io" where
  "openat2_root k ex p flags mode =
     (let joined = to_os_string p; rel = (if joined = [] then [dot] else joined)
      in openat2 k (ex_root ex) rel (flags OR O_CLOEXEC) mode)"

definition resolve :: "'s kernel \<Rightarrow> export \<Rightarrow> path \<Rightarrow> ('s world, fd, errno) io" where
  "resolve k ex p = openat2_root k ex p (O_PATH OR O_NOFOLLOW) 0"

definition resolve_dir :: "'s kernel \<Rightarrow> export \<Rightarrow> path \<Rightarrow> ('s world, fd, errno) io" where
  "resolve_dir k ex p = openat2_root k ex p (O_PATH OR O_DIRECTORY OR O_NOFOLLOW) 0"

definition resolve_dir_in :: "'s kernel \<Rightarrow> fd \<Rightarrow> name \<Rightarrow> ('s world, fd, errno) io" where
  "resolve_dir_in k parent n = openat2 k parent (as_bytes n) (O_PATH OR O_DIRECTORY OR O_NOFOLLOW OR O_CLOEXEC) 0"

definition resolve_parent :: "'s kernel \<Rightarrow> export \<Rightarrow> path \<Rightarrow> ('s world, fd \<times> name, errno) io" where
  "resolve_parent k ex p =
     (case split_last p of
        None \<Rightarrow> fail EPERM
      | Some (parent, n) \<Rightarrow> bind_io (resolve_dir k ex parent) (\<lambda>d. ret (d, n)))"

definition open_node :: "'s kernel \<Rightarrow> export \<Rightarrow> path \<Rightarrow> u32 \<Rightarrow> ('s world, fd, errno) io" where
  "open_node k ex p flags = openat2_root k ex p (flags OR O_NOFOLLOW OR O_NONBLOCK) 0"

definition open_in :: "'s kernel \<Rightarrow> export \<Rightarrow> path \<Rightarrow> name \<Rightarrow> u32 \<Rightarrow> u32 \<Rightarrow> ('s world, fd, errno) io" where
  "open_in k ex parent n flags mode =
     bind_io (resolve_dir k ex parent) (\<lambda>dir.
       openat2 k dir (as_bytes n) (flags OR O_NOFOLLOW OR O_NONBLOCK OR O_CLOEXEC) mode)"

definition attr_from_statx :: "'s kernel \<Rightarrow> export \<Rightarrow> statx \<Rightarrow> identity \<Rightarrow> u8 list list option \<Rightarrow> (attr, errno) result" where
  "attr_from_statx k ex st identity xattrs =
     (case kind_from_mode (ucast (stx_mode st)) of
        None \<Rightarrow> Err EIO
      | Some kind \<Rightarrow> Ok
          \<lparr>attr_ino = stx_ino st, attr_size = stx_size st, attr_blocks = stx_blocks st,
            attr_atime = stx_atime st, attr_mtime = stx_mtime st, attr_ctime = stx_ctime st,
            attr_kind = kind, attr_perm = stx_mode st AND 0xfff, attr_nlink = stx_nlink st,
            attr_uid = stx_uid st, attr_gid = stx_gid st,
            attr_rdev = k_makedev k (stx_rdev_major st) (stx_rdev_minor st), attr_blksize = stx_blksize st,
            attr_xattr_names = xattrs, attr_identity = identity,
            attr_foreign = (subvol_of st \<noteq> ex_root_subvol ex)\<rparr>)"

definition attr_of :: "'s kernel \<Rightarrow> export \<Rightarrow> fd \<Rightarrow> ('s world, attr, errno) io" where
  "attr_of k ex d =
     bind_io (statx k d [] (AT_EMPTY_PATH OR AT_SYMLINK_NOFOLLOW)) (\<lambda>st.
     bind_io (file_handle k d [] (ex_handle_flags ex OR AT_EMPTY_PATH)) (\<lambda>identity.
     bind_io (xattr_names k d) (\<lambda>xattrs.
     lift_res (attr_from_statx k ex st identity xattrs))))"

definition attr_in :: "'s kernel \<Rightarrow> export \<Rightarrow> fd \<Rightarrow> name \<Rightarrow> ('s world, attr, errno) io" where
  "attr_in k ex dir n =
     bind_io (openat2 k dir (as_bytes n) (O_PATH OR O_NOFOLLOW OR O_CLOEXEC) 0) (\<lambda>node. attr_of k ex node)"

definition attr_entry :: "'s kernel \<Rightarrow> export \<Rightarrow> fd \<Rightarrow> name \<Rightarrow> ('s world, attr, errno) io" where
  "attr_entry k ex dir n =
     bind_io (file_handle k dir (as_bytes n) (ex_handle_flags ex)) (\<lambda>identity.
     bind_io (statx k dir (as_bytes n) AT_SYMLINK_NOFOLLOW) (\<lambda>st.
     if stx_attributes st AND STATX_ATTR_MOUNT_ROOT \<noteq> 0 then fail EXDEV
     else bind_io (file_handle k dir (as_bytes n) (ex_handle_flags ex)) (\<lambda>again.
     if again \<noteq> identity then fail ENOENT
     else bind_io (xattr_names_at k dir n) (\<lambda>xattrs.
     lift_res (attr_from_statx k ex st identity xattrs)))))"

text \<open>\<open>Export::open\<close>, with its errors by what failed.\<close>

datatype error_export =
    OpeningRoot errno
  | StatxOfRoot errno
  | NoMountRoots
  | NoHandles errno
  | NoHandlesOldKernel errno
  | Openat2Probe errno

definition export_open :: "'s kernel \<Rightarrow> u8 list \<Rightarrow> ('s world, export, error_export) io" where
  "export_open k dir =
     bind_io (err_io OpeningRoot (call_sys (k_fd k) (CallPath dir (SysOpen (O_PATH OR O_DIRECTORY OR O_CLOEXEC))))) (\<lambda>root.
     bind_io (err_io StatxOfRoot (statx k root [] AT_EMPTY_PATH)) (\<lambda>st.
     if stx_attributes_mask st AND STATX_ATTR_MOUNT_ROOT = 0 then fail NoMountRoots
     else
       bind_io (outcome_of (file_handle k root [] (AT_HANDLE_FID OR AT_EMPTY_PATH))) (\<lambda>fid.
       bind_io
         (case fid of
            Inr identity \<Rightarrow> ret (AT_HANDLE_FID, identity)
          | Inl e \<Rightarrow>
              if e = EINVAL
              then bind_io (err_io NoHandlesOldKernel (file_handle k root [] AT_EMPTY_PATH)) (\<lambda>identity. ret (0, identity))
              else fail (NoHandles e)) (\<lambda>(handle_flags, root_identity).
       let export = \<lparr>ex_root = root, ex_root_ino = stx_ino st, ex_root_identity = root_identity,
                      ex_root_subvol = subvol_of st, ex_handle_flags = handle_flags\<rparr>
       in bind_io (err_io Openat2Probe (resolve k export path_root)) (\<lambda>_. ret export)))))"

definition FUSE_SUPER_MAGIC :: int where "FUSE_SUPER_MAGIC = 0x65735546"
definition OVERLAYFS_SUPER_MAGIC :: int where "OVERLAYFS_SUPER_MAGIC = 0x794c7630"

definition handles_are_stable :: "'s kernel \<Rightarrow> export \<Rightarrow> ('s world, bool, errno) io" where
  "handles_are_stable k ex =
     bind_io (call_sys (k_statfs k) (CallFd (ex_root ex) SysFstatfs)) (\<lambda>fs.
       ret (\<not> (f_type fs = FUSE_SUPER_MAGIC \<or> f_type fs = OVERLAYFS_SUPER_MAGIC)))"

end
