(* ===== verification/WatchService.thy ===== *)
theory WatchService
  imports WatchPromises Export
begin

text \<open>
  The table of watched directories as the server runs it (\<open>Inotified\<close> and \<open>Watches\<close> of
  \<open>crates/server/src/watch.rs\<close>): the table's needs of the system met by system calls, a request's
  directories watched before it runs, and what the event thread does with what it reads.  The table's
  copy of the system's state is put in before the table is used and taken out after.
\<close>

subsection \<open>The system's marks\<close>

definition IN_ONLYDIR :: u32 where "IN_ONLYDIR = 0x1000000"

definition MASK :: u32 where
  "MASK = IN_CREATE OR IN_DELETE OR IN_MOVED_FROM OR IN_MOVED_TO OR IN_MODIFY OR IN_ATTRIB OR
     IN_DELETE_SELF OR IN_MOVE_SELF OR IN_ONLYDIR"

text \<open>Each is one call, which returns (\<open>inotified_total\<close>).\<close>

definition inotified :: "'s kernel \<Rightarrow> export \<Rightarrow> (int, fd, 's world) marks" where
  "inotified k ex =
     \<lparr>mk_open = (\<lambda>p w. the (resolve_dir k ex p w)),
      mk_open_child = (\<lambda>parent n w. the (resolve_dir_in k parent n w)),
      mk_add = (\<lambda>dir w. the (call_sys (k_num k) (CallPath (proc_path dir) (SysInotifyAdd MASK)) w)),
      mk_rm = (\<lambda>wd w. snd (the (call_sys (k_unit k) (CallInotifyRm wd) w)))\<rparr>"

lemma call_sys_total: "\<exists>r w'. call_sys f c w = Some (r, w')"
  by (simp add: call_sys_def split_beta Let_def)

lemma inotified_total:
  "\<exists>r w'. resolve_dir k ex p w = Some (r, w')" "\<exists>r w'. resolve_dir_in k parent n w = Some (r, w')"
  unfolding resolve_dir_def openat2_root_def resolve_dir_in_def openat2_def Let_def by (rule call_sys_total)+

subsection \<open>The service\<close>

record 's watches =
  ws_table :: "(int, 's world) table"
  ws_pending :: pending

text \<open>\<open>Watches\<close>, none where change notification is off.\<close>

definition watches_arm :: "'s kernel \<Rightarrow> export \<Rightarrow> path \<Rightarrow> 's watches option \<Rightarrow> 's world \<Rightarrow>
    nat option \<times> 's watches option \<times> 's world" where
  "watches_arm k ex dir ws w =
     (case ws of
        None \<Rightarrow> (None, None, w)
      | Some v \<Rightarrow>
          (let now = k_now k (w_sys w);
               t = (ws_table v)\<lparr>tb_sys := w\<rparr>
           in case touch dir now t of
                (TouchDone held, t1) \<Rightarrow> (held, Some (v\<lparr>ws_table := t1\<rparr>), tb_sys t1)
              | (TouchMissing, t1) \<Rightarrow>
                  (let (held, t2) = arm (inotified k ex) dir now (t1\<lparr>tb_out := []\<rparr>);
                       pend = fold (\<lambda>item. pending_fold item None) (tb_out t2) (ws_pending v)
                   in (held, Some \<lparr>ws_table = t2\<lparr>tb_out := []\<rparr>, ws_pending = pend\<rparr>, tb_sys t2))))"

fun arm_all :: "'s kernel \<Rightarrow> export \<Rightarrow> path list \<Rightarrow> 's watches option \<Rightarrow> 's world \<Rightarrow> nat list \<times> 's watches option \<times> 's world" where
  "arm_all k ex [] ws w = ([], ws, w)"
| "arm_all k ex (dir # dirs) ws w =
     (let (held, ws1, w1) = watches_arm k ex dir ws w;
          (rest, ws2, w2) = arm_all k ex dirs ws1 w1
      in ((case held of Some m \<Rightarrow> [m] | None \<Rightarrow> []) @ rest, ws2, w2))"

definition arm_request :: "'s kernel \<Rightarrow> export \<Rightarrow> request \<Rightarrow> 's watches option \<Rightarrow> 's world \<Rightarrow>
    nat list \<times> 's watches option \<times> 's world" where
  "arm_request k ex req ws w = (if ws = None then ([], ws, w) else arm_all k ex (dirs_named req) ws w)"

text \<open>\<open>Watches::hold\<close>, and the drop of what it returns.\<close>

definition watches_hold :: "'s kernel \<Rightarrow> export \<Rightarrow> path \<Rightarrow> 's watches option \<Rightarrow> 's world \<Rightarrow>
    nat option \<times> 's watches option \<times> 's world" where
  "watches_hold = watches_arm"

definition watches_release :: "nat option \<Rightarrow> 's watches option \<Rightarrow> 's watches option" where
  "watches_release held ws =
     (case (held, ws) of
        (Some m, Some v) \<Rightarrow> Some (v\<lparr>ws_table := armed_drop m (ws_table v)\<rparr>)
      | _ \<Rightarrow> ws)"

subsection \<open>The event thread\<close>

fun report_all :: "'w raw_event list \<Rightarrow> ('w, 's) table \<Rightarrow> ('w, 's) table" where
  "report_all [] t = t"
| "report_all (e # es) t = report_all es (snd (report e t))"

text \<open>A batch of events read, applied to the table or, with nothing structural among them, only reported.\<close>

definition events_ready :: "'s kernel \<Rightarrow> export \<Rightarrow> int raw_event list \<Rightarrow> change_log \<Rightarrow> 's watches \<Rightarrow> 's world \<Rightarrow>
    change_log \<times> 's watches \<times> 's world" where
  "events_ready k ex raw log v w =
     (let t = (ws_table v)\<lparr>tb_sys := w, tb_out := []\<rparr>;
          t1 = (if list_ex structural raw then apply_events (inotified k ex) raw [] t else report_all raw t);
          (log1, pend) = fold_events (k_now k (w_sys (tb_sys t1))) (tb_out t1) log (ws_pending v)
      in (log1, \<lparr>ws_table = t1\<lparr>tb_out := []\<rparr>, ws_pending = pend\<rparr>, tb_sys t1))"

definition watches_flush :: "'s watches \<Rightarrow> event_batch option \<times> 's watches" where
  "watches_flush v = (let (batch, pend) = pending_flush (ws_pending v) in (batch, v\<lparr>ws_pending := pend\<rparr>))"

text \<open>The thread's end when it cannot wait for events: the table dies, and everything is to be looked at again.\<close>

definition poll_failed :: "'s kernel \<Rightarrow> change_log \<Rightarrow> 's watches \<Rightarrow> 's world \<Rightarrow> event_batch option \<times> change_log \<times> 's watches" where
  "poll_failed k log v w =
     (let t = die (ws_table v);
          (log1, pend) = fold_events (k_now k (w_sys w)) [Overflow] log (ws_pending v);
          (batch, v1) = watches_flush \<lparr>ws_table = t, ws_pending = pend\<rparr>
      in (batch, log1, v1))"

subsection \<open>Its table is one the theorems are about\<close>

definition watches_ok :: "'s watches option \<Rightarrow> bool" where
  "watches_ok ws \<longleftrightarrow> (\<forall>v. ws = Some v \<longrightarrow> watch_inv (ws_table v))"

lemma watch_inv_updates [simp]:
  "watch_inv (t\<lparr>tb_sys := s\<rparr>) = watch_inv t" "watch_inv (t\<lparr>tb_out := out\<rparr>) = watch_inv t"
  by (simp_all add: watch_inv_def)

lemma touch_inv: "watch_inv t \<Longrightarrow> watch_inv (snd (touch dir now t))"
  using touch_ok [of "{#}" t dir now] by (cases "tb_dead t") (auto simp: watch_inv_def touch_def)

lemma watches_arm_ok:
  assumes "watches_ok ws" "byte_len dir \<le> PATH_MAX" "watches_arm k ex dir ws w = (held, ws', w')"
  shows "watches_ok ws'"
proof (cases ws)
  case (Some v)
  let ?now = "k_now k (w_sys w)" and ?t = "(ws_table v)\<lparr>tb_sys := w\<rparr>"
  obtain r t1 where r: "touch dir ?now ?t = (r, t1)" by (cases "touch dir ?now ?t")
  have t1: "watch_inv t1" using touch_inv [of ?t dir ?now] r Some assms(1) by (simp add: watches_ok_def)
  have "watch_inv (snd (arm (inotified k ex) dir ?now (t1\<lparr>tb_out := []\<rparr>)))"
    by (rule watch_inv_step [OF _ WatchArm [OF assms(2)]]) (simp add: t1)
  then show ?thesis
    using assms(3) Some r t1 by (auto simp: watches_arm_def watches_ok_def Let_def split: touched.splits prod.splits)
qed (use assms in \<open>simp add: watches_arm_def watches_ok_def\<close>)

lemma watches_release_ok: "watches_ok ws \<Longrightarrow> watches_ok (watches_release held ws)"
  using watch_inv_step [OF _ WatchDrop]
  by (auto simp: watches_ok_def watches_release_def split: option.splits)

lemma report_all_inv: "watch_inv t \<Longrightarrow> list_all (\<lambda>e. \<not> structural e) raw \<Longrightarrow> watch_inv (report_all raw t)"
  by (induction raw t rule: report_all.induct) (auto intro: watch_inv_step [OF _ WatchReport])

lemma events_ready_ok:
  assumes "watch_inv (ws_table v)" "distinct (first_halves raw)" "events_ready k ex raw log v w = (log', v', w')"
  shows "watch_inv (ws_table v')"
proof -
  let ?t = "(ws_table v)\<lparr>tb_sys := w, tb_out := []\<rparr>"
  have "watch_inv (apply_events (inotified k ex) raw [] ?t)"
    by (rule watch_inv_step [OF _ WatchApply [OF assms(2)]]) (simp add: assms(1))
  moreover have "watch_inv (report_all raw ?t)" if "\<not> list_ex structural raw"
    using report_all_inv [of ?t raw] that assms(1) by (simp add: list_all_iff list_ex_iff)
  ultimately show ?thesis
    using assms(3) by (auto simp: events_ready_def Let_def split: if_splits prod.splits)
qed

subsection \<open>What the table asks of the system\<close>

text \<open>A predicate on the system that every call the table makes for these names keeps.\<close>

definition marks_keep :: "('s \<Rightarrow> bool) \<Rightarrow> name set \<Rightarrow> ('w, 'd, 's) marks \<Rightarrow> bool" where
  "marks_keep P N k \<longleftrightarrow>
     (\<forall>p s. set (names p) \<subseteq> N \<longrightarrow> P s \<longrightarrow> P (snd (mk_open k p s))) \<and>
     (\<forall>d x s. x \<in> N \<longrightarrow> P s \<longrightarrow> P (snd (mk_open_child k d x s))) \<and>
     (\<forall>d s. P s \<longrightarrow> P (snd (mk_add k d s))) \<and> (\<forall>w s. P s \<longrightarrow> P (mk_rm k w s))"

lemma asks_keep: "(\<And>s. P s \<Longrightarrow> P (snd (f s))) \<Longrightarrow> P (tb_sys t) \<Longrightarrow> asks f t = (a, t1) \<Longrightarrow> P (tb_sys t1)"
  by (auto simp: asks_def split_beta)

lemma drop_tree_sys:
  assumes "marks_keep P N k"
  shows "P (tb_sys t) \<Longrightarrow> P (tb_sys (drop_tree k a n p t))"
    and "P (tb_sys t) \<Longrightarrow> P (tb_sys (drop_children k a cs p t))"
  using assms
  by (induction k a n p t and k a cs p t rule: drop_tree_drop_children.induct)
    (auto simp: drop_watch_def marks_keep_def Let_def split: watch_state.splits option.splits)

lemma detach_sys [simp]: "tb_sys (snd (detach p t)) = tb_sys t"
  by (auto simp: detach_def split: option.splits)

lemma detach_drop_sys:
  "marks_keep P N k \<Longrightarrow> P (tb_sys t) \<Longrightarrow>
     P (tb_sys (case detach p t of (Some n, t1) \<Rightarrow> drop_tree k a n q t1 | (None, t1) \<Rightarrow> t1))"
  using drop_tree_sys(1) [of P N k] by (auto simp: split_beta split: option.splits)

lemma put_sys: "marks_keep P N k \<Longrightarrow> P (tb_sys t) \<Longrightarrow> P (tb_sys (put k p n t))"
  using drop_tree_sys(1) [of P N k] by (auto simp: put_def Let_def split: option.splits)

lemma rekey_sys:
  assumes "marks_keep P N k"
  shows "P (tb_sys t) \<Longrightarrow> P (tb_sys (snd (rekey k n p t)))"
    and "P (tb_sys t) \<Longrightarrow> P (tb_sys (snd (rekey_children k cs p t)))"
  using assms
proof (induction k n p t and k cs p t rule: rekey_rekey_children.induct)
  case (3 k x c cs p t)
  show ?case
  proof (cases "join p x")
    case (Inl e)
    then show ?thesis using "3.IH"(1) [OF Inl] drop_tree_sys(1) [of P N k t True c p] "3.prems" by simp
  next
    case (Inr q)
    obtain c' t1 where c: "rekey k c q t = (c', t1)" by (cases "rekey k c q t")
    have "P (tb_sys t1)" using "3.IH"(2) [OF Inr] "3.prems" c by simp
    then have "P (tb_sys (snd (rekey_children k cs p t1)))" using "3.IH"(3) [OF Inr c [symmetric] refl] "3.prems" by simp
    then show ?thesis using Inr c by (simp add: split_beta Let_def)
  qed
qed (auto simp: split_beta Let_def split: watch_state.splits)

lemma reroot_sys: "marks_keep P N k \<Longrightarrow> P (tb_sys t) \<Longrightarrow> P (tb_sys (snd (reroot k p q t)))"
  using put_sys [of P N k] rekey_sys(1) [of P N k] by (auto simp: reroot_def split_beta Let_def split: option.splits)

lemma evict_all_sys: "marks_keep P N k \<Longrightarrow> P (tb_sys t) \<Longrightarrow> P (tb_sys (fold (evict_one k) nss t))"
  by (induction nss arbitrary: t) (auto simp: evict_one_def intro: detach_drop_sys)

lemma evict_loop_sys: "marks_keep P N k \<Longrightarrow> P (tb_sys t) \<Longrightarrow> P (tb_sys (evict_loop k keep want dropped t))"
proof (induction k keep want dropped t rule: evict_loop.induct)
  case (1 k keep want dropped t)
  show ?case
  proof (cases "dropped < want \<and> leaves_of keep t \<noteq> []")
    case True
    then show ?thesis
      using "1.IH" [OF _ refl _ refl refl "1.prems"(1) evict_all_sys [OF "1.prems"]]
      by (subst evict_loop.simps) (simp add: Let_def)
  next
    case False
    then show ?thesis using "1.prems"(2) by (subst evict_loop.simps) (auto simp: Let_def)
  qed
qed

lemma evict_sys: "marks_keep P N k \<Longrightarrow> P (tb_sys t) \<Longrightarrow> P (tb_sys (evict k keep now t))"
  by (auto simp: evict_def budget_at_def split_beta Let_def split: option.splits intro: evict_loop_sys)

lemma place_sys: "marks_keep P N k \<Longrightarrow> P (tb_sys t) \<Longrightarrow> P (tb_sys (snd (place k p wd now t)))"
proof -
  assume k: "marks_keep P N k" and t: "P (tb_sys t)"
  obtain b t1 where b: "budget_at now t = (b, t1)" by (cases "budget_at now t")
  then have t1: "P (tb_sys t1)" using t by (auto simp: budget_at_def split: option.splits if_splits)
  have "P (tb_sys (if tb_watched t1 \<ge> int b then evict k p now t1 else t1))" using evict_sys [OF k t1] t1 by simp
  then show ?thesis
    using b t reroot_sys [OF k t] by (auto simp: place_def new_node_def Let_def split: option.split intro!: put_sys [OF k])
qed

lemma install_sys: "marks_keep P N k \<Longrightarrow> P (tb_sys t) \<Longrightarrow> P (tb_sys (snd (install k p dir now t)))"
proof -
  assume k: "marks_keep P N k" and t: "P (tb_sys t)"
  have add: "P (tb_sys u) \<Longrightarrow> P (tb_sys (snd (asks (mk_add k dir) u)))" for u
    using k by (simp add: asks_def split_beta marks_keep_def)
  obtain a1 t1 where a1: "asks (mk_add k dir) t = (a1, t1)" by (cases "asks (mk_add k dir) t")
  then have t1: "P (tb_sys t1)" using add [OF t] by simp
  obtain a2 t2 where a2: "(if a1 = Err ENOSPC \<and> tb_watched t1 > 0
      then asks (mk_add k dir) (evict k p now (limited now t1)) else (a1, t1)) = (a2, t2)" by fastforce
  have "P (tb_sys (evict k p now (limited now t1)))" using evict_sys [OF k, of "limited now t1"] t1 by (simp add: limited_def)
  from add [OF this] have t2: "P (tb_sys t2)" using a2 t1 by (auto split: if_splits)
  show ?thesis
    using a1 a2 place_sys [OF k t2] t2 by (auto simp: install_def new_node_def Let_def split: sum.split intro!: put_sys [OF k])
qed

lemma verify_sys: "marks_keep P N k \<Longrightarrow> P (tb_sys t) \<Longrightarrow> P (tb_sys (snd (verify k p dir now t)))"
proof -
  assume k: "marks_keep P N k" and t: "P (tb_sys t)"
  obtain a1 t1 where a1: "asks (mk_add k dir) t = (a1, t1)" by (cases "asks (mk_add k dir) t")
  then have t1: "P (tb_sys t1)" using t k by (auto simp: asks_def split_beta marks_keep_def)
  show ?thesis
    using a1 t t1 place_sys [OF k detach_drop_sys [OF k t1, where p = p and a = True and q = p]]
    by (auto simp: verify_def Let_def split: option.split watch_state.split sum.split)
qed

lemma extend_from_sys:
  "marks_keep P N k \<Longrightarrow> P (tb_sys t) \<Longrightarrow> set xs \<subseteq> N \<Longrightarrow> P (tb_sys (extend_from k ns xs dir now t))"
proof (induction k ns xs dir now t rule: extend_from.induct)
  case (2 k ns x xs dir now t)
  obtain o1 t1 where o1: "asks (mk_open_child k dir x) t = (o1, t1)" by (cases "asks (mk_open_child k dir x) t")
  then have t1: "P (tb_sys t1)" using "2.prems" by (auto simp: asks_def split_beta marks_keep_def)
  show ?case
  proof (cases o1)
    case (Inl e)
    then show ?thesis using o1 t1 by simp
  next
    case (Inr child)
    obtain i t2 where i: "install k (Path (ns @ [x])) child now t1 = (i, t2)"
      by (cases "install k (Path (ns @ [x])) child now t1")
    then have t2: "P (tb_sys t2)" using install_sys [OF "2.prems"(1) t1, of "Path (ns @ [x])" child now] by simp
    then show ?thesis
      using "2.IH" [OF o1 [symmetric] refl Inr i [symmetric] refl] "2.prems" o1 Inr i by auto
  qed
qed simp

lemma arm_sys:
  assumes k: "marks_keep P N k" and t: "P (tb_sys t)" and N: "set (names dir) \<subseteq> N"
  shows "P (tb_sys (snd (arm k dir now t)))"
proof -
  have touched: "P (tb_sys t1)" if "touch dir now t = (r, t1)" for r t1
    using that touch_from_effect [of now "tb_root t" "names dir" t] t by (fastforce simp: touch_def split: if_splits)
  have "P (tb_sys (extend_watch k (names dir) depth now t1))" if t1: "P (tb_sys t1)" for depth t1
  proof -
    let ?p = "Path (take depth (names dir))"
    have sub: "set (names ?p) \<subseteq> N" "set (drop depth (names dir)) \<subseteq> N"
      using N set_take_subset [of depth "names dir"] set_drop_subset [of depth "names dir"] by auto
    obtain o1 t2 where o1: "asks (mk_open k ?p) t1 = (o1, t2)" by (cases "asks (mk_open k ?p) t1")
    then have t2: "P (tb_sys t2)" using t1 k sub(1) by (auto simp: asks_def split_beta marks_keep_def)
    have "P (tb_sys (snd (if depth > 0 then verify k ?p d now t2 else (True, t2))))" for d
      using verify_sys [OF k t2] t2 by simp
    then show ?thesis
      using o1 t2 extend_from_sys [OF k _ sub(2)] by (fastforce simp: extend_watch_def split_beta split: sum.splits)
  qed
  then show ?thesis using touched by (auto simp: arm_def Let_def hold_def split: touched.split prod.split)
qed

lemma watches_arm_sys:
  assumes k: "marks_keep P N (inotified k ex)" and "P w" "set (names dir) \<subseteq> N"
    and arm: "watches_arm k ex dir ws w = (held, ws', w')"
  shows "P w'"
proof (cases ws)
  case (Some v)
  let ?now = "k_now k (w_sys w)" and ?t = "(ws_table v)\<lparr>tb_sys := w\<rparr>"
  obtain r t1 where r: "touch dir ?now ?t = (r, t1)" by (cases "touch dir ?now ?t")
  then have t1: "P (tb_sys t1)"
    using touch_from_effect [of ?now "tb_root ?t" "names dir" ?t] assms(2) by (fastforce simp: touch_def split: if_splits)
  have "P (tb_sys (snd (arm (inotified k ex) dir ?now (t1\<lparr>tb_out := []\<rparr>))))"
    by (rule arm_sys [OF k _ assms(3)]) (simp add: t1)
  then show ?thesis using arm Some r t1 by (auto simp: watches_arm_def Let_def split: touched.splits prod.splits)
qed (use assms in \<open>simp add: watches_arm_def\<close>)

end
