(* ===== verification/Dirents.thy ===== *)
theory Dirents
  imports Export
begin

text \<open>
  Reading a directory in pages (\<open>crates/server/src/dirents.rs\<close>): the records of \<open>getdents64\<close>, what becomes
  of an entry that cannot be described, and the loop that fills a page; and the size the server budgets
  an entry with (\<open>dir_entry_bytes\<close> of \<open>crates/proto/src/wire.rs\<close>).  The loop may go on for as long as the
  kernel has records, so not returning is a value of its own.
\<close>

subsection \<open>Records\<close>

record raw_dirent =
  rd_off :: u64
  rd_name :: "u8 list"

definition HEADER_LEN :: nat where "HEADER_LEN = 8 + 8 + 2 + 1"

text \<open>\<open>parse\<close>, over what is left of the buffer.\<close>

function parse :: "u8 list \<Rightarrow> raw_dirent list" where
  "parse buf =
     (if HEADER_LEN \<le> length buf
      then
        (let off = u64_from_le (take 8 (drop 8 buf));
             reclen = unat (u16_from_le (take 2 (drop 16 buf)))
         in if reclen < HEADER_LEN \<or> length buf < reclen then []
            else
              (let name_area = drop HEADER_LEN (take reclen buf)
               in \<lparr>rd_off = off, rd_name = takeWhile (\<lambda>b. b \<noteq> 0) name_area\<rparr> # parse (drop reclen buf)))
      else [])"
  by auto
termination
  by (relation "measure length") (auto simp: HEADER_LEN_def)

declare parse.simps [simp del]

subsection \<open>A page\<close>

definition ENTRY_ATTR_BYTES :: nat where "ENTRY_ATTR_BYTES = 128"

definition dir_entry_bytes :: "nat \<Rightarrow> attr option \<Rightarrow> nat" where
  "dir_entry_bytes name_len a =
     32 + next_multiple_of name_len 8 +
     (case a of
        None \<Rightarrow> 0
      | Some a \<Rightarrow>
          ENTRY_ATTR_BYTES + next_multiple_of (length (handle (attr_identity a))) 8 +
          (case attr_xattr_names a of
             None \<Rightarrow> 0
           | Some ns \<Rightarrow> sum_list (map (\<lambda>n. 8 + next_multiple_of (length n) 8) ns)))"

record listing =
  ls_entries :: "dir_entry list"
  ls_end :: bool

definition entry_failure :: "errno \<Rightarrow> (unit, errno) result" where
  "entry_failure e =
     (if e = ENOENT \<or> e = ESTALE then Ok ()
      else if e = EXDEV then Ok ()
      else if e = EMFILE \<or> e = ENFILE \<or> e = ENOMEM then Err e
      else Ok ())"

definition SEEK_SET :: nat where "SEEK_SET = 0"
definition SEEK_DATA :: nat where "SEEK_DATA = 3"
definition SEEK_HOLE :: nat where "SEEK_HOLE = 4"

text \<open>The attributes an entry goes with: none for the dots, and no entry at all where it is skipped.\<close>

definition describe_entry :: "'s kernel \<Rightarrow> export \<Rightarrow> fd \<Rightarrow> u8 list \<Rightarrow> ('s world, attr option option, errno) io" where
  "describe_entry k ex dir n =
     (if n = [dot] \<or> n = [dot, dot] then ret (Some None)
      else case name_new n of
        Inl _ \<Rightarrow> ret None
      | Inr component \<Rightarrow>
          bind_io (outcome_of (attr_entry k ex dir component)) (\<lambda>described.
            case described of
              Inr a \<Rightarrow> ret (Some (Some a))
            | Inl e \<Rightarrow> bind_io (lift_res (entry_failure e)) (\<lambda>_. ret None)))"

text \<open>The loop over the records of one buffer: whether the page is full, and what it holds.\<close>

fun read_entries :: "'s kernel \<Rightarrow> export \<Rightarrow> fd \<Rightarrow> nat \<Rightarrow> raw_dirent list \<Rightarrow> nat \<Rightarrow> dir_entry list \<Rightarrow>
    ('s world, bool \<times> nat \<times> dir_entry list, errno) io" where
  "read_entries k ex dir max_bytes [] used entries = ret (False, used, entries)"
| "read_entries k ex dir max_bytes (raw # raws) used entries =
     bind_io (describe_entry k ex dir (rd_name raw)) (\<lambda>described.
       case described of
         None \<Rightarrow> read_entries k ex dir max_bytes raws used entries
       | Some a \<Rightarrow>
           (let used = used + dir_entry_bytes (length (rd_name raw)) a;
                entries = entries @ [\<lparr>next_offset = rd_off raw, entry_name = rd_name raw, entry_attr = a\<rparr>]
            in if used \<ge> max_bytes then ret (True, used, entries)
               else read_entries k ex dir max_bytes raws used entries))"

definition GETDENTS_BUF :: nat where "GETDENTS_BUF = 64 * 1024"

partial_function (option) read_page :: "'s kernel \<Rightarrow> export \<Rightarrow> fd \<Rightarrow> nat \<Rightarrow> nat \<Rightarrow> dir_entry list \<Rightarrow> 's world \<Rightarrow>
    ((listing, errno) result \<times> 's world) option" where
  "read_page k ex dir max_bytes used entries w =
     (case call_sys (k_bytes k) (CallFd dir (SysGetdents64 GETDENTS_BUF)) w of
        None \<Rightarrow> None
      | Some (Inl e, w1) \<Rightarrow> Some (Err e, w1)
      | Some (Inr buf, w1) \<Rightarrow>
          if buf = [] then Some (Ok \<lparr>ls_entries = entries, ls_end = True\<rparr>, w1)
          else (case read_entries k ex dir max_bytes (parse buf) used entries w1 of
                  None \<Rightarrow> None
                | Some (Inl e, w2) \<Rightarrow> Some (Err e, w2)
                | Some (Inr (full, used', entries'), w2) \<Rightarrow>
                    if full then Some (Ok \<lparr>ls_entries = entries', ls_end = False\<rparr>, w2)
                    else read_page k ex dir max_bytes used' entries' w2))"

definition read_dir :: "'s kernel \<Rightarrow> export \<Rightarrow> fd \<Rightarrow> u64 \<Rightarrow> nat \<Rightarrow> ('s world, listing, errno) io" where
  "read_dir k ex dir offset max_bytes =
     bind_io (call_sys (k_num k) (CallFd dir (SysLseek (sint offset) SEEK_SET))) (\<lambda>_.
       read_page k ex dir max_bytes 0 [])"

end
