(* ===== verification/Ops.thy ===== *)
theory Ops
  imports WatchService Dirents ServerIds ServerHandles
begin

text \<open>
  What the server does for each request (\<open>crates/server/src/ops.rs\<close>): one definition per request, each its
  checks, its records of what the session changes and its system calls in the order the source makes
  them.  The state is the system's, the log of changes, the session's handles and the pool they draw
  on, and the watched directories.  A slot reserved for an open goes back to the pool where the source
  drops it, and a handle's hold on its directory with the handle.  A panic, like a loop that never ends,
  is the absence of a result.  Log lines are left out, but not the limiter that spaces them.
\<close>

subsection \<open>Flags\<close>

definition OPEN_FLAGS_ALLOWED :: u32 where
  "OPEN_FLAGS_ALLOWED = O_ACCMODE OR O_APPEND OR O_TRUNC OR O_SYNC OR O_DSYNC OR O_NOATIME OR O_NONBLOCK OR
     O_NOFOLLOW OR O_CLOEXEC OR O_DIRECTORY OR O_LARGEFILE OR O_NOCTTY"

definition CREATE_FLAGS_ALLOWED :: u32 where
  "CREATE_FLAGS_ALLOWED = OPEN_FLAGS_ALLOWED OR O_CREAT OR O_EXCL"

definition open_flags :: "u32 \<Rightarrow> bool \<Rightarrow> u32" where
  "open_flags flags creating = flags AND (if creating then CREATE_FLAGS_ALLOWED else OPEN_FLAGS_ALLOWED)"

text \<open>Keep the size, punch a hole, zero a range.\<close>

definition FALLOCATE_MODES_ALLOWED :: u32 where
  "FALLOCATE_MODES_ALLOWED = 0x01 OR 0x02 OR 0x10"

definition RENAME_WHITEOUT :: u32 where "RENAME_WHITEOUT = 4"
definition RENAME_FLAGS :: u32 where "RENAME_FLAGS = 1 OR 2 OR RENAME_WHITEOUT"
definition ACCESS_FLAGS :: u32 where "ACCESS_FLAGS = 1 OR 2 OR 4"
definition PERM_BITS :: u32 where "PERM_BITS = 0xfff"

definition MAX_COPY :: nat where "MAX_COPY = 64 * 2 ^ 20"

subsection \<open>Refused opens\<close>

definition REFUSALS_LOGGED_EVERY :: nat where "REFUSALS_LOGGED_EVERY = 10000"

record refusals =
  rf_logged_at :: "nat option"
  rf_since :: nat
  rf_since_at :: "nat option"

definition refusals_default :: refusals where
  "refusals_default = \<lparr>rf_logged_at = None, rf_since = 0, rf_since_at = None\<rparr>"

definition refused :: "nat \<Rightarrow> refusals \<Rightarrow> (nat \<times> nat) option \<times> refusals" where
  "refused now r =
     (let since = rf_since r + 1;
          first = (case rf_since_at r of Some at \<Rightarrow> at | None \<Rightarrow> now)
      in if (case rf_logged_at r of Some at \<Rightarrow> now - at < REFUSALS_LOGGED_EVERY | None \<Rightarrow> False)
         then (None, r\<lparr>rf_since := since, rf_since_at := Some first\<rparr>)
         else (Some (since, first), \<lparr>rf_logged_at = Some now, rf_since = 0, rf_since_at = None\<rparr>))"

definition refusals_pending :: "refusals \<Rightarrow> (nat \<times> nat) option \<times> refusals" where
  "refusals_pending r =
     (case rf_since_at r of
        None \<Rightarrow> (None, r)
      | Some first \<Rightarrow> (Some (rf_since r, first), r\<lparr>rf_since := 0, rf_since_at := None\<rparr>))"

subsection \<open>State\<close>

type_synonym server_handle = "(fd, fd, nat) handle"

record 's ops_env =
  oe_kernel :: "'s kernel"
  oe_export :: export
  oe_session :: u64
  oe_ids :: server_ids

record 's ops_state =
  os_world :: "'s world"
  os_log :: change_log
  os_pool :: handle_pool
  os_handles :: "(fd, fd, nat) handles"
  os_watches :: "'s watches option"
  os_refusals :: refusals

datatype failure = FErrno errno | FPoolFull

definition failure_of_reserve :: "error_reserve \<Rightarrow> failure" where
  "failure_of_reserve e = (case e of PoolFull \<Rightarrow> FPoolFull | Duplicate \<Rightarrow> FErrno EBADF)"

type_synonym reservation = "((fd, fd, nat) reserved option, error_reserve) result"

text \<open>System calls on the server's state.\<close>

definition sys :: "('s world, 'a, 'e) io \<Rightarrow> ('s ops_state, 'a, 'e) io" where
  "sys m s = (case m (os_world s) of None \<Rightarrow> None | Some (r, w) \<Rightarrow> Some (r, s\<lparr>os_world := w\<rparr>))"

text \<open>\<open>changes.record\<close> and \<open>changes.record_entry\<close> of the session.\<close>

definition record_change :: "'s ops_env \<Rightarrow> path \<Rightarrow> ('s ops_state, unit, 'e) io" where
  "record_change e p s = Some (Ok (),
     s\<lparr>os_log := log_record (k_now (oe_kernel e) (w_sys (os_world s))) p (oe_session e) (os_log s)\<rparr>)"

definition record_entry_change :: "'s ops_env \<Rightarrow> path \<Rightarrow> name \<Rightarrow> ('s ops_state, unit, 'e) io" where
  "record_entry_change e dir n s = Some (Ok (),
     s\<lparr>os_log := record_entry (k_now (oe_kernel e) (w_sys (os_world s))) dir n (oe_session e) (os_log s)\<rparr>)"

text \<open>A look at the handles.\<close>

definition with_handles :: "((fd, fd, nat) handles \<Rightarrow> ('a, 'e) result) \<Rightarrow> ('s ops_state, 'a, 'e) io" where
  "with_handles f s = Some (f (os_handles s), s)"

definition hold_watch :: "'s ops_env \<Rightarrow> path \<Rightarrow> ('s ops_state, nat option, 'e) io" where
  "hold_watch e dir s =
     (let (held, ws, w) = watches_hold (oe_kernel e) (oe_export e) dir (os_watches s) (os_world s)
      in Some (Ok held, s\<lparr>os_watches := ws, os_world := w\<rparr>))"

definition handle_watch :: "server_handle \<Rightarrow> nat option" where
  "handle_watch h = (case h of HFile f p w \<Rightarrow> w | HDir d w \<Rightarrow> w)"

text \<open>A handle that goes lets go of its directory.\<close>

definition drop_handle :: "server_handle \<Rightarrow> 's ops_state \<Rightarrow> 's ops_state" where
  "drop_handle h s = s\<lparr>os_watches := watches_release (handle_watch h) (os_watches s)\<rparr>"

text \<open>What runs with a slot in hand, which goes back when it fails.\<close>

definition with_slot :: "('s ops_state, 'a, 'e) io \<Rightarrow> ('s ops_state, 'a, 'e) io" where
  "with_slot m s =
     (case m s of
        None \<Rightarrow> None
      | Some (Inl e, s1) \<Rightarrow> Some (Err e, s1\<lparr>os_pool := slot_drop (os_pool s1)\<rparr>)
      | Some (Inr a, s1) \<Rightarrow> Some (Ok a, s1))"

text \<open>\<open>slot.insert\<close> of a handle, and \<open>?\<close> on what it returns.\<close>

definition insert_handle :: "u64 \<Rightarrow> server_handle \<Rightarrow> ('s ops_state, u64 option, failure) io" where
  "insert_handle fh h s =
     (case slot_insert fh h (os_pool s) (os_handles s) of
        None \<Rightarrow> None
      | Some (pool, t, Inr crossed) \<Rightarrow> Some (Ok crossed, s\<lparr>os_pool := pool, os_handles := t\<rparr>)
      | Some (pool, t, Inl e) \<Rightarrow>
          Some (Err (failure_of_reserve e), drop_handle h (s\<lparr>os_pool := pool, os_handles := t\<rparr>)))"

definition servable :: "file_kind \<Rightarrow> (unit, errno) result" where
  "servable kind = (if kind = Regular \<or> kind = Directory then Ok () else Err EOPNOTSUPP)"

definition cstring :: "u8 list \<Rightarrow> (u8 list, errno) result" where
  "cstring bs = (if 0 \<in> set bs then Err EINVAL else Ok bs)"

definition i64_of :: "u64 \<Rightarrow> (int, errno) result" where
  "i64_of v = (if unat v < 2 ^ 63 then Ok (uint v) else Err EINVAL)"

text \<open>\<open>UTIME_OMIT\<close> and \<open>UTIME_NOW\<close> are nanoseconds no time has.\<close>

definition timespec :: "time_or_now option \<Rightarrow> file_time" where
  "timespec t =
     (case t of
        None \<Rightarrow> \<lparr>ft_sec = 0, ft_nsec = 0x3ffffffe\<rparr>
      | Some Now \<Rightarrow> \<lparr>ft_sec = 0, ft_nsec = 0x3fffffff\<rparr>
      | Some (Time t) \<Rightarrow> \<lparr>ft_sec = sec t, ft_nsec = uint (nsec t)\<rparr>)"

text \<open>\<open>stat_fd\<close>, as far as it is read: the mode.\<close>

definition stat_fd_mode :: "'s kernel \<Rightarrow> fd \<Rightarrow> ('s world, u32, errno) io" where
  "stat_fd_mode k d =
     bind_io (call_sys (k_num k) (CallAt d [] (SysFstatat (AT_EMPTY_PATH OR AT_SYMLINK_NOFOLLOW)))) (\<lambda>m. ret (word_of_int m))"

subsection \<open>Loops over a system call\<close>

text \<open>Reads until the size is filled, the file ends or a read fails.\<close>

partial_function (option) read_fill :: "'s kernel \<Rightarrow> fd \<Rightarrow> u64 \<Rightarrow> nat \<Rightarrow> u8 list \<Rightarrow> 's world \<Rightarrow>
    ((u8 list, errno) result \<times> 's world) option" where
  "read_fill k f offset amount buf w =
     (if length buf < amount
      then (case call_sys (k_bytes k) (CallFd f (SysPread (offset + word_of_nat (length buf)) (amount - length buf))) w of
              None \<Rightarrow> None
            | Some (Inr got, w1) \<Rightarrow>
                if got = [] then Some (Ok buf, w1) else read_fill k f offset amount (buf @ got) w1
            | Some (Inl e, w1) \<Rightarrow>
                if e = EINTR then read_fill k f offset amount buf w1 else Some (Err e, w1))
      else Some (Ok buf, w))"

text \<open>\<open>write_all_at\<close> of the standard library; a write of nothing has no error number, so it is EIO.\<close>

partial_function (option) write_all_at :: "'s kernel \<Rightarrow> fd \<Rightarrow> u8 list \<Rightarrow> u64 \<Rightarrow> 's world \<Rightarrow>
    ((unit, errno) result \<times> 's world) option" where
  "write_all_at k f data offset w =
     (if data = [] then Some (Ok (), w)
      else (case call_sys (k_num k) (CallFd f (SysPwrite offset data)) w of
              None \<Rightarrow> None
            | Some (Inr n, w1) \<Rightarrow>
                if n = 0 then Some (Err EIO, w1)
                else write_all_at k f (drop (nat n) data) (offset + word_of_int n) w1
            | Some (Inl e, w1) \<Rightarrow>
                if e = EINTR then write_all_at k f data offset w1 else Some (Err e, w1)))"

text \<open>A call again for as long as it is interrupted.\<close>

partial_function (option) retried :: "('s world \<Rightarrow> (('a, errno) result \<times> 's world) option) \<Rightarrow> 's world \<Rightarrow>
    (('a, errno) result \<times> 's world) option" where
  "retried m w =
     (case m w of
        None \<Rightarrow> None
      | Some (Inr a, w1) \<Rightarrow> Some (Ok a, w1)
      | Some (Inl e, w1) \<Rightarrow> if e = EINTR then retried m w1 else Some (Err e, w1))"

text \<open>Ask for the length, then for that many bytes, four times at most.\<close>

fun xattr_read :: "nat \<Rightarrow> 's kernel \<Rightarrow> (nat \<Rightarrow> syscall) \<Rightarrow> ('s world, u8 list, errno) io" where
  "xattr_read 0 k call = fail ERANGE"
| "xattr_read (Suc tries) k call =
     bind_io (call_sys (k_num k) (call 0)) (\<lambda>needed.
     bind_io (outcome_of (call_sys (k_bytes k) (call (nat needed)))) (\<lambda>got.
       case got of
         Inr buf \<Rightarrow> ret buf
       | Inl e \<Rightarrow> if e \<noteq> ERANGE then fail e else xattr_read tries k call))"

subsection \<open>Requests on names and paths\<close>

definition op_lookup :: "'s ops_env \<Rightarrow> path \<Rightarrow> name \<Rightarrow> ('s ops_state, response, errno) io" where
  "op_lookup e parent n =
     bind_io (sys (resolve_dir (oe_kernel e) (oe_export e) parent)) (\<lambda>dir.
     bind_io (sys (attr_in (oe_kernel e) (oe_export e) dir n)) (\<lambda>a. ret (REntry a)))"

definition handle_attr :: "'s ops_env \<Rightarrow> server_handle \<Rightarrow> ('s ops_state, attr, errno) io" where
  "handle_attr e h = sys (attr_of (oe_kernel e) (oe_export e) (case h of HFile f p w \<Rightarrow> f | HDir d w \<Rightarrow> d))"

definition op_getattr :: "'s ops_env \<Rightarrow> path option \<Rightarrow> u64 option \<Rightarrow> ('s ops_state, response, errno) io" where
  "op_getattr e p fh =
     bind_io
       (case fh of
          Some fh \<Rightarrow> bind_io (with_handles (get_handle fh)) (handle_attr e)
        | None \<Rightarrow>
            (case p of
               None \<Rightarrow> fail EINVAL
             | Some p \<Rightarrow>
                 bind_io (sys (resolve (oe_kernel e) (oe_export e) p)) (\<lambda>d.
                   sys (attr_of (oe_kernel e) (oe_export e) d))))
       (\<lambda>a. ret (RAttr a))"

definition op_readlink :: "'s ops_env \<Rightarrow> path \<Rightarrow> ('s ops_state, response, errno) io" where
  "op_readlink e p =
     bind_io (sys (resolve (oe_kernel e) (oe_export e) p)) (\<lambda>d.
     bind_io (sys (call_sys (k_bytes (oe_kernel e)) (CallAt d [] SysReadlinkat))) (\<lambda>target. ret (RReadlink target)))"

definition op_mknod :: "'s ops_env \<Rightarrow> path \<Rightarrow> name \<Rightarrow> u32 \<Rightarrow> u64 \<Rightarrow> ('s ops_state, response, errno) io" where
  "op_mknod e parent n mode rdev =
     (if mode AND S_IFMT \<noteq> S_IFREG \<and> mode AND S_IFMT \<noteq> S_IFIFO \<and> mode AND S_IFMT \<noteq> S_IFSOCK then fail EPERM
      else
        bind_io (sys (resolve_dir (oe_kernel e) (oe_export e) parent)) (\<lambda>dir.
        bind_io (record_entry_change e parent n) (\<lambda>_.
        bind_io (sys (call_sys (k_unit (oe_kernel e))
            (CallAt dir (as_bytes n) (SysMknodat (mode AND S_IFMT) (mode AND PERM_BITS) rdev)))) (\<lambda>_.
        bind_io (sys (attr_in (oe_kernel e) (oe_export e) dir n)) (\<lambda>a. ret (REntry a))))))"

definition op_mkdir :: "'s ops_env \<Rightarrow> path \<Rightarrow> name \<Rightarrow> u32 \<Rightarrow> ('s ops_state, response, errno) io" where
  "op_mkdir e parent n mode =
     bind_io (sys (resolve_dir (oe_kernel e) (oe_export e) parent)) (\<lambda>dir.
     bind_io (record_entry_change e parent n) (\<lambda>_.
     bind_io (sys (call_sys (k_unit (oe_kernel e)) (CallAt dir (as_bytes n) (SysMkdirat (mode AND PERM_BITS))))) (\<lambda>_.
     bind_io (sys (attr_in (oe_kernel e) (oe_export e) dir n)) (\<lambda>a. ret (REntry a)))))"

text \<open>\<open>Unlink\<close>, and with \<open>dir\<close> \<open>Rmdir\<close>.\<close>

definition op_unlink :: "'s ops_env \<Rightarrow> bool \<Rightarrow> path \<Rightarrow> name \<Rightarrow> ('s ops_state, response, errno) io" where
  "op_unlink e remove_dir parent n =
     bind_io (sys (resolve_dir (oe_kernel e) (oe_export e) parent)) (\<lambda>dir.
     bind_io (record_entry_change e parent n) (\<lambda>_.
     bind_io (sys (call_sys (k_unit (oe_kernel e)) (CallAt dir (as_bytes n) (SysUnlinkat remove_dir)))) (\<lambda>_. ret ROk)))"

definition op_symlink :: "'s ops_env \<Rightarrow> path \<Rightarrow> name \<Rightarrow> u8 list \<Rightarrow> ('s ops_state, response, errno) io" where
  "op_symlink e parent n target =
     bind_io (sys (resolve_dir (oe_kernel e) (oe_export e) parent)) (\<lambda>dir.
     bind_io (record_entry_change e parent n) (\<lambda>_.
     bind_io (lift_res (cstring target)) (\<lambda>ctarget.
     bind_io (sys (call_sys (k_unit (oe_kernel e)) (CallAt dir (as_bytes n) (SysSymlinkat ctarget)))) (\<lambda>_.
     bind_io (sys (attr_in (oe_kernel e) (oe_export e) dir n)) (\<lambda>a. ret (REntry a))))))"

definition op_rename :: "'s ops_env \<Rightarrow> path \<Rightarrow> name \<Rightarrow> path \<Rightarrow> name \<Rightarrow> u32 \<Rightarrow> ('s ops_state, response, errno) io" where
  "op_rename e parent n newparent newname flags =
     (if flags AND NOT RENAME_FLAGS \<noteq> 0 then fail EINVAL
      else if flags AND RENAME_WHITEOUT \<noteq> 0 then fail EINVAL
      else
        bind_io (sys (resolve_dir (oe_kernel e) (oe_export e) parent)) (\<lambda>old_dir.
        bind_io (sys (resolve_dir (oe_kernel e) (oe_export e) newparent)) (\<lambda>new_dir.
        bind_io (record_entry_change e parent n) (\<lambda>_.
        bind_io (record_entry_change e newparent newname) (\<lambda>_.
        bind_io (sys (call_sys (k_unit (oe_kernel e))
            (CallAt2 old_dir (as_bytes n) new_dir (as_bytes newname) (SysRenameat2 flags)))) (\<lambda>_. ret ROk))))))"

definition op_link :: "'s ops_env \<Rightarrow> path \<Rightarrow> path \<Rightarrow> name \<Rightarrow> ('s ops_state, response, errno) io" where
  "op_link e p newparent newname =
     bind_io (sys (resolve_parent (oe_kernel e) (oe_export e) p)) (\<lambda>(old_dir, old_name).
     bind_io (sys (resolve_dir (oe_kernel e) (oe_export e) newparent)) (\<lambda>new_dir.
     bind_io (record_entry_change e newparent newname) (\<lambda>_.
     bind_io (sys (call_sys (k_unit (oe_kernel e))
         (CallAt2 old_dir (as_bytes old_name) new_dir (as_bytes newname) (SysLinkat 0)))) (\<lambda>_.
     bind_io (sys (attr_in (oe_kernel e) (oe_export e) new_dir newname)) (\<lambda>a. ret (REntry a))))))"

definition op_statfs :: "'s ops_env \<Rightarrow> path \<Rightarrow> ('s ops_state, response, errno) io" where
  "op_statfs e p =
     bind_io (sys (resolve (oe_kernel e) (oe_export e) p)) (\<lambda>d.
     bind_io (sys (call_sys (k_statfs (oe_kernel e)) (CallFd d SysFstatfs))) (\<lambda>st.
     ret (RStatfs
       \<lparr>st_blocks = f_blocks st, st_bfree = f_bfree st, st_bavail = f_bavail st, st_files = f_files st,
        st_ffree = f_ffree st, st_bsize = ucast (f_bsize st),
        st_namelen = min (ucast (f_namelen st)) (word_of_nat NAME_MAX), st_frsize = ucast (f_frsize st)\<rparr>)))"

definition op_setxattr :: "'s ops_env \<Rightarrow> path \<Rightarrow> u8 list \<Rightarrow> u8 list \<Rightarrow> u32 \<Rightarrow> ('s ops_state, response, errno) io" where
  "op_setxattr e p n val flags =
     bind_io (record_change e p) (\<lambda>_.
     bind_io (sys (resolve (oe_kernel e) (oe_export e) p)) (\<lambda>d.
     bind_io (lift_res (cstring n)) (\<lambda>cname.
     bind_io (sys (call_sys (k_unit (oe_kernel e)) (CallPath (proc_path d) (SysSetxattr cname val flags)))) (\<lambda>_. ret ROk))))"

definition op_getxattr :: "'s ops_env \<Rightarrow> path \<Rightarrow> u8 list \<Rightarrow> ('s ops_state, response, errno) io" where
  "op_getxattr e p n =
     bind_io (sys (resolve (oe_kernel e) (oe_export e) p)) (\<lambda>d.
     bind_io (lift_res (cstring n)) (\<lambda>cname.
     bind_io (sys (xattr_read 4 (oe_kernel e) (\<lambda>len. CallPath (proc_path d) (SysGetxattr cname len)))) (\<lambda>val.
     ret (RXattr val))))"

definition op_listxattr :: "'s ops_env \<Rightarrow> path \<Rightarrow> ('s ops_state, response, errno) io" where
  "op_listxattr e p =
     bind_io (sys (resolve (oe_kernel e) (oe_export e) p)) (\<lambda>d.
     bind_io (sys (xattr_read 4 (oe_kernel e) (\<lambda>len. CallPath (proc_path d) (SysListxattr len)))) (\<lambda>val.
     ret (RXattr val)))"

definition op_removexattr :: "'s ops_env \<Rightarrow> path \<Rightarrow> u8 list \<Rightarrow> ('s ops_state, response, errno) io" where
  "op_removexattr e p n =
     bind_io (record_change e p) (\<lambda>_.
     bind_io (sys (resolve (oe_kernel e) (oe_export e) p)) (\<lambda>d.
     bind_io (lift_res (cstring n)) (\<lambda>cname.
     bind_io (sys (call_sys (k_unit (oe_kernel e)) (CallPath (proc_path d) (SysRemovexattr cname)))) (\<lambda>_. ret ROk))))"

definition op_access :: "'s ops_env \<Rightarrow> path \<Rightarrow> u32 \<Rightarrow> ('s ops_state, response, errno) io" where
  "op_access e p amode =
     bind_io (sys (resolve (oe_kernel e) (oe_export e) p)) (\<lambda>d.
     if amode AND NOT ACCESS_FLAGS \<noteq> 0 then fail EINVAL
     else bind_io (sys (call_sys (k_unit (oe_kernel e)) (CallPath (proc_path d) (SysFaccessat amode AT_EACCESS)))) (\<lambda>_. ret ROk))"

subsection \<open>Changing attributes\<close>

datatype target = TargetFd fd | TargetNode fd

definition target_fd :: "target \<Rightarrow> fd" where
  "target_fd t = (case t of TargetFd d \<Rightarrow> d | TargetNode d \<Rightarrow> d)"

definition setattr_owner :: "'s kernel \<Rightarrow> target \<Rightarrow> set_attr \<Rightarrow> ('s world, unit, errno) io" where
  "setattr_owner k t change =
     (if set_uid change = None \<and> set_gid change = None then ret ()
      else case t of
        TargetFd d \<Rightarrow> call_sys (k_unit k) (CallFd d (SysFchown (set_uid change) (set_gid change)))
      | TargetNode d \<Rightarrow>
          call_sys (k_unit k) (CallAt d [] (SysFchownat (set_uid change) (set_gid change) (AT_EMPTY_PATH OR AT_SYMLINK_NOFOLLOW))))"

definition setattr_mode :: "'s kernel \<Rightarrow> target \<Rightarrow> set_attr \<Rightarrow> ('s world, unit, errno) io" where
  "setattr_mode k t change =
     (case set_mode change of
        None \<Rightarrow> ret ()
      | Some mode \<Rightarrow>
          (case t of
             TargetFd d \<Rightarrow> call_sys (k_unit k) (CallFd d (SysFchmod (mode AND PERM_BITS)))
           | TargetNode d \<Rightarrow>
               bind_io (stat_fd_mode k d) (\<lambda>st_mode.
                 if kind_from_mode st_mode = Some Symlink then fail EOPNOTSUPP
                 else call_sys (k_unit k) (CallPath (proc_path d) (SysChmod (mode AND PERM_BITS))))))"

text \<open>The size is cast to a signed number, as the call takes it.\<close>

definition setattr_size :: "'s kernel \<Rightarrow> export \<Rightarrow> path option \<Rightarrow> target \<Rightarrow> set_attr \<Rightarrow> ('s world, unit, errno) io" where
  "setattr_size k ex p t change =
     (case set_size change of
        None \<Rightarrow> ret ()
      | Some len \<Rightarrow>
          (case t of
             TargetFd d \<Rightarrow> call_sys (k_unit k) (CallFd d (SysFtruncate (sint len)))
           | TargetNode d \<Rightarrow>
               bind_io (stat_fd_mode k d) (\<lambda>st_mode.
               bind_io (lift_res (case kind_from_mode st_mode of None \<Rightarrow> Err EIO | Some kind \<Rightarrow> servable kind)) (\<lambda>_.
               case p of
                 None \<Rightarrow> fail EINVAL
               | Some p \<Rightarrow>
                   bind_io (open_node k ex p O_WRONLY) (\<lambda>file.
                     call_sys (k_unit k) (CallFd file (SysFtruncate (sint len))))))))"

definition setattr_times :: "'s kernel \<Rightarrow> export \<Rightarrow> path option \<Rightarrow> target \<Rightarrow> set_attr \<Rightarrow> ('s world, unit, errno) io" where
  "setattr_times k ex p t change =
     (if set_atime change = None \<and> set_mtime change = None then ret ()
      else
        let atime = timespec (set_atime change); mtime = timespec (set_mtime change)
        in case t of
             TargetFd d \<Rightarrow> call_sys (k_unit k) (CallFd d (SysFutimens atime mtime))
           | TargetNode d \<Rightarrow>
               (case p of
                  None \<Rightarrow> fail EINVAL
                | Some p \<Rightarrow>
                    (case split_last p of
                       Some (parent, n) \<Rightarrow>
                         bind_io (resolve_dir k ex parent) (\<lambda>dir.
                           call_sys (k_unit k) (CallAt dir (as_bytes n) (SysUtimensat atime mtime AT_SYMLINK_NOFOLLOW)))
                     | None \<Rightarrow>
                         call_sys (k_unit k) (CallAt (ex_root ex) [dot] (SysUtimensat atime mtime AT_SYMLINK_NOFOLLOW)))))"

definition op_setattr :: "'s ops_env \<Rightarrow> path option \<Rightarrow> u64 option \<Rightarrow> set_attr \<Rightarrow> ('s ops_state, response, errno) io" where
  "op_setattr e p fh change =
     bind_io (case fh of None \<Rightarrow> ret None | Some fh \<Rightarrow> bind_io (with_handles (get_handle fh)) (\<lambda>h. ret (Some h))) (\<lambda>handle.
     bind_io
       (case (case handle of Some (HFile f hp w) \<Rightarrow> Some hp | _ \<Rightarrow> p) of
          Some origin \<Rightarrow> record_change e origin
        | None \<Rightarrow> ret ()) (\<lambda>_.
     bind_io
       (sys (case handle of
          Some (HFile f hp w) \<Rightarrow> bind_io (call_sys (k_fd (oe_kernel e)) (CallFd f SysDup)) (\<lambda>d. ret (TargetFd d))
        | Some (HDir d w) \<Rightarrow> bind_io (call_sys (k_fd (oe_kernel e)) (CallFd d SysDup)) (\<lambda>d. ret (TargetFd d))
        | None \<Rightarrow>
            (case p of
               None \<Rightarrow> fail EINVAL
             | Some p \<Rightarrow> bind_io (resolve (oe_kernel e) (oe_export e) p) (\<lambda>d. ret (TargetNode d))))) (\<lambda>t.
     bind_io (sys (setattr_owner (oe_kernel e) t change)) (\<lambda>_.
     bind_io (sys (setattr_mode (oe_kernel e) t change)) (\<lambda>_.
     bind_io (sys (setattr_size (oe_kernel e) (oe_export e) p t change)) (\<lambda>_.
     bind_io (sys (setattr_times (oe_kernel e) (oe_export e) p t change)) (\<lambda>_.
     bind_io (sys (attr_of (oe_kernel e) (oe_export e) (target_fd t))) (\<lambda>a. ret (RAttr a)))))))))"

subsection \<open>Requests on handles\<close>

definition op_read :: "'s ops_env \<Rightarrow> u64 \<Rightarrow> u64 \<Rightarrow> u32 \<Rightarrow> ('s ops_state, response, errno) io" where
  "op_read e fh offset amount =
     bind_io (with_handles (file_of fh)) (\<lambda>f.
     bind_io (sys (read_fill (oe_kernel e) f offset (min (unat amount) MAX_IO) [])) (\<lambda>data. ret (RRead data)))"

definition op_write :: "'s ops_env \<Rightarrow> u64 \<Rightarrow> u64 \<Rightarrow> u8 list \<Rightarrow> ('s ops_state, response, errno) io" where
  "op_write e fh offset data =
     (if length data > MAX_IO then fail EINVAL
      else
        bind_io (with_handles (file_and_path fh)) (\<lambda>(f, p).
        bind_io (record_change e p) (\<lambda>_.
        bind_io (sys (write_all_at (oe_kernel e) f data offset)) (\<lambda>_. ret (RWritten (word_of_nat (length data)))))))"

definition op_copy_file_range :: "'s ops_env \<Rightarrow> u64 \<Rightarrow> u64 \<Rightarrow> u64 \<Rightarrow> u64 \<Rightarrow> u64 \<Rightarrow> ('s ops_state, response, errno) io" where
  "op_copy_file_range e fh_in offset_in fh_out offset_out len =
     bind_io (with_handles (file_of fh_in)) (\<lambda>src.
     bind_io (with_handles (file_and_path fh_out)) (\<lambda>(dst, p).
     bind_io (lift_res (i64_of offset_in)) (\<lambda>off_in.
     bind_io (lift_res (i64_of offset_out)) (\<lambda>off_out.
     bind_io (record_change e p) (\<lambda>_.
     bind_io (sys (retried (call_sys (k_num (oe_kernel e))
         (CallCopyFileRange src off_in dst off_out (min (unat len) MAX_COPY))))) (\<lambda>copied s.
     if copied < 0 \<or> copied \<ge> 2 ^ 32 then None else ret (RCopied (word_of_int copied)) s))))))"

definition op_fallocate :: "'s ops_env \<Rightarrow> u64 \<Rightarrow> u64 \<Rightarrow> u64 \<Rightarrow> u32 \<Rightarrow> ('s ops_state, response, errno) io" where
  "op_fallocate e fh offset len mode =
     (if unat len > MAX_FALLOCATE then fail EINVAL
      else if mode AND NOT FALLOCATE_MODES_ALLOWED \<noteq> 0 then fail EOPNOTSUPP
      else
        bind_io (with_handles (file_and_path fh)) (\<lambda>(f, p).
        bind_io (lift_res (i64_of offset)) (\<lambda>off.
        bind_io (lift_res (i64_of len)) (\<lambda>n.
        bind_io (record_change e p) (\<lambda>_.
        bind_io (sys (retried (call_sys (k_unit (oe_kernel e)) (CallFd f (SysFallocate mode off n))))) (\<lambda>_. ret ROk))))))"

definition op_lseek :: "'s ops_env \<Rightarrow> u64 \<Rightarrow> u64 \<Rightarrow> whence \<Rightarrow> ('s ops_state, response, errno) io" where
  "op_lseek e fh offset whence =
     bind_io (with_handles (file_of fh)) (\<lambda>f.
     bind_io (lift_res (i64_of offset)) (\<lambda>off.
     bind_io (sys (call_sys (k_num (oe_kernel e))
         (CallFd f (SysLseek off (case whence of Data \<Rightarrow> SEEK_DATA | Hole \<Rightarrow> SEEK_HOLE))))) (\<lambda>found s.
     if found < 0 then None else ret (RSeeked (word_of_int found)) s)))"

definition op_release :: "u64 \<Rightarrow> ('s ops_state, response, errno) io" where
  "op_release fh s =
     (case remove_handle fh (os_pool s) (os_handles s) of
        (pool, t, None) \<Rightarrow> ret ROk (s\<lparr>os_pool := pool, os_handles := t\<rparr>)
      | (pool, t, Some h) \<Rightarrow> ret ROk (drop_handle h (s\<lparr>os_pool := pool, os_handles := t\<rparr>)))"

definition op_fsync :: "'s ops_env \<Rightarrow> u64 \<Rightarrow> bool \<Rightarrow> ('s ops_state, response, errno) io" where
  "op_fsync e fh datasync =
     bind_io (with_handles (get_handle fh)) (\<lambda>h.
     bind_io (sys (call_sys (k_unit (oe_kernel e))
         (CallFd (case h of HFile f p w \<Rightarrow> f | HDir d w \<Rightarrow> d) (if datasync then SysFdatasync else SysFsync)))) (\<lambda>_. ret ROk))"

definition op_readdir :: "'s ops_env \<Rightarrow> u64 \<Rightarrow> u64 \<Rightarrow> u32 \<Rightarrow> ('s ops_state, response, errno) io" where
  "op_readdir e fh offset max_bytes =
     bind_io (with_handles (dir_of fh)) (\<lambda>dir.
     bind_io (sys (read_dir (oe_kernel e) (oe_export e) dir offset (min (unat max_bytes) MAX_IO))) (\<lambda>page.
     ret (RReaddir (ls_entries page) (ls_end page))))"

subsection \<open>Opens\<close>

definition opened_already :: "'s ops_env \<Rightarrow> server_handle \<Rightarrow> ('s ops_state, response, failure) io" where
  "opened_already e h = bind_io (err_io FErrno (handle_attr e h)) (\<lambda>a. ret (ROpened a))"

text \<open>What was reserved for an open: nothing is a panic, a handle that is there answers, a slot goes on.\<close>

definition with_reserved :: "'s ops_env \<Rightarrow> reservation \<Rightarrow> (u64 \<Rightarrow> ('s ops_state, response, failure) io) \<Rightarrow>
    ('s ops_state, response, failure) io" where
  "with_reserved e reserved f =
     (case reserved of
        Inl err \<Rightarrow> fail (failure_of_reserve err)
      | Inr None \<Rightarrow> (\<lambda>s. None)
      | Inr (Some (Held h)) \<Rightarrow> opened_already e h
      | Inr (Some (Slot fh)) \<Rightarrow> f fh)"

definition op_open :: "'s ops_env \<Rightarrow> path \<Rightarrow> u32 \<Rightarrow> reservation \<Rightarrow> ('s ops_state, response, failure) io" where
  "op_open e p flags reserved = with_reserved e reserved (\<lambda>fh.
     bind_io (with_slot (err_io FErrno (
       let flags = open_flags flags False
       in bind_io (if flags AND O_TRUNC \<noteq> 0 then record_change e p else ret ()) (\<lambda>_.
          bind_io (sys (open_node (oe_kernel e) (oe_export e) p flags)) (\<lambda>f.
          bind_io (sys (attr_of (oe_kernel e) (oe_export e) f)) (\<lambda>a.
          bind_io (lift_res (servable (attr_kind a))) (\<lambda>_.
          bind_io (hold_watch e (parent_of p)) (\<lambda>watch. ret (a, HFile f p watch))))))))) (\<lambda>(a, h).
     bind_io (insert_handle fh h) (\<lambda>_. ret (ROpened a))))"

text \<open>A create whose path is too long lets go of the directory it held.\<close>

definition create_path :: "path \<Rightarrow> name \<Rightarrow> nat option \<Rightarrow> ('s ops_state, path, errno) io" where
  "create_path parent n watch s =
     (case join parent n of
        Inr p \<Rightarrow> ret p s
      | Inl _ \<Rightarrow> fail ENAMETOOLONG (s\<lparr>os_watches := watches_release watch (os_watches s)\<rparr>))"

definition op_create :: "'s ops_env \<Rightarrow> path \<Rightarrow> name \<Rightarrow> u32 \<Rightarrow> u32 \<Rightarrow> reservation \<Rightarrow> ('s ops_state, response, failure) io" where
  "op_create e parent n mode flags reserved = with_reserved e reserved (\<lambda>fh.
     bind_io (with_slot (err_io FErrno (
       bind_io (record_entry_change e parent n) (\<lambda>_.
       bind_io (sys (open_in (oe_kernel e) (oe_export e) parent n (open_flags flags True OR O_CREAT) (mode AND PERM_BITS))) (\<lambda>f.
       bind_io (sys (attr_of (oe_kernel e) (oe_export e) f)) (\<lambda>a.
       bind_io (lift_res (servable (attr_kind a))) (\<lambda>_.
       bind_io (hold_watch e parent) (\<lambda>watch.
       bind_io (create_path parent n watch) (\<lambda>p. ret (a, HFile f p watch)))))))))) (\<lambda>(a, h).
     bind_io (insert_handle fh h) (\<lambda>_. ret (ROpened a))))"

definition op_opendir :: "'s ops_env \<Rightarrow> path \<Rightarrow> reservation \<Rightarrow> ('s ops_state, response, failure) io" where
  "op_opendir e p reserved = with_reserved e reserved (\<lambda>fh.
     bind_io (with_slot (err_io FErrno (
       bind_io (sys (open_node (oe_kernel e) (oe_export e) p (O_RDONLY OR O_DIRECTORY))) (\<lambda>d.
       bind_io (sys (attr_of (oe_kernel e) (oe_export e) d)) (\<lambda>a.
       bind_io (lift_res (servable (attr_kind a))) (\<lambda>_.
       bind_io (hold_watch e p) (\<lambda>watch. ret (a, HDir d watch)))))))) (\<lambda>(a, h).
     bind_io (insert_handle fh h) (\<lambda>_. ret (ROpened a))))"

text \<open>\<open>Ops::reserve\<close>: what an open takes as it begins.\<close>

definition ops_reserve :: "request \<Rightarrow> 's ops_state \<Rightarrow> reservation \<times> 's ops_state" where
  "ops_reserve req s =
     (case opens req of
        Some fh \<Rightarrow>
          (let (pool, r) = reserve fh (os_pool s) (os_handles s)
           in (case r of Inl err \<Rightarrow> Inl err | Inr res \<Rightarrow> Inr (Some res), s\<lparr>os_pool := pool\<rparr>))
      | None \<Rightarrow> (Ok None, s))"

subsection \<open>Dispatch\<close>

fun run :: "'s ops_env \<Rightarrow> request \<Rightarrow> reservation \<Rightarrow> ('s ops_state, response, failure) io" where
  "run e (Lookup parent n) reserved = err_io FErrno (op_lookup e parent n)"
| "run e (Getattr p fh) reserved = err_io FErrno (op_getattr e p fh)"
| "run e (Setattr p fh change) reserved = err_io FErrno (op_setattr e p fh change)"
| "run e (Readlink p) reserved = err_io FErrno (op_readlink e p)"
| "run e (Mknod parent n mode rdev) reserved = err_io FErrno (op_mknod e parent n mode rdev)"
| "run e (Mkdir parent n mode) reserved = err_io FErrno (op_mkdir e parent n mode)"
| "run e (Unlink parent n) reserved = err_io FErrno (op_unlink e False parent n)"
| "run e (Rmdir parent n) reserved = err_io FErrno (op_unlink e True parent n)"
| "run e (SymlinkAt parent n target) reserved = err_io FErrno (op_symlink e parent n target)"
| "run e (Rename parent n newparent newname flags) reserved = err_io FErrno (op_rename e parent n newparent newname flags)"
| "run e (Link p newparent newname) reserved = err_io FErrno (op_link e p newparent newname)"
| "run e (Open fh p flags) reserved = op_open e p flags reserved"
| "run e (Create fh parent n mode flags) reserved = op_create e parent n mode flags reserved"
| "run e (Read fh offset amount) reserved = err_io FErrno (op_read e fh offset amount)"
| "run e (Write fh offset data) reserved = err_io FErrno (op_write e fh offset data)"
| "run e (CopyFileRange fh_in offset_in fh_out offset_out len) reserved =
     err_io FErrno (op_copy_file_range e fh_in offset_in fh_out offset_out len)"
| "run e (Fallocate fh offset len mode) reserved = err_io FErrno (op_fallocate e fh offset len mode)"
| "run e (Lseek fh offset whence) reserved = err_io FErrno (op_lseek e fh offset whence)"
| "run e (Release fh ordered) reserved = err_io FErrno (op_release fh)"
| "run e (Releasedir fh ordered) reserved = err_io FErrno (op_release fh)"
| "run e (Fsync fh datasync) reserved = err_io FErrno (op_fsync e fh datasync)"
| "run e (Opendir fh p) reserved = op_opendir e p reserved"
| "run e (Readdir fh offset max_bytes) reserved = err_io FErrno (op_readdir e fh offset max_bytes)"
| "run e (Statfs p) reserved = err_io FErrno (op_statfs e p)"
| "run e (Setxattr p n val flags) reserved = err_io FErrno (op_setxattr e p n val flags)"
| "run e (Getxattr p n) reserved = err_io FErrno (op_getxattr e p n)"
| "run e (Listxattr p) reserved = err_io FErrno (op_listxattr e p)"
| "run e (Removexattr p n) reserved = err_io FErrno (op_removexattr e p n)"
| "run e (Access p amode) reserved = err_io FErrno (op_access e p amode)"

text \<open>A reservation nothing used.\<close>

definition drop_reservation :: "reservation \<Rightarrow> 's ops_state \<Rightarrow> 's ops_state" where
  "drop_reservation reserved s =
     (case reserved of Inr (Some (Slot fh)) \<Rightarrow> s\<lparr>os_pool := slot_drop (os_pool s)\<rparr> | _ \<Rightarrow> s)"

definition count_refusal :: "'s ops_env \<Rightarrow> 's ops_state \<Rightarrow> 's ops_state" where
  "count_refusal e s = s\<lparr>os_refusals := snd (refused (k_now (oe_kernel e) (w_sys (os_world s))) (os_refusals s))\<rparr>"

definition dispatch :: "'s ops_env \<Rightarrow> request \<Rightarrow> reservation \<Rightarrow> 's ops_state \<Rightarrow> (response \<times> 's ops_state) option" where
  "dispatch e req reserved s =
     (case admit (oe_ids e) req of
        Inl err \<Rightarrow> Some (RErr err, drop_reservation reserved s)
      | Inr _ \<Rightarrow>
          (case run e req reserved s of
             None \<Rightarrow> None
           | Some (Inr resp, s1) \<Rightarrow> Some (reply_ids (oe_ids e) (reads_posix_acl req) resp, s1)
           | Some (Inl FPoolFull, s1) \<Rightarrow> Some (RErr EMFILE, count_refusal e s1)
           | Some (Inl (FErrno err), s1) \<Rightarrow>
               Some (RErr err, if err = EMFILE \<or> err = ENFILE then count_refusal e s1 else s1)))"

text \<open>A request as it runs once it has begun.\<close>

definition dispatch_begun :: "'s ops_env \<Rightarrow> request \<Rightarrow> 's ops_state \<Rightarrow> (response \<times> 's ops_state) option" where
  "dispatch_begun e req s = (let (reserved, s1) = ops_reserve req s in dispatch e req reserved s1)"

end
