(* ===== verification/OpsCalls.thy ===== *)
theory OpsCalls
  imports Ops
begin

text \<open>
  Which system calls a request makes.  Whatever the request and whatever the system answers, every path
  below the export reaches the kernel through \<open>openat2\<close> with every restriction of \<open>RESOLVE\<close>, and every other
  call is on a descriptor, on the entry a single validated name has in a directory's descriptor, without
  following it, or through a descriptor's own link in \<open>/proc\<close>.
\<close>

subsection \<open>Confined calls\<close>

definition component :: "u8 list \<Rightarrow> bool" where
  "component c \<longleftrightarrow> name_ok (Name c)"

text \<open>An operation on an entry by name acts on the entry itself, whatever it links to.\<close>

fun on_entry :: "at_op \<Rightarrow> bool" where
  "on_entry (SysOpenat2 flags mode res) = False"
| "on_entry (SysStatx flags m) = (flags AND AT_SYMLINK_NOFOLLOW \<noteq> 0)"
| "on_entry (SysNameToHandleAt flags) = (flags AND AT_SYMLINK_FOLLOW = 0)"
| "on_entry (SysFstatat flags) = (flags AND AT_SYMLINK_NOFOLLOW \<noteq> 0)"
| "on_entry SysReadlinkat = True"
| "on_entry (SysMknodat t m d) = True"
| "on_entry (SysMkdirat m) = True"
| "on_entry (SysUnlinkat d) = True"
| "on_entry (SysSymlinkat t) = True"
| "on_entry (SysFchownat u g flags) = (flags AND AT_SYMLINK_NOFOLLOW \<noteq> 0)"
| "on_entry (SysUtimensat a m flags) = (flags AND AT_SYMLINK_NOFOLLOW \<noteq> 0)"

fun confined :: "syscall \<Rightarrow> bool" where
  "confined (CallAt d p op) =
     (case op of
        SysOpenat2 flags mode res \<Rightarrow>
          res = RESOLVE \<and> flags AND O_NOFOLLOW \<noteq> 0 \<and> (p = [dot] \<or> list_all component (split_slash p))
      | _ \<Rightarrow> p = [] \<or> (p = [dot] \<or> component p) \<and> on_entry op)"
| "confined (CallAt2 d p d' q op) = (component p \<and> component q \<and> (case op of SysLinkat flags \<Rightarrow> flags AND AT_SYMLINK_FOLLOW = 0 | _ \<Rightarrow> True))"
| "confined (CallPath p op) =
     (\<exists>d. p = proc_path d \<or>
        (\<exists>c. component c \<and> p = proc_path d @ slash # c \<and> (case op of SysLlistxattr len \<Rightarrow> True | _ \<Rightarrow> False)))"
| "confined (CallFd d op) = True"
| "confined (CallCopyFileRange a i b j len) = True"
| "confined (CallInotifyRm wd) = True"

abbreviation world_ok :: "'s world \<Rightarrow> bool" where
  "world_ok \<equiv> calls_all confined"

text \<open>Flags bit by bit.\<close>

lemma nofollow_bit: "flags AND O_NOFOLLOW \<noteq> 0 \<longleftrightarrow> bit flags 17"
  using and_exp_eq_0_iff_not_bit [of flags 17] by (simp add: O_NOFOLLOW_def)

lemma at_nofollow_bit: "flags AND AT_SYMLINK_NOFOLLOW \<noteq> 0 \<longleftrightarrow> bit flags 8"
  using and_exp_eq_0_iff_not_bit [of flags 8] by (simp add: AT_SYMLINK_NOFOLLOW_def)

lemma nofollow_set [simp]: "bit O_NOFOLLOW 17" "bit AT_SYMLINK_NOFOLLOW 8" "AT_SYMLINK_NOFOLLOW \<noteq> 0"
  by (simp_all add: O_NOFOLLOW_def AT_SYMLINK_NOFOLLOW_def)

text \<open>The paths the calls are given.\<close>

lemma component_as_bytes [simp]: "component (as_bytes n) \<longleftrightarrow> name_ok n"
  by (simp add: component_def)

lemma root_rel: "list_all name_ok (names p) \<Longrightarrow> to_os_string p = [] \<or> list_all component (split_slash (to_os_string p))"
proof (cases "names p = []")
  case False
  assume ok: "list_all name_ok (names p)"
  then have "split_slash (to_os_string p) = map as_bytes (names p)"
    using False by (simp add: to_os_string_joined split_slash_joined)
  then show ?thesis using ok by (simp add: list_all_iff)
qed (simp add: to_os_string_joined)

lemma proc_path_confined [simp]: "\<exists>d. proc_path d' = proc_path d"
  by blast

lemma path_names: "path_ok p \<Longrightarrow> list_all name_ok (names p)"
  by (simp add: path_ok_def)

lemma split_component: "name_ok n \<Longrightarrow> split_slash (as_bytes n) = [as_bytes n]"
  by (rule split_slash_last) (simp add: name_ok_def)

subsection \<open>The export's functions\<close>

text \<open>\<open>Export::open\<close> asks for file handles with one flag or none.\<close>

definition export_ok :: "export \<Rightarrow> bool" where
  "export_ok ex \<longleftrightarrow> ex_handle_flags ex = 0 \<or> ex_handle_flags ex = AT_HANDLE_FID"

lemma export_open_ok: "yields export_ok (export_open k dir)"
  unfolding export_open_def
proof (rule yields_after, rule yields_after, rule yields_if, rule yields_fail, rule yields_after, goal_cases)
  case (1 root st fid)
  show ?case
  proof (rule yields_bind [where R = "\<lambda>(flags, i). flags = 0 \<or> flags = AT_HANDLE_FID"])
    show "yields (\<lambda>(flags, i). flags = 0 \<or> flags = AT_HANDLE_FID)
      (case fid of
         Inr i \<Rightarrow> ret (AT_HANDLE_FID, i)
       | Inl e \<Rightarrow>
           if e = EINVAL
           then bind_io (err_io NoHandlesOldKernel (file_handle k root [] AT_EMPTY_PATH)) (\<lambda>i. ret (0, i))
           else fail (NoHandles e))"
      by (intro yields_intros) auto
  qed (auto simp: export_ok_def Let_def intro!: yields_intros)
qed

lemma handle_flags_entry: "export_ok ex \<Longrightarrow> ex_handle_flags ex AND AT_SYMLINK_FOLLOW = 0"
  by (auto simp: export_ok_def at_bits)

lemma keeps_openat2_root:
  "list_all name_ok (names p) \<Longrightarrow> bit flags 17 \<Longrightarrow> keeps world_ok (openat2_root k ex p flags mode)"
  unfolding openat2_root_def openat2_def Let_def
  using root_rel [of p] by (intro keeps_call) (auto simp: nofollow_bit bit_or_iff)

lemma keeps_openat2:
  "name_ok n \<Longrightarrow> bit flags 17 \<Longrightarrow> keeps world_ok (openat2 k dir (as_bytes n) flags mode)"
  unfolding openat2_def by (intro keeps_call) (auto simp: nofollow_bit split_component)

lemma keeps_resolving [keeps_intros]:
  "path_ok p \<Longrightarrow> keeps world_ok (resolve k ex p)"
  "path_ok p \<Longrightarrow> keeps world_ok (resolve_dir k ex p)"
  "name_ok n \<Longrightarrow> keeps world_ok (resolve_dir_in k parent n)"
  "path_ok p \<Longrightarrow> keeps world_ok (open_node k ex p flags)"
  unfolding resolve_def resolve_dir_def resolve_dir_in_def open_node_def
  by (auto intro!: keeps_openat2_root keeps_openat2 dest: path_names simp: bit_or_iff)

lemma keeps_open_in [keeps_intros]: "path_ok p \<Longrightarrow> name_ok n \<Longrightarrow> keeps world_ok (open_in k ex p n flags mode)"
  unfolding open_in_def by (auto intro!: keeps_intros keeps_openat2 simp: bit_or_iff)

lemma path_ok_split: "path_ok p \<Longrightarrow> split_last p = Some (parent, n) \<Longrightarrow> path_ok parent \<and> name_ok n"
  using byte_len_append [of "names parent" "[n]"] by (cases p; cases parent) (auto simp: split_last_Some path_ok_def)

lemma keeps_resolve_parent [keeps_intros]: "path_ok p \<Longrightarrow> keeps world_ok (resolve_parent k ex p)"
  unfolding resolve_parent_def by (auto intro!: keeps_intros dest: path_ok_split)

lemma keeps_xattr_names [keeps_intros]: "keeps world_ok (xattr_names k d)"
  unfolding xattr_names_def xattr_names_by_path_def by (auto intro!: keeps_intros)

lemma keeps_xattr_names_at [keeps_intros]: "name_ok n \<Longrightarrow> keeps world_ok (xattr_names_at k d n)"
  unfolding xattr_names_at_def xattr_names_by_path_def
  by (auto intro!: keeps_intros exI [of _ d] exI [of _ "as_bytes n"])

lemma keeps_attr_of [keeps_intros]: "keeps world_ok (attr_of k ex d)"
  unfolding attr_of_def statx_def file_handle_def by (auto intro!: keeps_intros)

lemma keeps_attr_in [keeps_intros]: "name_ok n \<Longrightarrow> keeps world_ok (attr_in k ex d n)"
  unfolding attr_in_def by (auto intro!: keeps_intros keeps_openat2 simp: bit_or_iff)

lemma keeps_attr_entry [keeps_intros]: "export_ok ex \<Longrightarrow> name_ok n \<Longrightarrow> keeps world_ok (attr_entry k ex d n)"
  unfolding attr_entry_def statx_def file_handle_def
  by (auto intro!: keeps_intros simp: handle_flags_entry at_nofollow_bit bit_or_iff)

subsection \<open>Directories\<close>

lemma name_new_ok: "name_new bs = Ok n \<Longrightarrow> name_ok n"
  by (auto simp: name_new_Ok)

lemma keeps_describe_entry [keeps_intros]: "export_ok ex \<Longrightarrow> keeps world_ok (describe_entry k ex d n)"
  unfolding describe_entry_def by (auto intro!: keeps_intros dest: name_new_ok)

lemma keeps_read_entries [keeps_intros]:
  "export_ok ex \<Longrightarrow> keeps world_ok (read_entries k ex d max_bytes raws used entries)"
  by (induction k ex d max_bytes raws used entries rule: read_entries.induct) (auto intro!: keeps_intros)

lemma read_page_calls:
  assumes "read_page k ex d max_bytes used entries w = Some y"
  shows "export_ok ex \<longrightarrow> world_ok w \<longrightarrow> world_ok (snd y)"
proof (rule read_page.raw_induct [where P = "\<lambda>k ex d max_bytes used entries w y. export_ok ex \<longrightarrow> world_ok w \<longrightarrow> world_ok (snd y)", OF _ assms], goal_cases)
  case (1 f k ex d max_bytes used entries w y)
  show ?case
  proof (intro impI)
    assume ex: "export_ok ex" and w: "world_ok w"
    obtain r w1 where call: "call_sys (k_bytes k) (CallFd d (SysGetdents64 GETDENTS_BUF)) w = Some (r, w1)"
      using call_sys_total by blast
    have w1: "world_ok w1" by (rule keepsD [OF keeps_call w call]) simp
    show "world_ok (snd y)"
    proof (cases "\<exists>buf. r = Ok buf \<and> buf \<noteq> []")
      case True
      then obtain buf where buf: "r = Ok buf" "buf \<noteq> []" by blast
      obtain r2 w2 where page: "read_entries k ex d max_bytes (parse buf) used entries w1 = Some (r2, w2)"
        using 1(2) call buf by (auto split: option.splits)
      have w2: "world_ok w2" by (rule keepsD [OF keeps_read_entries [OF ex] w1 page])
      show ?thesis using 1(2) 1(1) call buf page w2 ex by (cases y; cases r2) (auto split: if_splits)
    next
      case False
      then show ?thesis using 1(2) call w1 by (auto split: sum.splits if_splits)
    qed
  qed
qed

lemma keeps_read_dir [keeps_intros]: "export_ok ex \<Longrightarrow> keeps world_ok (read_dir k ex d offset max_bytes)"
proof -
  assume "export_ok ex"
  then have "keeps world_ok (read_page k ex d max_bytes used entries)" for used entries
    using read_page_calls [of k ex d max_bytes used entries] by (fastforce simp: keeps_def)
  then show ?thesis unfolding read_dir_def by (auto intro!: keeps_intros)
qed

subsection \<open>Loops\<close>

lemma retried_keeps:
  assumes "retried m w = Some y"
  shows "keeps P m \<longrightarrow> P w \<longrightarrow> P (snd y)"
proof (rule retried.raw_induct [where P = "\<lambda>m w y. keeps P m \<longrightarrow> P w \<longrightarrow> P (snd y)", OF _ assms], goal_cases)
  case (1 f m w y)
  obtain r w1 where m: "m w = Some (r, w1)" using 1(2) by (auto split: option.splits)
  show ?case using 1 m keepsD [of P m w r w1] by (cases y) (auto split: sum.splits if_splits)
qed

lemma keeps_retried [keeps_intros]: "keeps P m \<Longrightarrow> keeps P (retried m)"
  using retried_keeps [of m _ _ P] by (fastforce simp: keeps_def)

lemma read_fill_calls:
  assumes "read_fill k f offset amount buf w = Some y"
  shows "world_ok w \<longrightarrow> world_ok (snd y)"
proof (rule read_fill.raw_induct [where P = "\<lambda>k f offset amount buf w y. world_ok w \<longrightarrow> world_ok (snd y)", OF _ assms], goal_cases)
  case (1 g k f offset amount buf w y)
  obtain r w1 where call:
    "call_sys (k_bytes k) (CallFd f (SysPread (offset + word_of_nat (length buf)) (amount - length buf))) w = Some (r, w1)"
    using call_sys_total by blast
  have "world_ok w \<Longrightarrow> world_ok w1" by (rule keepsD [OF keeps_call _ call]) simp_all
  then show ?case using 1 call by (cases y) (auto split: sum.splits if_splits)
qed

lemma keeps_read_fill [keeps_intros]: "keeps world_ok (read_fill k f offset amount buf)"
  using read_fill_calls [of k f offset amount buf] by (fastforce simp: keeps_def)

lemma write_all_at_calls:
  assumes "write_all_at k f data offset w = Some y"
  shows "world_ok w \<longrightarrow> world_ok (snd y)"
proof (rule write_all_at.raw_induct [where P = "\<lambda>k f data offset w y. world_ok w \<longrightarrow> world_ok (snd y)", OF _ assms], goal_cases)
  case (1 g k f data offset w y)
  obtain r w1 where call: "call_sys (k_num k) (CallFd f (SysPwrite offset data)) w = Some (r, w1)"
    using call_sys_total by blast
  have "world_ok w \<Longrightarrow> world_ok w1" by (rule keepsD [OF keeps_call _ call]) simp_all
  then show ?case using 1 call by (cases y) (auto split: sum.splits if_splits)
qed

lemma keeps_write_all_at [keeps_intros]: "keeps world_ok (write_all_at k f data offset)"
  using write_all_at_calls [of k f data offset] by (fastforce simp: keeps_def)

lemma keeps_xattr_read [keeps_intros]:
  "(\<And>len. confined (call len)) \<Longrightarrow> keeps world_ok (xattr_read tries k call)"
  by (induction tries) (auto intro!: keeps_intros)

subsection \<open>Requests\<close>

text \<open>What the decoder makes sure of: every path and name of a request is valid.\<close>

fun request_ok :: "request \<Rightarrow> bool" where
  "request_ok (Lookup parent n) = (path_ok parent \<and> name_ok n)"
| "request_ok (Getattr p fh) = (\<forall>q. p = Some q \<longrightarrow> path_ok q)"
| "request_ok (Setattr p fh change) = (\<forall>q. p = Some q \<longrightarrow> path_ok q)"
| "request_ok (Readlink p) = path_ok p"
| "request_ok (Mknod parent n mode rdev) = (path_ok parent \<and> name_ok n)"
| "request_ok (Mkdir parent n mode) = (path_ok parent \<and> name_ok n)"
| "request_ok (Unlink parent n) = (path_ok parent \<and> name_ok n)"
| "request_ok (Rmdir parent n) = (path_ok parent \<and> name_ok n)"
| "request_ok (SymlinkAt parent n target) = (path_ok parent \<and> name_ok n)"
| "request_ok (Rename parent n newparent newname flags) = (path_ok parent \<and> name_ok n \<and> path_ok newparent \<and> name_ok newname)"
| "request_ok (Link p newparent newname) = (path_ok p \<and> path_ok newparent \<and> name_ok newname)"
| "request_ok (Open fh p flags) = path_ok p"
| "request_ok (Create fh parent n mode flags) = (path_ok parent \<and> name_ok n)"
| "request_ok (Opendir fh p) = path_ok p"
| "request_ok (Statfs p) = path_ok p"
| "request_ok (Setxattr p n val flags) = path_ok p"
| "request_ok (Getxattr p n) = path_ok p"
| "request_ok (Listxattr p) = path_ok p"
| "request_ok (Removexattr p n) = path_ok p"
| "request_ok (Access p amode) = path_ok p"
| "request_ok _ = True"

abbreviation state_ok :: "'s ops_state \<Rightarrow> bool" where
  "state_ok s \<equiv> world_ok (os_world s)"

lemma keeps_sys [keeps_intros]: "keeps world_ok m \<Longrightarrow> keeps state_ok (sys m)"
  unfolding keeps_def sys_def by (auto split: option.splits)

lemma keeps_bookkeeping [keeps_intros]:
  "keeps state_ok (record_change e p)" "keeps state_ok (record_entry_change e p n)" "keeps state_ok (with_handles g)"
  "keeps state_ok (create_path p n watch)" "keeps state_ok (insert_handle fh h)" "keeps state_ok (op_release fh)"
  unfolding keeps_def
  by (auto simp: record_change_def record_entry_change_def with_handles_def create_path_def insert_handle_def
      op_release_def drop_handle_def ret_def fail_def split: sum.splits option.splits prod.splits)

lemma keeps_with_slot [keeps_intros]: "keeps state_ok m \<Longrightarrow> keeps state_ok (with_slot m)"
  unfolding keeps_def with_slot_def by (fastforce split: option.splits sum.splits prod.splits)

lemma world_ok_after:
  "world_ok w \<Longrightarrow> keeps world_ok m \<Longrightarrow> \<exists>r w'. m w = Some (r, w') \<Longrightarrow> world_ok (snd (the (m w)))"
  by (auto dest: keepsD)

lemma call_world_ok: "confined c \<Longrightarrow> world_ok w \<Longrightarrow> world_ok (snd (the (call_sys f c w)))"
  by (intro world_ok_after call_sys_total keeps_call)

lemma inotified_keeps: "marks_keep world_ok {n. name_ok n} (inotified k ex)"
proof -
  have "keeps world_ok (resolve_dir k ex p)" if "set (names p) \<subseteq> {n. name_ok n}" for p
    unfolding resolve_dir_def using that by (intro keeps_openat2_root) (auto simp: list_all_iff bit_or_iff)
  then have "world_ok (snd (the (resolve_dir k ex p w)))" if "set (names p) \<subseteq> {n. name_ok n}" "world_ok w" for p w
    using that by (intro world_ok_after inotified_total)
  moreover have "world_ok (snd (the (resolve_dir_in k d n w)))" if "name_ok n" "world_ok w" for d n w
    using that by (intro world_ok_after inotified_total keeps_intros)
  ultimately show ?thesis by (auto simp: marks_keep_def inotified_def intro!: call_world_ok)
qed

lemma keeps_hold_watch [keeps_intros]: "path_ok p \<Longrightarrow> keeps state_ok (hold_watch e p)"
  unfolding keeps_def
proof (intro allI impI)
  fix s r s'
  assume p: "path_ok p" and s: "state_ok s" and hold: "hold_watch e p s = Some (r, s')"
  obtain held ws w where arm: "watches_arm (oe_kernel e) (oe_export e) p (os_watches s) (os_world s) = (held, ws, w)"
    by (metis prod_cases3)
  have "set (names p) \<subseteq> {n. name_ok n}" using p by (auto simp: path_ok_def list_all_iff)
  from watches_arm_sys [OF inotified_keeps s this arm] show "state_ok s'"
    using hold arm by (auto simp: hold_watch_def watches_hold_def)
qed

lemma path_ok_parent: "path_ok p \<Longrightarrow> path_ok (parent_of p)"
  using path_ok_split [of p] by (cases "split_last p") (auto simp: parent_of_def path_root_def path_ok_def byte_len_def)

lemma keeps_bind_yields:
  "keeps P m \<Longrightarrow> yields R m \<Longrightarrow> (\<And>a. R a \<Longrightarrow> keeps P (f a)) \<Longrightarrow> keeps P (bind_io m f)"
  unfolding keeps_def yields_def bind_io_Some by blast

lemma yields_sys: "yields Q m \<Longrightarrow> yields Q (sys m)"
  by (auto simp: yields_def sys_def split: option.splits)

lemma keeps_handle_attr [keeps_intros]: "keeps state_ok (handle_attr e h)"
  unfolding handle_attr_def by (intro keeps_intros)

lemma keeps_stat_fd_mode [keeps_intros]: "keeps world_ok (stat_fd_mode k d)"
  unfolding stat_fd_mode_def by (auto intro!: keeps_intros)

lemma keeps_named [keeps_intros]:
  "path_ok p \<Longrightarrow> name_ok n \<Longrightarrow> keeps state_ok (op_lookup e p n)"
  "path_ok p \<Longrightarrow> name_ok n \<Longrightarrow> keeps state_ok (op_mknod e p n mode rdev)"
  "path_ok p \<Longrightarrow> name_ok n \<Longrightarrow> keeps state_ok (op_mkdir e p n mode)"
  "path_ok p \<Longrightarrow> name_ok n \<Longrightarrow> keeps state_ok (op_unlink e remove_dir p n)"
  "path_ok p \<Longrightarrow> name_ok n \<Longrightarrow> keeps state_ok (op_symlink e p n target)"
  "path_ok p \<Longrightarrow> name_ok n \<Longrightarrow> path_ok p' \<Longrightarrow> name_ok n' \<Longrightarrow> keeps state_ok (op_rename e p n p' n' flags)"
  unfolding op_lookup_def op_mknod_def op_mkdir_def op_unlink_def op_symlink_def op_rename_def
  by (auto intro!: keeps_intros)

lemma keeps_op_link [keeps_intros]:
  "path_ok p \<Longrightarrow> path_ok p' \<Longrightarrow> name_ok n' \<Longrightarrow> keeps state_ok (op_link e p p' n')"
  unfolding op_link_def
proof (rule keeps_bind_yields)
  assume "path_ok p"
  then have "yields (\<lambda>(d, n). name_ok n) (resolve_parent (oe_kernel e) (oe_export e) p)"
    unfolding resolve_parent_def by (auto intro!: yields_intros dest: path_ok_split split: option.split)
  then show "yields (\<lambda>(d, n). name_ok n) (sys (resolve_parent (oe_kernel e) (oe_export e) p))" by (rule yields_sys)
qed (auto intro!: keeps_intros)

lemma keeps_pathed [keeps_intros]:
  "(\<And>q. p = Some q \<Longrightarrow> path_ok q) \<Longrightarrow> keeps state_ok (op_getattr e p fh)"
  "path_ok q \<Longrightarrow> keeps state_ok (op_readlink e q)"
  "path_ok q \<Longrightarrow> keeps state_ok (op_statfs e q)"
  "path_ok q \<Longrightarrow> keeps state_ok (op_setxattr e q bs val flags)"
  "path_ok q \<Longrightarrow> keeps state_ok (op_getxattr e q bs)"
  "path_ok q \<Longrightarrow> keeps state_ok (op_listxattr e q)"
  "path_ok q \<Longrightarrow> keeps state_ok (op_removexattr e q bs)"
  "path_ok q \<Longrightarrow> keeps state_ok (op_access e q amode)"
  unfolding op_getattr_def op_readlink_def op_statfs_def op_setxattr_def op_getxattr_def op_listxattr_def
    op_removexattr_def op_access_def
  by (auto intro!: keeps_intros)

lemma keeps_op_setattr [keeps_intros]:
  "(\<And>q. p = Some q \<Longrightarrow> path_ok q) \<Longrightarrow> keeps state_ok (op_setattr e p fh change)"
proof -
  assume p: "\<And>q. p = Some q \<Longrightarrow> path_ok q"
  have "keeps world_ok (setattr_owner k t change)" "keeps world_ok (setattr_mode k t change)" for k :: "'a kernel" and t
    unfolding setattr_owner_def setattr_mode_def by (auto intro!: keeps_intros split: target.split)
  moreover have "keeps world_ok (setattr_size k ex p t change)" "keeps world_ok (setattr_times k ex p t change)" for k :: "'a kernel" and ex t
    unfolding setattr_size_def setattr_times_def using p path_ok_split
    by (auto intro!: keeps_intros simp: at_nofollow_bit split: target.split)
  ultimately show ?thesis
    unfolding op_setattr_def using p by (auto intro!: keeps_intros split: handle.split)
qed

lemma keeps_opens [keeps_intros]:
  "path_ok p \<Longrightarrow> keeps state_ok (op_open e p flags reserved)"
  "path_ok p \<Longrightarrow> name_ok n \<Longrightarrow> keeps state_ok (op_create e p n mode flags reserved)"
  "path_ok p \<Longrightarrow> keeps state_ok (op_opendir e p reserved)"
proof -
  have with_reserved: "keeps state_ok (with_reserved e reserved f)" if "\<And>fh. keeps state_ok (f fh)" for f
    unfolding with_reserved_def opened_already_def using that
    by (auto intro!: keeps_intros simp: keeps_def [of _ "\<lambda>s. None"] split: reserved.split)
  show "path_ok p \<Longrightarrow> keeps state_ok (op_open e p flags reserved)"
    "path_ok p \<Longrightarrow> name_ok n \<Longrightarrow> keeps state_ok (op_create e p n mode flags reserved)"
    "path_ok p \<Longrightarrow> keeps state_ok (op_opendir e p reserved)"
    unfolding op_open_def op_create_def op_opendir_def
    by (auto intro!: with_reserved keeps_intros dest: path_ok_parent)
qed

lemma keeps_handled [keeps_intros]:
  "keeps state_ok (op_read e fh offset amount)" "keeps state_ok (op_write e fh offset data)"
  "keeps state_ok (op_fallocate e fh offset len mode)" "keeps state_ok (op_fsync e fh datasync)"
  unfolding op_read_def op_write_def op_fallocate_def op_fsync_def by (auto intro!: keeps_intros)

lemma keeps_numbered [keeps_intros]:
  "keeps state_ok (op_lseek e fh offset whence)"
  "keeps state_ok (op_copy_file_range e fh_in offset_in fh_out offset_out n)"
proof -
  have checked: "keeps state_ok (\<lambda>s. if b then None else ret a s)" for b and a :: response
    by (auto simp: keeps_def ret_def)
  show "keeps state_ok (op_lseek e fh offset whence)"
    "keeps state_ok (op_copy_file_range e fh_in offset_in fh_out offset_out n)"
    unfolding op_lseek_def op_copy_file_range_def by (auto intro!: keeps_intros checked)
qed

lemma keeps_op_readdir [keeps_intros]: "export_ok (oe_export e) \<Longrightarrow> keeps state_ok (op_readdir e fh offset max_bytes)"
  unfolding op_readdir_def by (auto intro!: keeps_intros)

lemma keeps_run: "request_ok req \<Longrightarrow> export_ok (oe_export e) \<Longrightarrow> keeps state_ok (run e req reserved)"
  by (cases req) (auto intro!: keeps_intros)

text \<open>
  C21. Nothing a request can say leads the server outside its export: of a request the decoder lets through,
  whatever the system answers and whatever was done before, every system call is confined. A path goes
  to \<open>openat2\<close> with every restriction on where it may lead and with no symlink followed, component by
  component a valid name; every other call is on a descriptor so opened, on an entry by a single valid
  name that is not followed, or through the descriptor's own link in \<open>/proc\<close>.
\<close>

theorem requests_stay_in_export:
  assumes "request_ok req" "export_ok (oe_export e)" "list_all confined (w_trace (os_world s))"
    and "dispatch_begun e req s = Some (resp, s')"
  shows "list_all confined (w_trace (os_world s'))"
proof -
  obtain reserved s1 where r: "ops_reserve req s = (reserved, s1)" by (cases "ops_reserve req s")
  then have "state_ok s1" using assms(3) by (auto simp: ops_reserve_def calls_all_def split: option.splits prod.splits)
  then have "state_ok s'"
    using assms(4) r keepsD [OF keeps_run [OF assms(1,2), where reserved = reserved], of s1]
    by (auto simp: dispatch_begun_def dispatch_def drop_reservation_def count_refusal_def
        split: sum.splits option.splits failure.splits if_splits reserved.splits)
  then show ?thesis by (simp add: calls_all_def)
qed

text \<open>A system on which every call succeeds, every node is a directory and every read is at the end.\<close>

definition plain_statx :: Kernel.statx where
  "plain_statx =
     \<lparr>stx_mask = 0, stx_attributes = 0, stx_attributes_mask = 0, stx_ino = 7, stx_size = 0, stx_blocks = 0,
      stx_atime = \<lparr>sec = 0, nsec = 0\<rparr>, stx_mtime = \<lparr>sec = 0, nsec = 0\<rparr>, stx_ctime = \<lparr>sec = 0, nsec = 0\<rparr>,
      stx_mode = 0x41ed, stx_nlink = 1, stx_uid = 0, stx_gid = 0, stx_rdev_major = 0, stx_rdev_minor = 0,
      stx_dev_major = 0, stx_dev_minor = 0, stx_blksize = 4096, stx_subvol = 0\<rparr>"

definition plain_statfs :: statfs64 where
  "plain_statfs =
     \<lparr>f_blocks = 0, f_bfree = 0, f_bavail = 0, f_files = 0, f_ffree = 0, f_bsize = 0, f_namelen = 0,
      f_frsize = 0, f_type = 0\<rparr>"

definition plain_kernel :: "'s kernel" where
  "plain_kernel =
     \<lparr>k_unit = \<lambda>c s. (Ok (), s), k_fd = \<lambda>c s. (Ok 5, s), k_num = \<lambda>c s. (Ok 0, s), k_bytes = \<lambda>c s. (Ok [], s),
      k_statx = \<lambda>c s. (Ok plain_statx, s), k_handle = \<lambda>c s. (Ok \<lparr>handle_type = 1, handle = []\<rparr>, s),
      k_statfs = \<lambda>c s. (Ok plain_statfs, s), k_now = \<lambda>s. 0, k_makedev = \<lambda>a b. 0\<rparr>"

definition plain_env :: "'s ops_env" where
  "plain_env =
     \<lparr>oe_kernel = plain_kernel,
      oe_export = \<lparr>ex_root = 3, ex_root_ino = 1, ex_root_identity = \<lparr>handle_type = 1, handle = []\<rparr>,
        ex_root_subvol = SubvolDev 0 0, ex_handle_flags = AT_HANDLE_FID\<rparr>,
      oe_session = 1, oe_ids = \<lparr>ids_mode = Direct, ids_uid = 0, ids_gid = 0\<rparr>\<rparr>"

definition plain_state :: "'s \<Rightarrow> 's ops_state" where
  "plain_state x =
     \<lparr>os_world = \<lparr>w_sys = x, w_trace = []\<rparr>, os_log = change_log_default, os_pool = pool_new 10,
      os_handles = handles_new 4, os_watches = None, os_refusals = refusals_default\<rparr>"

lemmas plain_defs = plain_kernel_def plain_env_def plain_state_def plain_statx_def

theorem requests_stay_in_export_witness:
  "\<exists>resp s'. dispatch_begun plain_env (Lookup (Path [Name [97]]) (Name [98])) (plain_state ()) = Some (resp, s') \<and>
     length (w_trace (os_world s')) = 5 \<and> list_all confined (w_trace (os_world s'))"
proof -
  have "map_option (\<lambda>(resp, s). length (w_trace (os_world s)))
      (dispatch_begun plain_env (Lookup (Path [Name [97]]) (Name [98])) (plain_state ())) = Some 5"
    by code_simp
  then obtain resp s' where "dispatch_begun plain_env (Lookup (Path [Name [97]]) (Name [98])) (plain_state ()) = Some (resp, s')"
      "length (w_trace (os_world s')) = 5"
    by auto
  moreover from this(1) have "list_all confined (w_trace (os_world s'))"
    by (rule requests_stay_in_export [rotated 3])
      (simp_all add: plain_env_def plain_state_def export_ok_def path_ok_def name_ok_def byte_len_def PATH_MAX_def
        NAME_MAX_def slash_def dot_def)
  ultimately show ?thesis by blast
qed

end
