(* ===== verification/OpsBooks.thy ===== *)
theory OpsBooks
  imports OpsCalls
begin

text \<open>
  What a request does to the session's handles and to the pool they draw on: the pool's count is the
  handles held and the slots in hand, on every path through a request, and the table changes only by the
  handle an open was given or a release names.
\<close>

subsection \<open>Requests that leave the table alone\<close>

definition table_is :: "handle_pool \<Rightarrow> (fd, fd, nat) handles \<Rightarrow> 's ops_state \<Rightarrow> bool" where
  "table_is pool t s \<longleftrightarrow> os_pool s = pool \<and> os_handles s = t"

lemma table_keeps [keeps_intros]:
  "keeps (table_is pool t) (sys m)" "keeps (table_is pool t) (record_change e p)"
  "keeps (table_is pool t) (record_entry_change e p n)" "keeps (table_is pool t) (with_handles g)"
  "keeps (table_is pool t) (hold_watch e p)" "keeps (table_is pool t) (create_path p n watch)"
  unfolding keeps_def table_is_def
  by (auto simp: sys_def record_change_def record_entry_change_def with_handles_def hold_watch_def create_path_def
      ret_def fail_def split: option.splits sum.splits prod.splits)

lemma table_keeps_checked [keeps_intros]: "keeps P (\<lambda>s. if b then None else ret a s)"
  by (auto simp: keeps_def ret_def)

lemma table_keeps_handle_attr [keeps_intros]: "keeps (table_is pool t) (handle_attr e h)"
  unfolding handle_attr_def by (rule table_keeps)

lemma table_keeps_pathed [keeps_intros]:
  "keeps (table_is pool t) (op_lookup e p n)" "keeps (table_is pool t) (op_getattr e q fh)"
  "keeps (table_is pool t) (op_readlink e p)" "keeps (table_is pool t) (op_mknod e p n mode rdev)"
  "keeps (table_is pool t) (op_mkdir e p n mode)" "keeps (table_is pool t) (op_unlink e remove_dir p n)"
  "keeps (table_is pool t) (op_symlink e p n target)" "keeps (table_is pool t) (op_rename e p n p' n' flags)"
  "keeps (table_is pool t) (op_link e p p' n')" "keeps (table_is pool t) (op_statfs e p)"
  unfolding op_lookup_def op_getattr_def op_readlink_def op_mknod_def op_mkdir_def op_unlink_def op_symlink_def
    op_rename_def op_link_def op_statfs_def
  by (auto intro!: keeps_intros)

lemma table_keeps_attributes [keeps_intros]:
  "keeps (table_is pool t) (op_setxattr e p bs val flags)" "keeps (table_is pool t) (op_getxattr e p bs)"
  "keeps (table_is pool t) (op_listxattr e p)" "keeps (table_is pool t) (op_removexattr e p bs)"
  "keeps (table_is pool t) (op_access e p amode)" "keeps (table_is pool t) (op_setattr e q fh change)"
  unfolding op_setxattr_def op_getxattr_def op_listxattr_def op_removexattr_def op_access_def op_setattr_def
  by (auto intro!: keeps_intros split: handle.split)

lemma table_keeps_handled [keeps_intros]:
  "keeps (table_is pool t) (op_read e fh offset amount)" "keeps (table_is pool t) (op_write e fh offset data)"
  "keeps (table_is pool t) (op_copy_file_range e fh_in offset_in fh_out offset_out len)"
  "keeps (table_is pool t) (op_fallocate e fh offset len mode)" "keeps (table_is pool t) (op_lseek e fh offset whence)"
  "keeps (table_is pool t) (op_fsync e fh datasync)" "keeps (table_is pool t) (op_readdir e fh offset max_bytes)"
  unfolding op_read_def op_write_def op_copy_file_range_def op_fallocate_def op_lseek_def op_fsync_def op_readdir_def
  by (auto intro!: keeps_intros)

definition releases :: "request \<Rightarrow> u64 option" where
  "releases req = (case req of Release fh ordered \<Rightarrow> Some fh | Releasedir fh ordered \<Rightarrow> Some fh | _ \<Rightarrow> None)"

lemma table_keeps_run: "opens req = None \<Longrightarrow> releases req = None \<Longrightarrow> keeps (table_is pool t) (run e req reserved)"
  by (cases req) (auto intro!: keeps_intros simp: opens_def releases_def)

lemma run_release: "releases req = Some fh \<Longrightarrow> run e req reserved = err_io FErrno (op_release fh)"
  by (cases req) (auto simp: releases_def)

subsection \<open>Opens\<close>

text \<open>
  An open with a slot is a part that touches no table, given the slot back when it fails, and then the
  insertion of a handle.
\<close>

definition open_with :: "u64 \<Rightarrow> ('s ops_state, attr \<times> server_handle, errno) io \<Rightarrow> ('s ops_state, response, failure) io" where
  "open_with fh m = bind_io (with_slot (err_io FErrno m)) (\<lambda>(a, h). bind_io (insert_handle fh h) (\<lambda>_. ret (ROpened a)))"

lemma run_opens:
  assumes "opens req = Some fh"
  shows "\<exists>m. (\<forall>pool t. keeps (table_is pool t) m) \<and> run e req reserved = with_reserved e reserved (\<lambda>fh. open_with fh m)"
  using assms
proof (cases req)
  case (Open fh' p flags)
  show ?thesis
    unfolding Open run.simps op_open_def open_with_def
    by (rule exI, rule conjI, rule_tac [2] refl) (auto intro!: keeps_intros simp: Let_def)
next
  case (Create fh' p n mode flags)
  show ?thesis
    unfolding Create run.simps op_create_def open_with_def
    by (rule exI, rule conjI, rule_tac [2] refl) (auto intro!: keeps_intros)
next
  case (Opendir fh' p)
  show ?thesis
    unfolding Opendir run.simps op_opendir_def open_with_def
    by (rule exI, rule conjI, rule_tac [2] refl) (auto intro!: keeps_intros)
qed (auto simp: opens_def)

lemma open_with_outcome:
  assumes "\<forall>pool t. keeps (table_is pool t) m" and "open_with fh m s = Some (r, s')"
  obtains (failed) err where "r = Err err" "os_pool s' = slot_drop (os_pool s)" "os_handles s' = os_handles s"
  | (inserted) h pool t res where "slot_insert fh h (os_pool s) (os_handles s) = Some (pool, t, res)"
      "os_pool s' = pool" "os_handles s' = t" "(\<exists>a crossed. r = Ok (ROpened a) \<and> res = Ok crossed) \<or> (\<exists>err err'. r = Err err \<and> res = Err err')"
proof -
  obtain r1 s1 where m: "m s = Some (r1, s1)"
    using assms(2) by (auto simp: open_with_def bind_io_def with_slot_def err_io_def split: option.splits)
  have s1: "os_pool s1 = os_pool s" "os_handles s1 = os_handles s"
    using keepsD [OF spec [OF spec [OF assms(1), of "os_pool s"], of "os_handles s"] _ m] by (simp_all add: table_is_def)
  show thesis
  proof (cases r1)
    case (Inl err)
    then show thesis using assms(2) m s1 by (intro failed) (auto simp: open_with_def bind_io_def with_slot_def err_io_def)
  next
    case (Inr ah)
    obtain a h where ah: "ah = (a, h)" by (cases ah)
    obtain pool t res where ins: "slot_insert fh h (os_pool s) (os_handles s) = Some (pool, t, res)"
      using assms(2) m s1 Inr ah
      by (auto simp: open_with_def bind_io_def with_slot_def err_io_def insert_handle_def split: option.splits)
    show thesis
      using assms(2) m s1 Inr ah ins
      by (intro inserted [OF ins])
        (auto simp: open_with_def bind_io_def with_slot_def err_io_def insert_handle_def drop_handle_def ret_def
          split: sum.splits)
  qed
qed

subsection \<open>The pool and the tables of every session\<close>

text \<open>A session's part of the server's handles.\<close>

definition handles_view :: "'s ops_env \<Rightarrow> (fd, fd, nat) server_handles \<Rightarrow> 's ops_state \<Rightarrow> bool" where
  "handles_view e w s \<longleftrightarrow> sh_pool w = os_pool s \<and> sh_tables w (oe_session e) = Some (os_handles s)"

definition slot_out :: "'s ops_env \<Rightarrow> reservation \<Rightarrow> (u64 \<times> u64) list" where
  "slot_out e reserved = (case reserved of Inr (Some (Slot fh)) \<Rightarrow> [(oe_session e, fh)] | _ \<Rightarrow> [])"

lemma reply_opened: "\<exists>a'. reply_ids ids acl (ROpened a) = ROpened a'"
  by (simp add: reply_ids_def)

lemma run_table:
  assumes "run e req reserved s = Some (r, s')" and "opens req = None \<longrightarrow> reserved = Ok None"
  obtains (same) "table_is (os_pool s) (os_handles s) s'" "slot_out e reserved = []"
  | (given_back) fh where "reserved = Ok (Some (Slot fh))" "table_is (slot_drop (os_pool s)) (os_handles s) s'"
  | (inserted) fh h pool t res where "reserved = Ok (Some (Slot fh))" "table_is pool t s'"
      "slot_insert fh h (os_pool s) (os_handles s) = Some (pool, t, res)"
      "(\<exists>a crossed. r = Ok (ROpened a) \<and> res = Ok crossed) \<or> (\<exists>err err'. r = Err err \<and> res = Err err')"
  | (removed) fh pool t h where "reserved = Ok None" "releases req = Some fh" "table_is pool t s'"
      "remove_handle fh (os_pool s) (os_handles s) = (pool, t, h)"
proof (cases "opens req")
  case None
  then have reserved: "reserved = Ok None" using assms(2) by simp
  show thesis
  proof (cases "releases req")
    case none: None
    then show thesis
      using keepsD [OF table_keeps_run [OF None none] _ assms(1)] reserved by (intro same) (auto simp: table_is_def slot_out_def)
  next
    case (Some fh)
    obtain pool t h where rm: "remove_handle fh (os_pool s) (os_handles s) = (pool, t, h)" by (rule prod_cases3)
    then have "table_is pool t s'"
      using assms(1) by (auto simp: run_release [OF Some] err_io_def op_release_def ret_def drop_handle_def table_is_def split: option.splits)
    then show thesis using reserved Some rm by (intro removed)
  qed
next
  case (Some fh')
  from run_opens [OF Some, of e reserved] obtain m
    where m: "\<forall>pool t. keeps (table_is pool t) m"
    and run: "run e req reserved = with_reserved e reserved (\<lambda>fh. open_with fh m)" by blast
  show thesis
  proof (cases "\<exists>fh. reserved = Ok (Some (Slot fh))")
    case True
    then obtain fh where fh: "reserved = Ok (Some (Slot fh))" by blast
    then have "open_with fh m s = Some (r, s')" using run assms(1) by (simp add: with_reserved_def)
    with m show thesis
      by (cases rule: open_with_outcome) (use fh in \<open>auto intro: given_back inserted simp: table_is_def\<close>)
  next
    case False
    then have "keeps (table_is pool t) (run e req reserved)" for pool t
      unfolding run with_reserved_def opened_already_def
      by (auto intro!: keeps_intros simp: keeps_def [of _ "\<lambda>s. None"] split: sum.split option.split reserved.split)
    from keepsD [OF this _ assms(1)] False show thesis
      by (intro same) (auto simp: table_is_def slot_out_def split: sum.splits option.splits reserved.splits)
  qed
qed

lemma dispatch_cases:
  assumes "dispatch e req reserved s = Some (resp, s')"
  obtains (refused) err where "admit (oe_ids e) req = Err err" "resp = RErr err" "s' = drop_reservation reserved s"
  | (ran) r s1 where "admit (oe_ids e) req = Ok ()" "run e req reserved s = Some (r, s1)" "os_world s' = os_world s1"
      "os_pool s' = os_pool s1" "os_handles s' = os_handles s1"
      "case r of Inr a \<Rightarrow> resp = reply_ids (oe_ids e) (reads_posix_acl req) a | Inl _ \<Rightarrow> \<exists>err. resp = RErr err"
proof (cases "admit (oe_ids e) req")
  case (Inl err)
  then show thesis using assms by (intro refused) (auto simp: dispatch_def)
next
  case (Inr u)
  then obtain r s1 where r: "run e req reserved s = Some (r, s1)" using assms by (auto simp: dispatch_def split: option.splits)
  then show thesis
    using assms Inr by (intro ran [OF _ r]) (auto simp: dispatch_def count_refusal_def split: sum.splits failure.splits if_splits)
qed

lemma slot_insert_changes:
  "slot_insert fh h pool t = Some (pool', t', r) \<Longrightarrow>
     (\<exists>crossed. r = Ok crossed \<and> h_map t fh = None \<and> h_map t' = (h_map t)(fh \<mapsto> h)) \<or> (\<exists>err. r = Err err \<and> t' = t)"
  by (auto simp: slot_insert_def Let_def put_handle_def split: if_splits option.splits)

lemma dispatch_table:
  assumes "dispatch e req reserved s = Some (resp, s')" and "opens req = None \<longrightarrow> reserved = Ok None"
  obtains (same) "table_is (os_pool s) (os_handles s) s'" "slot_out e reserved = []"
  | (given_back) fh where "reserved = Ok (Some (Slot fh))" "table_is (slot_drop (os_pool s)) (os_handles s) s'"
  | (inserted) fh h pool t res where "reserved = Ok (Some (Slot fh))" "table_is pool t s'"
      "slot_insert fh h (os_pool s) (os_handles s) = Some (pool, t, res)"
      "(\<exists>a. resp = ROpened a) \<or> h_map t = h_map (os_handles s)"
  | (removed) fh pool t h where "reserved = Ok None" "releases req = Some fh" "table_is pool t s'"
      "remove_handle fh (os_pool s) (os_handles s) = (pool, t, h)"
  using assms(1)
proof (cases rule: dispatch_cases)
  case (refused err)
  show thesis
  proof (cases "slot_out e reserved")
    case Nil
    with refused show thesis
      by (intro same) (auto simp: drop_reservation_def table_is_def slot_out_def split: sum.splits option.splits reserved.splits)
  next
    case Cons
    then obtain fh where "reserved = Ok (Some (Slot fh))" by (auto simp: slot_out_def split: sum.splits option.splits reserved.splits)
    with refused show thesis by (intro given_back) (auto simp: drop_reservation_def table_is_def)
  qed
next
  case (ran r s1)
  then have eq: "table_is pool t s' = table_is pool t s1" for pool t by (simp add: table_is_def)
  from ran(2) assms(2) show thesis
  proof (cases rule: run_table)
    case (inserted fh h pool t res)
    then show thesis
      using ran(6) slot_insert_changes [OF inserted(3)] reply_opened that(3) [of fh pool t h res] by (auto simp: eq)
  qed (use that(1,2,4) eq in auto)
qed

text \<open>
  C22. What a request does to the session's handles is made of the steps of the pool and the tables: a
  request that begins is a \<open>reserve\<close>, and one that is dispatched is an insertion, a slot given back, a removal
  or nothing, whatever the other sessions and this one's other requests have done in between.  The slot it
  began with is no longer out after it, on every path.  The table changes only under the id an open had a slot
  for, where there was nothing, and then the reply says it is open; or under an id a release names, where there
  then is nothing.
\<close>

theorem dispatch_refines_handles:
  assumes "dispatch e req reserved s = Some (resp, s')"
    and "opens req = None \<longrightarrow> reserved = Ok None" and "set (slot_out e reserved) \<subseteq> set (sh_slots w)"
    and "handles_view e w s"
  shows "\<exists>w'. sh_step\<^sup>*\<^sup>* w w' \<and> handles_view e w' s' \<and> sh_slots w' = fold remove1 (slot_out e reserved) (sh_slots w) \<and>
    (\<forall>session. session \<noteq> oe_session e \<longrightarrow> sh_tables w' session = sh_tables w session) \<and>
    (\<forall>fh. h_map (os_handles s') fh \<noteq> h_map (os_handles s) fh \<longrightarrow>
       reserved = Ok (Some (Slot fh)) \<and> h_map (os_handles s) fh = None \<and> (\<exists>a. resp = ROpened a) \<or>
       releases req = Some fh \<and> h_map (os_handles s') fh = None)"
  using assms(1,2)
proof (cases rule: dispatch_table)
  case same
  then show ?thesis using assms(4) by (intro exI [of _ w]) (auto simp: handles_view_def table_is_def)
next
  case (given_back fh)
  then show ?thesis
    using assms(3,4) r_into_rtranclp [of sh_step, OF sh_slot_drop [of "(oe_session e, fh)" w]]
    by (intro exI [of _ "w\<lparr>sh_pool := slot_drop (sh_pool w), sh_slots := remove1 (oe_session e, fh) (sh_slots w)\<rparr>"])
      (auto simp: handles_view_def table_is_def slot_out_def)
next
  case (inserted fh h pool t res)
  then show ?thesis
    using assms(3,4) r_into_rtranclp [of sh_step, OF sh_insert [of "oe_session e" fh w "os_handles s" h pool t res]]
      slot_insert_changes [OF inserted(3)]
    by (intro exI [of _ "w\<lparr>sh_pool := pool, sh_tables := (sh_tables w)(oe_session e \<mapsto> t),
        sh_slots := remove1 (oe_session e, fh) (sh_slots w)\<rparr>"])
      (auto simp: handles_view_def table_is_def slot_out_def split: if_splits)
next
  case (removed fh pool t h)
  then have "h_map t = (h_map (os_handles s))(fh := None)"
    by (auto simp: remove_handle_eq del_handle_simps split: option.splits)
  then show ?thesis
    using removed assms(3,4) r_into_rtranclp [of sh_step, OF sh_remove [of w "oe_session e" "os_handles s" fh pool t h]]
    by (intro exI [of _ "w\<lparr>sh_pool := pool, sh_tables := (sh_tables w)(oe_session e \<mapsto> t)\<rparr>"])
      (auto simp: handles_view_def table_is_def slot_out_def split: if_splits)
qed

theorem dispatch_refines_handles_witness:
  "\<exists>resp s' w'. dispatch (plain_env\<lparr>oe_kernel := plain_kernel\<lparr>k_fd := \<lambda>c s. (Err ENOENT, s)\<rparr>\<rparr>) (Opendir 9 path_root)
       (Ok (Some (Slot 9))) ((plain_state ())\<lparr>os_pool := \<lparr>pool_cap = 10, pool_used = 1\<rparr>\<rparr>) = Some (resp, s') \<and>
     sh_step\<^sup>*\<^sup>* \<lparr>sh_pool = \<lparr>pool_cap = 10, pool_used = 1\<rparr>, sh_tables = [1 \<mapsto> (handles_new 4 :: (fd, fd, nat) handles)], sh_slots = [(1, 9), (2, 5)]\<rparr> w' \<and>
     sh_slots w' = [(2, 5)]"
proof -
  let ?e = "(plain_env :: unit ops_env)\<lparr>oe_kernel := plain_kernel\<lparr>k_fd := \<lambda>c s. (Err ENOENT, s)\<rparr>\<rparr>"
  let ?s = "(plain_state ())\<lparr>os_pool := \<lparr>pool_cap = 10, pool_used = 1\<rparr>\<rparr>"
  let ?w = "\<lparr>sh_pool = \<lparr>pool_cap = 10, pool_used = 1\<rparr>, sh_tables = [1 \<mapsto> (handles_new 4 :: (fd, fd, nat) handles)], sh_slots = [(1, 9), (2, 5)]\<rparr>"
  have "dispatch ?e (Opendir 9 path_root) (Ok (Some (Slot 9))) ?s \<noteq> None" by code_simp
  then obtain resp s' where d: "dispatch ?e (Opendir 9 path_root) (Ok (Some (Slot 9))) ?s = Some (resp, s')" by auto
  have "handles_view ?e ?w ?s" "slot_out ?e (Ok (Some (Slot 9))) = [(1, 9)]"
    by (simp_all add: handles_view_def slot_out_def plain_env_def plain_state_def)
  with dispatch_refines_handles [OF d, of ?w] obtain w' where "sh_step\<^sup>*\<^sup>* ?w w'" "sh_slots w' = [(2, 5)]"
    by (auto simp: opens_def)
  with d show ?thesis by blast
qed

end
