(* ===== verification/OpsAttrs.thy ===== *)
theory OpsAttrs
  imports OpsBooks
begin

text \<open>
  The order \<open>setattr\<close> makes its changes in: the owner first, since changing it clears bits of the mode,
  then the mode, the size, and the times last, since every other change moves them.
\<close>

subsection \<open>Changes made in an order\<close>

datatype attr_step = StepOwner | StepMode | StepSize | StepTimes

fun fd_step :: "fd_op \<Rightarrow> attr_step option" where
  "fd_step (SysFchown uid gid) = Some StepOwner"
| "fd_step (SysFchmod mode) = Some StepMode"
| "fd_step (SysFtruncate len) = Some StepSize"
| "fd_step (SysFutimens atime mtime) = Some StepTimes"
| "fd_step _ = None"

text \<open>The change to attributes a call is, if it is one.\<close>

definition step_of :: "syscall \<Rightarrow> attr_step option" where
  "step_of c =
     (case c of
        CallFd d op \<Rightarrow> fd_step op
      | CallAt d p (SysFchownat uid gid flags) \<Rightarrow> Some StepOwner
      | CallPath p (SysChmod mode) \<Rightarrow> Some StepMode
      | CallAt d p (SysUtimensat atime mtime flags) \<Rightarrow> Some StepTimes
      | _ \<Rightarrow> None)"

definition attr_steps :: "'s world \<Rightarrow> attr_step list" where
  "attr_steps w = List.map_filter step_of (w_trace w)"

text \<open>What a request asks for.\<close>

definition asked_steps :: "set_attr \<Rightarrow> attr_step list" where
  "asked_steps change =
     (if set_uid change = None \<and> set_gid change = None then [] else [StepOwner]) @
     (if set_mode change = None then [] else [StepMode]) @
     (if set_size change = None then [] else [StepSize]) @
     (if set_atime change = None \<and> set_mtime change = None then [] else [StepTimes])"

text \<open>A function that makes changes in an order, all of them when it succeeds, and stops where it fails.\<close>

definition makes :: "('x \<Rightarrow> 'b list) \<Rightarrow> 'b list \<Rightarrow> ('x, 'a, 'e) io \<Rightarrow> bool" where
  "makes steps xs m \<longleftrightarrow>
     (\<forall>x r y. m x = Some (r, y) \<longrightarrow>
        (\<exists>ys. steps y = steps x @ ys \<and> prefix ys xs \<and> (\<forall>a. r = Ok a \<longrightarrow> ys = xs)))"

named_theorems makes_intros \<open>the changes functions make, in their order\<close>

lemma makesD:
  "makes steps xs m \<Longrightarrow> m x = Some (r, y) \<Longrightarrow> \<exists>ys. steps y = steps x @ ys \<and> prefix ys xs \<and> (\<forall>a. r = Ok a \<longrightarrow> ys = xs)"
  by (simp add: makes_def)

lemma makes_ret [makes_intros]: "makes steps [] (ret a)"
  by (simp add: makes_def ret_def)

lemma makes_fail [makes_intros]: "makes steps xs (fail e)"
  by (simp add: makes_def fail_def)

lemma makes_lift_res [makes_intros]: "makes steps [] (lift_res r)"
  by (simp add: makes_def lift_res_def)

lemma makes_outcome [makes_intros]: "makes steps [] m \<Longrightarrow> makes steps [] (outcome_of m)"
  by (fastforce simp: makes_def outcome_of_def split: option.splits)

lemma makes_bind:
  assumes "makes steps xs m" "\<And>a. makes steps ys (f a)"
  shows "makes steps (xs @ ys) (bind_io m f)"
  unfolding makes_def
proof (intro allI impI)
  fix x r y
  assume "bind_io m f x = Some (r, y)"
  then consider e where "m x = Some (Err e, y)" "r = Err e" | a z where "m x = Some (Ok a, z)" "f a z = Some (r, y)"
    by (auto simp: bind_io_Some)
  then show "\<exists>zs. steps y = steps x @ zs \<and> prefix zs (xs @ ys) \<and> (\<forall>a. r = Ok a \<longrightarrow> zs = xs @ ys)"
  proof cases
    case (1 e)
    then show ?thesis using makesD [OF assms(1) 1(1)] by auto
  next
    case (2 a z)
    then obtain bs where "steps z = steps x @ xs" "steps y = steps z @ bs" "prefix bs ys" "\<forall>a. r = Ok a \<longrightarrow> bs = ys"
      using makesD [OF assms(1) 2(1)] makesD [OF assms(2) 2(2)] by auto
    then show ?thesis by (intro exI [of _ "xs @ bs"]) auto
  qed
qed

lemma makes_then [makes_intros]:
  "makes steps [] m \<Longrightarrow> (\<And>a. makes steps ys (f a)) \<Longrightarrow> makes steps ys (bind_io m f)"
  using makes_bind [of steps "[]" m ys f] by simp

lemma makes_end: "makes steps xs m \<Longrightarrow> (\<And>a. makes steps [] (f a)) \<Longrightarrow> makes steps xs (bind_io m f)"
  using makes_bind [of steps xs m "[]" f] by simp

lemma makes_if [makes_intros]:
  "(b \<Longrightarrow> makes steps xs m) \<Longrightarrow> (\<not> b \<Longrightarrow> makes steps xs m') \<Longrightarrow> makes steps xs (if b then m else m')"
  by simp

lemma makes_option [makes_intros]:
  "(x = None \<Longrightarrow> makes steps xs m) \<Longrightarrow> (\<And>a. x = Some a \<Longrightarrow> makes steps xs (f a)) \<Longrightarrow>
     makes steps xs (case x of None \<Rightarrow> m | Some a \<Rightarrow> f a)"
  by (simp split: option.split)

lemma makes_sum [makes_intros]:
  "(\<And>e. r = Err e \<Longrightarrow> makes steps xs (g e)) \<Longrightarrow> (\<And>a. r = Ok a \<Longrightarrow> makes steps xs (f a)) \<Longrightarrow>
     makes steps xs (case r of Inl e \<Rightarrow> g e | Inr a \<Rightarrow> f a)"
  by (simp split: sum.split)

lemma makes_err_io: "makes steps xs m \<Longrightarrow> makes steps xs (err_io g m)"
  by (fastforce simp: makes_def err_io_def split: option.splits)

lemma makes_call [makes_intros]:
  "step_of c = None \<Longrightarrow> makes attr_steps [] (call_sys f c)"
  by (auto simp: makes_def call_sys_def attr_steps_def List.map_filter_def Let_def split_beta)

lemma makes_step: "step_of c = Some b \<Longrightarrow> makes attr_steps [b] (call_sys f c)"
  by (auto simp: makes_def call_sys_def attr_steps_def List.map_filter_def Let_def split_beta)

subsection \<open>The parts of a request\<close>

abbreviation state_steps :: "'s ops_state \<Rightarrow> attr_step list" where
  "state_steps s \<equiv> attr_steps (os_world s)"

lemma makes_sys: "makes attr_steps xs m \<Longrightarrow> makes state_steps xs (sys m)"
  by (fastforce simp: makes_def sys_def split: option.splits)

lemma makes_export [makes_intros]:
  "makes attr_steps [] (resolve k ex p)" "makes attr_steps [] (resolve_dir k ex p)" "makes attr_steps [] (open_node k ex p flags)"
  "makes attr_steps [] (attr_of k ex d)" "makes attr_steps [] (stat_fd_mode k d)"
  unfolding resolve_def resolve_dir_def open_node_def openat2_root_def openat2_def attr_of_def statx_def file_handle_def
    xattr_names_def xattr_names_by_path_def stat_fd_mode_def Let_def
  by (intro makes_intros; simp add: step_of_def)+

lemma makes_owner: "makes attr_steps (if set_uid change = None \<and> set_gid change = None then [] else [StepOwner]) (setattr_owner k t change)"
  unfolding setattr_owner_def by (auto intro!: makes_ret makes_step simp: step_of_def split: target.split)

lemma makes_mode: "makes attr_steps (if set_mode change = None then [] else [StepMode]) (setattr_mode k t change)"
  unfolding setattr_mode_def by (auto intro!: makes_intros makes_step simp: step_of_def split: target.split option.split)

lemma makes_size: "makes attr_steps (if set_size change = None then [] else [StepSize]) (setattr_size k ex p t change)"
  unfolding setattr_size_def by (auto intro!: makes_intros makes_step simp: step_of_def split: target.split option.split)

lemma makes_times:
  "makes attr_steps (if set_atime change = None \<and> set_mtime change = None then [] else [StepTimes]) (setattr_times k ex p t change)"
  unfolding setattr_times_def Let_def by (auto intro!: makes_intros makes_step simp: step_of_def split: target.split option.split)

lemma makes_bookkeeping [makes_intros]: "makes state_steps [] (record_change e p)" "makes state_steps [] (with_handles g)"
  by (auto simp: makes_def record_change_def with_handles_def)

lemma makes_op_setattr: "makes state_steps (asked_steps change) (op_setattr e p fh change)"
proof -
  note parts = makes_sys [OF makes_owner] makes_sys [OF makes_mode] makes_sys [OF makes_size] makes_sys [OF makes_times]
  have tail: "makes state_steps (asked_steps change)
      (bind_io (sys (setattr_owner k t change)) (\<lambda>_. bind_io (sys (setattr_mode k t change)) (\<lambda>_.
       bind_io (sys (setattr_size k ex p t change)) (\<lambda>_. bind_io (sys (setattr_times k ex p t change)) (\<lambda>_.
       bind_io (sys (attr_of k ex d)) (\<lambda>a. ret (RAttr a)))))))" for k :: "'a kernel" and ex t d
    unfolding asked_steps_def
    by (intro makes_bind [OF parts(1)] makes_bind [OF parts(2)] makes_bind [OF parts(3)] makes_end [OF parts(4)]
        makes_then [OF makes_sys [OF makes_export(4)]] makes_ret)
  have target: "makes state_steps []
      (sys (case h of
          Some (HFile f hp w) \<Rightarrow> bind_io (call_sys (k_fd k) (CallFd f SysDup)) (\<lambda>d. ret (TargetFd d))
        | Some (HDir d w) \<Rightarrow> bind_io (call_sys (k_fd k) (CallFd d SysDup)) (\<lambda>d. ret (TargetFd d))
        | None \<Rightarrow> (case p of None \<Rightarrow> fail EINVAL | Some p \<Rightarrow> bind_io (resolve k ex p) (\<lambda>d. ret (TargetNode d)))))"
    for k :: "'a kernel" and ex and h :: "server_handle option"
    by (cases h; cases p) (auto intro!: makes_sys makes_intros simp: step_of_def split: handle.split)
  show ?thesis
    unfolding op_setattr_def
    by (rule makes_then [OF _ makes_then [OF _ makes_then [OF target tail]]]; intro makes_intros)
qed

text \<open>
  C23. A request for attributes to change makes the changes it asks for and no other, in the order owner, mode,
  size, times; all of them when it answers with the attributes, and otherwise those up to the one that failed.
\<close>

theorem setattr_in_order:
  assumes "dispatch e (Setattr p fh change) (Ok None) s = Some (resp, s')"
  shows "\<exists>steps. attr_steps (os_world s') = attr_steps (os_world s) @ steps \<and> prefix steps (asked_steps change) \<and>
    (steps = asked_steps change \<or> (\<exists>err. resp = RErr err))"
  using assms
proof (cases rule: dispatch_cases)
  case (refused err)
  then show ?thesis by (intro exI [of _ "[]"]) (simp add: drop_reservation_def)
next
  case (ran r s1)
  then have "makes state_steps (asked_steps change) (run e (Setattr p fh change) (Ok None))"
    by (simp add: makes_err_io makes_op_setattr)
  with ran show ?thesis by (fastforce simp: makes_def split: sum.splits)
qed

text \<open>A session with one directory open.\<close>

definition dir_state :: "unit ops_state" where
  "dir_state = (plain_state ())\<lparr>os_handles := (handles_new 4)\<lparr>h_map := [7 \<mapsto> HDir 4 None], h_dirs := 1\<rparr>\<rparr>"

theorem setattr_in_order_witness:
  "\<exists>resp s'. dispatch plain_env (Setattr None (Some 7)
       \<lparr>set_mode = Some 0x1ff, set_uid = None, set_gid = Some 7, set_size = None, set_atime = None, set_mtime = Some Now\<rparr>)
       (Ok None) dir_state = Some (resp, s') \<and>
     prefix (attr_steps (os_world s')) [StepOwner, StepMode, StepTimes] \<and> length (w_trace (os_world s')) = 7"
proof -
  let ?change = "\<lparr>set_mode = Some 0x1ff, set_uid = None, set_gid = Some 7, set_size = None, set_atime = None, set_mtime = Some Now\<rparr>"
  have "map_option (\<lambda>(resp, s). length (w_trace (os_world s))) (dispatch plain_env (Setattr None (Some 7) ?change) (Ok None) dir_state) = Some 7"
    by code_simp
  then obtain resp s' where d: "dispatch plain_env (Setattr None (Some 7) ?change) (Ok None) dir_state = Some (resp, s')"
      "length (w_trace (os_world s')) = 7"
    by auto
  then show ?thesis
    using setattr_in_order [OF d(1)]
    by (auto simp: asked_steps_def dir_state_def plain_state_def attr_steps_def List.map_filter_def)
qed

end
