(* ===== verification/Fuse.thy ===== *)
theory Fuse
  imports Client Inodes Effects
begin

text \<open>
  What the client does for each request of the kernel (\<open>crates/client/src/fuse.rs\<close>): one definition per
  request, each its checks, its calls to the server and its changes to what all of them share (the node
  table, the handles, the buffers of directories being listed, what is known of extended attributes and
  what the server last reported of files, and the queue of invalidations).  A request runs as a task among
  others, so a call returns with whatever state the others have left it: the call is a parameter that
  takes the whole state and may change any of it.  A reply of the kernel's kind is a value, an errno
  an error, and a panic or a loop that never ends the absence of a result.  Meters, log lines and the
  table of requests being answered are left out.
\<close>

subsection \<open>Times, attributes and names\<close>

text \<open>A \<open>SystemTime\<close> is the nanoseconds since the epoch; adding to one past its 64-bit seconds panics.\<close>

type_synonym sys_time = int

definition NANOS :: int where "NANOS = 1000000000"

definition system_time :: "time_spec \<Rightarrow> sys_time option" where
  "system_time t =
     (let at = sec t * NANOS + uint (nsec t) in if at div NANOS < 2 ^ 63 then Some at else None)"

definition timespec_of :: "sys_time \<Rightarrow> time_spec" where
  "timespec_of t =
     (if t \<ge> 0 then \<lparr>sec = t div NANOS, nsec = word_of_int (t mod NANOS)\<rparr>
      else
        (let d = - t
         in if d mod NANOS = 0 then \<lparr>sec = - (d div NANOS), nsec = 0\<rparr>
            else \<lparr>sec = - (d div NANOS) - 1, nsec = word_of_int (NANOS - d mod NANOS)\<rparr>))"

text \<open>\<open>fuser::TimeOrNow\<close>.\<close>

datatype kernel_time = SpecificTime sys_time | KernelNow

definition time_or_now :: "kernel_time \<Rightarrow> time_or_now" where
  "time_or_now t = (case t of SpecificTime t \<Rightarrow> Time (timespec_of t) | KernelNow \<Rightarrow> Now)"

datatype fuse_kind = RegularFileType | DirectoryType | SymlinkType | NamedPipeType | SocketType | CharDeviceType | BlockDeviceType

definition file_type :: "file_kind \<Rightarrow> fuse_kind" where
  "file_type kind =
     (case kind of
        Regular \<Rightarrow> RegularFileType
      | Directory \<Rightarrow> DirectoryType
      | Symlink \<Rightarrow> SymlinkType
      | Fifo \<Rightarrow> NamedPipeType
      | Socket \<Rightarrow> SocketType
      | CharDevice \<Rightarrow> CharDeviceType
      | BlockDevice \<Rightarrow> BlockDeviceType)"

record fuse_attr =
  fa_ino :: u64
  fa_size :: u64
  fa_blocks :: u64
  fa_atime :: sys_time
  fa_mtime :: sys_time
  fa_ctime :: sys_time
  fa_crtime :: sys_time
  fa_kind :: fuse_kind
  fa_perm :: u16
  fa_nlink :: u32
  fa_uid :: u32
  fa_gid :: u32
  fa_rdev :: u32
  fa_blksize :: u32
  fa_flags :: u32

definition file_attr :: "u64 \<Rightarrow> attr \<Rightarrow> fuse_attr option" where
  "file_attr i a =
     (case (system_time (attr_atime a), system_time (attr_mtime a), system_time (attr_ctime a)) of
        (Some atime, Some mtime, Some ctime) \<Rightarrow> Some
          \<lparr>fa_ino = i, fa_size = attr_size a, fa_blocks = attr_blocks a, fa_atime = atime, fa_mtime = mtime,
           fa_ctime = ctime, fa_crtime = ctime, fa_kind = file_type (attr_kind a), fa_perm = attr_perm a,
           fa_nlink = attr_nlink a, fa_uid = attr_uid a, fa_gid = attr_gid a, fa_rdev = ucast (attr_rdev a),
           fa_blksize = attr_blksize a, fa_flags = 0\<rparr>
      | _ \<Rightarrow> None)"

definition dir_placeholder :: "u64 \<Rightarrow> fuse_attr" where
  "dir_placeholder i =
     \<lparr>fa_ino = i, fa_size = 0, fa_blocks = 0, fa_atime = 0, fa_mtime = 0, fa_ctime = 0, fa_crtime = 0,
      fa_kind = DirectoryType, fa_perm = 0x1ed, fa_nlink = 2, fa_uid = 0, fa_gid = 0, fa_rdev = 0,
      fa_blksize = 4096, fa_flags = 0\<rparr>"

definition unlinked_placeholder :: "u64 \<Rightarrow> fuse_attr" where
  "unlinked_placeholder i = (dir_placeholder i)\<lparr>fa_kind := RegularFileType, fa_perm := 0, fa_nlink := 0\<rparr>"

definition setattr_flushes_times :: "set_attr \<Rightarrow> bool" where
  "setattr_flushes_times change \<longleftrightarrow>
     (case set_mtime change of Some (Time _) \<Rightarrow> True | _ \<Rightarrow> False) \<and> set_atime change = None \<and>
     set_mode change = None \<and> set_uid change = None \<and> set_gid change = None \<and> set_size change = None"

definition flags_for_server :: "u32 \<Rightarrow> u32" where
  "flags_for_server flags =
     (let flags = flags AND NOT O_APPEND
      in if flags AND O_ACCMODE = O_WRONLY then (flags AND NOT O_ACCMODE) OR O_RDWR else flags)"

definition name_of :: "u8 list \<Rightarrow> (name, errno) result" where
  "name_of os = (case name_new os of Inr n \<Rightarrow> Ok n | Inl e \<Rightarrow> Err (if e = TooLong then ENAMETOOLONG else EINVAL))"

subsection \<open>What the requests share\<close>

text \<open>What the invalidation thread is asked for (\<open>crates/client/src/invalidate.rs\<close>).\<close>

datatype work = WorkEntry u64 name | WorkInode u64 | WorkDirGrew u64 | WorkSweep

definition QUEUE :: nat where "QUEUE = 4096"

definition READDIR_FETCH :: u32 where "READDIR_FETCH = 1024 * 1024"
definition READDIR_FETCH_FIRST :: u32 where "READDIR_FETCH_FIRST = 256 * 1024"

record known_xattrs =
  kx_names :: "u8 list list"
  kx_until :: nat

record reported_attr =
  rp_size :: u64
  rp_mtime :: time_spec

type_synonym dir_buffer = "(u64 \<times> dir_entry) list"

record dir_state =
  ds_ino :: u64
  ds_buffer :: dir_buffer
  ds_fetched :: nat
  ds_end :: "u64 option"

text \<open>The state the tasks share, with the rest of the world.\<close>

record 's fuse =
  fs_world :: 's
  fs_nodes :: node_table
  fs_handles :: handle_table
  fs_dirs :: "u64 \<rightharpoonup> dir_state"
  fs_xattrs :: "u64 \<rightharpoonup> known_xattrs"
  fs_reported :: "u64 \<rightharpoonup> reported_attr"
  fs_queue :: "work list option"

text \<open>What a backend starts with, and the queue of the invalidation thread given and taken back.\<close>

definition fuse_new :: "handle_table \<Rightarrow> 's \<Rightarrow> 's fuse" where
  "fuse_new t w =
     \<lparr>fs_world = w, fs_nodes = new_table, fs_handles = t, fs_dirs = Map.empty, fs_xattrs = Map.empty,
      fs_reported = Map.empty, fs_queue = None\<rparr>"

definition invalidations_set :: "'s fuse \<Rightarrow> 's fuse" where
  "invalidations_set s = s\<lparr>fs_queue := Some []\<rparr>"

definition invalidations_clear :: "'s fuse \<Rightarrow> 's fuse" where
  "invalidations_clear s = s\<lparr>fs_queue := None\<rparr>"

text \<open>
  The client's calls, the process behind a thread, the clock, the order the table of handles iterates in,
  and the mount's settings.
\<close>

record 's fuse_env =
  fe_call :: "'s fuse caller"
  fe_opener :: "u32 \<Rightarrow> 's fuse \<Rightarrow> opener option \<times> 's fuse"
  fe_now :: "'s \<Rightarrow> nat"
  fe_order :: "handle_table \<Rightarrow> u64 list"
  fe_entry_ttl :: nat
  fe_attr_ttl :: nat

text \<open>What the kernel is answered with.\<close>

record dir_item =
  di_ino :: u64
  di_offset :: u64
  di_kind :: fuse_kind
  di_name :: "u8 list"

record plus_item =
  pi_offset :: u64
  pi_name :: "u8 list"
  pi_ttl :: nat
  pi_attr :: fuse_attr

datatype fuse_reply =
    FEntry nat nat fuse_attr
  | FAttr nat fuse_attr
  | FData "u8 list"
  | FOk
  | FNone
  | FOpened u64
  | FCreated nat fuse_attr u64
  | FWritten u32
  | FOffset int
  | FStatfs statfs
  | FXattrSize u32
  | FDir "dir_item list"
  | FDirPlus "plus_item list"

type_synonym 's handler = "('s fuse, fuse_reply, errno) io"

definition fuse_now :: "'s fuse_env \<Rightarrow> 's fuse \<Rightarrow> nat" where
  "fuse_now e s = fe_now e (fs_world s)"

definition live_handle :: "'s fuse_env \<Rightarrow> u64 \<Rightarrow> 's fuse \<Rightarrow> u64 option" where
  "live_handle e ino s = any_live_for (fe_order e (fs_handles s)) ino (fs_handles s)"

text \<open>A call, and its error as the errno the kernel gets.\<close>

definition ask :: "('s fuse \<Rightarrow> ('a, client_error) result \<times> 's fuse) \<Rightarrow> ('s fuse, 'a, errno) io" where
  "ask m s = (let (r, s') = m s in Some (map_err error_errno r, s'))"

text \<open>A change to what is shared.\<close>

definition change_io :: "('s \<Rightarrow> 's) \<Rightarrow> ('s, unit, 'e) io" where
  "change_io f s = Some (Ok (), f s)"

text \<open>A value that may be a panic.\<close>

definition unless_panic :: "'a option \<Rightarrow> ('s, 'a, 'e) io" where
  "unless_panic v s = (case v of None \<Rightarrow> None | Some a \<Rightarrow> Some (Ok a, s))"

subsection \<open>Nodes\<close>

definition fuse_path_of :: "u64 \<Rightarrow> ('s fuse, path, errno) io" where
  "fuse_path_of ino s = Some (case path_of (fs_nodes s) ino of Some p \<Rightarrow> Ok p | None \<Rightarrow> Err ESTALE, s)"

definition path_for_handle_op :: "'s fuse_env \<Rightarrow> u64 \<Rightarrow> u64 option \<Rightarrow> 's fuse \<Rightarrow> (path option \<times> u64 option, errno) result" where
  "path_for_handle_op e ino fh s =
     (case path_of (fs_nodes s) ino of
        Some p \<Rightarrow> Ok (Some p, fh)
      | None \<Rightarrow>
          (case (case fh of Some f \<Rightarrow> Some f | None \<Rightarrow> live_handle e ino s) of
             Some f \<Rightarrow> Ok (None, Some f)
           | None \<Rightarrow> Err ESTALE))"

definition unlinked_file :: "u64 \<Rightarrow> 's fuse \<Rightarrow> bool" where
  "unlinked_file ino s =
     (case nodes (fs_nodes s) ino of Some n \<Rightarrow> node_unlinked n \<and> node_kind n = Regular | None \<Rightarrow> False)"

definition node_describes :: "u64 \<Rightarrow> attr \<Rightarrow> 's fuse \<Rightarrow> bool" where
  "node_describes i a s \<longleftrightarrow>
     i = ROOT \<or> (case Option.bind (nodes (fs_nodes s) i) node_key of Some k \<Rightarrow> describes k a | None \<Rightarrow> False)"

text \<open>\<open>try_send\<close> on the queue, if there is one: whether it was taken.\<close>

definition send_work :: "work \<Rightarrow> 's fuse \<Rightarrow> bool \<times> 's fuse" where
  "send_work wk s =
     (case fs_queue s of
        None \<Rightarrow> (False, s)
      | Some q \<Rightarrow> if length q < QUEUE then (True, s\<lparr>fs_queue := Some (q @ [wk])\<rparr>) else (False, s))"

definition forget_alias :: "u64 \<Rightarrow> path \<Rightarrow> 's fuse \<Rightarrow> 's fuse" where
  "forget_alias i p s =
     (let (t, gone) = alias_was_wrong i p (fs_nodes s); s1 = s\<lparr>fs_nodes := t\<rparr>
      in case gone of None \<Rightarrow> s1 | Some (parent, n) \<Rightarrow> snd (send_work (WorkEntry parent n) s1))"

text \<open>\<open>same_file\<close>: the node if the attributes are its file's, and whether the name was wrong.\<close>

definition same_file :: "u64 \<Rightarrow> path \<Rightarrow> attr \<Rightarrow> 's fuse \<Rightarrow> (u64, client_error) result \<times> bool \<times> 's fuse" where
  "same_file i p a s =
     (if node_describes i a s then (Ok i, False, s) else (Err Stale, True, forget_alias i p s))"

definition fuse_parent_of :: "u64 \<Rightarrow> 's fuse \<Rightarrow> u64" where
  "fuse_parent_of ino s =
     (case nodes (fs_nodes s) ino of
        Some n \<Rightarrow> if node_aliases n = [] then ROOT else fst (last (node_aliases n))
      | None \<Rightarrow> ROOT)"

subsection \<open>What is known of a file\<close>

definition xattr_remember :: "'s fuse_env \<Rightarrow> u64 \<Rightarrow> attr \<Rightarrow> 's fuse \<Rightarrow> 's fuse" where
  "xattr_remember e i a s =
     s\<lparr>fs_xattrs := (fs_xattrs s)(i :=
        map_option (\<lambda>ns. \<lparr>kx_names = ns, kx_until = fuse_now e s + fe_attr_ttl e\<rparr>) (attr_xattr_names a))\<rparr>"

definition xattr_forget :: "u64 \<Rightarrow> 's fuse \<Rightarrow> 's fuse" where
  "xattr_forget ino s = s\<lparr>fs_xattrs := (fs_xattrs s)(ino := None)\<rparr>"

definition xattr_clear :: "'s fuse \<Rightarrow> 's fuse" where
  "xattr_clear s = s\<lparr>fs_xattrs := Map.empty\<rparr>"

definition reported_forget :: "u64 \<Rightarrow> 's fuse \<Rightarrow> 's fuse" where
  "reported_forget ino s = s\<lparr>fs_reported := (fs_reported s)(ino := None)\<rparr>"

definition reported_of :: "attr \<Rightarrow> reported_attr" where
  "reported_of a = \<lparr>rp_size = attr_size a, rp_mtime = attr_mtime a\<rparr>"

fun send_all :: "work list \<Rightarrow> 's fuse \<Rightarrow> bool \<times> 's fuse" where
  "send_all [] s = (True, s)"
| "send_all (wk # wks) s = (let (taken, s1) = send_work wk s in if taken then send_all wks s1 else (False, s1))"

text \<open>Names of a node, as the work of dropping each of them.\<close>

definition alias_work :: "node \<Rightarrow> work list" where
  "alias_work n = map (\<lambda>(parent, nm). WorkEntry parent nm) (node_aliases n)"

definition drop_by_name :: "u64 \<Rightarrow> 's fuse \<Rightarrow> bool \<times> 's fuse" where
  "drop_by_name ino s =
     (if fs_queue s = None then (False, s)
      else send_all (case nodes (fs_nodes s) ino of Some n \<Rightarrow> alias_work n | None \<Rightarrow> []) s)"

definition attr_reported :: "'s fuse_env \<Rightarrow> u64 \<Rightarrow> attr \<Rightarrow> 's fuse \<Rightarrow> 's fuse" where
  "attr_reported e i a s =
     (if attr_kind a \<noteq> Regular then s
      else case fs_reported s i of
        None \<Rightarrow> s\<lparr>fs_reported := (fs_reported s)(i \<mapsto> reported_of a)\<rparr>
      | Some before \<Rightarrow>
          if before = reported_of a \<or> live_handle e i s \<noteq> None then s
          else
            (let (dropped, s1) = drop_by_name i s
             in if dropped then s1\<lparr>fs_reported := (fs_reported s1)(i \<mapsto> reported_of a)\<rparr> else s1))"

definition xattr_known_absent :: "'s fuse_env \<Rightarrow> u64 \<Rightarrow> u8 list \<Rightarrow> 's fuse \<Rightarrow> bool" where
  "xattr_known_absent e ino n s =
     (case fs_xattrs s ino of Some known \<Rightarrow> kx_until known > fuse_now e s \<and> n \<notin> set (kx_names known) | None \<Rightarrow> False)"

definition xattr_known_list :: "'s fuse_env \<Rightarrow> u64 \<Rightarrow> 's fuse \<Rightarrow> u8 list option" where
  "xattr_known_list e ino s =
     (case fs_xattrs s ino of
        Some known \<Rightarrow> if kx_until known > fuse_now e s then Some (concat (map (\<lambda>n. n @ [0]) (kx_names known))) else None
      | None \<Rightarrow> None)"

text \<open>\<open>register\<close>: the node of an entry the server described, looked up once more.\<close>

definition register :: "'s fuse_env \<Rightarrow> u64 \<Rightarrow> name \<Rightarrow> attr \<Rightarrow> ('s fuse, u64, errno) io" where
  "register e parent n a s =
     (case insert_lookup (fs_nodes s) parent n (seen_of a) of
        None \<Rightarrow> None
      | Some (t, None) \<Rightarrow> Some (Err EIO, s\<lparr>fs_nodes := t\<rparr>)
      | Some (t, Some i) \<Rightarrow> Some (Ok i, attr_reported e i a (xattr_remember e i a (s\<lparr>fs_nodes := t\<rparr>))))"

subsection \<open>Directories being listed\<close>

definition dir_grew :: "u64 \<Rightarrow> 's fuse \<Rightarrow> 's fuse" where
  "dir_grew ino s =
     s\<lparr>fs_dirs := (\<lambda>fh. map_option (\<lambda>d. if ds_ino d = ino then d\<lparr>ds_end := None\<rparr> else d) (fs_dirs s fh))\<rparr>"

definition dirs_grew_all :: "'s fuse \<Rightarrow> 's fuse" where
  "dirs_grew_all s = s\<lparr>fs_dirs := (\<lambda>fh. map_option (\<lambda>d. d\<lparr>ds_end := None\<rparr>) (fs_dirs s fh))\<rparr>"

definition upd_dir :: "u64 \<Rightarrow> (dir_state \<Rightarrow> dir_state) \<Rightarrow> 's fuse \<Rightarrow> 's fuse" where
  "upd_dir fh f s = s\<lparr>fs_dirs := (fs_dirs s)(fh := map_option f (fs_dirs s fh))\<rparr>"

definition stash :: "u64 \<Rightarrow> dir_buffer \<Rightarrow> 's fuse \<Rightarrow> 's fuse" where
  "stash fh rest = upd_dir fh (\<lambda>d. d\<lparr>ds_buffer := rest\<rparr>)"

definition note_end :: "u64 \<Rightarrow> u64 option \<Rightarrow> bool \<Rightarrow> 's fuse \<Rightarrow> 's fuse" where
  "note_end fh final eof s =
     (case final of
        None \<Rightarrow> s
      | Some at \<Rightarrow> upd_dir fh (\<lambda>d. d\<lparr>ds_end := if eof then Some at else None\<rparr>) s)"

fun tag_with_cookies :: "dir_entry list \<Rightarrow> u64 \<Rightarrow> dir_buffer" where
  "tag_with_cookies [] first = []"
| "tag_with_cookies (e # es) first = (first, e) # tag_with_cookies es (next_offset e)"

definition dir_page :: "'s fuse_env \<Rightarrow> u64 \<Rightarrow> u64 \<Rightarrow> bool \<Rightarrow> ('s fuse, dir_buffer, errno) io" where
  "dir_page e fh offset with_attrs s =
     (case fs_dirs s fh of
        None \<Rightarrow> Some (Err EBADF, s)
      | Some d \<Rightarrow>
          (let fresh = (\<not> with_attrs \<or> fuse_now e s - ds_fetched d < fe_attr_ttl e)
           in if offset \<noteq> 0 \<and> fresh \<and> ds_buffer d \<noteq> [] \<and> fst (hd (ds_buffer d)) = offset
              then Some (Ok (ds_buffer d), stash fh [] s)
              else
                (let s1 = stash fh [] s
                 in if offset \<noteq> 0 \<and> ds_end d = Some offset then Some (Ok [], s1)
                    else
                      bind_io
                        (ask (client_readdir (fe_call e) fh offset (if offset = 0 then READDIR_FETCH_FIRST else READDIR_FETCH)))
                        (\<lambda>(entries, eof) s2.
                          let s3 = upd_dir fh (\<lambda>d. d\<lparr>ds_fetched := fuse_now e s2\<rparr>) s2;
                              s4 = note_end fh (if entries = [] then None else Some (next_offset (last entries))) eof s3
                          in Some (Ok (tag_with_cookies entries offset), s4)) s1)))"

text \<open>The number a plain page lists an entry under; None where the search for one never ends.\<close>

definition plain_number :: "node_table \<Rightarrow> u64 \<Rightarrow> u64 \<Rightarrow> dir_entry \<Rightarrow> u64 option option" where
  "plain_number t dir parent entry =
     (if entry_name entry = [dot] then Some (Some dir)
      else if entry_name entry = [dot, dot] then Some (Some parent)
      else case entry_attr entry of
        None \<Rightarrow> Some None
      | Some a \<Rightarrow> map_option Some (id_for t (seen_of a)))"

text \<open>
  Entries go to the kernel for as long as its buffer has room for the next, \<open>fits\<close> says; what it did not
  take comes back.
\<close>

fun add_plain :: "(dir_item list \<Rightarrow> dir_item \<Rightarrow> bool) \<Rightarrow> node_table \<Rightarrow> u64 \<Rightarrow> u64 \<Rightarrow> dir_buffer \<Rightarrow> dir_item list \<Rightarrow>
    (dir_item list \<times> dir_buffer) option" where
  "add_plain fits t dir parent [] added = Some (added, [])"
| "add_plain fits t dir parent ((cookie, entry) # rest) added =
     (case plain_number t dir parent entry of
        None \<Rightarrow> None
      | Some None \<Rightarrow> add_plain fits t dir parent rest added
      | Some (Some number) \<Rightarrow>
          (let kind = (case entry_attr entry of Some a \<Rightarrow> attr_kind a | None \<Rightarrow> Directory);
               item = \<lparr>di_ino = number, di_offset = next_offset entry, di_kind = file_type kind, di_name = entry_name entry\<rparr>
           in if fits added item then add_plain fits t dir parent rest (added @ [item])
              else Some (added, (cookie, entry) # rest)))"

text \<open>An entry of a page with attributes: None for one that is skipped, and otherwise whether the kernel took it.\<close>

definition add_plus :: "'s fuse_env \<Rightarrow> (plus_item list \<Rightarrow> plus_item \<Rightarrow> bool) \<Rightarrow> u64 \<Rightarrow> dir_entry \<Rightarrow> plus_item list \<Rightarrow>
    's fuse \<Rightarrow> ((bool \<times> plus_item list) option \<times> 's fuse) option" where
  "add_plus e fits ino entry added s =
     (let item = (\<lambda>a. \<lparr>pi_offset = next_offset entry, pi_name = entry_name entry, pi_ttl = fe_entry_ttl e, pi_attr = a\<rparr>);
          put = (\<lambda>a. if fits added (item a) then (True, added @ [item a]) else (False, added))
      in if entry_name entry = [dot] then Some (Some (put (dir_placeholder ino)), s)
         else if entry_name entry = [dot, dot] then Some (Some (put (dir_placeholder (fuse_parent_of ino s))), s)
         else case entry_attr entry of
           None \<Rightarrow> Some (None, s)
         | Some a \<Rightarrow>
             (case name_new (entry_name entry) of
                Inl _ \<Rightarrow> Some (None, s)
              | Inr n \<Rightarrow>
                  (case Option.bind (id_for (fs_nodes s) (seen_of a)) (\<lambda>i. map_option (Pair i) (file_attr i a)) of
                     None \<Rightarrow> None
                   | Some (i, fa) \<Rightarrow>
                       (let (taken, added1) = put fa
                        in if \<not> taken then Some (Some (False, added1), s)
                           else case insert_lookup (fs_nodes s) ino n (seen_of a) of
                             None \<Rightarrow> None
                           | Some (t, registered) \<Rightarrow>
                               Some (Some (True, added1), attr_reported e i a (xattr_remember e i a (s\<lparr>fs_nodes := t\<rparr>)))))))"

fun add_plus_all :: "'s fuse_env \<Rightarrow> (plus_item list \<Rightarrow> plus_item \<Rightarrow> bool) \<Rightarrow> u64 \<Rightarrow> u64 \<Rightarrow> dir_buffer \<Rightarrow> plus_item list \<Rightarrow>
    's fuse \<Rightarrow> (plus_item list \<times> 's fuse) option" where
  "add_plus_all e fits ino fh [] added s = Some (added, s)"
| "add_plus_all e fits ino fh ((cookie, entry) # rest) added s =
     (case add_plus e fits ino entry added s of
        None \<Rightarrow> None
      | Some (None, s1) \<Rightarrow> add_plus_all e fits ino fh rest added s1
      | Some (Some (True, added1), s1) \<Rightarrow> add_plus_all e fits ino fh rest added1 s1
      | Some (Some (False, added1), s1) \<Rightarrow> Some (added1, stash fh ((cookie, entry) # rest) s1))"

end
