(* ===== verification/FuseOps.thy ===== *)
theory FuseOps
  imports Fuse
begin

text \<open>
  The requests of the kernel, one definition each (\<open>impl Filesystem for Backend\<close> of
  \<open>crates/client/src/fuse.rs\<close>), over the shared state of the theory before this one, and the one
  that answers any of them.
\<close>

definition RENAME_EXCHANGE :: u32 where "RENAME_EXCHANGE = 2"

definition name_io :: "u8 list \<Rightarrow> ('x, name, errno) io" where
  "name_io os = lift_res (name_of os)"

text \<open>\<open>reply_entry\<close> and \<open>reply_created\<close>.\<close>

definition reply_entry :: "'s fuse_env \<Rightarrow> u64 \<Rightarrow> name \<Rightarrow> attr \<Rightarrow> 's handler" where
  "reply_entry e parent n a =
     bind_io (register e parent n a) (\<lambda>i.
     bind_io (unless_panic (file_attr i a)) (\<lambda>fa.
     ret (FEntry (fe_attr_ttl e) (fe_entry_ttl e) fa)))"

definition reply_created :: "'s fuse_env \<Rightarrow> u64 \<Rightarrow> name \<Rightarrow> attr \<Rightarrow> 's handler" where
  "reply_created e parent n a = bind_io (change_io (dir_grew parent)) (\<lambda>_. reply_entry e parent n a)"

definition reply_xattr :: "u32 \<Rightarrow> u8 list \<Rightarrow> 's handler" where
  "reply_xattr amount val =
     (if amount = 0 then ret (FXattrSize (word_of_nat (length val)))
      else if length val > unat amount then fail ERANGE
      else ret (FData val))"

subsection \<open>Requests for a node, by a name of it or a handle\<close>

text \<open>
  The loop of \<open>getattr\<close> and \<open>setattr\<close>: a reply by handle is the handle's file, and one by path is whatever
  the path leads to now; if that is another file the node loses the name and is tried by its next.
  An error says whether there was no way left to address the node.
\<close>

datatype unaddressed = NoAddress errno | Refused errno

partial_function (option) addressed :: "'s fuse_env \<Rightarrow>
    (path option \<Rightarrow> u64 option \<Rightarrow> 's fuse \<Rightarrow> (attr, client_error) result \<times> 's fuse) \<Rightarrow> u64 \<Rightarrow> u64 option \<Rightarrow>
    ('s fuse, attr, unaddressed) io" where
  "addressed e req ino fh s =
     (case path_for_handle_op e ino fh s of
        Inl err \<Rightarrow> Some (Err (NoAddress err), s)
      | Inr (p, via) \<Rightarrow>
          (case req p via s of
             (Inl err, s1) \<Rightarrow> Some (Err (Refused (error_errno err)), s1)
           | (Inr a, s1) \<Rightarrow>
               if via \<noteq> None \<or> node_describes ino a s1 then Some (Ok a, s1)
               else addressed e req ino fh (forget_alias ino (case p of Some q \<Rightarrow> q | None \<Rightarrow> path_root) s1)))"

definition unaddressed_errno :: "unaddressed \<Rightarrow> errno" where
  "unaddressed_errno u = (case u of NoAddress err \<Rightarrow> err | Refused err \<Rightarrow> err)"

definition fuse_getattr :: "'s fuse_env \<Rightarrow> u64 \<Rightarrow> u64 option \<Rightarrow> 's handler" where
  "fuse_getattr e ino fh =
     bind_io (err_io unaddressed_errno (addressed e (client_getattr (fe_call e)) ino fh)) (\<lambda>a.
     bind_io (change_io (\<lambda>s. if ino = ROOT then s\<lparr>fs_nodes := root_seen (attr_identity a) (fs_nodes s)\<rparr> else s)) (\<lambda>_.
     bind_io (change_io (xattr_remember e ino a)) (\<lambda>_.
     bind_io (change_io (attr_reported e ino a)) (\<lambda>_.
     bind_io (unless_panic (file_attr ino a)) (\<lambda>fa.
     ret (FAttr (fe_attr_ttl e) fa))))))"

text \<open>What the kernel asks to change, and the request it becomes.\<close>

record kernel_setattr =
  ks_mode :: "u32 option"
  ks_uid :: "u32 option"
  ks_gid :: "u32 option"
  ks_size :: "u64 option"
  ks_atime :: "kernel_time option"
  ks_mtime :: "kernel_time option"

definition set_of :: "kernel_setattr \<Rightarrow> set_attr" where
  "set_of k =
     \<lparr>set_mode = ks_mode k, set_uid = ks_uid k, set_gid = ks_gid k, set_size = ks_size k,
      set_atime = map_option time_or_now (ks_atime k), set_mtime = map_option time_or_now (ks_mtime k)\<rparr>"

definition fuse_setattr :: "'s fuse_env \<Rightarrow> u64 \<Rightarrow> kernel_setattr \<Rightarrow> u64 option \<Rightarrow> 's handler" where
  "fuse_setattr e ino k fh =
     (let observes_only = (ks_size k = None \<and> ks_mtime k = None); change = set_of k
      in bind_io (outcome_of (addressed e (\<lambda>p via. client_setattr (fe_call e) p via change) ino fh)) (\<lambda>r s.
         case r of
           Inl (NoAddress err) \<Rightarrow>
             if setattr_flushes_times change \<and> unlinked_file ino s then ret (FAttr 0 (unlinked_placeholder ino)) s
             else fail err s
         | Inl (Refused err) \<Rightarrow> fail err s
         | Inr a \<Rightarrow>
             bind_io (change_io (xattr_remember e ino a)) (\<lambda>_.
             bind_io (change_io (if observes_only then attr_reported e ino a
                                 else (\<lambda>s. s\<lparr>fs_reported := (fs_reported s)(ino \<mapsto> reported_of a)\<rparr>))) (\<lambda>_.
             bind_io (unless_panic (file_attr ino a)) (\<lambda>fa.
             ret (FAttr (fe_attr_ttl e) fa)))) s))"

subsection \<open>Requests by path\<close>

definition fuse_lookup :: "'s fuse_env \<Rightarrow> u64 \<Rightarrow> u8 list \<Rightarrow> 's handler" where
  "fuse_lookup e parent os =
     bind_io (name_io os) (\<lambda>n.
     bind_io (fuse_path_of parent) (\<lambda>p.
     bind_io (ask (client_lookup (fe_call e) p n)) (\<lambda>a.
     reply_entry e parent n a)))"

definition fuse_forget :: "u64 \<Rightarrow> u64 \<Rightarrow> 's handler" where
  "fuse_forget ino nlookup s =
     (let (t, gone) = forget ino (unat nlookup) (fs_nodes s); s1 = s\<lparr>fs_nodes := t\<rparr>
      in Some (Ok FNone, if gone then reported_forget ino (xattr_forget ino s1) else s1))"

definition fuse_readlink :: "'s fuse_env \<Rightarrow> u64 \<Rightarrow> 's handler" where
  "fuse_readlink e ino =
     bind_io (fuse_path_of ino) (\<lambda>p.
     bind_io (ask (client_readlink (fe_call e) p)) (\<lambda>target.
     ret (FData target)))"

definition fuse_mknod :: "'s fuse_env \<Rightarrow> u64 \<Rightarrow> u8 list \<Rightarrow> u32 \<Rightarrow> u32 \<Rightarrow> 's handler" where
  "fuse_mknod e parent os mode rdev =
     bind_io (name_io os) (\<lambda>n.
     bind_io (fuse_path_of parent) (\<lambda>p.
     bind_io (ask (client_mknod (fe_call e) p n mode (ucast rdev))) (\<lambda>a.
     reply_created e parent n a)))"

definition fuse_mkdir :: "'s fuse_env \<Rightarrow> u64 \<Rightarrow> u8 list \<Rightarrow> u32 \<Rightarrow> 's handler" where
  "fuse_mkdir e parent os mode =
     bind_io (name_io os) (\<lambda>n.
     bind_io (fuse_path_of parent) (\<lambda>p.
     bind_io (ask (client_mkdir (fe_call e) p n mode)) (\<lambda>a.
     reply_created e parent n a)))"

definition fuse_unlink :: "'s fuse_env \<Rightarrow> u64 \<Rightarrow> u8 list \<Rightarrow> 's handler" where
  "fuse_unlink e parent os =
     bind_io (name_io os) (\<lambda>n.
     bind_io (fuse_path_of parent) (\<lambda>p.
     bind_io (ask (client_unlink (fe_call e) p n)) (\<lambda>_.
     bind_io (change_io (\<lambda>s. s\<lparr>fs_nodes := unlink parent n (fs_nodes s)\<rparr>)) (\<lambda>_.
     ret FOk))))"

definition fuse_rmdir :: "'s fuse_env \<Rightarrow> u64 \<Rightarrow> u8 list \<Rightarrow> 's handler" where
  "fuse_rmdir e parent os =
     bind_io (name_io os) (\<lambda>n.
     bind_io (fuse_path_of parent) (\<lambda>p.
     bind_io (ask (client_rmdir (fe_call e) p n)) (\<lambda>_.
     bind_io (change_io (\<lambda>s. s\<lparr>fs_nodes := unlink parent n (fs_nodes s)\<rparr>)) (\<lambda>_.
     ret FOk))))"

definition fuse_symlink :: "'s fuse_env \<Rightarrow> u64 \<Rightarrow> u8 list \<Rightarrow> u8 list \<Rightarrow> 's handler" where
  "fuse_symlink e parent os target =
     bind_io (name_io os) (\<lambda>n.
     bind_io (fuse_path_of parent) (\<lambda>p.
     bind_io (ask (client_symlink (fe_call e) p n target)) (\<lambda>a.
     reply_created e parent n a)))"

definition fuse_rename :: "'s fuse_env \<Rightarrow> u64 \<Rightarrow> u8 list \<Rightarrow> u64 \<Rightarrow> u8 list \<Rightarrow> u32 \<Rightarrow> 's handler" where
  "fuse_rename e parent os newparent newos flags =
     bind_io (name_io os) (\<lambda>n.
     bind_io (name_io newos) (\<lambda>newname.
     bind_io (fuse_path_of parent) (\<lambda>p.
     bind_io (fuse_path_of newparent) (\<lambda>newpath.
     bind_io (ask (client_rename (fe_call e) p n newpath newname flags)) (\<lambda>_.
     bind_io (change_io (\<lambda>s. s\<lparr>fs_nodes :=
        (if flags AND RENAME_EXCHANGE = RENAME_EXCHANGE then exchange parent n newparent newname
         else rename parent n newparent newname) (fs_nodes s)\<rparr>)) (\<lambda>_.
     bind_io (change_io (dir_grew newparent)) (\<lambda>_.
     ret FOk)))))))"

definition fuse_link :: "'s fuse_env \<Rightarrow> u64 \<Rightarrow> u64 \<Rightarrow> u8 list \<Rightarrow> 's handler" where
  "fuse_link e ino newparent os =
     bind_io (name_io os) (\<lambda>n.
     bind_io (fuse_path_of ino) (\<lambda>p.
     bind_io (fuse_path_of newparent) (\<lambda>newpath.
     bind_io (ask (client_link (fe_call e) p newpath n)) (\<lambda>a.
     bind_io (change_io (\<lambda>s. if node_describes ino a s then s else forget_alias ino p s)) (\<lambda>_.
     reply_created e newparent n a)))))"

text \<open>A node without a path has the root's statistics.\<close>

definition fuse_statfs :: "'s fuse_env \<Rightarrow> u64 \<Rightarrow> 's handler" where
  "fuse_statfs e ino s =
     bind_io (ask (client_statfs (fe_call e) (case path_of (fs_nodes s) ino of Some p \<Rightarrow> p | None \<Rightarrow> path_root)))
       (\<lambda>st. ret (FStatfs st)) s"

definition fuse_setxattr :: "'s fuse_env \<Rightarrow> u64 \<Rightarrow> u8 list \<Rightarrow> u8 list \<Rightarrow> u32 \<Rightarrow> u32 \<Rightarrow> 's handler" where
  "fuse_setxattr e ino n val flags position =
     (if position \<noteq> 0 then fail EINVAL
      else
        bind_io (fuse_path_of ino) (\<lambda>p.
        bind_io (outcome_of (ask (client_setxattr (fe_call e) p n val flags))) (\<lambda>r.
        bind_io (change_io (xattr_forget ino)) (\<lambda>_.
        bind_io (lift_res r) (\<lambda>_. ret FOk)))))"

definition fuse_getxattr :: "'s fuse_env \<Rightarrow> u64 \<Rightarrow> u8 list \<Rightarrow> u32 \<Rightarrow> 's handler" where
  "fuse_getxattr e ino n amount s =
     (if xattr_known_absent e ino n s then fail ENODATA s
      else
        bind_io (fuse_path_of ino) (\<lambda>p.
        bind_io (ask (client_getxattr (fe_call e) p n)) (\<lambda>val.
        reply_xattr amount val)) s)"

definition fuse_listxattr :: "'s fuse_env \<Rightarrow> u64 \<Rightarrow> u32 \<Rightarrow> 's handler" where
  "fuse_listxattr e ino amount s =
     (case xattr_known_list e ino s of
        Some known \<Rightarrow> reply_xattr amount known s
      | None \<Rightarrow>
          bind_io (fuse_path_of ino) (\<lambda>p.
          bind_io (ask (client_listxattr (fe_call e) p)) (\<lambda>found.
          reply_xattr amount found)) s)"

definition fuse_removexattr :: "'s fuse_env \<Rightarrow> u64 \<Rightarrow> u8 list \<Rightarrow> 's handler" where
  "fuse_removexattr e ino n =
     bind_io (fuse_path_of ino) (\<lambda>p.
     bind_io (outcome_of (ask (client_removexattr (fe_call e) p n))) (\<lambda>r.
     bind_io (change_io (xattr_forget ino)) (\<lambda>_.
     bind_io (lift_res r) (\<lambda>_. ret FOk))))"

definition fuse_access :: "'s fuse_env \<Rightarrow> u64 \<Rightarrow> u32 \<Rightarrow> 's handler" where
  "fuse_access e ino amode =
     bind_io (fuse_path_of ino) (\<lambda>p.
     bind_io (ask (client_access (fe_call e) p amode)) (\<lambda>_.
     ret FOk))"

subsection \<open>Opening and releasing\<close>

text \<open>
  \<open>open_handle\<close> of \<open>client.rs\<close> with the node settled by a closure over the shared state: what the closure
  notes comes back beside the result, and is None when it did not run.
\<close>

definition fuse_open_handle :: "'s fuse_env \<Rightarrow> path \<Rightarrow> u32 \<Rightarrow> handle_kind \<Rightarrow> opener option \<Rightarrow> (u64 \<Rightarrow> request) \<Rightarrow>
    (attr \<Rightarrow> 's fuse \<Rightarrow> ((u64, client_error) result \<times> 'x \<times> 's fuse) option) \<Rightarrow> 's fuse \<Rightarrow>
    ((u64 \<times> attr, client_error) result \<times> 'x option \<times> 's fuse) option" where
  "fuse_open_handle e p flags kind opn build node s =
     (let (t1, fh) = alloc (fs_handles s);
          (opened, s1) = fe_call e (build fh) (s\<lparr>fs_handles := t1\<rparr>);
          ends = (\<lambda>r x s2.
            map_option (\<lambda>(res, t). (res, x, s2\<lparr>fs_handles := t\<rparr>))
              (open_handle_ends fh p flags kind opn (\<lambda>_. r) opened (fs_handles s2)))
      in case opened of
           Inr (ROpened a) \<Rightarrow> (case node a s1 of None \<Rightarrow> None | Some (r, x, s2) \<Rightarrow> ends r (Some x) s2)
         | _ \<Rightarrow> ends (Err Stale) None s1)"

text \<open>
  The loop of \<open>open\<close> and \<open>opendir\<close>: a path that led to another file costs the node that name, and the open
  is tried by the next.
\<close>

partial_function (option) open_by_name :: "'s fuse_env \<Rightarrow> u32 \<Rightarrow> handle_kind \<Rightarrow> opener option \<Rightarrow>
    (path \<Rightarrow> u64 \<Rightarrow> request) \<Rightarrow> u64 \<Rightarrow> ('s fuse, u64 \<times> attr, errno) io" where
  "open_by_name e flags kind opn build ino s =
     (case path_of (fs_nodes s) ino of
        None \<Rightarrow> Some (Err ESTALE, s)
      | Some p \<Rightarrow>
          (case fuse_open_handle e p flags kind opn (build p) (\<lambda>a s. Some (same_file ino p a s)) s of
             None \<Rightarrow> None
           | Some (r, wrong_name, s1) \<Rightarrow>
               if wrong_name \<noteq> Some True then Some (map_err error_errno r, s1)
               else open_by_name e flags kind opn build ino s1))"

text \<open>The process behind a thread.\<close>

definition opener_of :: "'s fuse_env \<Rightarrow> u32 \<Rightarrow> ('s fuse, opener option, errno) io" where
  "opener_of e tid s = (let (opn, s1) = fe_opener e tid s in Some (Ok opn, s1))"

definition fuse_open :: "'s fuse_env \<Rightarrow> u32 \<Rightarrow> u64 \<Rightarrow> u32 \<Rightarrow> 's handler" where
  "fuse_open e tid ino kernel_flags =
     (let flags = flags_for_server kernel_flags
      in bind_io (opener_of e tid) (\<lambda>opn.
         bind_io (open_by_name e flags KFile opn (\<lambda>p fh. Open fh p flags) ino) (\<lambda>(fh, a).
         bind_io (change_io (xattr_remember e ino a)) (\<lambda>_.
         bind_io (change_io (attr_reported e ino a)) (\<lambda>_.
         ret (FOpened fh))))))"

definition fuse_opendir :: "'s fuse_env \<Rightarrow> u32 \<Rightarrow> u64 \<Rightarrow> 's handler" where
  "fuse_opendir e tid ino =
     bind_io (opener_of e tid) (\<lambda>opn.
     bind_io (open_by_name e (O_RDONLY OR O_DIRECTORY) KDir opn (\<lambda>p fh. Opendir fh p) ino) (\<lambda>(fh, a).
     bind_io (change_io (\<lambda>s. s\<lparr>fs_dirs := (fs_dirs s)(fh \<mapsto>
        \<lparr>ds_ino = ino, ds_buffer = [], ds_fetched = fuse_now e s, ds_end = None\<rparr>)\<rparr>)) (\<lambda>_.
     ret (FOpened fh))))"

text \<open>The closure of \<open>create\<close>: the directory grew, and the node is registered.\<close>

definition create_node :: "'s fuse_env \<Rightarrow> u64 \<Rightarrow> name \<Rightarrow> attr \<Rightarrow> 's fuse \<Rightarrow>
    ((u64, client_error) result \<times> u64 option \<times> 's fuse) option" where
  "create_node e parent n a s =
     map_option (\<lambda>(r, s1). (map_err Remote r, case r of Inr i \<Rightarrow> Some i | Inl _ \<Rightarrow> None, s1))
       (register e parent n a (dir_grew parent s))"

definition fuse_create :: "'s fuse_env \<Rightarrow> u32 \<Rightarrow> u64 \<Rightarrow> u8 list \<Rightarrow> u32 \<Rightarrow> u32 \<Rightarrow> 's handler" where
  "fuse_create e tid parent os mode kernel_flags =
     (let flags = flags_for_server kernel_flags
      in bind_io (name_io os) (\<lambda>n.
         bind_io (opener_of e tid) (\<lambda>opn.
         bind_io (fuse_path_of parent) (\<lambda>p.
         case join p n of
           Inl _ \<Rightarrow> fail (error_errno (Remote ENAMETOOLONG))
         | Inr q \<Rightarrow> (\<lambda>s.
             case fuse_open_handle e q flags KFile opn (\<lambda>fh. Create fh p n mode flags) (create_node e parent n) s of
               None \<Rightarrow> None
             | Some (Inl err, _, s1) \<Rightarrow> fail (error_errno err) s1
             | Some (Inr (fh, a), Some (Some i), s1) \<Rightarrow>
                 bind_io (unless_panic (file_attr i a))
                   (\<lambda>fa. ret (FCreated (min (fe_entry_ttl e) (fe_attr_ttl e)) fa fh)) s1
             | Some (Inr _, _, s1) \<Rightarrow> fail EIO s1)))))"

text \<open>\<open>Client::release\<close> and \<open>Client::releasedir\<close> over the shared state.\<close>

definition fuse_release_handle :: "'s fuse_env \<Rightarrow> request \<Rightarrow> u64 \<Rightarrow> ('s fuse, unit, errno) io" where
  "fuse_release_handle e req fh s =
     (let (t, tell) = release_begins fh (fs_handles s); s1 = s\<lparr>fs_handles := t\<rparr>
      in if \<not> tell then Some (Ok (), s1)
         else
           (let (released, s2) = fe_call e req s1
            in map_option (\<lambda>(r, t2). (map_err error_errno r, s2\<lparr>fs_handles := t2\<rparr>))
                 (release_ends req released (fs_handles s2))))"

text \<open>What the end of a file's last handle does, if that handle could write.\<close>

definition last_writer_gone :: "'s fuse_env \<Rightarrow> u64 \<Rightarrow> bool \<Rightarrow> 's fuse \<Rightarrow> 's fuse" where
  "last_writer_gone e ino writer s =
     (if writer \<and> live_handle e ino s = None then snd (drop_by_name ino (reported_forget ino s)) else s)"

definition fuse_release :: "'s fuse_env \<Rightarrow> u64 \<Rightarrow> u64 \<Rightarrow> 's handler" where
  "fuse_release e ino fh s =
     (let writer = (case rec_at (fs_handles s) fh of Some r \<Rightarrow> hr_flags r AND O_ACCMODE \<noteq> O_RDONLY | None \<Rightarrow> False)
      in bind_io (fuse_release_handle e (Release fh False) fh) (\<lambda>_.
         bind_io (change_io (last_writer_gone e ino writer)) (\<lambda>_.
         ret FOk)) s)"

definition fuse_releasedir :: "'s fuse_env \<Rightarrow> u64 \<Rightarrow> 's handler" where
  "fuse_releasedir e fh =
     bind_io (change_io (\<lambda>s. s\<lparr>fs_dirs := (fs_dirs s)(fh := None)\<rparr>)) (\<lambda>_.
     bind_io (fuse_release_handle e (Releasedir fh False) fh) (\<lambda>_.
     ret FOk))"

subsection \<open>Requests by handle\<close>

definition fuse_read :: "'s fuse_env \<Rightarrow> u64 \<Rightarrow> u64 \<Rightarrow> u32 \<Rightarrow> 's handler" where
  "fuse_read e fh offset amount = bind_io (ask (client_read (fe_call e) fh offset amount)) (\<lambda>data. ret (FData data))"

definition fuse_write :: "'s fuse_env \<Rightarrow> u64 \<Rightarrow> u64 \<Rightarrow> u8 list \<Rightarrow> 's handler" where
  "fuse_write e fh offset data = bind_io (ask (client_write (fe_call e) fh offset data)) (\<lambda>n. ret (FWritten n))"

definition fuse_copy_file_range :: "'s fuse_env \<Rightarrow> u64 \<Rightarrow> u64 \<Rightarrow> u64 \<Rightarrow> u64 \<Rightarrow> u64 \<Rightarrow> u64 \<Rightarrow> 's handler" where
  "fuse_copy_file_range e fh_in offset_in fh_out offset_out len flags =
     (if flags \<noteq> 0 then fail EINVAL
      else bind_io (ask (client_copy_file_range (fe_call e) fh_in offset_in fh_out offset_out len)) (\<lambda>n. ret (FWritten n)))"

definition fuse_fallocate :: "'s fuse_env \<Rightarrow> u64 \<Rightarrow> u64 \<Rightarrow> u64 \<Rightarrow> u32 \<Rightarrow> 's handler" where
  "fuse_fallocate e fh offset len mode =
     bind_io (ask (client_fallocate (fe_call e) fh offset len mode)) (\<lambda>_. ret FOk)"

text \<open>\<open>SEEK_DATA\<close> and \<open>SEEK_HOLE\<close>; offsets of the kernel are signed.\<close>

definition whence_of :: "u32 \<Rightarrow> whence option" where
  "whence_of w = (if w = 3 then Some Data else if w = 4 then Some Hole else None)"

definition fuse_lseek :: "'s fuse_env \<Rightarrow> u64 \<Rightarrow> u64 \<Rightarrow> u64 \<Rightarrow> u32 \<Rightarrow> 's handler" where
  "fuse_lseek e ino fh offset whence s =
     (case whence_of whence of
        None \<Rightarrow> fail EINVAL s
      | Some w \<Rightarrow>
          if sint offset < 0 then fail ENXIO s
          else if may_be_dirty (fe_order e (fs_handles s)) ino (fs_handles s) then fail EINVAL s
          else
            bind_io (ask (client_lseek (fe_call e) fh offset w)) (\<lambda>found.
            if uint found < 2 ^ 63 then ret (FOffset (uint found)) else fail EIO) s)"

definition fuse_flush :: "'s handler" where
  "fuse_flush = ret FOk"

definition fuse_fsync :: "'s fuse_env \<Rightarrow> u64 \<Rightarrow> bool \<Rightarrow> 's handler" where
  "fuse_fsync e fh datasync = bind_io (ask (client_fsync (fe_call e) fh datasync)) (\<lambda>_. ret FOk)"

definition fuse_fsyncdir :: "'s fuse_env \<Rightarrow> u64 \<Rightarrow> bool \<Rightarrow> 's handler" where
  "fuse_fsyncdir e fh datasync = bind_io (ask (client_fsync (fe_call e) fh datasync)) (\<lambda>_. ret FOk)"

definition fuse_ioctl :: "'s handler" where
  "fuse_ioctl = fail ENOTTY"

text \<open>Pages of a directory; \<open>fits\<close> is the room of the kernel's buffer.\<close>

definition fuse_readdir :: "'s fuse_env \<Rightarrow> (dir_item list \<Rightarrow> dir_item \<Rightarrow> bool) \<Rightarrow> u64 \<Rightarrow> u64 \<Rightarrow> u64 \<Rightarrow> 's handler" where
  "fuse_readdir e fits ino fh offset =
     bind_io (dir_page e fh offset False) (\<lambda>page s.
       case add_plain fits (fs_nodes s) ino (fuse_parent_of ino s) page [] of
         None \<Rightarrow> None
       | Some (added, rest) \<Rightarrow> Some (Ok (FDir added), stash fh rest s))"

definition fuse_readdirplus :: "'s fuse_env \<Rightarrow> (plus_item list \<Rightarrow> plus_item \<Rightarrow> bool) \<Rightarrow> u64 \<Rightarrow> u64 \<Rightarrow> u64 \<Rightarrow> 's handler" where
  "fuse_readdirplus e fits ino fh offset =
     bind_io (dir_page e fh offset True) (\<lambda>page s.
       map_option (\<lambda>(added, s1). (Ok (FDirPlus added), s1)) (add_plus_all e fits ino fh page [] s))"

subsection \<open>Any request\<close>

text \<open>The requests, by what they address: a name in a directory, a node, or a handle.\<close>

datatype name_op =
    KLookup
  | KMknod u32 u32
  | KMkdir u32
  | KUnlink
  | KRmdir
  | KSymlink "u8 list"
  | KRename u64 "u8 list" u32
  | KCreate u32 u32 u32

datatype node_op =
    KForget u64
  | KGetattr "u64 option"
  | KSetattr kernel_setattr "u64 option"
  | KReadlink
  | KLink u64 "u8 list"
  | KOpen u32 u32
  | KOpendir u32
  | KStatfs
  | KSetxattr "u8 list" "u8 list" u32 u32
  | KGetxattr "u8 list" u32
  | KListxattr u32
  | KRemovexattr "u8 list"
  | KAccess u32

datatype handle_op =
    KRead u64 u32
  | KWrite u64 "u8 list"
  | KCopyFileRange u64 u64 u64 u64 u64
  | KFallocate u64 u64 u32
  | KLseek u64 u64 u32
  | KFlush
  | KRelease u64
  | KFsync bool
  | KReaddir "dir_item list \<Rightarrow> dir_item \<Rightarrow> bool" u64 u64
  | KReaddirplus "plus_item list \<Rightarrow> plus_item \<Rightarrow> bool" u64 u64
  | KFsyncdir bool
  | KReleasedir
  | KIoctl

datatype fuse_request = KName u64 "u8 list" name_op | KNode u64 node_op | KHandle u64 handle_op

primrec serve_name :: "'s fuse_env \<Rightarrow> u64 \<Rightarrow> u8 list \<Rightarrow> name_op \<Rightarrow> 's handler" where
  "serve_name e parent n KLookup = fuse_lookup e parent n"
| "serve_name e parent n (KMknod mode rdev) = fuse_mknod e parent n mode rdev"
| "serve_name e parent n (KMkdir mode) = fuse_mkdir e parent n mode"
| "serve_name e parent n KUnlink = fuse_unlink e parent n"
| "serve_name e parent n KRmdir = fuse_rmdir e parent n"
| "serve_name e parent n (KSymlink target) = fuse_symlink e parent n target"
| "serve_name e parent n (KRename newparent newname flags) = fuse_rename e parent n newparent newname flags"
| "serve_name e parent n (KCreate tid mode flags) = fuse_create e tid parent n mode flags"

primrec serve_node :: "'s fuse_env \<Rightarrow> u64 \<Rightarrow> node_op \<Rightarrow> 's handler" where
  "serve_node e ino (KForget nlookup) = fuse_forget ino nlookup"
| "serve_node e ino (KGetattr fh) = fuse_getattr e ino fh"
| "serve_node e ino (KSetattr k fh) = fuse_setattr e ino k fh"
| "serve_node e ino KReadlink = fuse_readlink e ino"
| "serve_node e ino (KLink newparent n) = fuse_link e ino newparent n"
| "serve_node e ino (KOpen tid flags) = fuse_open e tid ino flags"
| "serve_node e ino (KOpendir tid) = fuse_opendir e tid ino"
| "serve_node e ino KStatfs = fuse_statfs e ino"
| "serve_node e ino (KSetxattr n val flags position) = fuse_setxattr e ino n val flags position"
| "serve_node e ino (KGetxattr n amount) = fuse_getxattr e ino n amount"
| "serve_node e ino (KListxattr amount) = fuse_listxattr e ino amount"
| "serve_node e ino (KRemovexattr n) = fuse_removexattr e ino n"
| "serve_node e ino (KAccess amode) = fuse_access e ino amode"

primrec serve_handle :: "'s fuse_env \<Rightarrow> u64 \<Rightarrow> handle_op \<Rightarrow> 's handler" where
  "serve_handle e fh (KRead offset amount) = fuse_read e fh offset amount"
| "serve_handle e fh (KWrite offset data) = fuse_write e fh offset data"
| "serve_handle e fh (KCopyFileRange offset_in fh_out offset_out len flags) =
     fuse_copy_file_range e fh offset_in fh_out offset_out len flags"
| "serve_handle e fh (KFallocate offset len mode) = fuse_fallocate e fh offset len mode"
| "serve_handle e fh (KLseek ino offset whence) = fuse_lseek e ino fh offset whence"
| "serve_handle e fh KFlush = fuse_flush"
| "serve_handle e fh (KRelease ino) = fuse_release e ino fh"
| "serve_handle e fh (KFsync datasync) = fuse_fsync e fh datasync"
| "serve_handle e fh (KReaddir fits ino offset) = fuse_readdir e fits ino fh offset"
| "serve_handle e fh (KReaddirplus fits ino offset) = fuse_readdirplus e fits ino fh offset"
| "serve_handle e fh (KFsyncdir datasync) = fuse_fsyncdir e fh datasync"
| "serve_handle e fh KReleasedir = fuse_releasedir e fh"
| "serve_handle e fh KIoctl = fuse_ioctl"

primrec fuse_serve :: "'s fuse_env \<Rightarrow> fuse_request \<Rightarrow> 's handler" where
  "fuse_serve e (KName parent n k) = serve_name e parent n k"
| "fuse_serve e (KNode ino k) = serve_node e ino k"
| "fuse_serve e (KHandle fh k) = serve_handle e fh k"

end
