(* ===== verification/FuseShared.thy ===== *)
theory FuseShared
  imports FuseOps
begin

text \<open>
  What every request of the kernel does to the state they share, taken apart into the changes it is made of.  The
  locale \<open>shared_contract\<close> is the contract of a predicate that those changes keep; within it, every
  request that takes no node up or gives one back keeps the predicate, and \<open>registering_contract\<close>
  extends that to all of them.  Other requests served meanwhile are behind the calls of the client, which are
  to keep the predicate as well.
\<close>

subsection \<open>The steps of a request\<close>

text \<open>What a request waits for keeps a predicate: the calls of the client, and the look for the process behind a thread.\<close>

definition calls_keep :: "('s fuse \<Rightarrow> bool) \<Rightarrow> 's fuse_env \<Rightarrow> bool" where
  "calls_keep P e \<longleftrightarrow>
     (\<forall>req s. P s \<longrightarrow> P (snd (fe_call e req s))) \<and> (\<forall>tid s. P s \<longrightarrow> P (snd (fe_opener e tid s)))"

text \<open>Changes of the node table that leave the kernel's references as they are, and changes of the table of handles.\<close>

inductive quiet_step :: "node_table \<Rightarrow> node_table \<Rightarrow> bool" where
  quiet_wrong: "quiet_step t (fst (alias_was_wrong i p t))"
| quiet_root: "quiet_step t (root_seen ident t)"
| quiet_unlink: "quiet_step t (unlink parent n t)"
| quiet_rename: "quiet_step t (rename parent n newparent newname t)"
| quiet_exchange: "quiet_step t (exchange parent n newparent newname t)"

inductive handle_step :: "handle_table \<Rightarrow> handle_table \<Rightarrow> bool" where
  handle_alloc: "handle_step t (fst (alloc t))"
| handle_insert: "handle_step t (insert_handle fh i k p flags kind opn t)"
| handle_owe: "owe_release req t = Some t' \<Longrightarrow> handle_step t t'"
| handle_release: "handle_step t (fst (release_begins fh t))"

lemma keeps_change [keeps_intros]: "(\<And>s. P s \<Longrightarrow> P (f s)) \<Longrightarrow> keeps P (change_io f)"
  by (auto simp: keeps_def change_io_def)

lemma keeps_unless_panic [keeps_intros]: "keeps P (unless_panic v)"
  by (auto simp: keeps_def unless_panic_def split: option.splits)

lemma keeps_path_of [keeps_intros]: "keeps P (fuse_path_of ino)"
  by (auto simp: keeps_def fuse_path_of_def)

lemma keeps_name_io [keeps_intros]: "keeps P (name_io os)"
  by (simp add: name_io_def keeps_lift_res)

lemma keeps_ask: "(\<And>s. P s \<Longrightarrow> P (snd (m s))) \<Longrightarrow> keeps P (ask m)"
  by (auto simp: keeps_def ask_def split_beta)

lemma keeps_opener [keeps_intros]: "calls_keep P e \<Longrightarrow> keeps P (opener_of e tid)"
  by (auto simp: keeps_def opener_of_def calls_keep_def split_beta)

lemma keeps_state: "(\<And>s. keeps P (f s)) \<Longrightarrow> (\<And>s. m s = f s s) \<Longrightarrow> keeps P m"
  unfolding keeps_def by simp

subsection \<open>What the calls keep\<close>

lemma call_keeps: "calls_keep P e \<Longrightarrow> P s \<Longrightarrow> P (snd (fe_call e req s))"
  by (simp add: calls_keep_def)

lemma fallocate_keeps:
  "calls_keep P e \<Longrightarrow> P s \<Longrightarrow> P (snd (fallocate_from (fe_call e) fh offset len mode fin s))"
proof (induction "fe_call e" fh offset len mode fin s rule: fallocate_from.induct)
  case (1 fh offset len mode fin s)
  let ?req = "Fallocate fh (offset + word_of_nat fin) (word_of_nat (min (len - fin) MAX_FALLOCATE)) mode"
  obtain r s1 where call: "call_ok (fe_call e) ?req s = (r, s1)" by (metis prod.exhaust)
  then have "P s1"
    using call_keeps [OF 1(2,3), of ?req] by (auto simp: call_ok_def map_prod_def split: prod.splits)
  then show ?case
    using 1(1) [OF refl call [symmetric] refl] 1(2) call
    by (subst fallocate_from.simps) (auto simp: Let_def split: sum.split)
qed

lemmas client_requests = client_lookup_def client_getattr_def client_setattr_def client_readlink_def client_mknod_def
  client_mkdir_def client_unlink_def client_rmdir_def client_symlink_def client_rename_def client_link_def
  client_read_def client_write_def client_copy_file_range_def client_lseek_def client_fsync_def client_readdir_def
  client_statfs_def client_setxattr_def client_getxattr_def client_listxattr_def client_removexattr_def
  client_access_def call_attr_def call_ok_def call_bytes_def

lemma keeps_requests [keeps_intros]:
  assumes "calls_keep P e"
  shows "keeps P (ask (client_lookup (fe_call e) p n))"
    "keeps P (ask (client_readlink (fe_call e) p))"
    "keeps P (ask (client_mknod (fe_call e) p n mode rdev))"
    "keeps P (ask (client_mkdir (fe_call e) p n mode))"
    "keeps P (ask (client_unlink (fe_call e) p n))"
    "keeps P (ask (client_rmdir (fe_call e) p n))"
    "keeps P (ask (client_symlink (fe_call e) p n target))"
    "keeps P (ask (client_rename (fe_call e) p n q n' flags))"
    "keeps P (ask (client_link (fe_call e) p q n))"
    "keeps P (ask (client_read (fe_call e) fh offset amount))"
    "keeps P (ask (client_write (fe_call e) fh offset data))"
    "keeps P (ask (client_copy_file_range (fe_call e) fh offset fh' offset' len))"
    "keeps P (ask (client_fallocate (fe_call e) fh offset len mode))"
    "keeps P (ask (client_lseek (fe_call e) fh offset whence))"
    "keeps P (ask (client_fsync (fe_call e) fh datasync))"
    "keeps P (ask (client_statfs (fe_call e) p))"
    "keeps P (ask (client_setxattr (fe_call e) p os val flags))"
    "keeps P (ask (client_getxattr (fe_call e) p os))"
    "keeps P (ask (client_listxattr (fe_call e) p))"
    "keeps P (ask (client_removexattr (fe_call e) p os))"
    "keeps P (ask (client_access (fe_call e) p flags))"
  by (rule keeps_ask; use assms in \<open>simp add: client_requests client_fallocate_def call_keeps fallocate_keeps\<close>)+

lemma reply_xattr_keeps [keeps_intros]: "keeps P (reply_xattr amount val)"
  unfolding reply_xattr_def by (intro keeps_intros)

subsection \<open>The loops\<close>

text \<open>A run of \<open>addressed\<close> from try to try: what holds as each starts, and what of each of its ends.\<close>

lemma addressed_rule [consumes 2, case_names no_address refused own other]:
  fixes e :: "'s fuse_env"
  assumes run: "addressed e req ino fh s = Some (r, s')" and "P s"
    and no: "\<And>s err. P s \<Longrightarrow> path_for_handle_op e ino fh s = Err err \<Longrightarrow> Q (Err (NoAddress err)) s"
    and refused: "\<And>s p via err s1. P s \<Longrightarrow> path_for_handle_op e ino fh s = Ok (p, via) \<Longrightarrow> req p via s = (Err err, s1) \<Longrightarrow>
      Q (Err (Refused (error_errno err))) s1"
    and own: "\<And>s p via a s1. P s \<Longrightarrow> path_for_handle_op e ino fh s = Ok (p, via) \<Longrightarrow> req p via s = (Ok a, s1) \<Longrightarrow>
      via \<noteq> None \<or> node_describes ino a s1 \<Longrightarrow> Q (Ok a) s1"
    and other: "\<And>s p a s1. P s \<Longrightarrow> path_for_handle_op e ino fh s = Ok (p, None) \<Longrightarrow> req p None s = (Ok a, s1) \<Longrightarrow>
      \<not> node_describes ino a s1 \<Longrightarrow> P (forget_alias ino (case p of Some q \<Rightarrow> q | None \<Rightarrow> path_root) s1)"
  shows "Q r s'"
proof -
  define now where "now e' req' ino' fh' s \<longleftrightarrow> e' = e \<and> req' = req \<and> ino' = ino \<and> fh' = fh \<and> P s" for e' req' ino' fh' s
  have "now e req ino fh s \<longrightarrow> Q (fst (r, s')) (snd (r, s'))"
  proof (rule addressed.raw_induct [where P = "\<lambda>(e :: 's fuse_env) req ino fh s y. now e req ino fh s \<longrightarrow> Q (fst y) (snd y)", OF _ run],
      goal_cases)
    case (1 f e' req' ino' fh' s y)
    show ?case
    proof
      assume "now e' req' ino' fh' s"
      then have eqs: "e' = e" "req' = req" "ino' = ino" "fh' = fh" and s: "P s" by (auto simp: now_def)
      show "Q (fst y) (snd y)"
      proof (cases "path_for_handle_op e ino fh s")
        case (Inl err)
        then show ?thesis using 1(2) no [OF s] eqs by auto
      next
        case (Inr z)
        obtain p via where z: "z = (p, via)" by (cases z)
        obtain a s1 where a: "req p via s = (a, s1)" by (metis prod.exhaust)
        show ?thesis
          using 1(2) 1(1) [of e req ino fh] Inr z a refused [OF s, of p via _ s1] own [OF s, of p via _ s1] other [OF s, of p _ s1] eqs
          by (auto simp: now_def split: sum.splits if_splits)
      qed
    qed
  qed
  with \<open>P s\<close> show ?thesis by (simp add: now_def)
qed

lemma addressed_keeps:
  assumes req: "\<And>p via s. P s \<Longrightarrow> P (snd (req p via s))" and lost: "\<And>p s. P s \<Longrightarrow> P (forget_alias ino p s)"
  shows "keeps P (addressed e req ino fh)"
  unfolding keeps_def
proof (intro allI impI)
  fix s r s'
  assume "P s" and "addressed e req ino fh s = Some (r, s')"
  from this(2,1) show "P s'"
    by (rule addressed_rule) (metis req lost snd_conv)+
qed

text \<open>A run of \<open>open_by_name\<close> from try to try.\<close>

lemma open_by_name_rule [consumes 2, case_names stale step]:
  fixes e :: "'s fuse_env"
  assumes run: "open_by_name e flags kind opn build ino s = Some (r, s')" and "P s"
    and stale: "\<And>s. P s \<Longrightarrow> path_of (fs_nodes s) ino = None \<Longrightarrow> Q (Err ESTALE) s"
    and step: "\<And>s p r w s1. P s \<Longrightarrow> path_of (fs_nodes s) ino = Some p \<Longrightarrow>
      fuse_open_handle e p flags kind opn (build p) (\<lambda>a s. Some (same_file ino p a s)) s = Some (r, w, s1) \<Longrightarrow>
      if w = Some True then P s1 else Q (map_err error_errno r) s1"
  shows "Q r s'"
proof -
  define now where "now e' flags' kind' opn' build' ino' s \<longleftrightarrow>
      e' = e \<and> flags' = flags \<and> kind' = kind \<and> opn' = opn \<and> build' = build \<and> ino' = ino \<and> P s"
    for e' flags' kind' opn' build' ino' s
  have "now e flags kind opn build ino s \<longrightarrow> Q (fst (r, s')) (snd (r, s'))"
  proof (rule open_by_name.raw_induct [where P = "\<lambda>(e :: 's fuse_env) flags kind opn build ino s y.
      now e flags kind opn build ino s \<longrightarrow> Q (fst y) (snd y)", OF _ run], goal_cases)
    case (1 f e' flags' kind' opn' build' ino' s y)
    show ?case
    proof
      assume "now e' flags' kind' opn' build' ino' s"
      then have eqs: "e' = e" "flags' = flags" "kind' = kind" "opn' = opn" "build' = build" "ino' = ino" and s: "P s"
        by (auto simp: now_def)
      show "Q (fst y) (snd y)"
        using 1(2) 1(1) [of e flags kind opn build ino] stale [OF s] step [OF s]
        by (auto simp: now_def eqs split: option.splits if_splits)
    qed
  qed
  with \<open>P s\<close> show ?thesis by (simp add: now_def)
qed

text \<open>Pages of a directory, where the state of the directories being listed is of no account.\<close>

lemma dirs_blind:
  assumes "\<And>s ds. P s \<Longrightarrow> P (s\<lparr>fs_dirs := ds\<rparr>)" "P s"
  shows "P (stash fh rest s)" "P (upd_dir fh f s)" "P (note_end fh final eof s)"
  using assms by (simp_all add: stash_def upd_dir_def note_end_def split: option.split)

lemma dir_page_blind:
  assumes e: "calls_keep P e" and dirs: "\<And>s ds. P s \<Longrightarrow> P (s\<lparr>fs_dirs := ds\<rparr>)"
  shows "keeps P (dir_page e fh offset with_attrs)"
  unfolding keeps_def
proof (intro allI impI)
  fix s r s'
  assume s: "P s" and run: "dir_page e fh offset with_attrs s = Some (r, s')"
  let ?amount = "if offset = 0 then READDIR_FETCH_FIRST else READDIR_FETCH"
  obtain r2 s2 where got: "client_readdir (fe_call e) fh offset ?amount (stash fh [] s) = (r2, s2)" by (metis prod.exhaust)
  have "P s2"
    using call_keeps [OF e dirs_blind(1) [of P, OF dirs s], of "Readdir fh offset ?amount"] got
    by (auto simp: client_readdir_def map_prod_def split_beta)
  with run s got show "P s'"
    by (auto simp: dir_page_def Let_def bind_io_def ask_def map_err_def intro!: dirs_blind [of P, OF dirs]
        split: option.splits if_splits sum.splits prod.splits)
qed

lemma readdir_blind:
  assumes "calls_keep P e" and dirs: "\<And>s ds. P s \<Longrightarrow> P (s\<lparr>fs_dirs := ds\<rparr>)"
  shows "keeps P (fuse_readdir e fits ino fh offset)"
  unfolding fuse_readdir_def
  by (rule keeps_bind [OF dir_page_blind [OF assms]])
    (auto simp: keeps_def intro!: dirs_blind [of P, OF dirs] split: option.splits)

subsection \<open>Requests that leave the kernel's references alone\<close>

locale shared_contract =
  fixes P :: "'s fuse \<Rightarrow> bool"
  assumes noted: "P s \<Longrightarrow> P (s\<lparr>fs_xattrs := x\<rparr>)" "P s \<Longrightarrow> P (s\<lparr>fs_reported := rp\<rparr>)"
    and queued: "P s \<Longrightarrow> P (snd (send_work wk s))"
    and tables: "P s \<Longrightarrow> quiet_step (fs_nodes s) t \<Longrightarrow> P (s\<lparr>fs_nodes := t\<rparr>)"
    and handled: "P s \<Longrightarrow> handle_step (fs_handles s) ht \<Longrightarrow> P (s\<lparr>fs_handles := ht\<rparr>)"
    and grown: "P s \<Longrightarrow> P (dir_grew i s)"
    and closed: "P s \<Longrightarrow> P (s\<lparr>fs_dirs := (fs_dirs s)(fh := None)\<rparr>)"
    and opened: "P s \<Longrightarrow> ds_buffer d = [] \<Longrightarrow> P (s\<lparr>fs_dirs := (fs_dirs s)(fh \<mapsto> d)\<rparr>)"
    and listed: "calls_keep P e \<Longrightarrow> keeps P (fuse_readdir e fits ino fh offset)"
begin

lemma send_all_keeps: "P s \<Longrightarrow> P (snd (send_all wks s))"
proof (induction wks s rule: send_all.induct)
  case (2 wk wks s)
  then show ?case using queued [of s wk] by (auto simp: Let_def split: prod.splits)
qed simp

lemma drop_by_name_keeps: "P s \<Longrightarrow> P (snd (drop_by_name ino s))"
  by (simp add: drop_by_name_def send_all_keeps)

lemma notes_keep:
  "P s \<Longrightarrow> P (xattr_remember e i a s)" "P s \<Longrightarrow> P (xattr_forget i s)" "P s \<Longrightarrow> P (reported_forget i s)"
  by (simp_all add: xattr_remember_def xattr_forget_def reported_forget_def noted)

lemma attr_reported_keeps: "P s \<Longrightarrow> P (attr_reported e i a s)"
  using drop_by_name_keeps [of s i] by (auto simp: attr_reported_def Let_def noted split: option.split prod.splits)

lemma forget_alias_keeps: "P s \<Longrightarrow> P (forget_alias i p s)"
  using tables [OF _ quiet_wrong [of "fs_nodes s" i p]]
  by (auto simp: forget_alias_def Let_def queued split: prod.splits option.split)

lemma last_writer_gone_keeps: "P s \<Longrightarrow> P (last_writer_gone e ino writer s)"
  by (simp add: last_writer_gone_def drop_by_name_keeps notes_keep)

lemmas change_keeps = noted notes_keep attr_reported_keeps forget_alias_keeps last_writer_gone_keeps grown closed

lemma open_handle_ends_keeps:
  assumes "P s" and "open_handle_ends fh p flags kind opn node out (fs_handles s) = Some (r, t)"
  shows "P (s\<lparr>fs_handles := t\<rparr>)"
proof -
  have "handle_step (fs_handles s) t \<or> t = fs_handles s"
    using assms(2)
    by (auto simp: open_handle_ends_def Let_def intro: handle_insert handle_owe [OF owe_release_owes]
        split: settle_open.splits sum.splits response.splits)
  then show ?thesis using handled [OF assms(1)] assms(1) by auto
qed

lemma fuse_open_handle_keeps:
  assumes e: "calls_keep P e" and s: "P s"
    and node: "\<And>a s r x s'. P s \<Longrightarrow> node a s = Some (r, x, s') \<Longrightarrow> P s'"
    and run: "fuse_open_handle e p flags kind opn build node s = Some (r, x, s')"
  shows "P s'"
proof -
  obtain t1 fh where al: "alloc (fs_handles s) = (t1, fh)" by (metis prod.exhaust)
  obtain out s1 where call: "fe_call e (build fh) (s\<lparr>fs_handles := t1\<rparr>) = (out, s1)" by (metis prod.exhaust)
  have "P (s\<lparr>fs_handles := t1\<rparr>)" using handled [OF s handle_alloc] al by simp
  then have s1: "P s1" using call_keeps [OF e, of _ "build fh"] call by (metis snd_conv)
  from run al call obtain s2 r2 t2 where "P s2" "s' = s2\<lparr>fs_handles := t2\<rparr>"
    "open_handle_ends fh p flags kind opn (\<lambda>_. r2) out (fs_handles s2) = Some (r, t2)"
    by (auto simp: fuse_open_handle_def Let_def intro: s1 node [OF s1]
        split: sum.splits response.splits option.splits prod.splits)
  then show ?thesis using open_handle_ends_keeps by blast
qed

lemma open_same_file_keeps:
  assumes "calls_keep P e" and "P s"
    and "fuse_open_handle e p flags kind opn build (\<lambda>a s. Some (same_file ino p a s)) s = Some (r, w, s1)"
  shows "P s1"
  by (rule fuse_open_handle_keeps [OF assms(1,2) _ assms(3)]) (auto simp: same_file_def forget_alias_keeps split: if_splits)

lemma open_by_name_keeps:
  assumes e: "calls_keep P e"
  shows "keeps P (open_by_name e flags kind opn build ino)"
  unfolding keeps_def
proof (intro allI impI)
  fix s r s'
  assume "P s" and "open_by_name e flags kind opn build ino s = Some (r, s')"
  from this(2,1) show "P s'"
    by (rule open_by_name_rule) (auto intro: open_same_file_keeps [OF e])
qed

lemma fuse_release_handle_keeps:
  assumes e: "calls_keep P e"
  shows "keeps P (fuse_release_handle e req fh)"
  unfolding keeps_def
proof (intro allI impI)
  fix s r s'
  assume s: "P s" and run: "fuse_release_handle e req fh s = Some (r, s')"
  obtain t tell where t: "release_begins fh (fs_handles s) = (t, tell)" by (metis prod.exhaust)
  obtain released s2 where c: "fe_call e req (s\<lparr>fs_handles := t\<rparr>) = (released, s2)" by (metis prod.exhaust)
  have s1: "P (s\<lparr>fs_handles := t\<rparr>)" using handled [OF s handle_release, of fh] t by simp
  then have s2: "P s2" using call_keeps [OF e, of _ req] c by (metis snd_conv)
  have "P (s2\<lparr>fs_handles := t2\<rparr>)" if "release_ends req released (fs_handles s2) = Some (a, t2)" for a t2
    using that handled [OF s2 handle_owe] s2 by (auto simp: release_ends_def split: if_splits)
  then show "P s'"
    using run t c s1 by (auto simp: fuse_release_handle_def Let_def split: if_splits)
qed

lemma fuse_getattr_keeps:
  assumes "calls_keep P e"
  shows "keeps P (fuse_getattr e ino fh)"
  unfolding fuse_getattr_def
  by (intro keeps_intros addressed_keeps)
    (auto simp: client_requests call_keeps assms change_keeps intro: tables quiet_root)

lemma fuse_setattr_keeps:
  assumes "calls_keep P e"
  shows "keeps P (fuse_setattr e ino k fh)"
proof -
  have loop: "keeps P (addressed e (\<lambda>p via. client_setattr (fe_call e) p via change) ino fh)" for change
    by (rule addressed_keeps) (simp_all add: client_requests call_keeps assms change_keeps)
  have answer: "keeps P (\<lambda>s. case r of
        Inl (NoAddress err) \<Rightarrow> if b s then ret v s else fail err s
      | Inl (Refused err) \<Rightarrow> fail err s
      | Inr a \<Rightarrow> g a s)" if "\<And>a. keeps P (g a)" for b and v :: fuse_reply and g and r :: "unaddressed + attr"
    using that by (auto simp: keeps_def ret_def fail_def split: sum.splits unaddressed.splits if_splits)
  show ?thesis
    unfolding fuse_setattr_def Let_def
    by (intro keeps_bind [OF keeps_outcome [OF loop]], rule answer) (auto intro!: keeps_intros change_keeps)
qed

text \<open>The requests by name, node and handle.\<close>

lemma quiet_name_keeps:
  assumes "calls_keep P e" and "k = KUnlink \<or> k = KRmdir \<or> (\<exists>newparent newname flags. k = KRename newparent newname flags)"
  shows "keeps P (serve_name e parent n k)"
  using assms
  by (auto simp: fuse_unlink_def fuse_rmdir_def fuse_rename_def
      intro!: keeps_intros change_keeps tables quiet_unlink quiet_rename quiet_exchange)

lemma quiet_node_keeps:
  assumes "calls_keep P e" and "\<And>nlookup. k \<noteq> KForget nlookup" and "\<And>newparent n. k \<noteq> KLink newparent n"
  shows "keeps P (serve_node e ino k)"
proof (cases k)
  case (KOpen tid flags)
  show ?thesis
    using assms(1) by (auto simp: KOpen fuse_open_def Let_def intro!: keeps_intros change_keeps open_by_name_keeps)
next
  case (KOpendir tid)
  show ?thesis
    using assms(1) by (auto simp: KOpendir fuse_opendir_def intro!: keeps_intros opened open_by_name_keeps)
next
  case KStatfs
  show ?thesis
    unfolding KStatfs serve_node.simps
    by (rule keeps_state [OF _ fuse_statfs_def]) (use assms(1) in \<open>intro keeps_intros\<close>)
next
  case (KGetxattr n amount)
  have "keeps P (bind_io (fuse_path_of ino) (\<lambda>p. bind_io (ask (client_getxattr (fe_call e) p n)) (\<lambda>val. reply_xattr amount val)))"
    using assms(1) by (intro keeps_intros)
  then show ?thesis
    unfolding KGetxattr by (auto simp: fuse_getxattr_def keeps_def fail_def split: if_splits)
next
  case (KListxattr amount)
  let ?f = "bind_io (fuse_path_of ino) (\<lambda>p. bind_io (ask (client_listxattr (fe_call e) p)) (\<lambda>val. reply_xattr amount val))"
  have asked: "keeps P ?f" using assms(1) by (intro keeps_intros)
  have "keeps P (fuse_listxattr e ino amount)"
    by (rule keeps_state [where f = "\<lambda>s. case xattr_known_list e ino s of Some known \<Rightarrow> reply_xattr amount known | None \<Rightarrow> ?f"])
      (auto simp: fuse_listxattr_def asked reply_xattr_keeps split: option.split)
  then show ?thesis by (simp add: KListxattr)
qed (use assms in \<open>auto simp: fuse_getattr_keeps fuse_setattr_keeps fuse_readlink_def fuse_setxattr_def
      fuse_removexattr_def fuse_access_def intro!: keeps_intros change_keeps\<close>)

lemma quiet_handle_keeps:
  assumes "calls_keep P e" and "\<And>fits ino offset. k \<noteq> KReaddirplus fits ino offset"
  shows "keeps P (serve_handle e fh k)"
proof (cases k)
  case (KLseek ino offset whence)
  have "keeps P (bind_io (ask (client_lseek (fe_call e) fh offset w)) (\<lambda>found.
            if uint found < 2 ^ 63 then ret (FOffset (uint found)) else fail EIO))" for w
    using assms(1) by (intro keeps_intros)
  then show ?thesis
    by (auto simp: KLseek fuse_lseek_def keeps_def fail_def split: option.splits if_splits)
next
  case (KRelease ino)
  have "keeps P (bind_io (fuse_release_handle e (Release fh False) fh) (\<lambda>_.
         bind_io (change_io (last_writer_gone e ino writer)) (\<lambda>_. ret FOk)))" for writer
    using assms(1) by (intro keeps_intros fuse_release_handle_keeps change_keeps)
  then show ?thesis
    by (auto simp: KRelease fuse_release_def keeps_def Let_def)
next
  case KReleasedir
  show ?thesis
    using assms(1) by (auto simp: KReleasedir fuse_releasedir_def intro!: keeps_intros fuse_release_handle_keeps closed)
qed (use assms in \<open>auto simp: fuse_read_def fuse_write_def fuse_copy_file_range_def fuse_fallocate_def fuse_flush_def
      fuse_fsync_def fuse_fsyncdir_def fuse_ioctl_def listed intro!: keeps_intros\<close>)

end

subsection \<open>Requests that take nodes up or give them back\<close>

locale registering_contract = shared_contract +
  assumes looked_up: "P s \<Longrightarrow> insert_lookup (fs_nodes s) parent n seen = Some (t, r) \<Longrightarrow> P (s\<lparr>fs_nodes := t\<rparr>)"
    and forgotten: "P s \<Longrightarrow> P (s\<lparr>fs_nodes := fst (forget i count (fs_nodes s))\<rparr>)"
    and listed_plus: "calls_keep P e \<Longrightarrow> keeps P (fuse_readdirplus e plus_fits ino fh offset)"
begin

lemma register_keeps: "keeps P (register e parent n a)"
proof -
  have "P (attr_reported e i a (xattr_remember e i a (s\<lparr>fs_nodes := t\<rparr>)))"
    if "P s" "insert_lookup (fs_nodes s) parent n (seen_of a) = Some (t, r)" for s t r i
    using looked_up [OF that] by (simp add: change_keeps)
  then show ?thesis
    by (auto simp: keeps_def register_def intro: looked_up split: option.splits)
qed

lemma reply_entry_keeps: "keeps P (reply_entry e parent n a)"
  unfolding reply_entry_def by (intro keeps_intros register_keeps)

lemma reply_created_keeps: "keeps P (reply_created e parent n a)"
  unfolding reply_created_def by (intro keeps_intros reply_entry_keeps grown)

lemma create_node_keeps: "P s \<Longrightarrow> create_node e parent n a s = Some (r, x, s') \<Longrightarrow> P s'"
  using keepsD [OF register_keeps grown] by (auto simp: create_node_def)

lemma serve_name_keeps:
  assumes "calls_keep P e"
  shows "keeps P (serve_name e parent n k)"
proof (cases k)
  case (KCreate tid mode flags)
  have "keeps P (\<lambda>s. case fuse_open_handle e q fl KFile opn b (create_node e parent m) s of
               None \<Rightarrow> None
             | Some (Inl err, _, s1) \<Rightarrow> fail (error_errno err) s1
             | Some (Inr (fh, a), Some (Some i), s1) \<Rightarrow> bind_io (unless_panic (file_attr i a)) (\<lambda>fa. ret (g fh fa)) s1
             | Some (Inr _, _, s1) \<Rightarrow> fail EIO s1)" for q fl opn b m and g :: "u64 \<Rightarrow> fuse_attr \<Rightarrow> fuse_reply"
    unfolding keeps_def
    by (auto simp: fail_def ret_def bind_io_def unless_panic_def intro: fuse_open_handle_keeps [OF assms _ create_node_keeps]
        split: option.splits sum.splits prod.splits)
  then show ?thesis
    using assms by (auto simp: KCreate fuse_create_def Let_def intro!: keeps_intros split: sum.split)
qed (use assms quiet_name_keeps [OF assms, of k parent n] in \<open>auto simp: fuse_lookup_def fuse_mknod_def fuse_mkdir_def fuse_symlink_def
      intro!: keeps_intros reply_entry_keeps reply_created_keeps\<close>)

lemma serve_node_keeps:
  assumes "calls_keep P e"
  shows "keeps P (serve_node e ino k)"
proof (cases "(\<exists>nlookup. k = KForget nlookup) \<or> (\<exists>newparent n. k = KLink newparent n)")
  case True
  have "keeps P (fuse_forget ino nlookup)" for nlookup
    by (auto simp: keeps_def fuse_forget_def split_beta Let_def intro!: notes_keep forgotten)
  moreover have "keeps P (fuse_link e ino newparent n)" for newparent n
    using assms by (auto simp: fuse_link_def intro!: keeps_intros change_keeps reply_created_keeps)
  ultimately show ?thesis using True by auto
next
  case False
  then show ?thesis using quiet_node_keeps [OF assms] by blast
qed

lemma serve_handle_keeps: "calls_keep P e \<Longrightarrow> keeps P (serve_handle e fh k)"
  by (cases "\<exists>fits ino offset. k = KReaddirplus fits ino offset") (auto simp: listed_plus intro: quiet_handle_keeps)

lemma serve_keeps: "calls_keep P e \<Longrightarrow> keeps P (fuse_serve e k)"
  by (cases k) (simp_all add: serve_name_keeps serve_node_keeps serve_handle_keeps)

end

end
