(* ===== verification/FuseInv.thy ===== *)
theory FuseInv
  imports FuseShared
begin

text \<open>
  The invariant of what the client's requests share, and that every request keeps it, whatever the other
  requests do meanwhile as long as they keep it too.
\<close>

subsection \<open>The invariant\<close>

text \<open>A buffer holds consecutive entries: each is tagged with the cookie the one before it leads to.\<close>

fun chained :: "dir_buffer \<Rightarrow> bool" where
  "chained ((c, en) # (c', en') # rest) \<longleftrightarrow> c' = next_offset en \<and> chained ((c', en') # rest)"
| "chained [x] \<longleftrightarrow> True"
| "chained [] \<longleftrightarrow> True"

definition dirs_ok :: "(u64 \<rightharpoonup> dir_state) \<Rightarrow> bool" where
  "dirs_ok ds \<longleftrightarrow> (\<forall>fh d. ds fh = Some d \<longrightarrow> chained (ds_buffer d))"

definition queue_ok :: "work list option \<Rightarrow> bool" where
  "queue_ok q \<longleftrightarrow> (\<forall>wks. q = Some wks \<longrightarrow> length wks \<le> QUEUE)"

definition fuse_ok :: "'s fuse \<Rightarrow> bool" where
  "fuse_ok s \<longleftrightarrow> table_ok (fs_nodes s) \<and> table_ok_counts (fs_handles s) \<and> dirs_ok (fs_dirs s) \<and> queue_ok (fs_queue s)"

lemma fuse_ok_fields [simp]:
  "fuse_ok (s\<lparr>fs_xattrs := x\<rparr>) = fuse_ok s"
  "fuse_ok (s\<lparr>fs_reported := r\<rparr>) = fuse_ok s"
  by (simp_all add: fuse_ok_def)

lemma fuse_ok_nodes: "fuse_ok s \<Longrightarrow> table_ok t \<Longrightarrow> fuse_ok (s\<lparr>fs_nodes := t\<rparr>)"
  by (simp add: fuse_ok_def)

lemma fuse_ok_upd_nodes: "fuse_ok s \<Longrightarrow> (\<And>t. table_ok t \<Longrightarrow> table_ok (f t)) \<Longrightarrow> fuse_ok (s\<lparr>fs_nodes := f (fs_nodes s)\<rparr>)"
  by (simp add: fuse_ok_def)

lemma fuse_ok_handles: "fuse_ok s \<Longrightarrow> table_ok_counts t \<Longrightarrow> fuse_ok (s\<lparr>fs_handles := t\<rparr>)"
  by (simp add: fuse_ok_def)

lemma fuse_ok_dirs: "fuse_ok s \<Longrightarrow> dirs_ok ds \<Longrightarrow> fuse_ok (s\<lparr>fs_dirs := ds\<rparr>)"
  by (simp add: fuse_ok_def)

lemma fuse_okD:
  "fuse_ok s \<Longrightarrow> table_ok (fs_nodes s)" "fuse_ok s \<Longrightarrow> table_ok_counts (fs_handles s)" "fuse_ok s \<Longrightarrow> dirs_ok (fs_dirs s)"
  by (simp_all add: fuse_ok_def)

subsection \<open>The changes keep it\<close>

lemma send_work_ok: "fuse_ok s \<Longrightarrow> fuse_ok (snd (send_work wk s))"
  by (auto simp: send_work_def fuse_ok_def queue_ok_def split: option.split)

lemma upd_dir_ok:
  assumes "fuse_ok s" and "\<And>d. chained (ds_buffer d) \<Longrightarrow> chained (ds_buffer (f d))"
  shows "fuse_ok (upd_dir fh f s)"
  unfolding upd_dir_def using assms fuse_okD(3) [OF assms(1)] by (intro fuse_ok_dirs) (auto simp: dirs_ok_def)

lemma stash_ok: "fuse_ok s \<Longrightarrow> chained rest \<Longrightarrow> fuse_ok (stash fh rest s)"
  unfolding stash_def by (rule upd_dir_ok) simp_all

lemma note_end_ok: "fuse_ok s \<Longrightarrow> fuse_ok (note_end fh final eof s)"
  by (simp add: note_end_def upd_dir_ok split: option.split)

lemma handle_step_ok:
  assumes "table_ok_counts t" and "handle_step t t'"
  shows "table_ok_counts t'"
  using assms(2,1)
proof (induction rule: handle_step.induct)
  case (handle_alloc t)
  then show ?case by (simp add: alloc_def table_ok_counts_def heap_ok_def rec_at_def [abs_def])
next
  case (handle_insert t fh i k p flags kind opn)
  then show ?case
    using client_table.put_over_counted [of t] by (simp add: insert_handle_def table_ok_counts_def insert_rec_ok)
next
  case (handle_owe req t t')
  then show ?case
    by (auto simp: owe_release_def table_ok_counts_def heap_ok_def rec_at_def [abs_def] split: request.splits if_splits)
next
  case (handle_release t fh)
  then show ?case
    using client_table.del_counted [of t fh]
    by (simp add: release_begins_def split_beta drop_rec_def [symmetric] table_ok_counts_def drop_rec_ok)
qed

lemma quiet_step_ok: "table_ok t \<Longrightarrow> quiet_step t t' \<Longrightarrow> table_ok t'"
  by (auto elim!: quiet_step.cases intro: alias_was_wrong_ok root_seen_ok unlink_ok rename_ok exchange_ok)

subsection \<open>Pages\<close>

lemma chained_Cons: "chained ((c, en) # rest) \<longleftrightarrow> (rest \<noteq> [] \<longrightarrow> fst (hd rest) = next_offset en) \<and> chained rest"
  by (cases rest) auto

lemma chained_tag: "chained (tag_with_cookies es first)"
proof (induction es arbitrary: first)
  case (Cons e es)
  then show ?case by (cases es) auto
qed simp

lemma dir_page_ok:
  assumes e: "calls_keep fuse_ok e" and s: "fuse_ok s" and run: "dir_page e fh offset with_attrs s = Some (r, s')"
  shows "fuse_ok s'" and "r = Ok page \<Longrightarrow> chained page"
proof -
  let ?amount = "if offset = 0 then READDIR_FETCH_FIRST else READDIR_FETCH"
  have stashed: "fuse_ok (stash fh [] s)" using s by (simp add: stash_ok)
  obtain r2 s2 where c: "client_readdir (fe_call e) fh offset ?amount (stash fh [] s) = (r2, s2)" by (metis prod.exhaust)
  have s2: "fuse_ok s2"
    using call_keeps [OF e stashed, of "Readdir fh offset ?amount"] c by (auto simp: client_readdir_def map_prod_def split_beta)
  show "fuse_ok s'"
    using run s stashed c s2
    by (auto simp: dir_page_def Let_def bind_io_def ask_def map_err_def note_end_ok upd_dir_ok
        split: option.splits if_splits sum.splits prod.splits)
  show "chained page" if "r = Ok page"
    using run that fuse_okD(3) [OF s] c
    by (auto simp: dir_page_def Let_def bind_io_def ask_def map_err_def dirs_ok_def chained_tag
        split: option.splits if_splits sum.splits prod.splits)
qed

lemma add_plain_rest:
  "add_plain fits t dir parent page added = Some (added', rest) \<Longrightarrow> chained page \<Longrightarrow> chained rest"
proof (induction fits t dir parent page added rule: add_plain.induct)
  case (2 fits t dir parent cookie entry rest' added)
  then show ?case by (auto simp: Let_def chained_Cons split: option.splits if_splits)
qed simp

lemma fuse_readdir_keeps:
  assumes e: "calls_keep fuse_ok e"
  shows "keeps fuse_ok (fuse_readdir e fits ino fh offset)"
  unfolding keeps_def
proof (intro allI impI)
  fix s r s'
  assume "fuse_ok s" and "fuse_readdir e fits ino fh offset s = Some (r, s')"
  then show "fuse_ok s'"
    using dir_page_ok [OF e \<open>fuse_ok s\<close>, of fh offset False]
    by (auto simp: fuse_readdir_def bind_io_Some intro!: stash_ok dest: add_plain_rest split: option.splits)
qed

text \<open>What is noted of a file on a page with attributes.\<close>

lemma reported_ok: "fuse_ok s \<Longrightarrow> fuse_ok (attr_reported e i a (xattr_remember e i a s))"
proof -
  have "fuse_ok s \<Longrightarrow> fuse_ok (snd (send_all wks s))" for wks and s :: "'a fuse"
  proof (induction wks s rule: send_all.induct)
    case (2 wk wks s)
    then show ?case using send_work_ok [of s wk] by (auto simp: Let_def split: prod.splits)
  qed simp
  then have "fuse_ok s \<Longrightarrow> fuse_ok (snd (drop_by_name i s))" for s :: "'a fuse" by (simp add: drop_by_name_def)
  then have "fuse_ok s \<Longrightarrow> fuse_ok (attr_reported e i a s)" for s :: "'a fuse"
    by (fastforce simp: attr_reported_def Let_def split: option.split prod.splits)
  then show "fuse_ok s \<Longrightarrow> ?thesis" by (simp add: xattr_remember_def)
qed

lemma add_plus_ok:
  assumes s: "fuse_ok s" and run: "add_plus e fits ino entry added s = Some (r, s')"
  shows "fuse_ok s'"
proof -
  have "fuse_ok (attr_reported e i a (xattr_remember e i a (s\<lparr>fs_nodes := t\<rparr>)))"
    if "insert_lookup (fs_nodes s) ino n (seen_of a) = Some (t, j)" for i a t n j
    using insert_lookup_ok [OF fuse_okD(1) [OF s] that] s by (simp add: reported_ok fuse_ok_nodes)
  with s run show ?thesis
    by (auto simp: add_plus_def Let_def split: if_splits option.splits sum.splits prod.splits)
qed

lemma add_plus_all_ok:
  assumes "fuse_ok s" and "chained page" and "add_plus_all e fits ino fh page added s = Some (added', s')"
  shows "fuse_ok s'"
  using assms
proof (induction e fits ino fh page added s rule: add_plus_all.induct)
  case (2 e fits ino fh cookie entry rest added s)
  from 2(5) obtain r s1 where one: "add_plus e fits ino entry added s = Some (r, s1)"
    by (auto split: option.splits)
  have s1: "fuse_ok s1" using add_plus_ok [OF 2(3) one] .
  have rest: "chained rest" using 2(4) by (simp add: chained_Cons)
  show ?case
    using 2(1,2) [OF one] 2(4,5) one s1 rest by (auto intro: stash_ok split: option.splits bool.splits prod.splits)
qed simp

lemma fuse_readdirplus_keeps:
  assumes e: "calls_keep fuse_ok e"
  shows "keeps fuse_ok (fuse_readdirplus e fits ino fh offset)"
  unfolding keeps_def
proof (intro allI impI)
  fix s r s'
  assume s: "fuse_ok s" and "fuse_readdirplus e fits ino fh offset s = Some (r, s')"
  then show "fuse_ok s'"
    using dir_page_ok [OF e s, of fh offset True]
    by (auto simp: fuse_readdirplus_def bind_io_Some intro: add_plus_all_ok)
qed

interpretation typed: registering_contract fuse_ok
proof
  fix s :: "'s fuse" and t :: node_table and r parent n seen i count
  show "fuse_ok s \<Longrightarrow> quiet_step (fs_nodes s) t \<Longrightarrow> fuse_ok (s\<lparr>fs_nodes := t\<rparr>)"
    using quiet_step_ok fuse_okD(1) fuse_ok_nodes by metis
  show "fuse_ok s \<Longrightarrow> insert_lookup (fs_nodes s) parent n seen = Some (t, r) \<Longrightarrow> fuse_ok (s\<lparr>fs_nodes := t\<rparr>)"
    using insert_lookup_ok fuse_okD(1) fuse_ok_nodes by metis
  show "fuse_ok s \<Longrightarrow> fuse_ok (s\<lparr>fs_nodes := fst (forget i count (fs_nodes s))\<rparr>)"
    using forget_ok fuse_okD(1) fuse_ok_nodes by metis
next
  fix s :: "'s fuse" and ht
  show "fuse_ok s \<Longrightarrow> handle_step (fs_handles s) ht \<Longrightarrow> fuse_ok (s\<lparr>fs_handles := ht\<rparr>)"
    using handle_step_ok fuse_okD(2) fuse_ok_handles by metis
next
  fix s :: "'s fuse" and i fh d
  show "fuse_ok s \<Longrightarrow> fuse_ok (dir_grew i s)"
    unfolding dir_grew_def by (rule fuse_ok_dirs) (auto simp: dirs_ok_def dest: fuse_okD(3))
  show "fuse_ok s \<Longrightarrow> fuse_ok (s\<lparr>fs_dirs := (fs_dirs s)(fh := None)\<rparr>)"
    by (auto simp: fuse_ok_def dirs_ok_def)
  show "fuse_ok s \<Longrightarrow> ds_buffer d = [] \<Longrightarrow> fuse_ok (s\<lparr>fs_dirs := (fs_dirs s)(fh \<mapsto> d)\<rparr>)"
    by (auto simp: fuse_ok_def dirs_ok_def)
qed (auto intro: send_work_ok fuse_readdir_keeps fuse_readdirplus_keeps)

subsection \<open>Property\<close>

text \<open>A sequence of requests; None when one of them does not return.\<close>

fun serve_all :: "'s fuse_env \<Rightarrow> fuse_request list \<Rightarrow> 's fuse \<Rightarrow> 's fuse option" where
  "serve_all e [] s = Some s"
| "serve_all e (k # ks) s = (case fuse_serve e k s of None \<Rightarrow> None | Some (r, s1) \<Rightarrow> serve_all e ks s1)"

lemma serve_all_ok: "calls_keep fuse_ok e \<Longrightarrow> fuse_ok s \<Longrightarrow> serve_all e ks s = Some s' \<Longrightarrow> fuse_ok s'"
  by (induction ks arbitrary: s) (auto split: option.splits dest: keepsD [OF typed.serve_keeps])

lemma fuse_new_ok: "fuse_ok (fuse_new table_default w)"
  by (simp add: fuse_ok_def fuse_new_def new_table_ok dirs_ok_def queue_ok_def table_default_def table_ok_counts_def heap_ok_def
      rec_at_def [abs_def] counted_def)

text \<open>
  C18. What the requests of the kernel share keeps its type: from a new backend on, whatever requests come and
  whatever they return, errors included, the node table is well-formed, the table of handles has a record
  for each and counts them right, what is buffered of a directory is a run of consecutive entries, each
  tagged with the cookie the one before it leads to, and the queue of invalidations is within its bound.
  Calls to the server may leave any state that is so, as other requests served meanwhile do.
\<close>

theorem fuse_state_typed:
  assumes "calls_keep fuse_ok e" and "serve_all e ks (fuse_new table_default w) = Some s"
  shows "table_ok (fs_nodes s) \<and> table_ok_counts (fs_handles s) \<and>
    (\<forall>fh d. fs_dirs s fh = Some d \<longrightarrow> chained (ds_buffer d)) \<and>
    (\<forall>q. fs_queue s = Some q \<longrightarrow> length q \<le> QUEUE)"
  using serve_all_ok [OF assms(1) fuse_new_ok assms(2)] by (simp add: fuse_ok_def dirs_ok_def queue_ok_def)

definition gone_env :: "unit fuse_env" where
  "gone_env = \<lparr>fe_call = (\<lambda>req s. (Err Disconnected, s)), fe_opener = (\<lambda>tid s. (None, s)), fe_now = (\<lambda>w. 0),
     fe_order = (\<lambda>t. []), fe_entry_ttl = 1, fe_attr_ttl = 1\<rparr>"

theorem fuse_state_typed_witness:
  "serve_all gone_env [KHandle 3 (KFsync True), KNode 7 (KForget 1)] (fuse_new table_default ()) = Some (fuse_new table_default ()) \<and>
   table_ok (fs_nodes (fuse_new table_default ()))"
proof -
  have run: "serve_all gone_env [KHandle 3 (KFsync True), KNode 7 (KForget 1)] (fuse_new table_default ()) =
      Some (fuse_new table_default ())"
    by (simp add: fuse_fsync_def client_fsync_def call_ok_def gone_env_def fuse_forget_def forget_def fuse_new_def new_table_def
        ROOT_def bind_io_def ask_def expecting_def map_err_def)
  have "calls_keep fuse_ok gone_env" by (simp add: calls_keep_def gone_env_def)
  from fuse_state_typed [OF this run] run show ?thesis by blast
qed

end
