(* ===== verification/FuseNodes.thy ===== *)
theory FuseNodes
  imports FuseInv
begin

text \<open>
  Requests that address a node by a path, while others may be moving files on the server: what comes back
  is taken for the node's file only when it is that file, and the search through the names of a node comes
  to an end.
\<close>

subsection \<open>What a reply is taken for\<close>

lemma addressed_by:
  assumes run: "addressed e req ino fh s = Some (Ok a, s')"
  obtains p via s0 where "path_for_handle_op e ino fh s0 = Ok (p, via)" "req p via s0 = (Ok a, s')"
    "via \<noteq> None \<or> node_describes ino a s'"
proof -
  have "\<forall>b. Ok a = (Ok b :: (attr, unaddressed) result) \<longrightarrow> (\<exists>p via s0. path_for_handle_op e ino fh s0 = Ok (p, via) \<and>
      req p via s0 = (Ok b, s') \<and> (via \<noteq> None \<or> node_describes ino b s'))"
    using run TrueI by (rule addressed_rule [where P = "\<lambda>_. True"]) auto
  with that show ?thesis by blast
qed

lemma addressed_no_address:
  assumes run: "addressed e req ino fh s = Some (Err (NoAddress err), s')"
  shows "\<exists>err. path_for_handle_op e ino fh s' = Err err"
proof -
  have "(\<exists>err'. Err (NoAddress err) = (Err (NoAddress err') :: (attr, unaddressed) result)) \<longrightarrow> (\<exists>err. path_for_handle_op e ino fh s' = Err err)"
    using run TrueI by (rule addressed_rule [where P = "\<lambda>_. True"]) auto
  then show ?thesis by simp
qed

lemma path_for_handle_op_Ok:
  "path_for_handle_op e ino fh s = Ok (p, via) \<longleftrightarrow>
     (case path_of (fs_nodes s) ino of
        Some q \<Rightarrow> p = Some q \<and> via = fh
      | None \<Rightarrow> p = None \<and> via \<noteq> None \<and> via = (case fh of Some f \<Rightarrow> Some f | None \<Rightarrow> live_handle e ino s))"
  by (auto simp: path_for_handle_op_def split: option.splits)

subsection \<open>Names of a node run out\<close>

definition n_aliases :: "node_table \<Rightarrow> u64 \<Rightarrow> nat" where
  "n_aliases t i = (case nodes t i of Some n \<Rightarrow> length (node_aliases n) | None \<Rightarrow> 0)"

text \<open>No node that is another's directory has more than one name.\<close>

definition single_parents :: "node_table \<Rightarrow> bool" where
  "single_parents t \<longleftrightarrow> (\<forall>i p nm. (p, nm) \<in> aliases_of t i \<longrightarrow> n_aliases t p \<le> 1)"

lemma names_to_shallower:
  "names_to t i (Suc depth) = Some ns \<Longrightarrow> single_parents t \<Longrightarrow> n_aliases t i \<le> 1 \<Longrightarrow> names_to t i depth = Some ns"
proof (induction t i depth arbitrary: ns rule: names_to.induct)
  case (1 t i depth)
  show ?case
  proof (cases "i = ROOT")
    case True
    then show ?thesis using 1 by simp
  next
    case False
    from 1(2) False obtain n where n: "nodes t i = Some n" "\<not> Suc depth > MAX_DEPTH"
      "find_map (\<lambda>(parent, nm). map_option (\<lambda>ns. ns @ [nm]) (names_to t parent (Suc (Suc depth)))) (rev (node_aliases n)) = Some ns"
      by (auto simp: names_to.simps [of t i "Suc depth"] split: if_splits option.splits)
    then obtain parent nm where al: "node_aliases n = [(parent, nm)]"
      using 1(4) by (cases "node_aliases n"; cases "tl (node_aliases n)") (auto simp: n_aliases_def)
    then obtain ns' where ns: "names_to t parent (Suc (Suc depth)) = Some ns'" "ns = ns' @ [nm]"
      using n(3) by (auto split: option.splits)
    have "n_aliases t parent \<le> 1"
      using 1(3) n(1) al unfolding single_parents_def by (metis aliases_of_def list.set_intros(1) option.case(2))
    then have "names_to t parent (Suc depth) = Some ns'"
      using 1(1) [OF False _ n(1) ns(1) 1(3)] n(2) by simp
    then show ?thesis using False n al ns by (simp add: names_to.simps [of t i depth])
  qed
qed

lemma rposition_None: "rposition P xs = None \<Longrightarrow> x \<in> set xs \<Longrightarrow> \<not> P x"
  by (auto simp: rposition_def find_None_iff in_set_conv_nth)

lemma alias_found:
  assumes single: "single_parents t" and p: "path_of t i = Some p" and i: "i \<noteq> ROOT"
  shows "\<exists>t' a. alias_was_wrong i p t = (t', Some a)"
proof -
  from p obtain ns where ns: "names_to t i 0 = Some ns" "names p = ns"
    by (auto simp: path_of_def from_names_def Let_def split: Option.bind_splits sum.splits if_splits)
  from ns(1) i obtain n where n: "nodes t i = Some n"
    "find_map (\<lambda>(parent, nm). map_option (\<lambda>ns. ns @ [nm]) (names_to t parent 1)) (rev (node_aliases n)) = Some ns"
    by (auto simp: names_to.simps [of t i 0] split: if_splits option.splits)
  from find_map_Some [OF n(2)] obtain parent nm ns' where al: "(parent, nm) \<in> set (node_aliases n)"
    "names_to t parent 1 = Some ns'" "ns = ns' @ [nm]"
    by auto
  have "n_aliases t parent \<le> 1"
    using single n(1) al(1) unfolding single_parents_def by (metis aliases_of_def option.case(2))
  then have "names_to t parent 0 = Some ns'"
    using names_to_shallower [of t parent 0] al(2) single by simp
  then have "rposition (\<lambda>(parent, nm'). nm' = nm \<and> names_to t parent 0 = Some ns') (node_aliases n) \<noteq> None"
    using rposition_None [OF _ al(1)] by fastforce
  then show ?thesis
    using ns al n by (auto simp: alias_was_wrong_def Let_def)
qed

lemma length_remove_at: "j < length xs \<Longrightarrow> length (remove_at j xs) = length xs - 1"
  by (simp add: remove_at_def)

lemma unlink_child_aliases: "n_aliases (unlink_child i a t) j = n_aliases t j"
  by (auto simp: n_aliases_def unlink_child_def nodes_upd_node split: option.split)

lemma alias_was_wrong_aliases:
  assumes "alias_was_wrong i p t = (t', Some a)"
  shows "n_aliases t' j = (if j = i then n_aliases t i - 1 else n_aliases t j)"
    and "0 < n_aliases t i" and "aliases_of t' j \<subseteq> aliases_of t j"
proof -
  from assms obtain n k where n: "nodes t i = Some n" "k < length (node_aliases n)" "a = node_aliases n ! k"
    and t': "t' = unlink_child i a (upd_node i (\<lambda>n. mark_unlinked (n\<lparr>node_aliases := remove_at k (node_aliases n)\<rparr>)) t)"
    by (rule alias_was_wrong_Some)
  show "n_aliases t' j = (if j = i then n_aliases t i - 1 else n_aliases t j)"
    unfolding t' unlink_child_aliases using n by (simp add: n_aliases_def nodes_upd_node length_remove_at)
  show "0 < n_aliases t i" using n by (auto simp: n_aliases_def)
  show "aliases_of t' j \<subseteq> aliases_of t j"
    using n set_remove_at [OF n(2)] by (cases "j = i") (auto simp: t' unlink_child_simps aliases_of_def nodes_upd_node)
qed

lemma alias_was_wrong_single:
  assumes "single_parents t"
  shows "single_parents (fst (alias_was_wrong i p t))"
proof (cases "alias_was_wrong i p t")
  case (Pair t' r)
  show ?thesis
  proof (cases r)
    case None
    then show ?thesis
      using assms Pair by (auto simp: alias_was_wrong_def Let_def split: list.splits option.splits)
  next
    case (Some a)
    note wrong = alias_was_wrong_aliases [OF Pair [unfolded Some]]
    have "n_aliases t' q \<le> n_aliases t q" for q by (simp add: wrong(1))
    then show ?thesis
      using assms wrong(3) Pair unfolding single_parents_def by (metis (no_types, lifting) fst_conv le_trans subsetD)
  qed
qed

lemma forget_alias_nodes [simp]: "fs_nodes (forget_alias i p s) = fst (alias_was_wrong i p (fs_nodes s))"
  by (auto simp: forget_alias_def send_work_def Let_def split: prod.splits option.split)

subsection \<open>The loops end\<close>

lemma addressed_returns:
  assumes steady: "\<And>p via s. fs_nodes (snd (req p via s)) = fs_nodes s"
    and single: "single_parents (fs_nodes s)"
  shows "\<exists>r s'. addressed e req ino fh s = Some (r, s')"
  using single
proof (induction "n_aliases (fs_nodes s) ino" arbitrary: s rule: less_induct)
  case less
  show ?case
  proof (cases "path_for_handle_op e ino fh s")
    case (Inl err)
    then show ?thesis by (simp add: addressed.simps)
  next
    case (Inr z)
    obtain p via where z: "z = (p, via)" by (cases z)
    obtain r s1 where r: "req p via s = (r, s1)" by (metis prod.exhaust)
    have same: "fs_nodes s1 = fs_nodes s" using steady [of p via s] r by simp
    show ?thesis
    proof (cases "\<exists>a. r = Ok a \<and> \<not> (via \<noteq> None \<or> node_describes ino a s1)")
      case True
      then have ino: "ino \<noteq> ROOT" and via: "via = None" by (auto simp: node_describes_def)
      then obtain q where q: "p = Some q" "path_of (fs_nodes s) ino = Some q"
        using Inr z by (auto simp: path_for_handle_op_Ok split: option.splits)
      let ?s = "forget_alias ino q s1"
      have "n_aliases (fs_nodes ?s) ino < n_aliases (fs_nodes s) ino"
        using alias_found [OF less.prems q(2) ino] alias_was_wrong_aliases(1,2) [of ino q "fs_nodes s"] same by fastforce
      moreover have "single_parents (fs_nodes ?s)"
        using alias_was_wrong_single [OF less.prems] same by simp
      ultimately obtain r' s' where "addressed e req ino fh ?s = Some (r', s')"
        using less.hyps by blast
      then show ?thesis
        using True Inr z r q via by (subst addressed.simps) auto
    next
      case False
      then show ?thesis
        using Inr z r by (subst addressed.simps) (auto split: sum.splits)
    qed
  qed
qed

text \<open>An open of a node by a path, by what the server replied.\<close>

lemma open_same_file_cases:
  fixes e :: "'s fuse_env" and p flags kind opn ino
  assumes "alloc (fs_handles s) = (t1, fh)" and "fe_call e (build fh) (s\<lparr>fs_handles := t1\<rparr>) = (opened, s1)"
  defines "run \<equiv> fuse_open_handle e p flags kind opn build (\<lambda>a s. Some (same_file ino p a s)) s"
  obtains a where "opened = Ok (ROpened a)" "node_describes ino a s1"
      "run = Some (Ok (fh, a), Some False, s1\<lparr>fs_handles := insert_handle fh ino (key_of a) p flags kind opn (fs_handles s1)\<rparr>)"
    | a where "opened = Ok (ROpened a)" "\<not> node_describes ino a s1"
      "run = Some (Err Stale, Some True, (forget_alias ino p s1)\<lparr>fs_handles := owe kind fh (fs_handles s1)\<rparr>)"
    | err t where "\<And>a. opened \<noteq> Ok (ROpened a)" "run = Some (Err err, None, s1\<lparr>fs_handles := t\<rparr>)"
      "t = fs_handles s1 \<or> t = owe kind fh (fs_handles s1)"
proof (cases "\<exists>a. opened = Ok (ROpened a)")
  case True
  then obtain a where a: "opened = Ok (ROpened a)" by blast
  have handles: "fs_handles (forget_alias ino p s1) = fs_handles s1"
    by (auto simp: forget_alias_def send_work_def Let_def split: prod.splits option.split)
  show ?thesis
  proof (cases "node_describes ino a s1")
    case True
    then show ?thesis
      using that(1) [OF a] assms(1,2) a
      by (simp add: run_def fuse_open_handle_def same_file_def open_handle_ends_def open_settled_def)
  next
    case False
    then show ?thesis
      using that(2) [OF a] assms(1,2) a handles
      by (simp add: run_def fuse_open_handle_def same_file_def open_handle_ends_def open_settled_def)
  qed
next
  case False
  have "\<exists>err t. open_handle_ends fh p flags kind opn (\<lambda>_. Err Stale) opened (fs_handles s1) = Some (Err err, t) \<and>
      (t = fs_handles s1 \<or> t = owe kind fh (fs_handles s1))"
    using False
    by (auto simp: open_handle_ends_def open_settled_def Let_def split: sum.splits response.splits client_error.splits)
  then obtain err t where ends:
    "open_handle_ends fh p flags kind opn (\<lambda>_. Err Stale) opened (fs_handles s1) = Some (Err err, t)"
    "t = fs_handles s1 \<or> t = owe kind fh (fs_handles s1)"
    by blast
  have "run = Some (Err err, None, s1\<lparr>fs_handles := t\<rparr>)"
    using False assms(1,2) ends(1)
    by (auto simp: run_def fuse_open_handle_def split: sum.splits response.splits)
  with that(3) False ends(2) show ?thesis by blast
qed

lemma open_by_name_returns:
  assumes steady: "\<And>req s. fs_nodes (snd (fe_call e req s)) = fs_nodes s"
    and single: "single_parents (fs_nodes s)"
  shows "\<exists>r s'. open_by_name e flags kind opn build ino s = Some (r, s')"
  using single
proof (induction "n_aliases (fs_nodes s) ino" arbitrary: s rule: less_induct)
  case less
  show ?case
  proof (cases "path_of (fs_nodes s) ino")
    case None
    then show ?thesis by (simp add: open_by_name.simps)
  next
    case (Some p)
    obtain t1 fh where al: "alloc (fs_handles s) = (t1, fh)" by (metis prod.exhaust)
    obtain opened s1 where call: "fe_call e (build p fh) (s\<lparr>fs_handles := t1\<rparr>) = (opened, s1)" by (metis prod.exhaust)
    have same: "fs_nodes s1 = fs_nodes s" using steady [of "build p fh" "s\<lparr>fs_handles := t1\<rparr>"] call by simp
    from al call show ?thesis
    proof (rule open_same_file_cases [where p = p and flags = flags and kind = kind and opn = opn and ino = ino])
      fix a
      assume wrong: "\<not> node_describes ino a s1" and run:
        "fuse_open_handle e p flags kind opn (build p) (\<lambda>a s. Some (same_file ino p a s)) s =
          Some (Err Stale, Some True, (forget_alias ino p s1)\<lparr>fs_handles := owe kind fh (fs_handles s1)\<rparr>)"
      let ?s = "(forget_alias ino p s1)\<lparr>fs_handles := owe kind fh (fs_handles s1)\<rparr>"
      have ino: "ino \<noteq> ROOT" using wrong by (auto simp: node_describes_def)
      have "n_aliases (fs_nodes ?s) ino < n_aliases (fs_nodes s) ino"
        using alias_found [OF less.prems Some ino] alias_was_wrong_aliases(1,2) [of ino p "fs_nodes s"] same by fastforce
      moreover have "single_parents (fs_nodes ?s)"
        using alias_was_wrong_single [OF less.prems] same by simp
      ultimately obtain r' s' where "open_by_name e flags kind opn build ino ?s = Some (r', s')"
        using less.hyps by blast
      then show ?thesis
        using Some run by (subst open_by_name.simps) simp
    qed (use Some in \<open>subst open_by_name.simps, simp\<close>)+
  qed
qed

subsection \<open>Properties\<close>

lemma client_getattr_asks:
  assumes "client_getattr (fe_call e) p via s = (Ok a, s')"
  shows "\<exists>resp. fe_call e (Getattr p via) s = (Ok resp, s') \<and> want_attr resp = Some a"
  using assms
  by (auto simp: client_getattr_def call_attr_def expecting_def map_prod_def bind_res_def split: prod.splits sum.splits option.splits)

lemma client_setattr_asks:
  assumes "client_setattr (fe_call e) p via change s = (Ok a, s')"
  shows "\<exists>resp. fe_call e (Setattr p via change) s = (Ok resp, s') \<and> want_attr resp = Some a"
  using assms
  by (auto simp: client_setattr_def call_attr_def expecting_def map_prod_def bind_res_def split: prod.splits sum.splits option.splits)

lemma node_describes_key:
  "node_describes i a s \<longleftrightarrow> i = ROOT \<or> (\<exists>n. nodes (fs_nodes s) i = Some n \<and> node_key n = Some (key_of a))"
  by (cases "nodes (fs_nodes s) i")
    (auto simp: node_describes_def describes_def key_of_def seen_key_def seen_of_def split: option.splits)

lemma attr_reported_handles [simp]: "fs_handles (attr_reported e i a s) = fs_handles s"
proof -
  have work: "fs_handles (snd (send_work wk s)) = fs_handles s" for wk and s :: "'a fuse"
    by (simp add: send_work_def split: option.split)
  have all: "fs_handles (snd (send_all wks s)) = fs_handles s" for wks and s :: "'a fuse"
  proof (induction wks s rule: send_all.induct)
    case (2 wk wks s)
    then show ?case using work [of wk s] by (auto simp: Let_def split: prod.splits)
  qed simp
  have "fs_handles (snd (drop_by_name i s)) = fs_handles s" by (simp add: drop_by_name_def all)
  then show ?thesis by (auto simp: attr_reported_def Let_def split: option.split prod.split)
qed

lemma file_attr_ino: "file_attr i a = Some fa \<Longrightarrow> fa_ino fa = i"
  by (auto simp: file_attr_def split: option.splits)

text \<open>What a reply with attributes was: to a request for the node by handle, or by a path of it and of the node's own file.\<close>

definition own_reply :: "'s fuse_env \<Rightarrow> u64 \<Rightarrow> u64 option \<Rightarrow> attr \<Rightarrow> bool" where
  "own_reply e ino fh a \<longleftrightarrow>
     (\<exists>req p via s0 resp s1. fe_call e req s0 = (Ok resp, s1) \<and> want_attr resp = Some a \<and>
        (req = Getattr p via \<or> (\<exists>change. req = Setattr p via change)) \<and>
        (case via of
           Some f \<Rightarrow> fh = Some f \<or> fh = None \<and> p = None \<and> live_handle e ino s0 = Some f
         | None \<Rightarrow> p \<noteq> None \<and> p = path_of (fs_nodes s0) ino \<and>
             (ino = ROOT \<or> (\<exists>n. nodes (fs_nodes s1) ino = Some n \<and> node_key n = Some (key_of a)))))"

lemma own_replyI:
  assumes "path_for_handle_op e ino fh s0 = Ok (p, via)" and "fe_call e req s0 = (Ok resp, s1)" "want_attr resp = Some a"
    and "req = Getattr p via \<or> (\<exists>change. req = Setattr p via change)" and "via \<noteq> None \<or> node_describes ino a s1"
  shows "own_reply e ino fh a"
proof -
  have "case via of
           Some f \<Rightarrow> fh = Some f \<or> fh = None \<and> p = None \<and> live_handle e ino s0 = Some f
         | None \<Rightarrow> p \<noteq> None \<and> p = path_of (fs_nodes s0) ino \<and>
             (ino = ROOT \<or> (\<exists>n. nodes (fs_nodes s1) ino = Some n \<and> node_key n = Some (key_of a)))"
    using assms(1,5) by (cases "live_handle e ino s0") (auto simp: path_for_handle_op_Ok node_describes_key split: option.splits)
  then show ?thesis unfolding own_reply_def using assms(2-4) by blast
qed

lemma getattr_own:
  assumes "fuse_getattr e ino fh s = Some (Ok reply, s')"
  obtains a fa where "reply = FAttr (fe_attr_ttl e) fa" "file_attr ino a = Some fa" "own_reply e ino fh a"
proof -
  from assms obtain a fa s1 where run: "addressed e (client_getattr (fe_call e)) ino fh s = Some (Ok a, s1)"
    "file_attr ino a = Some fa" "reply = FAttr (fe_attr_ttl e) fa"
    by (auto simp: fuse_getattr_def bind_io_def err_io_def map_err_def change_io_def unless_panic_def ret_def
        split: option.splits sum.splits)
  from run(1) show ?thesis
  proof (rule addressed_by)
    fix p via s0
    assume ok: "path_for_handle_op e ino fh s0 = Ok (p, via)" "client_getattr (fe_call e) p via s0 = (Ok a, s1)"
      "via \<noteq> None \<or> node_describes ino a s1"
    from client_getattr_asks [OF ok(2)] have "own_reply e ino fh a"
      using own_replyI [OF ok(1) _ _ _ ok(3)] by blast
    with that run show ?thesis by blast
  qed
qed

lemma setattr_own:
  assumes "fuse_setattr e ino k fh s = Some (Ok reply, s')"
  obtains a fa where "reply = FAttr (fe_attr_ttl e) fa" "file_attr ino a = Some fa" "own_reply e ino fh a"
    | "reply = FAttr 0 (unlinked_placeholder ino)" "setattr_flushes_times (set_of k)" "unlinked_file ino s'"
      "fh = None" "live_handle e ino s' = None" "path_of (fs_nodes s') ino = None"
proof -
  let ?req = "\<lambda>p via. client_setattr (fe_call e) p via (set_of k)"
  from assms obtain r s1 where run: "addressed e ?req ino fh s = Some (r, s1)"
    by (auto simp: fuse_setattr_def Let_def bind_io_def outcome_of_def split: option.splits)
  show ?thesis
  proof (cases r)
    case (Inr a)
    with assms run obtain fa where fa: "file_attr ino a = Some fa" "reply = FAttr (fe_attr_ttl e) fa"
      by (auto simp: fuse_setattr_def Let_def bind_io_def outcome_of_def change_io_def unless_panic_def ret_def split: option.splits)
    from run [unfolded Inr] show ?thesis
    proof (rule addressed_by)
      fix p via s0
      assume ok: "path_for_handle_op e ino fh s0 = Ok (p, via)" "?req p via s0 = (Ok a, s1)"
        "via \<noteq> None \<or> node_describes ino a s1"
      from client_setattr_asks [OF ok(2)] have "own_reply e ino fh a"
        using own_replyI [OF ok(1) _ _ _ ok(3)] by blast
      with that(1) fa show ?thesis by blast
    qed
  next
    case (Inl u)
    with assms run have u: "\<exists>err. u = NoAddress err" "s1 = s'" "reply = FAttr 0 (unlinked_placeholder ino)"
      "setattr_flushes_times (set_of k)" "unlinked_file ino s'"
      by (auto simp: fuse_setattr_def Let_def bind_io_def outcome_of_def ret_def fail_def split: unaddressed.splits if_splits)
    then have "\<exists>err. path_for_handle_op e ino fh s' = Err err"
      using addressed_no_address run Inl by metis
    then have "fh = None" "live_handle e ino s' = None" "path_of (fs_nodes s') ino = None"
      by (auto simp: path_for_handle_op_def split: option.splits)
    with u that(2) show ?thesis by blast
  qed
qed

text \<open>A handle that an open gave is the node's: its record is for the node and has the key of the file that was opened.\<close>

lemma open_by_name_own:
  fixes e :: "'s fuse_env"
  assumes keep: "calls_keep fuse_ok e" and s: "fuse_ok s"
    and run: "open_by_name e flags kind opn build ino s = Some (Ok (fh, a), s')"
  obtains p s0 s1 where "fe_call e (build p fh) s0 = (Ok (ROpened a), s1)" "path_of (fs_nodes s0) ino = Some p"
    "node_describes ino a s1" "fuse_ok s1" "s' = s1\<lparr>fs_handles := insert_handle fh ino (key_of a) p flags kind opn (fs_handles s1)\<rparr>"
proof -
  define own where "own r s' \<longleftrightarrow> (\<forall>fh a. r = Ok (fh, a) \<longrightarrow> (\<exists>p s0 s1. fe_call e (build p fh) s0 = (Ok (ROpened a), s1) \<and>
      path_of (fs_nodes s0) ino = Some p \<and> node_describes ino a s1 \<and> fuse_ok s1 \<and>
      s' = s1\<lparr>fs_handles := insert_handle fh ino (key_of a) p flags kind opn (fs_handles s1)\<rparr>))"
    for r :: "(u64 \<times> attr, errno) result" and s' :: "'s fuse"
  have ownI: "own (Ok (fh, a)) (s1\<lparr>fs_handles := insert_handle fh ino (key_of a) p flags kind opn (fs_handles s1)\<rparr>)"
    if "fe_call e (build p fh) s0 = (Ok (ROpened a), s1)" "path_of (fs_nodes s0) ino = Some p" "node_describes ino a s1" "fuse_ok s1"
    for p fh s0 a s1
    unfolding own_def using that by blast
  have ownE: "own (Err err) s1" for err s1 by (simp add: own_def)
  from run s have "own (Ok (fh, a)) s'"
  proof (rule open_by_name_rule)
    fix s p r w s1
    assume s: "fuse_ok s" and p: "path_of (fs_nodes s) ino = Some p"
      and tried: "fuse_open_handle e p flags kind opn (build p) (\<lambda>a s. Some (same_file ino p a s)) s = Some (r, w, s1)"
    obtain t1 fh where al: "alloc (fs_handles s) = (t1, fh)" by (metis prod.exhaust)
    obtain opened s2 where call: "fe_call e (build p fh) (s\<lparr>fs_handles := t1\<rparr>) = (opened, s2)" by (metis prod.exhaust)
    have "fuse_ok (s\<lparr>fs_handles := t1\<rparr>)"
      using typed.handled [OF s handle_alloc] al by simp
    then have s2: "fuse_ok s2" using call_keeps [OF keep, of _ "build p fh"] call by (metis snd_conv)
    have "own (map_err error_errno r) s1" if "w \<noteq> Some True"
      using al call
      by (rule open_same_file_cases [where p = p and flags = flags and kind = kind and opn = opn and ino = ino])
        (use that tried s2 call p in \<open>auto simp: map_err_def ownE intro!: ownI [of p fh "s\<lparr>fs_handles := t1\<rparr>"]\<close>)
    then show "if w = Some True then fuse_ok s1 else own (map_err error_errno r) s1"
      using typed.open_same_file_keeps [OF keep s tried] by simp
  qed (simp add: ownE)
  with that show ?thesis by (auto simp: own_def)
qed

text \<open>
  A file at \<open>/a\<close> with the number 5, a server that answers every request with its attributes, and a state
  in which the file has been looked up.
\<close>

definition example_file :: attr where
  "example_file =
     \<lparr>attr_ino = 5, attr_size = 0, attr_blocks = 0, attr_atime = \<lparr>sec = 1, nsec = 0\<rparr>, attr_mtime = \<lparr>sec = 1, nsec = 0\<rparr>,
      attr_ctime = \<lparr>sec = 1, nsec = 0\<rparr>, attr_kind = Regular, attr_perm = 0, attr_nlink = 1, attr_uid = 0, attr_gid = 0,
      attr_rdev = 0, attr_blksize = 4096, attr_xattr_names = None, attr_identity = \<lparr>handle_type = 1, handle = [5]\<rparr>,
      attr_foreign = False\<rparr>"

definition answering :: "response \<Rightarrow> unit fuse_env" where
  "answering resp = gone_env\<lparr>fe_call := (\<lambda>req s. (Ok resp, s))\<rparr>"

definition example_table :: node_table where
  "example_table = looked_up ROOT (Name [97]) example_seen new_table"

definition example_state :: "unit fuse" where
  "example_state = (fuse_new table_default ())\<lparr>fs_nodes := example_table\<rparr>"

definition no_change :: kernel_setattr where
  "no_change = \<lparr>ks_mode = None, ks_uid = None, ks_gid = None, ks_size = None, ks_atime = None, ks_mtime = None\<rparr>"

lemma example_table_eval:
  "nodes example_table 5 = Some \<lparr>node_aliases = [(ROOT, Name [97])], node_lookup_count = 1,
     node_key = Some \<lparr>key_ino = 5, key_identity = \<lparr>handle_type = 1, handle = [5]\<rparr>\<rparr>,
     node_unlinked = False, node_kind = Regular, node_children = Map.empty\<rparr>"
  "nodes example_table ROOT = Some \<lparr>node_aliases = [], node_lookup_count = 1, node_key = None,
     node_unlinked = False, node_kind = Directory, node_children = [Name [97] \<mapsto> 5]\<rparr>"
  "dom (nodes example_table) = {5, ROOT}"
  by (simp_all add: example_table_def table_eval)

lemma example_path: "path_of example_table 5 = Some (Path [Name [97]])"
proof -
  have "(5 :: u64) \<noteq> ROOT" by (simp add: ROOT_def)
  then show ?thesis
    using example_table_eval(1)
    by (simp add: path_of_def names_to.simps [of example_table 5] from_names_def byte_len_def PATH_MAX_def)
qed

lemma example_ok: "fuse_ok example_state"
proof -
  have "table_ok example_table"
    using insert_lookup_ok [OF new_table_ok] by (auto simp: example_table_def looked_up_def new_table_ok split: option.split)
  then show ?thesis
    using fuse_new_ok [of "()"] by (simp add: example_state_def fuse_ok_nodes)
qed

lemma answering_keeps: "calls_keep P (answering resp)"
  by (simp add: calls_keep_def answering_def gone_env_def)

lemma example_describes: "node_describes 5 example_file example_state"
  using example_table_eval(1) by (simp add: node_describes_def example_state_def describes_def example_file_def)

text \<open>
  C15. The kernel is shown the attributes of a node's own file only, whatever is moved on the server
  meanwhile: a \<open>getattr\<close> or \<open>setattr\<close> of a node that succeeds answers, under the node's number, with what
  the server said of it by a handle (the kernel's own, or, when the node has no path left, one still
  open on the node) or by a path the table had for the node, in which case the reply described the file the node
  is.  The one exception is the flush of times to a file with no name and no handle left, which is
  answered with a placeholder the kernel is not to keep.
\<close>

theorem attributes_of_own_file:
  assumes "k = KGetattr fh \<or> k = KSetattr change fh" and "serve_node e ino k s = Some (Ok reply, s')"
  shows "\<exists>ttl fa. reply = FAttr ttl fa \<and> fa_ino fa = ino \<and>
    ((\<exists>a. file_attr ino a = Some fa \<and> own_reply e ino fh a) \<or>
     ttl = 0 \<and> fa = unlinked_placeholder ino \<and> k = KSetattr change fh \<and> setattr_flushes_times (set_of change) \<and>
     unlinked_file ino s' \<and> fh = None \<and> live_handle e ino s' = None \<and> path_of (fs_nodes s') ino = None)"
proof (cases "k = KGetattr fh")
  case True
  with assms(2) have "fuse_getattr e ino fh s = Some (Ok reply, s')" by simp
  then show ?thesis
    by (rule getattr_own) (auto dest: file_attr_ino)
next
  case False
  then have k: "k = KSetattr change fh" using assms(1) by simp
  with assms(2) have "fuse_setattr e ino change fh s = Some (Ok reply, s')" by simp
  then show ?thesis
    by (rule setattr_own) (auto simp: k unlinked_placeholder_def dir_placeholder_def dest: file_attr_ino)
qed

theorem attributes_of_own_file_witness:
  "\<exists>reply s'. serve_node (answering (RAttr example_file)) 5 (KGetattr None) example_state = Some (Ok reply, s') \<and>
     (\<exists>ttl fa. reply = FAttr ttl fa \<and> fa_ino fa = 5)"
proof -
  have "addressed (answering (RAttr example_file)) (client_getattr (fe_call (answering (RAttr example_file)))) 5 None example_state =
      Some (Ok example_file, example_state)"
    using example_describes example_path
    by (simp add: addressed.simps path_for_handle_op_def example_state_def client_getattr_def call_attr_def answering_def
        expecting_def want_attr_def)
  then obtain reply s' where run: "serve_node (answering (RAttr example_file)) 5 (KGetattr None) example_state = Some (Ok reply, s')"
    by (simp add: fuse_getattr_def bind_io_def err_io_def map_err_def change_io_def unless_panic_def ret_def file_attr_def
        system_time_def example_file_def NANOS_def)
  from attributes_of_own_file [of _ _ no_change, OF disjI1 [OF refl] run] run show ?thesis by blast
qed

text \<open>
  C16. An open of a node is of the node's own file: the handle a successful \<open>open\<close> or \<open>opendir\<close> answers with has a
  live record for the node, made of a request by a path the table had for the node, and the file the server
  opened then, whose key the record keeps, is the one the node was when the reply came; one that turned out
  to be another file is never answered with.
\<close>

theorem opened_own_file:
  assumes "calls_keep fuse_ok e" and "fuse_ok s" and "k = KOpen tid flags \<or> k = KOpendir tid"
    and "serve_node e ino k s = Some (Ok reply, s')"
  shows "\<exists>fh r. reply = FOpened fh \<and> rec_at (fs_handles s') fh = Some r \<and> hr_nodeid r = ino \<and> \<not> hr_dead r \<and>
    (\<exists>req s0 a s1. fe_call e req s0 = (Ok (ROpened a), s1) \<and> path_of (fs_nodes s0) ino = Some (hr_path r) \<and>
       (req = Opendir fh (hr_path r) \<or> req = Open fh (hr_path r) (hr_flags r)) \<and> hr_key r = key_of a \<and>
       (ino = ROOT \<or> (\<exists>n. nodes (fs_nodes s1) ino = Some n \<and> node_key n = Some (hr_key r))))"
proof -
  obtain fl kd bld opn s0 fh a s2 where opener: "opener_of e tid s = Some (Ok opn, s0)"
    and run: "open_by_name e fl kd opn bld ino s0 = Some (Ok (fh, a), s2)"
    and handles: "fs_handles s' = fs_handles s2" and reply: "reply = FOpened fh"
    and bld: "bld = (\<lambda>p fh. Opendir fh p) \<or> bld = (\<lambda>p fh. Open fh p fl)"
    using assms(3,4)
    by (auto simp: fuse_open_def fuse_opendir_def Let_def bind_io_Some change_io_def ret_def xattr_remember_def
        attr_reported_handles)
  have "fuse_ok s0" using keepsD [OF keeps_opener [OF assms(1)] assms(2) opener] .
  then obtain p s3 s1 where call: "fe_call e (bld p fh) s3 = (Ok (ROpened a), s1)" "path_of (fs_nodes s3) ino = Some p"
    and s1: "node_describes ino a s1" "fuse_ok s1" "s2 = s1\<lparr>fs_handles := insert_handle fh ino (key_of a) p fl kd opn (fs_handles s1)\<rparr>"
    using open_by_name_own [OF assms(1) _ run] by blast
  have "heap_ok (fs_handles s1)" using fuse_okD(2) [OF s1(2)] by (simp add: table_ok_counts_def)
  then have "rec_at (fs_handles s') fh = Some \<lparr>hr_nodeid = ino, hr_key = key_of a, hr_path = p, hr_flags = fl, hr_kind = kd,
      hr_opener = opn, hr_dead = False\<rparr>"
    by (simp add: handles s1(3) insert_handle_def insert_rec_at)
  moreover have "bld p fh = Opendir fh p \<or> bld p fh = Open fh p fl" using bld by auto
  then have "\<exists>req s0 a' s1. fe_call e req s0 = (Ok (ROpened a'), s1) \<and> path_of (fs_nodes s0) ino = Some p \<and>
      (req = Opendir fh p \<or> req = Open fh p fl) \<and> key_of a = key_of a' \<and>
      (ino = ROOT \<or> (\<exists>n. nodes (fs_nodes s1) ino = Some n \<and> node_key n = Some (key_of a)))"
    using call s1(1) unfolding node_describes_key by blast
  ultimately show ?thesis using reply by simp
qed

theorem opened_own_file_witness:
  "\<exists>fh s'. serve_node (answering (ROpened example_file)) 5 (KOpendir 7) example_state = Some (Ok (FOpened fh), s') \<and>
     (\<exists>r. rec_at (fs_handles s') fh = Some r \<and> hr_nodeid r = 5)"
proof -
  let ?e = "answering (ROpened example_file)"
  let ?s = "example_state\<lparr>fs_handles := fst (alloc table_default)\<rparr>"
  have al: "alloc (fs_handles example_state) = (fst (alloc table_default), 1)"
    by (simp add: example_state_def fuse_new_def alloc_def table_default_def)
  have call: "fe_call ?e (Opendir 1 (Path [Name [97]])) ?s = (Ok (ROpened example_file), ?s)"
    by (simp add: answering_def)
  have desc: "node_describes 5 example_file ?s"
    using example_describes by (simp add: node_describes_def)
  have "fuse_open_handle ?e (Path [Name [97]]) (O_RDONLY OR O_DIRECTORY) KDir None (\<lambda>fh. Opendir fh (Path [Name [97]]))
        (\<lambda>a s. Some (same_file 5 (Path [Name [97]]) a s)) example_state =
      Some (Ok (1, example_file), Some False, ?s\<lparr>fs_handles := insert_handle 1 5 (key_of example_file) (Path [Name [97]])
        (O_RDONLY OR O_DIRECTORY) KDir None (fs_handles ?s)\<rparr>)"
    using al call
    by (rule open_same_file_cases [where build = "\<lambda>fh. Opendir fh (Path [Name [97]])" and p = "Path [Name [97]]"
          and flags = "O_RDONLY OR O_DIRECTORY" and kind = KDir and opn = None and ino = 5]) (use desc in auto)
  then have "open_by_name ?e (O_RDONLY OR O_DIRECTORY) KDir None (\<lambda>p fh. Opendir fh p) 5 example_state =
      Some (Ok (1, example_file), ?s\<lparr>fs_handles := insert_handle 1 5 (key_of example_file) (Path [Name [97]])
        (O_RDONLY OR O_DIRECTORY) KDir None (fs_handles ?s)\<rparr>)"
    using example_path by (subst open_by_name.simps) (simp add: example_state_def map_err_def)
  then obtain reply s' where run: "serve_node ?e 5 (KOpendir 7) example_state = Some (Ok reply, s')"
    by (simp add: fuse_opendir_def opener_of_def answering_def gone_env_def bind_io_def change_io_def ret_def)
  from opened_own_file [OF answering_keeps example_ok disjI2 [OF refl] run] run show ?thesis by blast
qed

text \<open>
  C19. Requests that go through the names of a node come back: as long as the node table is not changed under
  them and no directory in it has more than one name, \<open>open\<close> and \<open>opendir\<close> return, and so do the loops of
  \<open>getattr\<close> and \<open>setattr\<close>, however many names turn out to lead to other files.
\<close>

theorem requests_by_name_return:
  assumes "\<And>req s. fs_nodes (snd (fe_call e req s)) = fs_nodes s" and "\<And>tid s. fs_nodes (snd (fe_opener e tid s)) = fs_nodes s"
    and "single_parents (fs_nodes s)"
  shows "serve_node e ino (KOpen tid flags) s \<noteq> None \<and> serve_node e ino (KOpendir tid) s \<noteq> None \<and>
    addressed e (client_getattr (fe_call e)) ino fh s \<noteq> None \<and>
    addressed e (\<lambda>p via. client_setattr (fe_call e) p via change) ino fh s \<noteq> None"
proof -
  obtain opn s0 where opn: "fe_opener e tid s = (opn, s0)" by (metis prod.exhaust)
  have "fs_nodes s0 = fs_nodes s" using assms(2) [of tid s] opn by simp
  then have opens: "\<exists>r s'. open_by_name e fl kd opn bld ino s0 = Some (r, s')" for fl kd bld
    using open_by_name_returns [OF assms(1)] assms(3) by simp
  have "serve_node e ino (KOpen tid flags) s \<noteq> None"
    using opens [of "flags_for_server flags" KFile "\<lambda>p fh. Open fh p (flags_for_server flags)"]
    by (auto simp: fuse_open_def Let_def opener_of_def opn bind_io_def change_io_def ret_def split: sum.split)
  moreover have "serve_node e ino (KOpendir tid) s \<noteq> None"
    using opens [of "O_RDONLY OR O_DIRECTORY" KDir "\<lambda>p fh. Opendir fh p"]
    by (auto simp: fuse_opendir_def opener_of_def opn bind_io_def change_io_def ret_def split: sum.split)
  moreover have "addressed e (client_getattr (fe_call e)) ino fh s \<noteq> None"
    using addressed_returns [OF _ assms(3), of "client_getattr (fe_call e)" e ino fh] assms(1)
    by (auto simp: client_requests)
  moreover have "addressed e (\<lambda>p via. client_setattr (fe_call e) p via change) ino fh s \<noteq> None"
    using addressed_returns [OF _ assms(3), of "\<lambda>p via. client_setattr (fe_call e) p via change" e ino fh] assms(1)
    by (auto simp: client_requests)
  ultimately show ?thesis by blast
qed

theorem requests_by_name_return_witness:
  "single_parents (fs_nodes example_state) \<and> serve_node (answering (ROpened (example_file\<lparr>attr_ino := 6\<rparr>))) 5 (KOpen 7 0) example_state \<noteq> None"
proof -
  have none: "nodes example_table j = None" if "j \<noteq> 5" "j \<noteq> ROOT" for j
    using that example_table_eval(3) by auto
  have "n_aliases example_table j \<le> 1" for j
    using example_table_eval(1,2) none [of j] by (cases "j = 5"; cases "j = ROOT") (auto simp: n_aliases_def ROOT_def)
  then have single: "single_parents (fs_nodes example_state)"
    by (simp add: single_parents_def example_state_def)
  from requests_by_name_return [OF _ _ this, of "answering (ROpened (example_file\<lparr>attr_ino := 6\<rparr>))"] single show ?thesis
    by (simp add: answering_def gone_env_def)
qed

end
