(* ===== verification/FuseDeep.thy ===== *)
theory FuseDeep
  imports FuseNodes
begin

text \<open>
  Where the search through the names of a node does not end.  A path of a node is made with its directory one
  step below it, and the name found wrong is looked for with the directory at the top; when the directory has
  two names and the newer is just too long for the first search and not for the second, the two searches
  go by different names, nothing is forgotten and the request is made again for ever.
\<close>

subsection \<open>Tables of directories\<close>

definition dir_seen :: "u64 \<Rightarrow> seen" where
  "dir_seen i = \<lparr>seen_ino = i, seen_identity = \<lparr>handle_type = 1, handle = [1]\<rparr>, seen_foreign = False, seen_kind = Directory\<rparr>"

definition alias_list :: "node_table \<Rightarrow> u64 \<Rightarrow> (u64 \<times> name) list option" where
  "alias_list t i = map_option node_aliases (nodes t i)"

definition keyed :: "node_table \<Rightarrow> bool" where
  "keyed t \<longleftrightarrow> (\<forall>i n. nodes t i = Some n \<longrightarrow> i \<noteq> ROOT \<longrightarrow> node_key n = Some (seen_key (dir_seen i)))"

lemma seen_key_dir [simp]: "seen_key (dir_seen i) = seen_key (dir_seen j) \<longleftrightarrow> i = j"
  by (simp add: seen_key_def dir_seen_def)

lemma id_for_dir:
  assumes "table_ok t" "keyed t" "2 \<le> i"
  shows "id_for t (dir_seen i) = Some i" and "i \<noteq> ROOT"
proof -
  show i: "i \<noteq> ROOT" using assms(3) root_lt [of i] by auto
  have "by_key t (seen_key (dir_seen i)) = (if has_node t i then Some i else None)"
  proof (cases "by_key t (seen_key (dir_seen i))")
    case None
    then show ?thesis
      using assms(1,2) i keys_ok_node [of t i] by (fastforce simp: table_ok_def has_node_def keyed_def)
  next
    case (Some j)
    then have "j = i" "has_node t i"
      using assms(1,2) keys_ok_by_key [of t "seen_key (dir_seen i)" j] by (auto simp: table_ok_def has_node_def keyed_def)
    with Some show ?thesis by simp
  qed
  then show "id_for t (dir_seen i) = Some i"
    using i assms(3) by (simp add: id_for_def root_lt) (simp add: dir_seen_def)
qed

text \<open>A directory looked up by a name that is new.\<close>

lemma looked_up_dir:
  assumes t: "table_ok t" "keyed t" and i: "2 \<le> i" and new: "\<And>j. (p, nm) \<notin> aliases_of t j"
  defines "t' \<equiv> looked_up p nm (dir_seen i) t"
  shows "table_ok t'" "keyed t'" "table_step t t'"
    "alias_list t' j = (if j = i then Some ((case alias_list t i of Some as \<Rightarrow> as | None \<Rightarrow> []) @ [(p, nm)]) else alias_list t j)"
proof -
  note id = id_for_dir [OF t i]
  have "child t p nm = None"
    using t(1) new links_ok_child [of t p nm] by (cases "child t p nm") (auto simp: table_ok_def)
  then have link: "link_child p nm i t = upd_node p (set_child nm (Some i)) t"
    by (simp add: link_child_def)
  define n where "n = node_or_new i (dir_seen i) (link_child p nm i t)"
  define n2 where "n2 = push_alias (p, nm) (retain_others (p, nm)
    (n\<lparr>node_unlinked := False, node_kind := Directory, node_lookup_count := node_lookup_count n + 1\<rparr>))"
  define t2 where "t2 = (link_child p nm i t)\<lparr>nodes := (nodes (link_child p nm i t))(i \<mapsto> n2),
      by_key := (by_key (link_child p nm i t))(seen_key (dir_seen i) \<mapsto> i)\<rparr>"
  have ins: "insert_lookup t p nm (dir_seen i) = Some (t2, Some i)"
    using id by (simp add: insert_lookup_def n_def n2_def t2_def Let_def) (simp add: dir_seen_def)
  then have t': "t' = t2" by (simp add: t'_def looked_up_def)
  show "table_ok t'" using insert_lookup_ok [OF t(1) ins] t' by simp
  show "table_step t t'" using step_insert_lookup [OF ins] t' by simp
  have key: "node_key n2 = Some (seen_key (dir_seen i))"
    using t(2) id(2) by (auto simp: n2_def n_def node_or_new_def link nodes_upd_node keyed_def split: option.splits)
  show "keyed t'"
    using t(2) key by (auto simp: t' t2_def keyed_def link nodes_upd_node split: if_splits)
  have al: "node_aliases n = (case alias_list t i of Some as \<Rightarrow> as | None \<Rightarrow> [])"
    by (auto simp: n_def node_or_new_def link nodes_upd_node alias_list_def split: option.split)
  have "(p, nm) \<notin> set (node_aliases n)"
    using new [of i] by (auto simp: al alias_list_def aliases_of_def split: option.splits)
  then have "node_aliases n2 = node_aliases n @ [(p, nm)]"
    by (auto simp: n2_def filter_id_conv)
  then show "alias_list t' j = (if j = i then Some ((case alias_list t i of Some as \<Rightarrow> as | None \<Rightarrow> []) @ [(p, nm)]) else alias_list t j)"
    using al by (simp add: t' t2_def link alias_list_def nodes_upd_node option.map_comp comp_def)
qed

lemma aliases_of_list: "aliases_of t i = (case alias_list t i of Some as \<Rightarrow> set as | None \<Rightarrow> {})"
  by (simp add: aliases_of_def alias_list_def split: option.split)

lemma names_to_list:
  "names_to t i depth =
     (if i = ROOT then Some []
      else if depth > MAX_DEPTH then None
      else case alias_list t i of
        None \<Rightarrow> None
      | Some as \<Rightarrow> find_map (\<lambda>(parent, nm). map_option (\<lambda>ns. ns @ [nm]) (names_to t parent (Suc depth))) (rev as))"
  by (subst names_to.simps) (simp add: alias_list_def split: option.split)

subsection \<open>A directory with a short name and a long one\<close>

text \<open>A chain of directories, each named \<open>a\<close> in the last; the \<open>k\<close>-th has the number \<open>k + 1\<close>.\<close>

definition link :: "nat \<Rightarrow> u64" where "link k = word_of_nat (Suc k)"

fun chain :: "nat \<Rightarrow> node_table" where
  "chain 0 = new_table"
| "chain (Suc k) = looked_up (link k) (Name [97]) (dir_seen (link (Suc k))) (chain k)"

lemma unat_link: "k \<le> 3000 \<Longrightarrow> unat (link k) = Suc k"
  by (simp add: link_def unsigned_of_nat take_bit_nat_eq_self del: of_nat_Suc)

lemma link_eq: "j \<le> 3000 \<Longrightarrow> k \<le> 3000 \<Longrightarrow> link j = link k \<longleftrightarrow> j = k"
  using unat_link by (metis Suc_inject)

lemma link_0: "link 0 = ROOT"
  by (simp add: link_def ROOT_def)

lemma link_before: "link (Suc k) - 1 = link k"
  by (simp add: link_def)

lemma link_ge: "k \<le> 3000 \<Longrightarrow> 0 < k \<Longrightarrow> 2 \<le> link k"
  using unat_link [of k] by (simp add: word_le_nat_alt)

lemma link_not_root: "k \<le> 3000 \<Longrightarrow> 0 < k \<Longrightarrow> link k \<noteq> ROOT"
  using link_eq [of k 0] link_0 by simp

text \<open>What is known of the first \<open>k\<close> of the chain.\<close>

definition chained_dirs :: "nat \<Rightarrow> node_table \<Rightarrow> bool" where
  "chained_dirs k t \<longleftrightarrow> table_ok t \<and> keyed t \<and> reach (\<lambda>t. t = new_table) table_step t \<and>
     (\<forall>j. alias_list t j = (if j = ROOT then Some [] else
        if \<exists>m < k. j = link (Suc m) then Some [(j - 1, Name [97])] else None))"

lemma chain_dirs: "k \<le> 2999 \<Longrightarrow> chained_dirs k (chain k)"
proof (induction k)
  case 0
  then show ?case
    using new_table_ok by (auto simp: chained_dirs_def keyed_def alias_list_def new_table_def intro: reach_init)
next
  case (Suc k)
  then have ih: "chained_dirs k (chain k)" by simp
  have new: "(link k, Name [97]) \<notin> aliases_of (chain k) j" for j
  proof
    assume "(link k, Name [97]) \<in> aliases_of (chain k) j"
    then obtain m where "m < k" "j = link (Suc m)" "link k = j - 1"
      using ih by (auto simp: aliases_of_list chained_dirs_def split: if_splits)
    then show False using link_eq [of k m] Suc.prems by (simp add: link_before)
  qed
  have ge: "2 \<le> link (Suc k)" using link_ge [of "Suc k"] Suc.prems by simp
  note up = looked_up_dir [OF _ _ ge new, folded chain.simps(2)]
  have root: "link (Suc k) \<noteq> ROOT" using link_not_root [of "Suc k"] Suc.prems by simp
  have none: "alias_list (chain k) (link (Suc k)) = None"
    using ih Suc.prems root link_eq [of "Suc k"] by (auto simp: chained_dirs_def)
  show ?case
    using up(1-3) ih up(4) none root unfolding chained_dirs_def
    by (auto intro: reach_step simp: less_Suc_eq link_before)
qed

text \<open>
  Below a chain as long as paths are made: a directory looked up as \<open>/s\<close>, a file in it, and the directory
  looked up again where it has been moved to, at the end of the chain.
\<close>

definition with_short :: node_table where
  "with_short = looked_up ROOT (Name [115]) (dir_seen 3000) (chain MAX_DEPTH)"

definition with_file :: node_table where
  "with_file = looked_up 3000 (Name [120]) (dir_seen 3001) with_short"

definition deep :: node_table where
  "deep = looked_up (link MAX_DEPTH) (Name [97]) (dir_seen 3000) with_file"

lemma MAX_DEPTH_val: "MAX_DEPTH = 2048"
  by (simp add: MAX_DEPTH_def PATH_MAX_def)

lemma link_small: "k \<le> 2048 \<Longrightarrow> link k \<noteq> 3000" "k \<le> 2048 \<Longrightarrow> link k \<noteq> 3001"
  using unat_link [of k] by auto

lemma deep_aliases:
  "reach (\<lambda>t. t = new_table) table_step deep"
  "alias_list deep 3000 = Some [(ROOT, Name [115]), (link MAX_DEPTH, Name [97])]"
  "alias_list deep 3001 = Some [(3000, Name [120])]"
  "k < MAX_DEPTH \<Longrightarrow> alias_list deep (link (Suc k)) = Some [(link k, Name [97])]"
  "keyed deep"
proof -
  let ?c = "chain MAX_DEPTH"
  have c: "table_ok ?c" "keyed ?c" "reach (\<lambda>t. t = new_table) table_step ?c"
    and c_al: "alias_list ?c j = (if j = ROOT then Some [] else
        if \<exists>m < MAX_DEPTH. j = link (Suc m) then Some [(j - 1, Name [97])] else None)" for j
    using chain_dirs [of MAX_DEPTH] by (simp_all add: chained_dirs_def MAX_DEPTH_val)
  have ne: "(3000 :: u64) \<noteq> ROOT" "(3001 :: u64) \<noteq> ROOT" by (simp_all add: ROOT_def)
  have small: "link m \<noteq> 3000" "link m \<noteq> 3001" if "m \<le> MAX_DEPTH" for m
    using that link_small [of m] by (simp_all add: MAX_DEPTH_val)
  have chain_names: "as = [(j - 1, Name [97])] \<and> (\<exists>m < MAX_DEPTH. j = link (Suc m)) \<or> as = []" if "alias_list ?c j = Some as" for j as
    using that by (auto simp: c_al split: if_splits)
  have ge: "(2 :: u64) \<le> 3000" "(2 :: u64) \<le> 3001" by simp_all
  have new1: "(ROOT, Name [115]) \<notin> aliases_of ?c j" for j
    using chain_names [of j] by (auto simp: aliases_of_list split: option.splits)
  note t1 = looked_up_dir [OF c(1,2) ge(1) new1, folded with_short_def]
  have none: "alias_list ?c 3000 = None" "alias_list ?c 3001 = None"
    using ne small by (auto simp: c_al)
  have new2: "(3000, Name [120]) \<notin> aliases_of with_short j" for j
    using chain_names [of j] none by (auto simp: aliases_of_list t1(4) split: option.splits if_splits)
  note t2 = looked_up_dir [OF t1(1,2) ge(2) new2, folded with_file_def]
  have new3: "(link MAX_DEPTH, Name [97]) \<notin> aliases_of with_file j" for j
  proof
    assume "(link MAX_DEPTH, Name [97]) \<in> aliases_of with_file j"
    then obtain m where "m < MAX_DEPTH" "j = link (Suc m)" "link MAX_DEPTH = j - 1"
      using chain_names [of j] none by (auto simp: aliases_of_list t1(4) t2(4) split: option.splits if_splits)
    then show False using link_eq [of MAX_DEPTH m] by (simp add: link_before MAX_DEPTH_val)
  qed
  note t3 = looked_up_dir [OF t2(1,2) ge(1) new3, folded deep_def]
  show "reach (\<lambda>t. t = new_table) table_step deep"
    using c(3) t1(3) t2(3) t3(3) by (metis reach_step)
  show "keyed deep" using t3(2) .
  show "alias_list deep 3000 = Some [(ROOT, Name [115]), (link MAX_DEPTH, Name [97])]"
    "alias_list deep 3001 = Some [(3000, Name [120])]"
    using none by (simp_all add: t1(4) t2(4) t3(4))
  show "alias_list deep (link (Suc k)) = Some [(link k, Name [97])]" if "k < MAX_DEPTH"
  proof -
    have "link (Suc k) \<noteq> ROOT" using that link_not_root [of "Suc k"] by (simp add: MAX_DEPTH_val)
    then show ?thesis using that small [of "Suc k"] by (auto simp: t1(4) t2(4) t3(4) c_al link_before)
  qed
qed

lemma names_to_link:
  "k \<le> MAX_DEPTH \<Longrightarrow> names_to deep (link k) depth =
     (if k = 0 \<or> depth + k \<le> Suc MAX_DEPTH then Some (replicate k (Name [97])) else None)"
proof (induction k arbitrary: depth)
  case 0
  then show ?case by (simp add: link_0)
next
  case (Suc k)
  have "link (Suc k) \<noteq> ROOT" using link_not_root [of "Suc k"] Suc.prems by (simp add: MAX_DEPTH_val)
  then show ?case
    using Suc.IH [of "Suc depth"] Suc.prems deep_aliases(4) [of k]
    by (auto simp: names_to_list [of deep "link (Suc k)"] replicate_append_same)
qed

lemma deep_names:
  "names_to deep 3000 0 = Some (replicate (Suc MAX_DEPTH) (Name [97]))"
  "names_to deep 3001 0 = Some [Name [115], Name [120]]"
proof -
  have ne: "(3000 :: u64) \<noteq> ROOT" "(3001 :: u64) \<noteq> ROOT" by (simp_all add: ROOT_def)
  show "names_to deep 3000 0 = Some (replicate (Suc MAX_DEPTH) (Name [97]))"
    using ne deep_aliases(2) names_to_link [of MAX_DEPTH 1]
    by (simp add: names_to_list [of deep 3000] replicate_append_same)
  have "names_to deep 3000 1 = Some [Name [115]]"
    using ne deep_aliases(2) names_to_link [of MAX_DEPTH "Suc (Suc 0)"]
    by (simp add: names_to_list [of deep 3000] MAX_DEPTH_val)
  then show "names_to deep 3001 0 = Some [Name [115], Name [120]]"
    using ne deep_aliases(3) by (simp add: names_to_list [of deep 3001])
qed

lemma deep_path: "path_of deep 3001 = Some (Path [Name [115], Name [120]])"
  by (simp add: path_of_def deep_names(2) from_names_def byte_len_def PATH_MAX_def)

lemma deep_kept: "alias_was_wrong 3001 (Path [Name [115], Name [120]]) deep = (deep, None)"
proof -
  obtain n where n: "nodes deep 3001 = Some n" "node_aliases n = [(3000, Name [120])]"
    using deep_aliases(3) by (auto simp: alias_list_def)
  have "replicate (Suc MAX_DEPTH) (Name [97]) \<noteq> [Name [115]]" by simp
  then show ?thesis
    using n deep_names(1) by (simp add: alias_was_wrong_def rposition_def)
qed

text \<open>
  In a table the client can reach, the path of a node leads to another file, the name is looked for in order to
  be forgotten and is not found, and a \<open>getattr\<close> of the node never comes back: it asks the server the same
  again and again, which answers every time.
\<close>

theorem wrong_name_never_found:
  "reach (\<lambda>t. t = new_table) table_step deep \<and>
   path_of deep 3001 = Some (Path [Name [115], Name [120]]) \<and>
   alias_was_wrong 3001 (Path [Name [115], Name [120]]) deep = (deep, None) \<and>
   serve_node (answering (RAttr example_file)) 3001 (KGetattr None) (example_state\<lparr>fs_nodes := deep\<rparr>) = None"
proof -
  let ?e = "answering (RAttr example_file)"
  let ?s = "example_state\<lparr>fs_nodes := deep\<rparr>"
  have p: "path_for_handle_op ?e 3001 None ?s = Ok (Some (Path [Name [115], Name [120]]), None)"
    by (simp add: path_for_handle_op_def deep_path)
  have a: "client_getattr (fe_call ?e) p via ?s = (Ok example_file, ?s)" for p via
    by (simp add: client_getattr_def call_attr_def answering_def expecting_def want_attr_def)
  obtain n where "nodes deep 3001 = Some n" "node_key n = Some (seen_key (dir_seen 3001))"
    using deep_aliases(3,5) by (auto simp: alias_list_def keyed_def ROOT_def)
  then have "\<not> node_describes 3001 example_file ?s"
    by (simp add: node_describes_def ROOT_def describes_def seen_key_def dir_seen_def example_file_def)
  moreover have "forget_alias 3001 (Path [Name [115], Name [120]]) ?s = ?s"
    by (simp add: forget_alias_def deep_kept)
  ultimately have "addressed ?e (client_getattr (fe_call ?e)) 3001 None ?s \<noteq> Some (r, s')" for r s'
    using p a by (auto elim!: addressed_rule [where P = "\<lambda>s. s = ?s" and Q = "\<lambda>_ _. False"])
  then have "addressed ?e (client_getattr (fe_call ?e)) 3001 None ?s = None" by (metis option.exhaust prod.exhaust)
  then show ?thesis
    using deep_aliases(1) deep_path deep_kept by (simp add: fuse_getattr_def bind_io_def err_io_def)
qed

end
