(* ===== verification/FuseRefs.thy ===== *)
theory FuseRefs
  imports FuseNodes
begin

text \<open>
  The kernel's references to nodes.  Every entry the kernel is given, by a lookup, by a request that makes one or on a
  page of a directory with attributes, is a reference it holds until it gives it back; the node table
  counts them, and has a node for exactly as long as there are any.
\<close>

subsection \<open>Counting\<close>

definition lookups :: "node_table \<Rightarrow> u64 \<Rightarrow> nat" where
  "lookups t i = (case nodes t i of Some n \<Rightarrow> node_lookup_count n | None \<Rightarrow> 0)"

definition counts_are :: "(u64 \<Rightarrow> nat) \<Rightarrow> 's fuse \<Rightarrow> bool" where
  "counts_are c s \<longleftrightarrow> (\<forall>i. i \<noteq> ROOT \<longrightarrow> lookups (fs_nodes s) i = c i)"

lemma lookups_upd_node: "(\<And>n. node_lookup_count (f n) = node_lookup_count n) \<Longrightarrow> lookups (upd_node i f t) j = lookups t j"
  by (auto simp: lookups_def nodes_upd_node split: option.split)

lemma lookups_parts [simp]:
  "lookups (upd_node i (set_child n c) t) = lookups t"
  "lookups (drop_alias i p n t) = lookups t"
  "lookups (unlink_child i a t) = lookups t"
  "lookups (link_child p n i t) = lookups t"
proof -
  show child: "lookups (upd_node i (set_child n c) t) = lookups t" for i n c t
    by (rule ext, rule lookups_upd_node) simp
  show dropped: "lookups (drop_alias i p n t) = lookups t" for i p n t
    unfolding drop_alias_def by (rule ext, rule lookups_upd_node) simp
  show "lookups (unlink_child i a t) = lookups t"
    unfolding unlink_child_def by (rule ext, rule lookups_upd_node) simp
  show "lookups (link_child p n i t) = lookups t"
    by (simp add: link_child_def Let_def child dropped split: option.split)
qed

lemma quiet_step_lookups: "quiet_step t t' \<Longrightarrow> lookups t' = lookups t"
proof (induction rule: quiet_step.induct)
  case (quiet_wrong t i p)
  have "lookups (fst (alias_was_wrong i p t)) j = lookups t j" for j
    by (auto simp: alias_was_wrong_def Let_def lookups_upd_node split: list.split option.split)
  then show ?case by blast
next
  case (quiet_root t ident)
  show ?case by (rule ext) (simp add: root_seen_def lookups_upd_node)
next
  case (quiet_unlink t parent n)
  show ?case by (simp add: unlink_def split: option.split)
next
  case (quiet_rename t parent n newparent newname)
  show ?case
    by (rule ext) (auto simp: rename_def Let_def lookups_upd_node split: option.split)
next
  case (quiet_exchange t parent n newparent newname)
  show ?case
    by (rule ext) (auto simp: exchange_def unlink_def Let_def lookups_upd_node split: option.split)
qed

lemma counts_are_nodes: "fs_nodes s' = fs_nodes s \<Longrightarrow> counts_are c s' = counts_are c s"
  by (simp add: counts_are_def)

lemma dir_nodes [simp]:
  "fs_nodes (stash fh rest s) = fs_nodes s" "fs_nodes (upd_dir fh f s) = fs_nodes s" "fs_nodes (note_end fh final eof s) = fs_nodes s"
  "fs_nodes (dir_grew i s) = fs_nodes s"
  by (simp_all add: stash_def upd_dir_def note_end_def dir_grew_def split: option.split)

lemma counts_are_dirs: "counts_are c s \<Longrightarrow> counts_are c (s\<lparr>fs_dirs := ds\<rparr>)"
  by (simp add: counts_are_def)

interpretation references: shared_contract "counts_are c" for c
proof
  fix s :: "'s fuse" and t :: node_table
  show "counts_are c s \<Longrightarrow> quiet_step (fs_nodes s) t \<Longrightarrow> counts_are c (s\<lparr>fs_nodes := t\<rparr>)"
    using quiet_step_lookups [of "fs_nodes s" t] by (simp add: counts_are_def)
next
  fix s :: "'s fuse" and wk
  show "counts_are c s \<Longrightarrow> counts_are c (snd (send_work wk s))"
    by (simp add: send_work_def counts_are_def split: option.split)
next
  fix e :: "'s fuse_env" and fits ino fh offset
  assume e: "calls_keep (counts_are c) e"
  show "keeps (counts_are c) (fuse_readdir e fits ino fh offset)"
    using e counts_are_dirs by (rule readdir_blind)
qed (auto simp: counts_are_def)

subsection \<open>What a request adds\<close>

definition is_dots :: "u8 list \<Rightarrow> bool" where
  "is_dots n \<longleftrightarrow> n = [dot] \<or> n = [dot, dot]"

text \<open>The references the kernel is given on a page, and with a reply; the dots of a directory are none.\<close>

definition on_page :: "plus_item list \<Rightarrow> u64 \<Rightarrow> nat" where
  "on_page items i = length (filter (\<lambda>p. fa_ino (pi_attr p) = i \<and> \<not> is_dots (pi_name p)) items)"

definition handed :: "fuse_reply \<Rightarrow> u64 \<Rightarrow> nat" where
  "handed reply i =
     (case reply of
        FEntry _ _ fa \<Rightarrow> of_bool (fa_ino fa = i)
      | FCreated _ fa _ \<Rightarrow> of_bool (fa_ino fa = i)
      | FDirPlus items \<Rightarrow> on_page items i
      | _ \<Rightarrow> 0)"

text \<open>A step that adds to the counts what its result says, and nothing if it fails.\<close>

definition adds :: "('a \<Rightarrow> u64 \<Rightarrow> nat) \<Rightarrow> ('s fuse, 'a, 'e) io \<Rightarrow> bool" where
  "adds h m \<longleftrightarrow> (\<forall>s r s' i. m s = Some (r, s') \<longrightarrow> i \<noteq> ROOT \<longrightarrow>
     lookups (fs_nodes s') i = lookups (fs_nodes s) i + (case r of Inr a \<Rightarrow> h a i | Inl _ \<Rightarrow> 0))"

lemma addsD:
  "adds h m \<Longrightarrow> m s = Some (Ok a, s') \<Longrightarrow> i \<noteq> ROOT \<Longrightarrow> lookups (fs_nodes s') i = lookups (fs_nodes s) i + h a i"
  "adds h m \<Longrightarrow> m s = Some (Err err, s') \<Longrightarrow> i \<noteq> ROOT \<Longrightarrow> lookups (fs_nodes s') i = lookups (fs_nodes s) i"
  "adds h m \<Longrightarrow> m s = Some (r, s') \<Longrightarrow> i \<noteq> ROOT \<Longrightarrow>
     lookups (fs_nodes s') i = lookups (fs_nodes s) i + (case r of Inr a \<Rightarrow> h a i | Inl _ \<Rightarrow> 0)"
  by (fastforce simp: adds_def)+

lemma counts_left:
  assumes "\<And>c. keeps (counts_are c) m" and "m s = Some (r, s')" and "i \<noteq> ROOT"
  shows "lookups (fs_nodes s') i = lookups (fs_nodes s) i"
  using keepsD [OF assms(1) _ assms(2), of "lookups (fs_nodes s)"] assms(3) by (simp add: counts_are_def)

lemma adds_nothing:
  assumes "\<And>c. keeps (counts_are c) m" and "yields (\<lambda>a. \<forall>i. h a i = 0) m"
  shows "adds h m"
  unfolding adds_def
proof (intro allI impI)
  fix s r s' i
  assume "m s = Some (r, s')" "i \<noteq> ROOT"
  with counts_left [OF assms(1) this] yieldsD [OF assms(2), of s]
  show "lookups (fs_nodes s') i = lookups (fs_nodes s) i + (case r of Inr a \<Rightarrow> h a i | Inl _ \<Rightarrow> 0)"
    by (cases r) auto
qed

lemma adds_after:
  assumes "\<And>c. keeps (counts_are c) m" and "\<And>a. adds h (f a)"
  shows "adds h (bind_io m f)"
  unfolding adds_def
proof (intro allI impI)
  fix s r s' i
  assume run: "bind_io m f s = Some (r, s')" and i: "i \<noteq> ROOT"
  from run show "lookups (fs_nodes s') i = lookups (fs_nodes s) i + (case r of Inr a \<Rightarrow> h a i | Inl _ \<Rightarrow> 0)"
    unfolding bind_io_Some
  proof (elim disjE exE conjE)
    fix err
    assume "m s = Some (Err err, s')" "r = Err err"
    then show ?thesis using counts_left [OF assms(1) _ i] by simp
  next
    fix a z
    assume m: "m s = Some (Ok a, z)" and f: "f a z = Some (r, s')"
    have "lookups (fs_nodes z) i = lookups (fs_nodes s) i" using counts_left [OF assms(1) m i] .
    then show ?thesis using assms(2) [of a] f i by (auto simp: adds_def)
  qed
qed

lemma insert_lookup_adds:
  assumes "insert_lookup t parent n seen = Some (t', r)"
  shows "lookups t' j = lookups t j + of_bool (r = Some j)"
proof (cases r)
  case None
  then show ?thesis using assms by (auto simp: insert_lookup_def Let_def split: option.splits if_splits)
next
  case (Some i)
  let ?t1 = "link_child parent n i t"
  have i: "id_for t seen = Some i" "i \<noteq> ROOT" using assms Some insert_lookup_Some(1,2) by metis+
  have t': "t' = ?t1\<lparr>nodes := (nodes ?t1)(i \<mapsto> push_alias (parent, n) (retain_others (parent, n)
      ((node_or_new i seen ?t1)\<lparr>node_unlinked := False, node_kind := seen_kind seen,
        node_lookup_count := node_lookup_count (node_or_new i seen ?t1) + 1\<rparr>))),
      by_key := (by_key ?t1)(seen_key seen \<mapsto> i)\<rparr>"
    using assms Some i by (simp add: insert_lookup_def Let_def)
  have "lookups t' j = (if j = i then lookups ?t1 i + 1 else lookups ?t1 j)"
    unfolding lookups_def t' by (simp add: node_or_new_def split: option.split)
  then show ?thesis using Some by simp
qed

lemma reported_lookups: "lookups (fs_nodes (attr_reported e i a (xattr_remember e i a s))) j = lookups (fs_nodes s) j" if "j \<noteq> ROOT"
proof -
  have "counts_are (lookups (fs_nodes s)) (attr_reported e i a (xattr_remember e i a s))"
    by (intro references.change_keeps) (simp add: counts_are_def)
  with that show ?thesis by (simp add: counts_are_def)
qed

lemma register_adds: "adds (\<lambda>i j. of_bool (i = j)) (register e parent n a)"
  unfolding adds_def
proof (intro allI impI)
  fix s r s' i
  assume run: "register e parent n a s = Some (r, s')" and i: "i \<noteq> ROOT"
  obtain t ri where ins: "insert_lookup (fs_nodes s) parent n (seen_of a) = Some (t, ri)"
    using run by (auto simp: register_def split: option.splits)
  show "lookups (fs_nodes s') i = lookups (fs_nodes s) i + (case r of Inr a \<Rightarrow> of_bool (a = i) | Inl _ \<Rightarrow> 0)"
    using run ins insert_lookup_adds [OF ins, of i]
    by (auto simp: register_def reported_lookups [OF i] split: option.splits)
qed

lemma reply_entry_adds: "adds handed (reply_entry e parent n a)"
  unfolding adds_def
proof (intro allI impI)
  fix s r s' i
  assume run: "reply_entry e parent n a s = Some (r, s')" and i: "i \<noteq> ROOT"
  from run consider err where "register e parent n a s = Some (Err err, s')" "r = Err err"
    | j fa where "register e parent n a s = Some (Ok j, s')" "file_attr j a = Some fa"
      "r = Ok (FEntry (fe_attr_ttl e) (fe_entry_ttl e) fa)"
    by (auto simp: reply_entry_def bind_io_Some unless_panic_def ret_def split: option.splits)
  then show "lookups (fs_nodes s') i = lookups (fs_nodes s) i + (case r of Inr a \<Rightarrow> handed a i | Inl _ \<Rightarrow> 0)"
    using addsD [OF register_adds _ i, of e parent n a s] file_attr_ino [of _ a] by cases (auto simp: handed_def)
qed

lemma reply_created_adds: "adds handed (reply_created e parent n a)"
  unfolding reply_created_def by (intro adds_after reply_entry_adds keeps_intros references.grown)

subsection \<open>Every request\<close>

lemma add_plus_adds:
  assumes run: "add_plus e fits ino entry added s = Some (r, s')" and i: "i \<noteq> ROOT"
  shows "case r of
      None \<Rightarrow> lookups (fs_nodes s') i = lookups (fs_nodes s) i
    | Some (taken, added') \<Rightarrow> if taken then lookups (fs_nodes s') i + on_page added i = lookups (fs_nodes s) i + on_page added' i
        else added' = added \<and> lookups (fs_nodes s') i = lookups (fs_nodes s) i"
proof (cases "is_dots (entry_name entry)")
  case True
  then show ?thesis
    using run by (auto simp: add_plus_def is_dots_def on_page_def Let_def split: if_splits)
next
  case False
  have entry: "lookups (fs_nodes (attr_reported e j a (xattr_remember e j a (s\<lparr>fs_nodes := t\<rparr>)))) i = lookups (fs_nodes s) i + of_bool (j = i)"
    if "insert_lookup (fs_nodes s) ino n (seen_of a) = Some (t, rj)" "id_for (fs_nodes s) (seen_of a) = Some j" for j a t rj n
  proof -
    have "rj = (if j = ROOT then None else Some j)"
      using that by (auto simp: insert_lookup_def Let_def split: if_splits)
    then show ?thesis using insert_lookup_adds [OF that(1), of i] i by (simp add: reported_lookups [OF i])
  qed
  show ?thesis
    using run False entry
    by (auto simp: add_plus_def is_dots_def on_page_def Let_def dest!: file_attr_ino
        split: if_splits option.splits sum.splits prod.splits Option.bind_splits)
qed

lemma add_plus_all_adds:
  assumes "add_plus_all e fits ino fh page added s = Some (added', s')" and i: "i \<noteq> ROOT"
  shows "lookups (fs_nodes s') i + on_page added i = lookups (fs_nodes s) i + on_page added' i"
  using assms(1)
proof (induction e fits ino fh page added s rule: add_plus_all.induct)
  case (2 e fits ino fh c entry rest added s)
  from 2(3) obtain r s1 where one: "add_plus e fits ino entry added s = Some (r, s1)"
    by (auto split: option.splits)
  note step = add_plus_adds [OF one i]
  show ?case
  proof (cases r)
    case None
    then show ?thesis using 2(1) [OF one] 2(3) one step by simp
  next
    case (Some z)
    obtain taken added1 where z: "z = (taken, added1)" by (cases z)
    show ?thesis
    proof (cases taken)
      case True
      have "lookups (fs_nodes s') i + on_page added1 i = lookups (fs_nodes s1) i + on_page added' i"
        using 2(2) [OF one] 2(3) one Some z True by simp
      then show ?thesis using step Some z True by simp
    next
      case False
      then show ?thesis using 2(3) one step Some z by auto
    qed
  qed
qed simp

lemma fuse_readdirplus_adds:
  assumes e: "\<And>c. calls_keep (counts_are c) e"
  shows "adds handed (fuse_readdirplus e fits ino fh offset)"
  unfolding fuse_readdirplus_def
proof (rule adds_after)
  show "keeps (counts_are c) (dir_page e fh offset True)" for c using e counts_are_dirs by (rule dir_page_blind)
next
  fix page
  show "adds handed (\<lambda>s. map_option (\<lambda>(added, s1). (Ok (FDirPlus added), s1)) (add_plus_all e fits ino fh page [] s))"
    unfolding adds_def using add_plus_all_adds [of e fits ino fh page "[]"]
    by (auto simp: handed_def) (simp add: on_page_def)
qed

lemma open_handle_ends_Ok:
  "open_handle_ends fh p flags kind opn (\<lambda>_. r) out t = Some (res, t') \<Longrightarrow>
     (\<exists>a. res = Ok (fh, a) \<and> out = Ok (ROpened a) \<and> (\<exists>i. r = Ok i)) \<or> (\<exists>err. res = Err err) \<and> \<not> (\<exists>a i. out = Ok (ROpened a) \<and> r = Ok i)"
  by (auto simp: open_handle_ends_def Let_def open_settled_def split: sum.splits response.splits client_error.splits)

lemma create_adds:
  assumes e: "\<And>c. calls_keep (counts_are c) e"
    and run: "fuse_open_handle e p flags kind opn build (create_node e parent n) s = Some (res, x, s')" and i: "i \<noteq> ROOT"
  shows "lookups (fs_nodes s') i = lookups (fs_nodes s) i +
    (case res of Inr (fh, a) \<Rightarrow> (case x of Some (Some j) \<Rightarrow> of_bool (j = i) | _ \<Rightarrow> 0) | Inl _ \<Rightarrow> 0)"
proof -
  obtain t1 fh where al: "alloc (fs_handles s) = (t1, fh)" by (metis prod.exhaust)
  obtain out s1 where call: "fe_call e (build fh) (s\<lparr>fs_handles := t1\<rparr>) = (out, s1)" by (metis prod.exhaust)
  have "counts_are (lookups (fs_nodes s)) (s\<lparr>fs_handles := t1\<rparr>)" by (simp add: counts_are_def)
  then have s1: "lookups (fs_nodes s1) i = lookups (fs_nodes s) i"
    using call_keeps [OF e, of "lookups (fs_nodes s)" _ "build fh"] call i by (metis counts_are_def snd_conv)
  show ?thesis
  proof (cases "\<exists>a. out = Ok (ROpened a)")
    case False
    then show ?thesis
      using run al call s1 open_handle_ends_Ok
      by (fastforce simp: fuse_open_handle_def split: sum.splits response.splits)
  next
    case True
    then obtain a where a: "out = Ok (ROpened a)" by blast
    with run al call obtain r2 s2 where reg: "register e parent n a (dir_grew parent s1) = Some (r2, s2)"
      by (auto simp: fuse_open_handle_def create_node_def split: option.splits)
    with run al call a obtain t2 where ends:
      "open_handle_ends fh p flags kind opn (\<lambda>_. map_err Remote r2) out (fs_handles s2) = Some (res, t2)"
      "s' = s2\<lparr>fs_handles := t2\<rparr>" "x = Some (case r2 of Inr i \<Rightarrow> Some i | Inl _ \<Rightarrow> None)"
      by (auto simp: fuse_open_handle_def create_node_def)
    have "lookups (fs_nodes s2) i = lookups (fs_nodes s) i + (case r2 of Inr j \<Rightarrow> of_bool (j = i) | Inl _ \<Rightarrow> 0)"
      using addsD(3) [OF register_adds reg i] s1 by simp
    then show ?thesis
      using open_handle_ends_Ok [OF ends(1)] ends(2,3) a by (auto simp: map_err_def split: sum.splits)
  qed
qed

lemma fuse_create_adds:
  assumes e: "\<And>c. calls_keep (counts_are c) e"
  shows "adds handed (fuse_create e tid parent os mode flags)"
proof -
  have "adds handed (\<lambda>s. case fuse_open_handle e q fl KFile opn b (create_node e parent n) s of
               None \<Rightarrow> None
             | Some (Inl err, _, s1) \<Rightarrow> fail (error_errno err) s1
             | Some (Inr (fh, a), Some (Some i), s1) \<Rightarrow> bind_io (unless_panic (file_attr i a)) (\<lambda>fa. ret (FCreated ttl fa fh)) s1
             | Some (Inr _, _, s1) \<Rightarrow> fail EIO s1)" for q fl opn b n ttl
    unfolding adds_def
    by (auto simp: handed_def fail_def ret_def bind_io_def unless_panic_def dest!: create_adds [OF e] file_attr_ino
        split: option.splits sum.splits prod.splits)
  then have "adds handed (case join p n of
        Inl _ \<Rightarrow> fail (error_errno (Remote ENAMETOOLONG))
      | Inr q \<Rightarrow> (\<lambda>s. case fuse_open_handle e q fl KFile opn (\<lambda>fh. Create fh p n mode fl) (create_node e parent n) s of
               None \<Rightarrow> None
             | Some (Inl err, _, s1) \<Rightarrow> fail (error_errno err) s1
             | Some (Inr (fh, a), Some (Some i), s1) \<Rightarrow> bind_io (unless_panic (file_attr i a)) (\<lambda>fa. ret (FCreated ttl fa fh)) s1
             | Some (Inr _, _, s1) \<Rightarrow> fail EIO s1))" for p fl opn n ttl
    by (auto simp: adds_def fail_def split: sum.split)
  then show ?thesis
    unfolding fuse_create_def Let_def using e by (intro adds_after keeps_intros)
qed

lemma reply_xattr_yields: "yields (\<lambda>r. \<forall>i. handed r i = 0) (reply_xattr amount val)"
  unfolding reply_xattr_def by (intro yields_intros) (simp_all add: handed_def)

lemma quiet_name_yields:
  "k = KUnlink \<or> k = KRmdir \<or> (\<exists>newparent newname flags. k = KRename newparent newname flags) \<Longrightarrow>
     yields (\<lambda>r. \<forall>i. handed r i = 0) (serve_name e parent n k)"
  by (auto simp: fuse_unlink_def fuse_rmdir_def fuse_rename_def handed_def intro!: yields_intros)

lemma quiet_node_yields:
  assumes "\<And>nlookup. k \<noteq> KForget nlookup" and "\<And>newparent n. k \<noteq> KLink newparent n"
  shows "yields (\<lambda>r. \<forall>i. handed r i = 0) (serve_node e ino k)"
proof (cases k)
  case (KGetattr fh)
  then show ?thesis by (auto simp: yields_def handed_def elim!: getattr_own)
next
  case (KSetattr change fh)
  then show ?thesis by (auto simp: yields_def handed_def elim!: setattr_own)
next
  case (KGetxattr n amount)
  have "yields (\<lambda>r. \<forall>i. handed r i = 0) (bind_io (fuse_path_of ino) (\<lambda>p.
      bind_io (ask (client_getxattr (fe_call e) p n)) (\<lambda>val. reply_xattr amount val)))"
    by (intro yields_intros reply_xattr_yields)
  then show ?thesis by (auto simp: KGetxattr fuse_getxattr_def yields_def fail_def split: if_splits)
next
  case (KListxattr amount)
  have "yields (\<lambda>r. \<forall>i. handed r i = 0) (bind_io (fuse_path_of ino) (\<lambda>p.
      bind_io (ask (client_listxattr (fe_call e) p)) (\<lambda>val. reply_xattr amount val)))"
    by (intro yields_intros reply_xattr_yields)
  then show ?thesis
    using yieldsD [OF reply_xattr_yields]
    by (fastforce simp: KListxattr fuse_listxattr_def yields_def split: option.splits)
next
  case KStatfs
  then show ?thesis by (auto simp: fuse_statfs_def yields_def bind_io_Some ret_def handed_def)
qed (use assms in \<open>auto simp: fuse_readlink_def fuse_open_def fuse_opendir_def fuse_setxattr_def fuse_removexattr_def fuse_access_def
      Let_def handed_def intro!: yields_intros split: prod.split\<close>)

lemma quiet_handle_yields:
  assumes "\<And>fits ino offset. k \<noteq> KReaddirplus fits ino offset"
  shows "yields (\<lambda>r. \<forall>i. handed r i = 0) (serve_handle e fh k)"
proof (cases k)
  case (KLseek ino offset whence)
  have "yields (\<lambda>r. \<forall>i. handed r i = 0) (bind_io (ask (client_lseek (fe_call e) fh offset w)) (\<lambda>found.
            if uint found < 2 ^ 63 then ret (FOffset (uint found)) else fail EIO))" for w
    by (intro yields_intros) (simp add: handed_def)
  then show ?thesis by (auto simp: KLseek fuse_lseek_def yields_def fail_def split: option.splits if_splits)
next
  case (KRelease ino)
  then show ?thesis by (auto simp: fuse_release_def yields_def bind_io_Some ret_def handed_def Let_def)
next
  case (KReaddir fits ino offset)
  then show ?thesis by (auto simp: fuse_readdir_def yields_def bind_io_Some handed_def split: option.splits)
qed (use assms in \<open>auto simp: fuse_read_def fuse_write_def fuse_copy_file_range_def fuse_fallocate_def fuse_flush_def
      fuse_fsync_def fuse_fsyncdir_def fuse_releasedir_def fuse_ioctl_def handed_def intro!: yields_intros\<close>)

text \<open>What the kernel gives back with a request.\<close>

definition given_back :: "fuse_request \<Rightarrow> u64 \<Rightarrow> nat" where
  "given_back k i = (case k of KNode ino (KForget nlookup) \<Rightarrow> if i = ino then unat nlookup else 0 | _ \<Rightarrow> 0)"

lemma forget_lookups:
  assumes "i \<noteq> ROOT"
  shows "lookups (fst (forget j count t)) i = lookups t i - (if i = j then count else 0)"
proof -
  have folded: "lookups (fold (unlink_child j) as t) = lookups t" for as t by (induction as arbitrary: t) simp_all
  have put: "lookups (t\<lparr>nodes := (nodes t)(j := n)\<rparr>) i = (if i = j then (case n of Some n \<Rightarrow> node_lookup_count n | None \<Rightarrow> 0) else lookups t i)"
    and key: "lookups (t\<lparr>by_key := b\<rparr>) = lookups t" for t :: node_table and n b
    by (auto simp: lookups_def fun_eq_iff)
  show ?thesis
  proof (cases "nodes t j")
    case None
    then have "lookups t j = 0" by (simp add: lookups_def)
    then show ?thesis using None by (auto simp: forget_def)
  next
    case (Some n)
    then have n: "lookups t j = node_lookup_count n" by (simp add: lookups_def)
    let ?t1 = "t\<lparr>nodes := (nodes t)(j := None)\<rparr>"
    let ?t2 = "case node_key n of Some k \<Rightarrow> ?t1\<lparr>by_key := (by_key ?t1)(k := None)\<rparr> | None \<Rightarrow> ?t1"
    have "lookups ?t2 i = (if i = j then 0 else lookups t i)"
      using put [of t None] by (cases "node_key n") (simp_all add: key)
    then show ?thesis
      using Some n assms put [of t] by (auto simp: forget_def Let_def folded)
  qed
qed

lemma serve_counts:
  assumes e: "\<And>c. calls_keep (counts_are c) e" and run: "fuse_serve e k s = Some (r, s')" and i: "i \<noteq> ROOT"
  shows "lookups (fs_nodes s') i = lookups (fs_nodes s) i + (case r of Inr reply \<Rightarrow> handed reply i | Inl _ \<Rightarrow> 0) - given_back k i"
proof (cases "\<exists>ino nlookup. k = KNode ino (KForget nlookup)")
  case True
  then show ?thesis
    using run i by (auto simp: fuse_forget_def given_back_def handed_def split_beta Let_def forget_lookups
        xattr_forget_def reported_forget_def)
next
  case False
  have "adds handed (serve_name e parent n kn)" for parent n kn
  proof (cases "kn = KUnlink \<or> kn = KRmdir \<or> (\<exists>newparent newname flags. kn = KRename newparent newname flags)")
    case True
    then show ?thesis by (intro adds_nothing references.quiet_name_keeps e quiet_name_yields)
  next
    case False
    then show ?thesis
      using e fuse_create_adds [OF e]
      by (cases kn) (auto simp: fuse_lookup_def fuse_mknod_def fuse_mkdir_def fuse_symlink_def
          intro!: adds_after keeps_intros reply_entry_adds reply_created_adds)
  qed
  moreover have "adds handed (serve_node e ino kn)" if "k = KNode ino kn" for ino kn
  proof (cases "\<exists>newparent n. kn = KLink newparent n")
    case True
    then show ?thesis
      using e by (auto simp: fuse_link_def intro!: adds_after keeps_intros reply_created_adds references.forget_alias_keeps)
  next
    case link: False
    then show ?thesis
      using False that by (intro adds_nothing references.quiet_node_keeps e quiet_node_yields) auto
  qed
  moreover have "adds handed (serve_handle e fh kn)" for fh kn
  proof (cases "\<exists>fits ino offset. kn = KReaddirplus fits ino offset")
    case True
    then show ?thesis using fuse_readdirplus_adds [OF e] by auto
  next
    case False
    then show ?thesis by (intro adds_nothing references.quiet_handle_keeps e quiet_handle_yields) auto
  qed
  ultimately have all: "adds handed (fuse_serve e k)" by (cases k) auto
  have "given_back k i = 0" using False by (auto simp: given_back_def split: fuse_request.split node_op.split)
  then show ?thesis using addsD(3) [OF all run i] by simp
qed

subsection \<open>Property\<close>

text \<open>The kernel's side: what it holds after a sequence of requests.\<close>

fun kernel_holds :: "'s fuse_env \<Rightarrow> fuse_request list \<Rightarrow> (u64 \<Rightarrow> nat) \<Rightarrow> 's fuse \<Rightarrow> ((u64 \<Rightarrow> nat) \<times> 's fuse) option" where
  "kernel_holds e [] held s = Some (held, s)"
| "kernel_holds e (k # ks) held s =
     (case fuse_serve e k s of
        None \<Rightarrow> None
      | Some (r, s1) \<Rightarrow>
          kernel_holds e ks (\<lambda>i. held i + (case r of Inr reply \<Rightarrow> handed reply i | Inl _ \<Rightarrow> 0) - given_back k i) s1)"

lemma kernel_holds_counts:
  assumes "\<And>c. calls_keep (counts_are c) e" and "kernel_holds e ks held s = Some (held', s')" and "i \<noteq> ROOT"
    and "lookups (fs_nodes s) i = held i"
  shows "lookups (fs_nodes s') i = held' i"
  using assms(2,4)
proof (induction ks arbitrary: held s)
  case (Cons k ks)
  from Cons.prems obtain r s1 where run: "fuse_serve e k s = Some (r, s1)" by (auto split: option.splits)
  show ?case
    using Cons serve_counts [OF assms(1) run assms(3)] run by auto
qed simp

lemma kernel_holds_serves: "kernel_holds e ks held s = Some (held', s') \<Longrightarrow> serve_all e ks s = Some s'"
  by (induction ks arbitrary: held s) (auto split: option.splits)

text \<open>
  C17. The kernel and the client agree on what the kernel holds: after any requests, the client has a node, other than the
  root, exactly when the kernel holds references to it, and counts as many as the kernel was given and has
  not given back, by lookups, by requests that make an entry and by pages with attributes, failed
  requests and entries that found no room on a page having given none.
\<close>

theorem kernel_references_counted:
  assumes "\<And>c. calls_keep (counts_are c) e" and "calls_keep fuse_ok e"
    and "kernel_holds e ks (\<lambda>_. 0) (fuse_new table_default w) = Some (held, s)" and "i \<noteq> ROOT"
  shows "lookups (fs_nodes s) i = held i \<and> (has_node (fs_nodes s) i \<longleftrightarrow> 0 < held i)"
proof -
  have "lookups new_table i = 0" using assms(4) by (simp add: lookups_def new_table_def)
  then have n: "lookups (fs_nodes s) i = held i"
    using kernel_holds_counts [OF assms(1,3,4)] by (simp add: fuse_new_def)
  have "fuse_ok s" using serve_all_ok [OF assms(2) fuse_new_ok kernel_holds_serves [OF assms(3)]] .
  then have "0 < node_lookup_count m" if "nodes (fs_nodes s) i = Some m" for m
    using that fuse_okD(1) [of s] by (auto simp: table_ok_def keys_ok_def)
  then have "has_node (fs_nodes s) i \<longleftrightarrow> 0 < lookups (fs_nodes s) i"
    by (auto simp: has_node_def lookups_def split: option.split)
  with n show ?thesis by simp
qed

theorem kernel_references_counted_witness:
  "\<exists>held s. kernel_holds (answering (REntry example_file)) [KName ROOT [97] KLookup, KName ROOT [97] KLookup] (\<lambda>_. 0)
       (fuse_new table_default ()) = Some (held, s) \<and> held 5 = 2 \<and> lookups (fs_nodes s) 5 = 2 \<and> has_node (fs_nodes s) 5"
proof -
  let ?run = "kernel_holds (answering (REntry example_file)) [KName ROOT [97] KLookup, KName ROOT [97] KLookup] (\<lambda>_. 0)
       (fuse_new table_default ())"
  have "map_option (\<lambda>(held, s). held 5) ?run = Some 2"
    by code_simp
  then obtain held s where run: "?run = Some (held, s)" and "held 5 = 2" by auto
  moreover have "(5 :: u64) \<noteq> ROOT" by (simp add: ROOT_def)
  ultimately show ?thesis
    using kernel_references_counted [OF answering_keeps answering_keeps run, of 5] by auto
qed

end
