(* ===== verification/Invalidate.thy ===== *)
theory Invalidate
  imports FuseNodes
begin

text \<open>
  The invalidation of what the kernel caches (\<open>crates/client/src/invalidate.rs\<close>): the task that turns the
  server's events and the comings of a connection into work, the bounded queue it shares with the FUSE layer,
  and the thread that takes the work from the queue and makes the calls to the kernel.  A call's error is only
  logged, so a call is what was asked of the kernel.  A \<open>HashMap\<close> iterates in an order of its own, which is
  an argument.
\<close>

subsection \<open>What events ask for\<close>

definition SWEEP_LIMIT :: nat where "SWEEP_LIMIT = 4096"

text \<open>The orders the tables iterate in: of the handles, of the nodes, and of the children of a node.\<close>

record inval_env =
  ie_handles :: "handle_table \<Rightarrow> u64 list"
  ie_nodes :: "node_table \<Rightarrow> u64 list"
  ie_children :: "(name \<rightharpoonup> u64) \<Rightarrow> (name \<times> u64) list"

definition open_now :: "inval_env \<Rightarrow> 's fuse \<Rightarrow> u64 list" where
  "open_now e sh = open_nodeids (ie_handles e (fs_handles sh)) (fs_handles sh)"

definition entry_work :: "node \<Rightarrow> work list" where
  "entry_work n = map (\<lambda>(parent, nm). WorkEntry parent nm) (node_aliases n)"

definition item_work :: "inval_env \<Rightarrow> node_table \<Rightarrow> u64 list \<Rightarrow> event_item \<Rightarrow> work list" where
  "item_work e t opened item =
     (case item of
        EventEntry dir nm \<Rightarrow> (case resolve_path t dir of Some parent \<Rightarrow> [WorkEntry parent nm] | None \<Rightarrow> [])
      | EventData p \<Rightarrow>
          (case resolve_path t p of
             None \<Rightarrow> []
           | Some ino \<Rightarrow>
               WorkInode ino #
               (case nodes t ino of
                  Some n \<Rightarrow> if node_kind n = Regular then entry_work n else []
                | None \<Rightarrow> []))
      | Overflow \<Rightarrow> [WorkSweep]
      | Unwatched dir \<Rightarrow>
          (case resolve_path t dir of
             None \<Rightarrow> []
           | Some ino \<Rightarrow>
               (case nodes t ino of
                  None \<Rightarrow> []
                | Some n \<Rightarrow>
                    entry_work n @ [WorkDirGrew ino] @
                    map WorkInode (filter (\<lambda>c. c \<in> set opened) (map snd (ie_children e (node_children n)))))))"

definition is_unwatched :: "event_item \<Rightarrow> bool" where
  "is_unwatched item = (case item of Unwatched _ \<Rightarrow> True | _ \<Rightarrow> False)"

definition event_work :: "inval_env \<Rightarrow> event_item list \<Rightarrow> 's fuse \<Rightarrow> work list" where
  "event_work e items sh =
     (let opened = (if list_ex is_unwatched items then open_now e sh else [])
      in concat (map (item_work e (fs_nodes sh) opened) items))"

subsection \<open>The translator\<close>

text \<open>\<open>try_send\<close>: taken, refused for want of room, or refused because the receiver is gone.\<close>

datatype sent = SendTaken | SendFull | SendGone

definition try_send :: "work \<Rightarrow> 's fuse \<Rightarrow> sent \<times> 's fuse" where
  "try_send wk sh =
     (if fs_queue sh = None then (SendGone, sh)
      else let (taken, sh1) = send_work wk sh in (if taken then SendTaken else SendFull, sh1))"

text \<open>
  What invalidation holds: what it shares with the FUSE layer, the locals of the translator's loop, what is left
  in a queue that has no sender any more, and what the notifier thread has done: each work with the calls it made.
\<close>

datatype notifier_call = InvalEntry u64 name | InvalInode u64 int

record 's inval =
  iv_shared :: "'s fuse"
  iv_sweep_pending :: bool
  iv_last_generation :: nat
  iv_translating :: bool
  iv_left :: "work list"
  iv_done :: "(work \<times> notifier_call list) list"

text \<open>\<open>Invalidator::start\<close>.\<close>

definition inval_start :: "'s fuse \<Rightarrow> 's inval" where
  "inval_start sh =
     \<lparr>iv_shared = invalidations_set sh, iv_sweep_pending = False, iv_last_generation = 0, iv_translating = True,
      iv_left = [], iv_done = []\<rparr>"

text \<open>The work of one event or change of state is sent, from the first, until one finds no room.\<close>

fun send_work_items :: "work list \<Rightarrow> 's inval \<Rightarrow> 's inval" where
  "send_work_items [] v = v"
| "send_work_items (wk # wks) v =
     (case try_send wk (iv_shared v) of
        (SendTaken, sh) \<Rightarrow> send_work_items wks (v\<lparr>iv_shared := sh\<rparr>)
      | (SendFull, sh) \<Rightarrow> v\<lparr>iv_shared := sh, iv_sweep_pending := True\<rparr>
      | (SendGone, sh) \<Rightarrow> v\<lparr>iv_shared := sh, iv_translating := False\<rparr>)"

text \<open>The end of the loop's body: a sweep that is pending goes first.\<close>

definition translated :: "work list \<Rightarrow> 's inval \<Rightarrow> 's inval" where
  "translated wks v =
     (if iv_sweep_pending v then
        (case try_send WorkSweep (iv_shared v) of
           (SendTaken, sh) \<Rightarrow> send_work_items wks (v\<lparr>iv_shared := sh, iv_sweep_pending := False\<rparr>)
         | (SendFull, sh) \<Rightarrow> v\<lparr>iv_shared := sh\<rparr>
         | (SendGone, sh) \<Rightarrow> v\<lparr>iv_shared := sh, iv_translating := False\<rparr>)
      else send_work_items wks v)"

definition on_event :: "inval_env \<Rightarrow> event_item list \<Rightarrow> 's inval \<Rightarrow> 's inval" where
  "on_event e items v = translated (event_work e items (iv_shared v)) v"

definition on_state :: "conn_state \<Rightarrow> 's inval \<Rightarrow> 's inval" where
  "on_state st v =
     (case st of
        Connected att \<Rightarrow>
          (let generation = at_generation (an_state att)
           in translated (if generation > 1 \<and> generation \<noteq> iv_last_generation v then [WorkSweep] else [])
                (v\<lparr>iv_last_generation := generation\<rparr>))
      | _ \<Rightarrow> v)"

text \<open>The sender of events or of the connection's state is gone.\<close>

definition on_closed :: "'s inval \<Rightarrow> 's inval" where
  "on_closed v = v\<lparr>iv_translating := False\<rparr>"

text \<open>\<open>drop\<close>: no sender is left, and the notifier thread drains what is in the queue.\<close>

definition inval_stop :: "'s inval \<Rightarrow> 's inval" where
  "inval_stop v =
     v\<lparr>iv_left := (case fs_queue (iv_shared v) of Some q \<Rightarrow> q | None \<Rightarrow> iv_left v),
       iv_shared := invalidations_clear (iv_shared v), iv_translating := False\<rparr>"

subsection \<open>The notifier thread\<close>

definition inval_inode :: "inval_env \<Rightarrow> 's fuse \<Rightarrow> u64 \<Rightarrow> notifier_call" where
  "inval_inode e sh ino =
     InvalInode ino (if has_writer (ie_handles e (fs_handles sh)) ino (fs_handles sh) then - 1 else 0)"

definition node_iteration :: "inval_env \<Rightarrow> node_table \<Rightarrow> (u64 \<times> (name \<times> u64) list) list" where
  "node_iteration e t =
     List.map_filter (\<lambda>i. map_option (\<lambda>n. (i, ie_children e (node_children n))) (nodes t i)) (ie_nodes e t)"

definition sweep :: "inval_env \<Rightarrow> 's fuse \<Rightarrow> notifier_call list" where
  "sweep e sh =
     (let opened = open_now e sh;
          found = entries (node_iteration e (fs_nodes sh)) SWEEP_LIMIT;
          files = map (\<lambda>(_, _, c). c)
            (filter (\<lambda>(_, _, c). case nodes (fs_nodes sh) c of Some n \<Rightarrow> node_kind n = Regular | None \<Rightarrow> False) found)
      in map (inval_inode e sh) (opened @ files) @ map (\<lambda>(parent, nm, _). InvalEntry parent nm) found)"

definition notify :: "inval_env \<Rightarrow> work \<Rightarrow> 's fuse \<Rightarrow> notifier_call list \<times> 's fuse" where
  "notify e wk sh =
     (case wk of
        WorkEntry parent nm \<Rightarrow> ([InvalEntry parent nm], dir_grew parent sh)
      | WorkInode ino \<Rightarrow> (let sh1 = xattr_forget ino sh in ([inval_inode e sh1 ino], sh1))
      | WorkDirGrew ino \<Rightarrow> ([], dir_grew ino sh)
      | WorkSweep \<Rightarrow> (let sh1 = dirs_grew_all (xattr_clear sh) in (sweep e sh1, sh1)))"

text \<open>One turn of \<open>notifier_loop\<close>; None when there is nothing to take.\<close>

definition notifier_turn :: "inval_env \<Rightarrow> 's inval \<Rightarrow> 's inval option" where
  "notifier_turn e v =
     (case fs_queue (iv_shared v) of
        Some [] \<Rightarrow> None
      | Some (wk # rest) \<Rightarrow>
          (let (calls, sh) = notify e wk ((iv_shared v)\<lparr>fs_queue := Some rest\<rparr>)
           in Some (v\<lparr>iv_shared := sh, iv_done := iv_done v @ [(wk, calls)]\<rparr>))
      | None \<Rightarrow>
          (case iv_left v of
             [] \<Rightarrow> None
           | wk # rest \<Rightarrow>
               (let (calls, sh) = notify e wk (iv_shared v)
                in Some (v\<lparr>iv_shared := sh, iv_left := rest, iv_done := iv_done v @ [(wk, calls)]\<rparr>))))"

subsection \<open>Steps\<close>

text \<open>The work that waits to be taken.\<close>

definition waiting :: "'s inval \<Rightarrow> work list" where
  "waiting v = (case fs_queue (iv_shared v) of Some q \<Rightarrow> q | None \<Rightarrow> iv_left v)"

text \<open>What the FUSE layer does meanwhile: whatever else it changes, it only adds to the queue.\<close>

definition queue_grows :: "'s fuse \<Rightarrow> 's fuse \<Rightarrow> bool" where
  "queue_grows sh sh' =
     (case fs_queue sh of
        None \<Rightarrow> fs_queue sh' = None
      | Some q \<Rightarrow> (case fs_queue sh' of None \<Rightarrow> False | Some q' \<Rightarrow> take (length q) q' = q))"

inductive inval_step :: "inval_env \<Rightarrow> 's inval \<Rightarrow> 's inval \<Rightarrow> bool" for e where
  InvalEvent: "iv_translating v \<Longrightarrow> inval_step e v (on_event e items v)"
| InvalState: "iv_translating v \<Longrightarrow> inval_step e v (on_state st v)"
| InvalClosed: "inval_step e v (on_closed v)"
| InvalTurn: "notifier_turn e v = Some v' \<Longrightarrow> inval_step e v v'"
| InvalOthers: "queue_grows (iv_shared v) sh \<Longrightarrow> inval_step e v (v\<lparr>iv_shared := sh\<rparr>)"
| InvalStop: "inval_step e v (inval_stop v)"

definition inval_started :: "'s inval \<Rightarrow> bool" where
  "inval_started v \<longleftrightarrow> (\<exists>sh. v = inval_start sh)"

subsection \<open>The FUSE layer's part\<close>

text \<open>Every request of the kernel is such a step: it only adds to the queue, if others do so meanwhile.\<close>

lemma queue_grows_upd [simp]:
  "queue_grows sh (s\<lparr>fs_dirs := ds\<rparr>) = queue_grows sh s" "queue_grows sh (s\<lparr>fs_nodes := t\<rparr>) = queue_grows sh s"
  "queue_grows sh (s\<lparr>fs_handles := ht\<rparr>) = queue_grows sh s" "queue_grows sh (s\<lparr>fs_xattrs := x\<rparr>) = queue_grows sh s"
  "queue_grows sh (s\<lparr>fs_reported := rp\<rparr>) = queue_grows sh s"
  by (cases "fs_queue sh"; simp add: queue_grows_def)+

lemma queue_grows_refl: "queue_grows sh sh"
  by (simp add: queue_grows_def split: option.split)

interpretation adding: shared_contract "queue_grows sh" for sh
proof
  fix s :: "'a fuse" and wk
  show "queue_grows sh s \<Longrightarrow> queue_grows sh (snd (send_work wk s))"
    by (auto simp: queue_grows_def send_work_def split: option.splits) (metis append_take_drop_id le_add1 length_append)
next
  fix e :: "'a fuse_env" and fits ino fh offset
  assume "calls_keep (queue_grows sh) e"
  then show "keeps (queue_grows sh) (fuse_readdir e fits ino fh offset)"
    by (rule readdir_blind) simp
qed (simp_all add: dir_grew_def)

lemma add_plus_grows:
  assumes "queue_grows sh s" "add_plus e fits ino entry added s = Some (r, s')"
  shows "queue_grows sh s'"
proof -
  have "queue_grows sh (attr_reported e i a (xattr_remember e i a (s\<lparr>fs_nodes := t\<rparr>)))" for i a t
    using assms(1) by (intro adding.attr_reported_keeps adding.notes_keep) simp
  with assms show ?thesis
    by (auto simp: add_plus_def Let_def split: if_splits option.splits sum.splits)
qed

lemma add_plus_all_grows:
  "queue_grows sh s \<Longrightarrow> add_plus_all e fits ino fh page added s = Some (r, s') \<Longrightarrow> queue_grows sh s'"
proof (induction e fits ino fh page added s rule: add_plus_all.induct)
  case (2 e fits ino fh cookie entry rest added s)
  then obtain one s1 where one: "add_plus e fits ino entry added s = Some (one, s1)" by (auto split: option.splits)
  have "queue_grows sh s1" using add_plus_grows [OF 2(3) one] .
  then show ?case
    using 2(1,2) [OF one] 2(4) one
    by (auto simp: stash_def upd_dir_def split: option.splits bool.splits prod.splits)
qed simp

interpretation growing: registering_contract "queue_grows sh" for sh
proof
  fix e :: "'a fuse_env" and fits ino fh offset
  assume e: "calls_keep (queue_grows sh) e"
  have "keeps (queue_grows sh) (dir_page e fh offset True)"
    using e by (rule dir_page_blind) simp
  then show "keeps (queue_grows sh) (fuse_readdirplus e fits ino fh offset)"
    unfolding fuse_readdirplus_def
    by (rule keeps_bind) (auto simp: keeps_def dest: add_plus_all_grows split: option.splits)
qed simp_all

lemma request_is_step:
  assumes "calls_keep (queue_grows (iv_shared v)) e" "fuse_serve e k (iv_shared v) = Some (r, sh)"
  shows "inval_step ie v (v\<lparr>iv_shared := sh\<rparr>)"
  using keepsD [OF growing.serve_keeps [OF assms(1)] queue_grows_refl assms(2)] by (rule InvalOthers)

subsection \<open>Nothing reported is lost\<close>

lemma try_send_cases:
  obtains "fs_queue sh = None" "try_send wk sh = (SendGone, sh)"
  | q where "fs_queue sh = Some q" "length q < QUEUE" "try_send wk sh = (SendTaken, sh\<lparr>fs_queue := Some (q @ [wk])\<rparr>)"
  | q where "fs_queue sh = Some q" "\<not> length q < QUEUE" "try_send wk sh = (SendFull, sh)"
  by (cases "fs_queue sh") (auto simp: try_send_def send_work_def)

lemma send_items:
  "iv_done (send_work_items wks v) = iv_done v \<and> iv_left (send_work_items wks v) = iv_left v \<and>
   set (waiting v) \<subseteq> set (waiting (send_work_items wks v)) \<and>
   (iv_sweep_pending v \<longrightarrow> iv_sweep_pending (send_work_items wks v)) \<and>
   (fs_queue (iv_shared v) \<noteq> None \<longrightarrow>
      fs_queue (iv_shared (send_work_items wks v)) \<noteq> None \<and> iv_translating (send_work_items wks v) = iv_translating v \<and>
      (\<forall>wk \<in> set wks. wk \<in> set (waiting (send_work_items wks v)) \<or> iv_sweep_pending (send_work_items wks v)))"
proof (induction wks arbitrary: v)
  case (Cons wk wks)
  show ?case
  proof (cases rule: try_send_cases [of "iv_shared v" wk])
    case (2 q)
    let ?v = "v\<lparr>iv_shared := (iv_shared v)\<lparr>fs_queue := Some (q @ [wk])\<rparr>\<rparr>"
    have "set (waiting ?v) = insert wk (set (waiting v))" using 2 by (simp add: waiting_def)
    with 2 Cons [of ?v] show ?thesis by auto
  qed (auto simp: waiting_def)
qed simp

lemma translated_keeps:
  "iv_done (translated wks v) = iv_done v" "iv_left (translated wks v) = iv_left v"
  "set (waiting v) \<subseteq> set (waiting (translated wks v))"
  "iv_sweep_pending v \<Longrightarrow> iv_sweep_pending (translated wks v) \<or> WorkSweep \<in> set (waiting (translated wks v))"
  "fs_queue (iv_shared v) \<noteq> None \<Longrightarrow> fs_queue (iv_shared (translated wks v)) \<noteq> None \<and>
     iv_translating (translated wks v) = iv_translating v"
  "fs_queue (iv_shared v) \<noteq> None \<Longrightarrow> wk \<in> set wks \<Longrightarrow>
     wk \<in> set (waiting (translated wks v)) \<or> iv_sweep_pending (translated wks v)"
proof -
  let ?new = "translated wks v"
  have "iv_done ?new = iv_done v \<and> iv_left ?new = iv_left v \<and> set (waiting v) \<subseteq> set (waiting ?new) \<and>
    (iv_sweep_pending v \<longrightarrow> iv_sweep_pending ?new \<or> WorkSweep \<in> set (waiting ?new)) \<and>
    (fs_queue (iv_shared v) \<noteq> None \<longrightarrow> fs_queue (iv_shared ?new) \<noteq> None \<and> iv_translating ?new = iv_translating v \<and>
       (\<forall>wk \<in> set wks. wk \<in> set (waiting ?new) \<or> iv_sweep_pending ?new))"
  proof (cases "iv_sweep_pending v")
    case True
    show ?thesis
    proof (cases rule: try_send_cases [of "iv_shared v" WorkSweep])
      case (2 q)
      let ?v = "v\<lparr>iv_shared := (iv_shared v)\<lparr>fs_queue := Some (q @ [WorkSweep])\<rparr>, iv_sweep_pending := False\<rparr>"
      have "set (waiting ?v) = insert WorkSweep (set (waiting v))" using 2 by (simp add: waiting_def)
      with True 2 send_items [of wks ?v] show ?thesis by (auto simp: translated_def)
    qed (use True in \<open>auto simp: translated_def waiting_def\<close>)
  qed (use send_items [of wks v] in \<open>auto simp: translated_def\<close>)
  then show "iv_done ?new = iv_done v" "iv_left ?new = iv_left v" "set (waiting v) \<subseteq> set (waiting ?new)"
    "iv_sweep_pending v \<Longrightarrow> iv_sweep_pending ?new \<or> WorkSweep \<in> set (waiting ?new)"
    "fs_queue (iv_shared v) \<noteq> None \<Longrightarrow> fs_queue (iv_shared ?new) \<noteq> None \<and> iv_translating ?new = iv_translating v"
    "fs_queue (iv_shared v) \<noteq> None \<Longrightarrow> wk \<in> set wks \<Longrightarrow> wk \<in> set (waiting ?new) \<or> iv_sweep_pending ?new"
    by blast+
qed

lemma on_state_translated: "\<exists>wks g. on_state st v = translated wks (v\<lparr>iv_last_generation := g\<rparr>) \<or> on_state st v = v"
  by (auto simp: on_state_def Let_def split: conn_state.split)

lemma notify_queue: "fs_queue (snd (notify e wk sh)) = fs_queue sh"
  by (simp add: notify_def dir_grew_def xattr_forget_def dirs_grew_all_def xattr_clear_def Let_def split: work.split)

lemma notifier_turn_takes:
  fixes v v' :: "'s inval"
  assumes "notifier_turn e v = Some v'"
  obtains wk and sh :: "'s fuse" where "waiting v = wk # waiting v'" "iv_done v' = iv_done v @ [(wk, fst (notify e wk sh))]"
    "iv_sweep_pending v' = iv_sweep_pending v" "iv_translating v' = iv_translating v"
    "fs_queue (iv_shared v') = None \<longleftrightarrow> fs_queue (iv_shared v) = None"
proof (cases "fs_queue (iv_shared v)")
  case None
  then obtain wk rest where l: "iv_left v = wk # rest" using assms by (auto simp: notifier_turn_def split: list.splits)
  obtain calls sh where n: "notify e wk (iv_shared v) = (calls, sh)" by fastforce
  then have "fs_queue sh = None" using notify_queue [of e wk "iv_shared v"] None by simp
  with that [of wk "iv_shared v"] assms None l n show thesis by (auto simp: notifier_turn_def waiting_def)
next
  case (Some q)
  then obtain wk rest where l: "q = wk # rest" using assms by (auto simp: notifier_turn_def split: list.splits)
  let ?sh = "(iv_shared v)\<lparr>fs_queue := Some rest\<rparr>"
  obtain calls sh where n: "notify e wk ?sh = (calls, sh)" by fastforce
  then have "fs_queue sh = Some rest" using notify_queue [of e wk ?sh] by simp
  with that [of wk ?sh] assms Some l n show thesis by (auto simp: notifier_turn_def waiting_def)
qed

text \<open>Work that was asked for when \<open>k\<close> works had been done: it, or a sweep, has been done since, waits, or is pending.\<close>

definition accounted :: "inval_env \<Rightarrow> nat \<Rightarrow> work \<Rightarrow> 's inval \<Rightarrow> bool" where
  "accounted e k wk v \<longleftrightarrow> k \<le> length (iv_done v) \<and>
     ((\<exists>sh :: 's fuse. (wk, fst (notify e wk sh)) \<in> set (drop k (iv_done v)) \<or>
         (WorkSweep, fst (notify e WorkSweep sh)) \<in> set (drop k (iv_done v))) \<or>
      wk \<in> set (waiting v) \<or> WorkSweep \<in> set (waiting v) \<or> iv_sweep_pending v)"

lemma accounted_mono:
  fixes v v' :: "'s inval"
  assumes "accounted e k wk v" "iv_done v' = iv_done v" "set (waiting v) \<subseteq> set (waiting v')"
    "iv_sweep_pending v \<Longrightarrow> iv_sweep_pending v' \<or> WorkSweep \<in> set (waiting v')"
  shows "accounted e k wk v'"
  using assms unfolding accounted_def by auto

lemma accounted_translated: "accounted e k wk v \<Longrightarrow> accounted e k wk (translated wks v)"
  by (erule accounted_mono) (rule translated_keeps, assumption?)+

lemma accounted_step: "accounted e k wk v'" if "inval_step e v v'" "accounted e k wk v" for v v' :: "'s inval"
  using that
proof (induction rule: inval_step.induct)
  case (InvalEvent v items)
  then show ?case by (simp add: on_event_def accounted_translated)
next
  case (InvalState v st)
  obtain wks g where "on_state st v = translated wks (v\<lparr>iv_last_generation := g\<rparr>) \<or> on_state st v = v"
    using on_state_translated by blast
  moreover have "accounted e k wk (v\<lparr>iv_last_generation := g\<rparr>)"
    using InvalState(2) by (rule accounted_mono) (auto simp: waiting_def split: option.split)
  ultimately show ?case
    using InvalState(2) accounted_translated by metis
next
  case (InvalTurn v v')
  obtain wk' and sh :: "'s fuse" where turn: "waiting v = wk' # waiting v'" "iv_done v' = iv_done v @ [(wk', fst (notify e wk' sh))]"
    "iv_sweep_pending v' = iv_sweep_pending v"
    using notifier_turn_takes [OF InvalTurn(1)] by metis
  with InvalTurn(2) show ?case unfolding accounted_def by auto
next
  case (InvalOthers v sh)
  then have "set (waiting v) \<subseteq> set (waiting (v\<lparr>iv_shared := sh\<rparr>))"
    by (auto simp: queue_grows_def waiting_def split: option.splits) (metis in_set_takeD)
  then show ?case using InvalOthers(2) by (auto intro: accounted_mono)
qed (auto simp: accounted_def on_closed_def inval_stop_def invalidations_clear_def waiting_def split: option.splits)

interpretation translating: invariant_system inval_started "inval_step e"
  "\<lambda>v. iv_translating v \<longrightarrow> fs_queue (iv_shared v) \<noteq> None" for e
proof unfold_locales
  fix v v' :: "'a inval"
  assume "iv_translating v \<longrightarrow> fs_queue (iv_shared v) \<noteq> None" "inval_step e v v'"
  from this(2,1) show "iv_translating v' \<longrightarrow> fs_queue (iv_shared v') \<noteq> None"
  proof (induction rule: inval_step.induct)
    case (InvalEvent v items)
    then show ?case by (simp add: on_event_def translated_keeps(5))
  next
    case (InvalState v st)
    then show ?case
      using on_state_translated [of st v] translated_keeps(5) [of "v\<lparr>iv_last_generation := g\<rparr>" for g] by fastforce
  next
    case (InvalTurn v v')
    then show ?case using notifier_turn_takes [OF InvalTurn(1)] by metis
  qed (auto simp: on_closed_def inval_stop_def queue_grows_def split: option.splits)
qed (auto simp: inval_started_def inval_start_def invalidations_set_def)

lemma accounted_run:
  "(inval_step e)\<^sup>*\<^sup>* v v' \<Longrightarrow> accounted e k wk v \<Longrightarrow> accounted e k wk v'"
  by (induction rule: rtranclp_induct) (auto intro: accounted_step)

text \<open>
  C13. No change the server reports is lost on the way to the kernel, whatever else goes on meanwhile: once nothing waits in
  the queue and no sweep is pending, all the work the items of an event asked for has been done
  since the event came, each with its calls to the kernel, or the kernel's cache has been swept since; so has
  the work of an event that found the queue full.
\<close>

theorem reported_changes_reach_kernel:
  fixes v v' :: "'s inval"
  assumes "reach inval_started (inval_step e) v" "iv_translating v"
    and "(inval_step e)\<^sup>*\<^sup>* (on_event e items v) v'" "waiting v' = []" "\<not> iv_sweep_pending v'"
    and "wk \<in> set (event_work e items (iv_shared v))"
  shows "\<exists>sh :: 's fuse. (wk, fst (notify e wk sh)) \<in> set (drop (length (iv_done v)) (iv_done v')) \<or>
    (WorkSweep, sweep e sh) \<in> set (drop (length (iv_done v)) (iv_done v'))"
proof -
  have "fs_queue (iv_shared v) \<noteq> None" using translating.inv_reach [OF assms(1)] assms(2) by simp
  then have "accounted e (length (iv_done v)) wk (on_event e items v)"
    using translated_keeps(6) [OF _ assms(6)] by (auto simp: accounted_def on_event_def translated_keeps(1))
  then have "accounted e (length (iv_done v)) wk v'" by (rule accounted_run [OF assms(3)])
  then obtain sh :: "'s fuse" where
    "(wk, fst (notify e wk sh)) \<in> set (drop (length (iv_done v)) (iv_done v')) \<or>
     (WorkSweep, sweep e (dirs_grew_all (xattr_clear sh))) \<in> set (drop (length (iv_done v)) (iv_done v'))"
    using assms(4,5) by (auto simp: accounted_def notify_def Let_def)
  then show ?thesis by blast
qed

subsection \<open>A sweep\<close>

text \<open>The iterations go through all of the tables.\<close>

definition iterates :: "inval_env \<Rightarrow> 's fuse \<Rightarrow> bool" where
  "iterates e sh \<longleftrightarrow> set (ie_handles e (fs_handles sh)) = dom (ht_map (fs_handles sh)) \<and>
     set (ie_nodes e (fs_nodes sh)) = dom (nodes (fs_nodes sh)) \<and>
     (\<forall>i n. nodes (fs_nodes sh) i = Some n \<longrightarrow> set (ie_children e (node_children n)) = {(nm, c). node_children n nm = Some c})"

definition known_entries :: "inval_env \<Rightarrow> node_table \<Rightarrow> (u64 \<times> name \<times> u64) list" where
  "known_entries e t = concat (map (\<lambda>(p, kids). map (\<lambda>(nm, c). (p, nm, c)) kids) (node_iteration e t))"

lemma entries_take: "entries (node_iteration e t) limit = take limit (known_entries e t)"
  by (simp add: entries_def known_entries_def entries_from_take)

lemma known_entries_all:
  assumes "iterates e sh" "nodes (fs_nodes sh) parent = Some n" "node_children n nm = Some c"
  shows "(parent, nm, c) \<in> set (known_entries e (fs_nodes sh))"
proof -
  have "(parent, ie_children e (node_children n)) \<in> set (node_iteration e (fs_nodes sh))"
    using assms(1,2) by (force simp: node_iteration_def set_map_filter iterates_def)
  moreover have "(nm, c) \<in> set (ie_children e (node_children n))"
    using assms by (simp add: iterates_def)
  ultimately show ?thesis by (force simp: known_entries_def)
qed

lemma open_now_all:
  assumes "iterates e sh" "rec_at (fs_handles sh) fh = Some r" "\<not> hr_dead r"
  shows "hr_nodeid r \<in> set (open_now e sh)"
proof -
  have "ht_map (fs_handles sh) fh \<noteq> None" using assms(2) by (auto simp: rec_at_def split: option.splits bind_splits)
  then have "fh \<in> set (ie_handles e (fs_handles sh))" using assms(1) by (auto simp: iterates_def)
  then have "(fh, r) \<in> set (recs (ie_handles e (fs_handles sh)) (fs_handles sh))"
    using assms(2) by (auto simp: recs_def set_map_filter)
  then show ?thesis using assms(3) by (force simp: open_now_def open_nodeids_def)
qed

definition inval_example :: inval_env where
  "inval_example = \<lparr>ie_handles = (\<lambda>t. []), ie_nodes = (\<lambda>t. [ROOT, 5]),
     ie_children = (\<lambda>m. case m (Name [97]) of Some c \<Rightarrow> [(Name [97], c)] | None \<Rightarrow> [])\<rparr>"

theorem reported_changes_reach_kernel_witness:
  "let v = inval_start example_state; v1 = on_event inval_example [EventEntry path_root (Name [98])] v
   in \<exists>v2. notifier_turn inval_example v1 = Some v2 \<and> (WorkEntry ROOT (Name [98]), [InvalEntry ROOT (Name [98])]) \<in> set (iv_done v2)"
proof -
  let ?v = "inval_start example_state" and ?items = "[EventEntry path_root (Name [98])]" and ?wk = "WorkEntry ROOT (Name [98])"
  let ?v1 = "on_event inval_example ?items ?v"
  have r: "resolve_path t path_root = Some ROOT" for t by (simp add: resolve_path_def path_root_def)
  have w: "event_work inval_example ?items (iv_shared ?v) = [?wk]"
    by (simp add: event_work_def item_work_def r Let_def)
  have v1: "?v1 = ?v\<lparr>iv_shared := (invalidations_set example_state)\<lparr>fs_queue := Some [?wk]\<rparr>\<rparr>"
    unfolding on_event_def w by (simp add: inval_start_def translated_def try_send_def send_work_def invalidations_set_def QUEUE_def)
  then obtain v2 where v2: "notifier_turn inval_example ?v1 = Some v2" "waiting v2 = []" "\<not> iv_sweep_pending v2"
    "iv_done v2 = [(?wk, [InvalEntry ROOT (Name [98])])]"
    by (simp add: notifier_turn_def notify_def waiting_def dir_grew_def inval_start_def)
  have "reach inval_started (inval_step inval_example) ?v" by (rule reach_init) (auto simp: inval_started_def)
  from reported_changes_reach_kernel [OF this _ r_into_rtranclp [of "inval_step inval_example"] v2(2,3), of ?items ?wk]
  have "\<exists>sh :: unit fuse. (?wk, fst (notify inval_example ?wk sh)) \<in> set (iv_done v2) \<or> (WorkSweep, sweep inval_example sh) \<in> set (iv_done v2)"
    using w v2(1) by (auto simp: inval_start_def intro: InvalTurn)
  with v2 show ?thesis by (auto simp: notify_def)
qed

text \<open>
  C14. What a sweep does: it has the kernel drop the attributes of every file that is open, and its pages as well unless the
  file is being written; of every known entry, if there are no more than \<open>SWEEP_LIMIT\<close> of them; and forgets the
  extended attributes and the ends of listings that are held.  However many entries are known, it makes no
  more calls for them than twice the limit.
\<close>

theorem sweep_drops_what_is_cached:
  assumes "iterates e sh" "notify e WorkSweep sh = (calls, sh')"
  shows "(\<forall>fh r. rec_at (fs_handles sh) fh = Some r \<and> \<not> hr_dead r \<longrightarrow>
      inval_inode e sh (hr_nodeid r) \<in> set calls) \<and>
    (length (known_entries e (fs_nodes sh)) \<le> SWEEP_LIMIT \<longrightarrow>
      (\<forall>parent n nm c. nodes (fs_nodes sh) parent = Some n \<and> node_children n nm = Some c \<longrightarrow>
         InvalEntry parent nm \<in> set calls \<and>
         (\<forall>m. nodes (fs_nodes sh) c = Some m \<and> node_kind m = Regular \<longrightarrow> inval_inode e sh c \<in> set calls))) \<and>
    length calls \<le> length (open_now e sh) + 2 * SWEEP_LIMIT \<and>
    fs_xattrs sh' = Map.empty \<and> (\<forall>fh d. fs_dirs sh' fh = Some d \<longrightarrow> ds_end d = None)"
proof -
  let ?found = "take SWEEP_LIMIT (known_entries e (fs_nodes sh))"
  let ?regular = "\<lambda>(_, _, c). case nodes (fs_nodes sh) c of Some n \<Rightarrow> node_kind n = Regular | None \<Rightarrow> False"
  have calls: "calls = map (inval_inode e sh) (open_now e sh @ map (\<lambda>(_, _, c). c) (filter ?regular ?found)) @
      map (\<lambda>(parent, nm, _). InvalEntry parent nm) ?found" and sh': "sh' = dirs_grew_all (xattr_clear sh)"
    using assms(2)
    by (auto simp: notify_def sweep_def Let_def open_now_def dirs_grew_all_def xattr_clear_def entries_take
        inval_inode_def [abs_def])
  have opened: "inval_inode e sh (hr_nodeid r) \<in> set calls" if "rec_at (fs_handles sh) fh = Some r" "\<not> hr_dead r" for fh r
    using open_now_all [OF assms(1) that] by (simp add: calls)
  have entry: "InvalEntry parent nm \<in> set calls" "nodes (fs_nodes sh) c = Some m \<Longrightarrow> node_kind m = Regular \<Longrightarrow> inval_inode e sh c \<in> set calls"
    if "length (known_entries e (fs_nodes sh)) \<le> SWEEP_LIMIT" "nodes (fs_nodes sh) parent = Some n" "node_children n nm = Some c"
    for parent n nm c m
    using known_entries_all [OF assms(1) that(2,3)] that(1) by (force simp: calls)+
  have "length (filter ?regular ?found) \<le> SWEEP_LIMIT" "length ?found \<le> SWEEP_LIMIT"
    by (auto intro: order_trans [OF length_filter_le])
  then have "length calls \<le> length (open_now e sh) + 2 * SWEEP_LIMIT" by (simp add: calls)
  with opened entry show ?thesis by (auto simp: sh' dirs_grew_all_def xattr_clear_def)
qed

theorem sweep_drops_what_is_cached_witness:
  "InvalEntry ROOT (Name [97]) \<in> set (fst (notify inval_example WorkSweep example_state)) \<and>
   inval_inode inval_example example_state 5 \<in> set (fst (notify inval_example WorkSweep example_state))"
proof -
  let ?e = inval_example
  obtain calls sh' where run: "notify ?e WorkSweep example_state = (calls, sh')" by fastforce
  have none: "nodes example_table j = None" if "j \<noteq> 5" "j \<noteq> ROOT" for j
    using that example_table_eval(3) by auto
  have "set (ie_children ?e (node_children n)) = {(nm, c). node_children n nm = Some c}" if "nodes example_table j = Some n" for j n
    using that example_table_eval(1,2) none [of j]
    by (cases "j = 5"; cases "j = ROOT") (auto simp: inval_example_def split: if_splits)
  then have it: "iterates ?e example_state"
    using example_table_eval(3)
    by (auto simp: iterates_def example_state_def fuse_new_def table_default_def inval_example_def)
  have "length (known_entries ?e (fs_nodes example_state)) \<le> SWEEP_LIMIT"
    using example_table_eval(1,2)
    by (simp add: known_entries_def node_iteration_def inval_example_def example_state_def List.map_filter_simps SWEEP_LIMIT_def)
  then show ?thesis
    using sweep_drops_what_is_cached [OF it run] run example_table_eval(1,2) by (force simp: example_state_def)
qed

subsection \<open>A sweep that waits\<close>

lemma same_queue: "fs_queue (iv_shared v) = Some q \<Longrightarrow> v\<lparr>iv_shared := (iv_shared v)\<lparr>fs_queue := Some q\<rparr>\<rparr> = v"
  by (cases v) (auto intro!: fuse.equality)

lemma send_work_items_fits:
  "fs_queue (iv_shared v) = Some q \<Longrightarrow> length q + n \<le> QUEUE \<Longrightarrow>
   send_work_items (replicate n wk @ wks) v =
     send_work_items wks (v\<lparr>iv_shared := (iv_shared v)\<lparr>fs_queue := Some (q @ replicate n wk)\<rparr>\<rparr>)"
proof (induction n arbitrary: v q)
  case (Suc n)
  then show ?case by (simp add: try_send_def send_work_def)
qed (simp add: same_queue)

lemma queue_drains:
  "fs_queue (iv_shared v) = Some (replicate n (WorkEntry parent nm)) \<Longrightarrow>
   \<exists>v'. (inval_step e)\<^sup>*\<^sup>* v v' \<and> fs_queue (iv_shared v') = Some [] \<and> iv_sweep_pending v' = iv_sweep_pending v \<and>
     iv_done v' = iv_done v @ replicate n (WorkEntry parent nm, [InvalEntry parent nm])"
proof (induction n arbitrary: v)
  case (Suc n)
  let ?sh = "dir_grew parent ((iv_shared v)\<lparr>fs_queue := Some (replicate n (WorkEntry parent nm))\<rparr>)"
  let ?v = "v\<lparr>iv_shared := ?sh, iv_done := iv_done v @ [(WorkEntry parent nm, [InvalEntry parent nm])]\<rparr>"
  have "inval_step e v ?v" using Suc.prems by (intro InvalTurn) (simp add: notifier_turn_def notify_def)
  moreover have "fs_queue (iv_shared ?v) = Some (replicate n (WorkEntry parent nm))" by (simp add: dir_grew_def)
  from Suc.IH [OF this] obtain v' where "(inval_step e)\<^sup>*\<^sup>* ?v v'" "fs_queue (iv_shared v') = Some []"
    "iv_sweep_pending v' = iv_sweep_pending v"
    "iv_done v' = iv_done v @ replicate (Suc n) (WorkEntry parent nm, [InvalEntry parent nm])" by auto
  ultimately show ?case by (blast intro: converse_rtranclp_into_rtranclp)
qed auto

text \<open>
  The sweep that stands for what found no room in the queue waits for the next event or the next connection, not for
  room: an event may report a change and the notifier thread do all the work it finds, and the change
  never come to the kernel's notice, with the sweep pending and nothing left to do.
\<close>

theorem full_queue_leaves_change:
  "\<exists>v. (inval_step e)\<^sup>*\<^sup>* (on_event e (replicate QUEUE (EventEntry path_root a) @ [EventEntry path_root b]) (inval_start sh)) v \<and>
     waiting v = [] \<and> notifier_turn e v = None \<and> iv_sweep_pending v \<and> on_state (Connecting since) v = v \<and>
     iv_done v = replicate QUEUE (WorkEntry ROOT a, [InvalEntry ROOT a])"
proof -
  let ?items = "replicate QUEUE (EventEntry path_root a) @ [EventEntry path_root b]"
  have "item_work e t [] (EventEntry path_root n) = [WorkEntry ROOT n]" for t n
    by (simp add: item_work_def resolve_path_def path_root_def)
  then have work: "event_work e ?items sh = replicate QUEUE (WorkEntry ROOT a) @ [WorkEntry ROOT b]" for sh :: "'a fuse"
    by (simp add: event_work_def is_unwatched_def list_ex_iff )
  let ?v = "on_event e ?items (inval_start sh)"
  have "fs_queue (iv_shared ?v) = Some (replicate QUEUE (WorkEntry ROOT a))" "iv_sweep_pending ?v" "iv_done ?v = []"
    unfolding on_event_def work translated_def
    by (simp_all add: inval_start_def invalidations_set_def send_work_items_fits [where q = "[]"] try_send_def send_work_def)
  with queue_drains [OF this(1), of e] obtain v where
    "(inval_step e)\<^sup>*\<^sup>* ?v v" "fs_queue (iv_shared v) = Some []" "iv_sweep_pending v"
    "iv_done v = replicate QUEUE (WorkEntry ROOT a, [InvalEntry ROOT a])" by auto
  then show ?thesis by (auto simp: waiting_def notifier_turn_def on_state_def)
qed

end
