(* ===== verification/Listings.thy ===== *)
theory Listings
  imports OpsCalls
begin

text \<open>
  A directory read page by page.  Of the kernel it is assumed what the manual of \<open>getdents64\<close> says of a
  directory nobody changes: its records follow each other in the layout of \<open>linux_dirent64\<close>, a seek to
  a record's \<open>d_off\<close> goes to just after that record, and a buffer of nothing is the end.  Then the records
  are taken apart as they were put together, and the pages a client asks for one after the other hold
  every entry that can be shown, once, in the directory's order.
\<close>

subsection \<open>Records\<close>

record dirent =
  de_ino :: u64
  de_off :: u64
  de_type :: u8
  de_name :: "u8 list"

definition dirent_reclen :: "dirent \<Rightarrow> nat" where
  "dirent_reclen r = next_multiple_of (HEADER_LEN + length (de_name r) + 1) 8"

text \<open>A record as the kernel lays it out: the name is ended by a zero and zeros fill the last eight bytes.\<close>

definition dirent_bytes :: "dirent \<Rightarrow> u8 list" where
  "dirent_bytes r =
     le_bytes 8 (unat (de_ino r)) @ le_bytes 8 (unat (de_off r)) @ le_bytes 2 (dirent_reclen r) @ [de_type r] @
     de_name r @ replicate (dirent_reclen r - HEADER_LEN - length (de_name r)) 0"

definition dirent_ok :: "dirent \<Rightarrow> bool" where
  "dirent_ok r \<longleftrightarrow> 0 \<notin> set (de_name r) \<and> length (de_name r) \<le> NAME_MAX"

definition raw_of :: "dirent \<Rightarrow> raw_dirent" where
  "raw_of r = \<lparr>rd_off = de_off r, rd_name = de_name r\<rparr>"

lemma reclen_bounds:
  "HEADER_LEN + length (de_name r) + 1 \<le> dirent_reclen r" "dirent_reclen r \<le> HEADER_LEN + length (de_name r) + 8"
  unfolding dirent_reclen_def next_multiple_of_def div_ceil_def HEADER_LEN_def by presburger+

lemma length_dirent_bytes: "length (dirent_bytes r) = dirent_reclen r"
  using reclen_bounds(1) [of r] by (simp add: dirent_bytes_def HEADER_LEN_def)

lemma takeWhile_name: "0 \<notin> set n \<Longrightarrow> 0 < k \<Longrightarrow> takeWhile (\<lambda>b. b \<noteq> 0) (n @ replicate k (0 :: u8)) = n"
  by (induction n) (auto simp: gr0_conv_Suc)

lemma parse_record: "dirent_ok r \<Longrightarrow> parse (dirent_bytes r @ rest) = raw_of r # parse rest"
proof -
  assume ok: "dirent_ok r"
  let ?b = "dirent_bytes r @ rest"
  have reclen: "dirent_reclen r < 2 ^ 16" using ok reclen_bounds(2) [of r] by (simp add: dirent_ok_def NAME_MAX_def HEADER_LEN_def)
  have "u64_from_le (take 8 (drop 8 ?b)) = de_off r"
    using le_nat_le_bytes [of "unat (de_off r)" 8] unsigned_less [of "de_off r", where ?'a = nat] by (simp add: dirent_bytes_def u64_from_le_def)
  moreover have "unat (u16_from_le (take 2 (drop 16 ?b))) = dirent_reclen r"
    using le_nat_le_bytes [of "dirent_reclen r" 2] reclen by (simp add: dirent_bytes_def u16_from_le_def unat_of_nat)
  moreover have "takeWhile (\<lambda>b. b \<noteq> 0) (drop HEADER_LEN (take (dirent_reclen r) ?b)) = de_name r"
  proof -
    have "take (dirent_reclen r) ?b = dirent_bytes r" by (simp add: length_dirent_bytes)
    then show ?thesis
      using ok reclen_bounds(1) [of r] by (simp add: dirent_bytes_def HEADER_LEN_def dirent_ok_def takeWhile_name)
  qed
  moreover have "drop (dirent_reclen r) ?b = rest" by (simp add: length_dirent_bytes)
  moreover have "HEADER_LEN \<le> dirent_reclen r" using reclen_bounds(1) [of r] by simp
  ultimately show ?thesis by (subst parse.simps) (simp add: length_dirent_bytes raw_of_def Let_def)
qed

lemma parse_Nil [simp]: "parse [] = []"
  by (subst parse.simps) (simp add: HEADER_LEN_def)

lemma parse_records: "list_all dirent_ok rs \<Longrightarrow> parse (concat (map dirent_bytes rs)) = map raw_of rs"
  by (induction rs) (simp_all add: parse_record)

lemma records_Nil: "concat (map dirent_bytes rs) = [] \<longleftrightarrow> rs = []"
  by (cases rs) (simp_all add: dirent_bytes_def)

subsection \<open>A directory nobody changes\<close>

text \<open>Calls that answer alike whenever they are made, and change nothing.\<close>

fun on_fd :: "syscall \<Rightarrow> bool" where
  "on_fd (CallFd d op) = True"
| "on_fd _ = False"

definition answers :: "(syscall \<Rightarrow> 's \<Rightarrow> ('a, errno) result \<times> 's) \<Rightarrow> bool" where
  "answers f \<longleftrightarrow> (\<forall>c s s'. \<not> on_fd c \<longrightarrow> f c s = (fst (f c s'), s))"

definition steady_nodes :: "'s kernel \<Rightarrow> bool" where
  "steady_nodes k \<longleftrightarrow> answers (k_handle k) \<and> answers (k_statx k) \<and> answers (k_bytes k)"

text \<open>The records of an open directory, and how many of them are behind its position.\<close>

definition dir_stream :: "'s kernel \<Rightarrow> fd \<Rightarrow> dirent list \<Rightarrow> ('s \<Rightarrow> nat) \<Rightarrow> bool" where
  "dir_stream k d rs pos \<longleftrightarrow>
     list_all dirent_ok rs \<and>
     (\<forall>s. \<exists>n s'. k_num k (CallFd d (SysLseek 0 SEEK_SET)) s = (Ok n, s') \<and> pos s' = 0) \<and>
     (\<forall>i < length rs. \<forall>s. \<exists>n s'.
        k_num k (CallFd d (SysLseek (sint (de_off (rs ! i))) SEEK_SET)) s = (Ok n, s') \<and> pos s' = Suc i) \<and>
     (\<forall>s. pos s \<le> length rs \<longrightarrow> (\<exists>n s'.
        k_bytes k (CallFd d (SysGetdents64 GETDENTS_BUF)) s =
          (Ok (concat (map dirent_bytes (take n (drop (pos s) rs)))), s') \<and>
        pos s' = pos s + n \<and> pos s' \<le> length rs \<and> (pos s < length rs \<longrightarrow> 0 < n)))"

text \<open>What is found for a name, whenever it is looked at.\<close>

definition described :: "'s kernel \<Rightarrow> export \<Rightarrow> fd \<Rightarrow> 's \<Rightarrow> u8 list \<Rightarrow> (attr option option, errno) result" where
  "described k ex d s n = fst (the (describe_entry k ex d n \<lparr>w_sys = s, w_trace = []\<rparr>))"

text \<open>The entries a directory's records become: those that have something to show.\<close>

definition listed :: "'s kernel \<Rightarrow> export \<Rightarrow> fd \<Rightarrow> 's \<Rightarrow> raw_dirent list \<Rightarrow> dir_entry list" where
  "listed k ex d s raws =
     List.map_filter (\<lambda>raw. case described k ex d s (rd_name raw) of
         Inr (Some a) \<Rightarrow> Some \<lparr>next_offset = rd_off raw, entry_name = rd_name raw, entry_attr = a\<rparr>
       | _ \<Rightarrow> None) raws"

lemma listed_append: "listed k ex d s (a @ b) = listed k ex d s a @ listed k ex d s b"
  by (simp add: listed_def List.map_filter_def)

definition unvarying :: "('s world, 'a, 'e) io \<Rightarrow> bool" where
  "unvarying m \<longleftrightarrow> (\<exists>r. \<forall>w. \<exists>w'. m w = Some (r, w') \<and> w_sys w' = w_sys w)"

named_theorems unvarying_intros \<open>functions whose result does not depend on when they are called\<close>

lemma unvarying_pure [unvarying_intros]: "unvarying (ret a)" "unvarying (fail e)" "unvarying (lift_res r)"
  by (auto simp: unvarying_def ret_def fail_def lift_res_def)

lemma unvarying_outcome [unvarying_intros]: "unvarying m \<Longrightarrow> unvarying (outcome_of m)"
proof -
  assume "unvarying m"
  then obtain r where r: "\<And>w. \<exists>w'. m w = Some (r, w') \<and> w_sys w' = w_sys w" by (auto simp: unvarying_def)
  have "\<exists>w'. outcome_of m w = Some (Ok r, w') \<and> w_sys w' = w_sys w" for w
    using r [of w] by (auto simp: outcome_of_def)
  then show ?thesis unfolding unvarying_def by blast
qed

lemma unvarying_bind [unvarying_intros]:
  assumes "unvarying m" "\<And>a. unvarying (f a)"
  shows "unvarying (bind_io m f)"
proof -
  obtain r where r: "\<And>w. \<exists>w'. m w = Some (r, w') \<and> w_sys w' = w_sys w" using assms(1) by (auto simp: unvarying_def)
  show ?thesis
  proof (cases r)
    case (Inl e)
    then have "\<exists>w'. bind_io m f w = Some (Err e, w') \<and> w_sys w' = w_sys w" for w
      using r [of w] by (auto simp: bind_io_def)
    then show ?thesis unfolding unvarying_def by blast
  next
    case (Inr a)
    obtain r' where r': "\<And>w. \<exists>w'. f a w = Some (r', w') \<and> w_sys w' = w_sys w" using assms(2) [of a] by (auto simp: unvarying_def)
    have "\<exists>w'. bind_io m f w = Some (r', w') \<and> w_sys w' = w_sys w" for w
    proof -
      obtain w1 where m: "m w = Some (Ok a, w1)" "w_sys w1 = w_sys w" using r [of w] Inr by auto
      with r' [of w1] show ?thesis by (auto simp: bind_io_def)
    qed
    then show ?thesis unfolding unvarying_def by blast
  qed
qed

lemma unvarying_call [unvarying_intros]: "answers f \<Longrightarrow> \<not> on_fd c \<Longrightarrow> unvarying (call_sys f c)"
proof -
  assume *: "answers f" "\<not> on_fd c"
  have "\<exists>w'. call_sys f c w = Some (fst (f c undefined), w') \<and> w_sys w' = w_sys w" for w
  proof -
    have "f c (w_sys w) = (fst (f c undefined), w_sys w)" using * unfolding answers_def by blast
    then show ?thesis by (simp add: call_sys_def)
  qed
  then show ?thesis unfolding unvarying_def by blast
qed

lemma unvarying_describe: "steady_nodes k \<Longrightarrow> unvarying (describe_entry k ex d n)"
  unfolding describe_entry_def attr_entry_def file_handle_def statx_def xattr_names_at_def xattr_names_by_path_def steady_nodes_def
  by (auto intro!: unvarying_intros split: sum.split)

lemma described_at:
  assumes "steady_nodes k"
  obtains w' where "describe_entry k ex d n w = Some (described k ex d s n, w')" "w_sys w' = w_sys w"
proof -
  obtain r where r: "\<And>w. \<exists>w'. describe_entry k ex d n w = Some (r, w') \<and> w_sys w' = w_sys w"
    using unvarying_describe [OF assms, of ex d n] by (auto simp: unvarying_def)
  moreover from this [of "\<lparr>w_sys = s, w_trace = []\<rparr>"] have "described k ex d s n = r" by (auto simp: described_def)
  ultimately show thesis using that r [of w] by auto
qed

subsection \<open>A page\<close>

text \<open>Nothing in the directory fails for want of descriptors or memory.\<close>

definition listable :: "'s kernel \<Rightarrow> export \<Rightarrow> fd \<Rightarrow> 's \<Rightarrow> raw_dirent list \<Rightarrow> bool" where
  "listable k ex d s raws \<longleftrightarrow> list_all (\<lambda>raw. case described k ex d s (rd_name raw) of Inl _ \<Rightarrow> False | Inr _ \<Rightarrow> True) raws"

text \<open>
  Where a page stops: after some of the records, and when it is full right after one that is shown, whose
  offset is the page's last.
\<close>

definition stops_at :: "'s kernel \<Rightarrow> export \<Rightarrow> fd \<Rightarrow> 's \<Rightarrow> raw_dirent list \<Rightarrow> bool \<Rightarrow> nat \<Rightarrow> bool" where
  "stops_at k ex d s raws full m \<longleftrightarrow>
     m \<le> length raws \<and> (\<not> full \<longrightarrow> m = length raws) \<and>
     (full \<longrightarrow> 0 < m \<and> listed k ex d s (take m raws) \<noteq> [] \<and>
        next_offset (last (listed k ex d s (take m raws))) = rd_off (raws ! (m - 1)))"

lemma stops_at_skip:
  "stops_at k ex d s raws full m \<Longrightarrow> stops_at k ex d s (raw # raws) full (Suc m)"
  by (cases m) (auto simp: stops_at_def listed_def List.map_filter_simps split: sum.splits option.splits)

lemma stops_at_drop:
  assumes "stops_at k ex d s (drop n raws) full m" "n \<le> length raws"
  shows "stops_at k ex d s raws full (n + m)"
proof -
  have "drop n raws ! (m - 1) = raws ! (n + m - 1)" if "0 < m" using that assms by (simp add: nth_drop)
  then show ?thesis using assms by (auto simp: stops_at_def take_add listed_append)
qed

lemma read_entries_page:
  assumes "steady_nodes k" "listable k ex d s raws"
  shows "\<exists>full used' m w'. read_entries k ex d max_bytes raws used entries w =
      Some (Ok (full, used', entries @ listed k ex d s (take m raws)), w') \<and>
    w_sys w' = w_sys w \<and> stops_at k ex d s raws full m"
  using assms(2)
proof (induction raws arbitrary: used entries w)
  case Nil
  then show ?case by (auto simp: ret_def listed_def stops_at_def List.map_filter_simps)
next
  case (Cons raw raws)
  obtain w1 where desc: "describe_entry k ex d (rd_name raw) w = Some (described k ex d s (rd_name raw), w1)" "w_sys w1 = w_sys w"
    by (rule described_at [OF assms(1)])
  have rest: "listable k ex d s raws" and ok: "\<exists>a. described k ex d s (rd_name raw) = Ok a"
    using Cons.prems by (auto simp: listable_def split: sum.splits)
  from ok obtain a where a: "described k ex d s (rd_name raw) = Ok a" by blast
  show ?case
  proof (cases a)
    case None
    obtain full used' m w' where "read_entries k ex d max_bytes raws used entries w1 =
        Some (Ok (full, used', entries @ listed k ex d s (take m raws)), w')" "w_sys w' = w_sys w1" "stops_at k ex d s raws full m"
      using Cons.IH [OF rest] by blast
    then show ?thesis
      using desc a None stops_at_skip [of k ex d s raws full m raw]
      by (intro exI [of _ full] exI [of _ used'] exI [of _ "Suc m"] exI [of _ w'])
        (simp add: bind_io_def listed_def List.map_filter_simps)
  next
    case (Some b)
    let ?used = "used + dir_entry_bytes (length (rd_name raw)) b"
    let ?entry = "\<lparr>next_offset = rd_off raw, entry_name = rd_name raw, entry_attr = b\<rparr>"
    have one: "listed k ex d s (raw # rs) = ?entry # listed k ex d s rs" for rs
      using a Some by (simp add: listed_def List.map_filter_simps)
    show ?thesis
    proof (cases "max_bytes \<le> ?used")
      case True
      then show ?thesis
        using desc a Some one [of "[]"]
        by (intro exI [of _ True] exI [of _ ?used] exI [of _ 1] exI [of _ w1])
          (auto simp: bind_io_def ret_def stops_at_def Let_def listed_def List.map_filter_simps)
    next
      case False
      obtain full used' m w' where "read_entries k ex d max_bytes raws ?used (entries @ [?entry]) w1 =
          Some (Ok (full, used', (entries @ [?entry]) @ listed k ex d s (take m raws)), w')" "w_sys w' = w_sys w1" "stops_at k ex d s raws full m"
        using Cons.IH [OF rest] by blast
      then show ?thesis
        using desc a Some False one stops_at_skip [of k ex d s raws full m raw]
        by (intro exI [of _ full] exI [of _ used'] exI [of _ "Suc m"] exI [of _ w']) (simp add: bind_io_def Let_def)
    qed
  qed
qed

text \<open>The loop over the buffers, from some position of the directory on.\<close>

lemma read_page_from:
  assumes k: "steady_nodes k" and d: "dir_stream k d rs pos" and ok: "listable k ex d s (map raw_of rs)"
    and "pos (w_sys w) \<le> length rs"
  shows "\<exists>page m w'. read_page k ex d max_bytes used entries w = Some (Ok page, w') \<and>
    ls_entries page = entries @ listed k ex d s (take m (drop (pos (w_sys w)) (map raw_of rs))) \<and>
    stops_at k ex d s (drop (pos (w_sys w)) (map raw_of rs)) (\<not> ls_end page) m"
  using assms(4)
proof (induction "length rs - pos (w_sys w)" arbitrary: used entries w rule: less_induct)
  case less
  let ?p = "pos (w_sys w)" and ?raws = "drop (pos (w_sys w)) (map raw_of rs)"
  obtain n s1 where call: "k_bytes k (CallFd d (SysGetdents64 GETDENTS_BUF)) (w_sys w) =
      (Ok (concat (map dirent_bytes (take n (drop ?p rs)))), s1)"
    and s1: "pos s1 = ?p + n" "pos s1 \<le> length rs" "?p < length rs \<longrightarrow> 0 < n"
    using d less.prems unfolding dir_stream_def by blast
  let ?w1 = "\<lparr>w_sys = s1, w_trace = w_trace w @ [CallFd d (SysGetdents64 GETDENTS_BUF)]\<rparr>"
  have got: "call_sys (k_bytes k) (CallFd d (SysGetdents64 GETDENTS_BUF)) w =
      Some (Ok (concat (map dirent_bytes (take n (drop ?p rs)))), ?w1)"
    using call by (simp add: call_sys_def)
  have raws: "parse (concat (map dirent_bytes (take n (drop ?p rs)))) = take n ?raws"
    using d parse_records [of "take n (drop ?p rs)"]
    by (auto simp: dir_stream_def list_all_iff take_map drop_map dest: in_set_takeD in_set_dropD)
  show ?case
  proof (cases "?p = length rs")
    case True
    then show ?thesis
      using got by (subst read_page.simps) (auto simp: listed_def stops_at_def List.map_filter_simps)
  next
    case False
    then have n: "0 < n" "?p + n \<le> length rs" "n \<le> length ?raws" using s1 less.prems by auto
    then have some: "concat (map dirent_bytes (take n (drop ?p rs))) \<noteq> []"
      using False less.prems unfolding records_Nil by simp
    have "listable k ex d s (take n ?raws)"
      using ok by (auto simp: listable_def list_all_iff dest!: in_set_takeD in_set_dropD)
    from read_entries_page [OF k this, of max_bytes used entries ?w1] obtain full used' m w2 where
      page: "read_entries k ex d max_bytes (take n ?raws) used entries ?w1 =
          Some (Ok (full, used', entries @ listed k ex d s (take m (take n ?raws))), w2)"
        "w_sys w2 = s1" "stops_at k ex d s (take n ?raws) full m" by auto
    show ?thesis
    proof (cases full)
      case True
      then have "m \<le> n" using page(3) n by (simp add: stops_at_def)
      then have "stops_at k ex d s ?raws True m" using page(3) True by (auto simp: stops_at_def min_def split: if_splits)
      then show ?thesis
        using got some page True raws \<open>m \<le> n\<close> by (subst read_page.simps) (auto simp: min_def intro!: exI [of _ m])
    next
      case False
      then have m: "m = n" using page(3) n by (simp add: stops_at_def)
      have "length rs - pos (w_sys w2) < length rs - ?p" using page(2) s1(1) n by simp
      from less.hyps [OF this, of used' "entries @ listed k ex d s (take n ?raws)"] obtain pg m' w' where
        rest: "read_page k ex d max_bytes used' (entries @ listed k ex d s (take n ?raws)) w2 = Some (Ok pg, w')"
          "ls_entries pg = (entries @ listed k ex d s (take n ?raws)) @ listed k ex d s (take m' (drop n ?raws))"
          "stops_at k ex d s (drop n ?raws) (\<not> ls_end pg) m'"
        using page(2) s1 by (auto simp: add.commute)
      have "take (n + m') ?raws = take n ?raws @ take m' (drop n ?raws)" by (simp add: take_add)
      moreover have "stops_at k ex d s ?raws (\<not> ls_end pg) (n + m')"
        using stops_at_drop [OF rest(3) n(3)] .
      ultimately show ?thesis
        using got some page False raws m rest
        by (subst read_page.simps) (auto simp: listed_append intro!: exI [of _ "n + m'"])
    qed
  qed
qed

subsection \<open>Page after page\<close>

text \<open>A seek that goes to a position, whatever happened before.\<close>

definition seeks :: "'s kernel \<Rightarrow> fd \<Rightarrow> ('s \<Rightarrow> nat) \<Rightarrow> u64 \<Rightarrow> nat \<Rightarrow> bool" where
  "seeks k d pos off p \<longleftrightarrow> (\<forall>s. \<exists>n s'. k_num k (CallFd d (SysLseek (sint off) SEEK_SET)) s = (Ok n, s') \<and> pos s' = p)"

lemma seeks_start: "dir_stream k d rs pos \<Longrightarrow> seeks k d pos 0 0"
  by (simp add: dir_stream_def seeks_def)

lemma seeks_after: "dir_stream k d rs pos \<Longrightarrow> i < length rs \<Longrightarrow> seeks k d pos (de_off (rs ! i)) (Suc i)"
  by (simp add: dir_stream_def seeks_def)

lemma readdir_from:
  assumes k: "steady_nodes (oe_kernel e)" and d: "dir_stream (oe_kernel e) d rs pos"
    and ok: "listable (oe_kernel e) (oe_export e) d s (map raw_of rs)"
    and fh: "h_map (os_handles st) fh = Some (HDir d watch)" and off: "seeks (oe_kernel e) d pos off p" "p \<le> length rs"
  shows "\<exists>eof m st'.
    op_readdir e fh off max_bytes st =
      Some (Ok (RReaddir (listed (oe_kernel e) (oe_export e) d s (take m (drop p (map raw_of rs)))) eof), st') \<and>
    os_handles st' = os_handles st \<and> stops_at (oe_kernel e) (oe_export e) d s (drop p (map raw_of rs)) (\<not> eof) m"
proof -
  obtain n s1 where seek: "k_num (oe_kernel e) (CallFd d (SysLseek (sint off) SEEK_SET)) (w_sys (os_world st)) = (Ok n, s1)" "pos s1 = p"
    using off(1) unfolding seeks_def by blast
  let ?w1 = "\<lparr>w_sys = s1, w_trace = w_trace (os_world st) @ [CallFd d (SysLseek (sint off) SEEK_SET)]\<rparr>"
  from read_page_from [OF k d ok, of ?w1 "min (unat max_bytes) MAX_IO" 0 "[]"] obtain page m w' where
    "read_page (oe_kernel e) (oe_export e) d (min (unat max_bytes) MAX_IO) 0 [] ?w1 = Some (Ok page, w')"
    "ls_entries page = listed (oe_kernel e) (oe_export e) d s (take m (drop p (map raw_of rs)))"
    "stops_at (oe_kernel e) (oe_export e) d s (drop p (map raw_of rs)) (\<not> ls_end page) m"
    using seek(2) off(2) by auto
  then show ?thesis
    using seek(1) fh
    by (intro exI [of _ "ls_end page"] exI [of _ m] exI [of _ "st\<lparr>os_world := w'\<rparr>"])
      (simp add: op_readdir_def bind_io_def with_handles_def dir_of_def sys_def read_dir_def call_sys_def ret_def)
qed

text \<open>Asking for page after page, each from the offset of the last entry before it, up to the one that is the end.\<close>

fun read_whole :: "nat \<Rightarrow> 's ops_env \<Rightarrow> u64 \<Rightarrow> u64 \<Rightarrow> u32 \<Rightarrow> 's ops_state \<Rightarrow> dir_entry list option" where
  "read_whole 0 e fh off max_bytes st = None"
| "read_whole (Suc pages) e fh off max_bytes st =
     (case op_readdir e fh off max_bytes st of
        Some (Inr (RReaddir entries eof), st1) \<Rightarrow>
          if eof then Some entries
          else if entries = [] then None
          else map_option ((@) entries) (read_whole pages e fh (next_offset (last entries)) max_bytes st1)
      | _ \<Rightarrow> None)"

lemma read_whole_from:
  assumes k: "steady_nodes (oe_kernel e)" and d: "dir_stream (oe_kernel e) d rs pos"
    and ok: "listable (oe_kernel e) (oe_export e) d s (map raw_of rs)"
  shows "h_map (os_handles st) fh = Some (HDir d watch) \<Longrightarrow> seeks (oe_kernel e) d pos off p \<Longrightarrow> p \<le> length rs \<Longrightarrow>
    length rs - p < pages \<Longrightarrow>
    read_whole pages e fh off max_bytes st = Some (listed (oe_kernel e) (oe_export e) d s (drop p (map raw_of rs)))"
proof (induction pages arbitrary: off p st)
  case (Suc pages)
  let ?raws = "drop p (map raw_of rs)" and ?listed = "listed (oe_kernel e) (oe_export e) d s"
  obtain eof m st1 where page:
    "op_readdir e fh off max_bytes st = Some (Ok (RReaddir (?listed (take m ?raws)) eof), st1)"
    "os_handles st1 = os_handles st" "stops_at (oe_kernel e) (oe_export e) d s ?raws (\<not> eof) m"
    using readdir_from [OF k d ok Suc.prems(1,2,3)] by blast
  show ?case
  proof (cases eof)
    case True
    then show ?thesis using page by (simp add: stops_at_def)
  next
    case False
    then have m: "0 < m" "m \<le> length ?raws" "?listed (take m ?raws) \<noteq> []" 
      "next_offset (last (?listed (take m ?raws))) = rd_off (?raws ! (m - 1))"
      using page(3) by (auto simp: stops_at_def)
    have "rd_off (?raws ! (m - 1)) = de_off (rs ! (p + m - 1))"
      using m by (simp add: raw_of_def)
    moreover have "seeks (oe_kernel e) d pos (de_off (rs ! (p + m - 1))) (p + m)"
      using seeks_after [OF d, of "p + m - 1"] m(1,2) by simp
    ultimately have "read_whole pages e fh (next_offset (last (?listed (take m ?raws)))) max_bytes st1 = Some (?listed (drop (p + m) (map raw_of rs)))"
      using Suc.prems m page(2) by (intro Suc.IH) (auto simp: m(4))
    moreover have "?listed (take m ?raws) @ ?listed (drop m ?raws) = ?listed ?raws"
      by (simp only: append_take_drop_id flip: listed_append)
    ultimately show ?thesis using page False m(3) by (simp add: add.commute)
  qed
qed simp

text \<open>
  A directory nobody changes is listed whole: asking for page after page, each from the offset of the last entry
  before it, ends, with at most one page more than the directory has entries, and the pages together hold
  each entry that can be shown exactly once and in the directory's order; however small a page is asked for and
  however few records the kernel returns at a time.
\<close>

theorem pages_list_directory:
  assumes "steady_nodes (oe_kernel e)" "dir_stream (oe_kernel e) d rs pos"
    and "listable (oe_kernel e) (oe_export e) d s (map raw_of rs)"
    and "h_map (os_handles st) fh = Some (HDir d watch)"
  shows "read_whole (Suc (length rs)) e fh 0 max_bytes st = Some (listed (oe_kernel e) (oe_export e) d s (map raw_of rs))"
  using read_whole_from [OF assms(1-4) seeks_start [OF assms(2)]] by (simp del: read_whole.simps)

text \<open>A system with a directory of two files, which returns a record at a time.\<close>

definition two_records :: "dirent list" where
  "two_records = [\<lparr>de_ino = 11, de_off = 100, de_type = 8, de_name = [97]\<rparr>, \<lparr>de_ino = 12, de_off = 200, de_type = 8, de_name = [98]\<rparr>]"

definition two_kernel :: "nat kernel" where
  "two_kernel = plain_kernel
     \<lparr>k_num := \<lambda>c s.
        (case c of
           CallFd d (SysLseek off whence) \<Rightarrow> (Ok 0, if off = 0 then 0 else if off = 100 then 1 else 2)
         | _ \<Rightarrow> (Ok 0, s)),
      k_bytes := \<lambda>c s.
        (case c of
           CallFd d op \<Rightarrow> (Ok (concat (map dirent_bytes (take 1 (drop s two_records)))), min (Suc s) 2)
         | _ \<Rightarrow> (Ok [], s))\<rparr>"

lemma two_kernel_ok: "steady_nodes two_kernel" "dir_stream two_kernel d two_records (\<lambda>s. s)"
proof -
  show "steady_nodes two_kernel"
    by (auto simp: steady_nodes_def answers_def two_kernel_def plain_kernel_def split: syscall.split)
  have "\<exists>n. k_bytes two_kernel (CallFd d (SysGetdents64 GETDENTS_BUF)) s =
        (Ok (concat (map dirent_bytes (take n (drop s two_records)))), s + n) \<and> s + n \<le> 2 \<and> (s < 2 \<longrightarrow> 0 < n)"
    if "s \<le> 2" for s
    using that by (intro exI [of _ "if s = 2 then 0 else 1"]) (auto simp: two_kernel_def two_records_def)
  moreover have "list_all dirent_ok two_records" "length two_records = 2"
    by (simp_all add: two_records_def dirent_ok_def NAME_MAX_def)
  moreover have "k_num two_kernel (CallFd d (SysLseek (sint (de_off (two_records ! i))) SEEK_SET)) s = (Ok 0, Suc i)"
    "k_num two_kernel (CallFd d (SysLseek 0 SEEK_SET)) s = (Ok 0, 0)" if "i < 2" for i s
    using that by (auto simp: two_kernel_def two_records_def less_2_cases_iff)
  ultimately show "dir_stream two_kernel d two_records (\<lambda>s. s)"
    unfolding dir_stream_def by (metis zero_less_numeral)
qed

theorem pages_list_directory_witness:
  "map_option (map entry_name)
     (read_whole 3 (plain_env\<lparr>oe_kernel := two_kernel\<rparr>) 7 0 1
       ((plain_state 0)\<lparr>os_handles := (handles_new 4)\<lparr>h_map := [7 \<mapsto> HDir 4 None]\<rparr>\<rparr>)) = Some [[97], [98]]"
proof -
  let ?e = "plain_env\<lparr>oe_kernel := two_kernel\<rparr>"
  let ?st = "(plain_state 0)\<lparr>os_handles := (handles_new 4)\<lparr>h_map := [7 \<mapsto> HDir 4 None]\<rparr>\<rparr>"
  have "listable (oe_kernel ?e) (oe_export ?e) 4 0 (map raw_of two_records)"
    "map entry_name (listed (oe_kernel ?e) (oe_export ?e) 4 0 (map raw_of two_records)) = [[97], [98]]"
    by code_simp+
  with pages_list_directory [of ?e 4 two_records "\<lambda>s. s" 0 ?st 7 None 1] two_kernel_ok show ?thesis
    by (simp add: two_records_def numeral_3_eq_3 del: read_whole.simps)
qed

end
