(* ===== verification/OpsFiles.thy ===== *)
theory OpsFiles
  imports OpsBooks
begin

text \<open>
  Reading and writing an open file.  Of the kernel it is assumed what the manual of \<open>pread\<close> and \<open>pwrite\<close>
  says of a regular file: a call may be interrupted, but not forever, and may move fewer bytes than
  were asked for, but not none while there are any.  Then both loops end, a read returns exactly the
  bytes the file has there, and a write puts exactly its bytes there.
\<close>

subsection \<open>Files\<close>

text \<open>The bytes of a file with some written at an offset; a gap before them is zeros.\<close>

definition splice :: "nat \<Rightarrow> u8 list \<Rightarrow> u8 list \<Rightarrow> u8 list" where
  "splice off data content =
     take off content @ replicate (off - length content) 0 @ data @ drop (off + length data) content"

lemma splice_Nil: "off \<le> length content \<Longrightarrow> splice off [] content = content"
  by (simp add: splice_def)

lemma splice_splice:
  "splice (off + length a) b (splice off a content) = splice off (a @ b) content"
proof -
  have "min (length content) off + (off - length content) = off" by simp
  then show ?thesis by (simp add: splice_def ac_simps)
qed

lemma splice_slice: "take (length data) (drop off (splice off data content)) = data"
  by (simp add: splice_def)

text \<open>
  What is assumed of a descriptor whose file has contents that only its own calls change: \<open>content\<close> reads
  them off the system's state, and \<open>patience\<close> bounds the interruptions still to come.
\<close>

definition pread_ok :: "'s kernel \<Rightarrow> fd \<Rightarrow> ('s \<Rightarrow> u8 list) \<Rightarrow> ('s \<Rightarrow> nat) \<Rightarrow> bool" where
  "pread_ok k f content patience \<longleftrightarrow>
     (\<forall>s off n r s'. k_bytes k (CallFd f (SysPread off n)) s = (r, s') \<longrightarrow>
        content s' = content s \<and>
        (case r of
           Inr got \<Rightarrow> patience s' \<le> patience s \<and> length got \<le> n \<and> prefix got (drop (unat off) (content s)) \<and>
             (got = [] \<longrightarrow> n = 0 \<or> length (content s) \<le> unat off)
         | Inl err \<Rightarrow> err = EINTR \<and> patience s' < patience s))"

definition pwrite_ok :: "'s kernel \<Rightarrow> fd \<Rightarrow> ('s \<Rightarrow> u8 list) \<Rightarrow> ('s \<Rightarrow> nat) \<Rightarrow> bool" where
  "pwrite_ok k f content patience \<longleftrightarrow>
     (\<forall>s off data r s'. data \<noteq> [] \<longrightarrow> k_num k (CallFd f (SysPwrite off data)) s = (r, s') \<longrightarrow>
        (case r of
           Inr n \<Rightarrow> patience s' \<le> patience s \<and> 0 < n \<and> n \<le> int (length data) \<and>
             content s' = splice (unat off) (take (nat n) data) (content s)
         | Inl err \<Rightarrow> err = EINTR \<and> patience s' < patience s \<and> content s' = content s))"

subsection \<open>The loops\<close>

lemma unat_plus: "unat (a :: u64) + n < 2 ^ 64 \<Longrightarrow> unat (a + word_of_nat n) = unat a + n"
  by (simp add: unat_word_ariths(1) unat_of_nat)

lemma read_fill_exact:
  assumes "pread_ok k f content patience" "unat off + amount < 2 ^ 64"
    and "buf = take (length buf) (drop (unat off) (content (w_sys w)))" "length buf \<le> amount"
  shows "\<exists>w'. read_fill k f off amount buf w = Some (Ok (take amount (drop (unat off) (content (w_sys w)))), w') \<and>
    content (w_sys w') = content (w_sys w)"
  using assms(3,4)
proof (induction "amount - length buf + patience (w_sys w)" arbitrary: buf w rule: less_induct)
  case less
  let ?c = "content (w_sys w)"
  show ?case
  proof (cases "length buf < amount")
    case False
    then show ?thesis using less.prems by (auto simp: read_fill.simps)
  next
    case True
    obtain r s' where call: "k_bytes k (CallFd f (SysPread (off + word_of_nat (length buf)) (amount - length buf))) (w_sys w) = (r, s')"
      by (cases "k_bytes k (CallFd f (SysPread (off + word_of_nat (length buf)) (amount - length buf))) (w_sys w)")
    let ?w = "\<lparr>w_sys = s', w_trace = w_trace w @ [CallFd f (SysPread (off + word_of_nat (length buf)) (amount - length buf))]\<rparr>"
    have at: "unat (off + word_of_nat (length buf)) = unat off + length buf"
      using assms(2) True by (intro unat_plus) simp
    have c: "content s' = ?c" using assms(1) call by (auto simp: pread_ok_def)
    show ?thesis
    proof (cases r)
      case (Inl err)
      then have "err = EINTR" "patience s' < patience (w_sys w)" using assms(1) call by (force simp: pread_ok_def)+
      then show ?thesis
        using less.hyps [of buf ?w] less.prems c True Inl call by (subst read_fill.simps) (auto simp: call_sys_def)
    next
      case (Inr got)
      then have got: "patience s' \<le> patience (w_sys w)" "length got \<le> amount - length buf"
        "prefix got (drop (unat off + length buf) ?c)" "got = [] \<Longrightarrow> length ?c \<le> unat off + length buf"
        using assms(1) call True unfolding pread_ok_def at [symmetric] by fastforce+
      have buf: "buf @ got = take (length (buf @ got)) (drop (unat off) ?c)"
        using got(3) less.prems(1) by (auto simp: prefix_def take_add add.commute [of "unat off"] simp flip: drop_drop)
      show ?thesis
      proof (cases "got = []")
        case True
        then have "length (drop (unat off) ?c) \<le> length buf" using got(4) by simp
        then have "drop (unat off) ?c = buf" using less.prems(1) take_all by metis
        then have "take amount (drop (unat off) ?c) = buf" using less.prems(2) by simp
        then show ?thesis using True Inr call c \<open>length buf < amount\<close> by (subst read_fill.simps) (auto simp: call_sys_def)
      next
        case False
        then have "amount - length (buf @ got) + patience s' < amount - length buf + patience (w_sys w)"
          using got(1,2) \<open>length buf < amount\<close> by (cases got) auto
        then show ?thesis
          using less.hyps [of "buf @ got" ?w] buf c got(2) False Inr call \<open>length buf < amount\<close>
          by (subst read_fill.simps) (auto simp: call_sys_def)
      qed
    qed
  qed
qed

lemma write_all_at_exact:
  assumes "pwrite_ok k f content patience" "unat off + length data < 2 ^ 64" "data \<noteq> []"
  shows "\<exists>w'. write_all_at k f data off w = Some (Ok (), w') \<and>
    content (w_sys w') = splice (unat off) data (content (w_sys w))"
  using assms(2,3)
proof (induction "length data + patience (w_sys w)" arbitrary: data off w rule: less_induct)
  case less
  obtain r s' where call: "k_num k (CallFd f (SysPwrite off data)) (w_sys w) = (r, s')"
    by (cases "k_num k (CallFd f (SysPwrite off data)) (w_sys w)")
  let ?w = "\<lparr>w_sys = s', w_trace = w_trace w @ [CallFd f (SysPwrite off data)]\<rparr>"
  show ?case
  proof (cases r)
    case (Inl err)
    then have "err = EINTR" "patience s' < patience (w_sys w)" "content s' = content (w_sys w)"
      using assms(1) call less.prems by (force simp: pwrite_ok_def)+
    then show ?thesis using less.hyps [of data ?w off] less.prems Inl call by (subst write_all_at.simps) (auto simp: call_sys_def)
  next
    case (Inr n)
    then have "patience s' \<le> patience (w_sys w) \<and> 0 < n \<and> n \<le> int (length data) \<and>
        content s' = splice (unat off) (take (nat n) data) (content (w_sys w))"
      using assms(1) call less.prems by (fastforce simp: pwrite_ok_def)
    then obtain m where m: "n = int m" "patience s' \<le> patience (w_sys w)" "0 < m" "m \<le> length data"
        "content s' = splice (unat off) (take m data) (content (w_sys w))"
      by (cases n rule: int_cases4) auto
    show ?thesis
    proof (cases "m = length data")
      case True
      then show ?thesis using m less.prems Inr call by (simp add: write_all_at.simps [of k f data] write_all_at.simps [of k f "[]"] call_sys_def)
    next
      case False
      let ?off = "off + word_of_nat m"
      have off: "unat ?off = unat off + m" using less.prems(1) m(4) by (intro unat_plus) simp
      have "\<exists>w'. write_all_at k f (drop m data) ?off ?w = Some (Ok (), w') \<and>
          content (w_sys w') = splice (unat ?off) (drop m data) (content s')"
        using less.hyps [of "drop m data" ?w ?off] less.prems m False off by auto
      then show ?thesis
        using m less.prems Inr call off splice_splice [of "unat off" "take m data" "drop m data" "content (w_sys w)"]
        by (subst write_all_at.simps) (auto simp: call_sys_def)
    qed
  qed
qed

subsection \<open>Requests\<close>

lemma dispatch_plain:
  "admit (oe_ids e) req = Ok () \<Longrightarrow> run e req reserved s = Some (Ok resp, s') \<Longrightarrow>
     dispatch e req reserved s = Some (reply_ids (oe_ids e) (reads_posix_acl req) resp, s')"
  by (simp add: dispatch_def)

lemma read_write_admitted: "admit ids (Read fh off amount) = Ok ()" "admit ids (Write fh off data) = Ok ()"
  by (simp_all add: admit_def)

lemma read_exact_at:
  assumes "pread_ok (oe_kernel e) f content patience" "h_map (os_handles s) fh = Some (HFile f p watch)"
    and "unat off + MAX_IO < 2 ^ 64"
  shows "\<exists>s'. dispatch e (Read fh off amount) (Ok None) s =
      Some (RRead (take (min (unat amount) MAX_IO) (drop (unat off) (content (w_sys (os_world s))))), s') \<and>
    content (w_sys (os_world s')) = content (w_sys (os_world s)) \<and> os_handles s' = os_handles s"
proof -
  have "unat off + min (unat amount) MAX_IO < 2 ^ 64" using assms(3) by simp
  from read_fill_exact [OF assms(1) this, of "[]" "os_world s"] obtain w where
    "read_fill (oe_kernel e) f off (min (unat amount) MAX_IO) [] (os_world s) =
       Some (Ok (take (min (unat amount) MAX_IO) (drop (unat off) (content (w_sys (os_world s))))), w)"
    "content (w_sys w) = content (w_sys (os_world s))" by auto
  then show ?thesis
    using assms(2) by (simp add: dispatch_def read_write_admitted op_read_def err_io_def bind_io_def with_handles_def
        file_of_def file_and_path_def bind_res_def sys_def ret_def reply_ids_def)
qed

text \<open>
  A system with one file, which interrupts as often as it has patience and then moves two bytes with
  each read and one with each write.
\<close>

definition slow_kernel :: "(u8 list \<times> nat) kernel" where
  "slow_kernel = plain_kernel
     \<lparr>k_bytes := \<lambda>c (content, patience).
        (case c of
           CallFd d (SysPread off n) \<Rightarrow>
             if patience > 0 then (Err EINTR, content, patience - 1)
             else (Ok (take (min n 2) (drop (unat off) content)), content, patience)
         | _ \<Rightarrow> (Ok [], content, patience)),
      k_num := \<lambda>c (content, patience).
        (case c of
           CallFd d (SysPwrite off data) \<Rightarrow>
             if patience > 0 then (Err EINTR, content, patience - 1)
             else (Ok 1, splice (unat off) (take 1 data) content, patience)
         | _ \<Rightarrow> (Ok 0, content, patience))\<rparr>"

lemma slow_kernel_ok: "pread_ok slow_kernel f fst snd" "pwrite_ok slow_kernel f fst snd"
  unfolding pread_ok_def pwrite_ok_def
  by (auto simp: slow_kernel_def take_is_prefix Suc_le_eq split: if_splits)

definition slow_env :: "(u8 list \<times> nat) ops_env" where
  "slow_env = plain_env\<lparr>oe_kernel := slow_kernel\<rparr>"

definition slow_state :: "u8 list \<Rightarrow> nat \<Rightarrow> (u8 list \<times> nat) ops_state" where
  "slow_state content patience =
     (plain_state (content, patience))
       \<lparr>os_handles := (handles_new 4)\<lparr>h_map := [7 \<mapsto> HFile 5 (Path [Name [97]]) None], h_files := 1\<rparr>\<rparr>"

lemmas slow_defs = slow_env_def slow_state_def plain_env_def plain_state_def

text \<open>
  A read returns, for a file no one else changes, exactly the bytes from its offset that the file has, as
  many as were asked for up to \<open>MAX_IO\<close>, and leaves the file as it is; however the kernel interrupts it and
  however few bytes each call returns.
\<close>

theorem read_exact:
  assumes "pread_ok (oe_kernel e) f content patience" "h_map (os_handles s) fh = Some (HFile f p watch)"
    and "unat off + MAX_IO < 2 ^ 64"
  shows "\<exists>s'. dispatch e (Read fh off amount) (Ok None) s =
      Some (RRead (take (min (unat amount) MAX_IO) (drop (unat off) (content (w_sys (os_world s))))), s') \<and>
    content (w_sys (os_world s')) = content (w_sys (os_world s)) \<and> os_handles s' = os_handles s"
  using assms by (rule read_exact_at)

theorem read_exact_witness:
  "\<exists>s'. dispatch slow_env (Read 7 1 4) (Ok None) (slow_state [1, 2, 3, 4, 5, 6] 3) = Some (RRead [2, 3, 4, 5], s') \<and>
     fst (w_sys (os_world s')) = [1, 2, 3, 4, 5, 6]"
proof -
  have "take (min (unat (4 :: u32)) MAX_IO) (drop (unat (1 :: u64)) [1, 2, 3, 4, 5, 6]) = [2, 3, 4, 5 :: u8]"
    by (simp add: MAX_IO_def)
  moreover have "unat (1 :: u64) + MAX_IO < 2 ^ 64" by (simp add: MAX_IO_def)
  ultimately show ?thesis
    using read_exact [of slow_env 5 fst snd "slow_state [1, 2, 3, 4, 5, 6] 3" 7 "Path [Name [97]]" None 1 4] slow_kernel_ok
    by (simp add: slow_defs) blast
qed

text \<open>
  What is written is what is read back: on a file no one else changes, a write of at most \<open>MAX_IO\<close> bytes
  answers with their number and changes the file there and nowhere else; the file is recorded as changed by the
  session before; and a read of the same range through the same handle returns the same bytes.
\<close>

theorem write_then_read:
  assumes "pread_ok (oe_kernel e) f content patience" "pwrite_ok (oe_kernel e) f content patience"
    and "h_map (os_handles s) fh = Some (HFile f p watch)" "unat off + MAX_IO < 2 ^ 64"
    and "data \<noteq> []" "length data \<le> MAX_IO"
  shows "\<exists>s1 s2. dispatch e (Write fh off data) (Ok None) s = Some (RWritten (word_of_nat (length data)), s1) \<and>
    content (w_sys (os_world s1)) = splice (unat off) data (content (w_sys (os_world s))) \<and>
    os_log s1 = log_record (k_now (oe_kernel e) (w_sys (os_world s))) p (oe_session e) (os_log s) \<and>
    dispatch e (Read fh off (word_of_nat (length data))) (Ok None) s1 = Some (RRead data, s2)"
proof -
  let ?log = "log_record (k_now (oe_kernel e) (w_sys (os_world s))) p (oe_session e) (os_log s)"
  have "unat off + length data < 2 ^ 64" using assms(4,6) by simp
  from write_all_at_exact [OF assms(2) this assms(5), of "os_world s"] obtain w where
    w: "write_all_at (oe_kernel e) f data off (os_world s) = Some (Ok (), w)"
      "content (w_sys w) = splice (unat off) data (content (w_sys (os_world s)))" by blast
  let ?s1 = "s\<lparr>os_log := ?log, os_world := w\<rparr>"
  have written: "dispatch e (Write fh off data) (Ok None) s = Some (RWritten (word_of_nat (length data)), ?s1)"
    using assms(3,6) w by (simp add: dispatch_def read_write_admitted op_write_def err_io_def bind_io_def with_handles_def
        file_and_path_def record_change_def sys_def ret_def reply_ids_def)
  have "unat (word_of_nat (length data) :: u32) = length data" "min (length data) MAX_IO = length data"
    using assms(6) by (simp_all add: unat_of_nat MAX_IO_def)
  then have "take (min (unat (word_of_nat (length data) :: u32)) MAX_IO) (drop (unat off) (content (w_sys w))) = data"
    by (simp add: w(2) splice_slice)
  moreover from read_exact_at [OF assms(1) _ assms(4), of ?s1 fh p watch "word_of_nat (length data)"] assms(3)
  obtain s2 where "dispatch e (Read fh off (word_of_nat (length data))) (Ok None) ?s1 =
      Some (RRead (take (min (unat (word_of_nat (length data) :: u32)) MAX_IO) (drop (unat off) (content (w_sys w)))), s2)"
    by auto
  ultimately show ?thesis using written w(2) by (intro exI [of _ ?s1] exI [of _ s2]) simp
qed

theorem write_then_read_witness:
  "\<exists>s1 s2. dispatch slow_env (Write 7 4 [8, 9, 10]) (Ok None) (slow_state [1, 2] 1) = Some (RWritten 3, s1) \<and>
     fst (w_sys (os_world s1)) = [1, 2, 0, 0, 8, 9, 10] \<and>
     dispatch slow_env (Read 7 4 3) (Ok None) s1 = Some (RRead [8, 9, 10], s2)"
proof -
  have "splice (unat (4 :: u64)) [8, 9, 10] [1, 2] = [1, 2, 0, 0, 8, 9, 10]"
    by code_simp
  moreover have "unat (4 :: u64) + MAX_IO < 2 ^ 64" "length [8, 9, 10 :: u8] \<le> MAX_IO" by (simp_all add: MAX_IO_def)
  ultimately show ?thesis
    using write_then_read [of slow_env 5 fst snd "slow_state [1, 2] 1" 7 "Path [Name [97]]" None 4 "[8, 9, 10]"] slow_kernel_ok
    by (simp add: slow_defs) blast
qed

end
