(* ===== verification/FuseDirs.thy ===== *)
theory FuseDirs
  imports FuseNodes
begin

text \<open>
  A directory listed to the kernel page by page (\<open>dir_page\<close>, \<open>add_plain\<close> and \<open>readdir\<close> of
  \<open>crates/client/src/fuse.rs\<close>): what the kernel gets, whatever sizes its pages and the server's replies have.
\<close>

subsection \<open>A directory and its cookies\<close>

definition cookie :: "dir_entry list \<Rightarrow> nat \<Rightarrow> u64" where
  "cookie es j = (if j = 0 then 0 else next_offset (es ! (j - 1)))"

definition cookies_ok :: "dir_entry list \<Rightarrow> bool" where
  "cookies_ok es \<longleftrightarrow> distinct (map next_offset es) \<and> 0 \<notin> set (map next_offset es)"

lemma cookie_eq:
  assumes "cookies_ok es" "i \<le> length es" "j \<le> length es"
  shows "cookie es i = cookie es j \<longleftrightarrow> i = j"
proof -
  have nz: "next_offset (es ! k) \<noteq> 0" if "k < length es" for k
    using assms(1) that by (metis (mono_tags) cookies_ok_def image_eqI list.set_map nth_mem)
  have ne: "next_offset (es ! k) = next_offset (es ! l) \<longleftrightarrow> k = l" if "k < length es" "l < length es" for k l
    using assms(1) that nth_eq_iff_index_eq [of "map next_offset es" k l] by (simp add: cookies_ok_def)
  show ?thesis
    using assms(2,3) nz [of "i - 1"] nz [of "j - 1"] ne [of "i - 1" "j - 1"] by (cases i; cases j) (auto simp: cookie_def)
qed

lemma cookie_0: "cookies_ok es \<Longrightarrow> j \<le> length es \<Longrightarrow> cookie es j = 0 \<longleftrightarrow> j = 0"
  using cookie_eq [of es j 0] by (simp add: cookie_def)

text \<open>
  The server lists the directory behind a handle: from a cookie it replies with entries that follow, some unless
  there are none, and says it is the end only if it is.  \<open>ok\<close> is what is known of the rest of the world.
\<close>

definition lists_dir :: "'s fuse_env \<Rightarrow> u64 \<Rightarrow> dir_entry list \<Rightarrow> ('s \<Rightarrow> bool) \<Rightarrow> bool" where
  "lists_dir e fh es ok \<longleftrightarrow>
     (\<forall>s j amount. ok (fs_world s) \<longrightarrow> j \<le> length es \<longrightarrow>
        (\<exists>k eof w. client_readdir (fe_call e) fh (cookie es j) amount s =
             (Ok (take k (drop j es), eof), s\<lparr>fs_world := w\<rparr>) \<and>
           ok w \<and> (if eof then length es \<le> j + k else 0 < k)))"

text \<open>The entries from one on, each with its cookie.\<close>

definition tagged :: "dir_entry list \<Rightarrow> nat \<Rightarrow> nat \<Rightarrow> dir_buffer" where
  "tagged es j k = tag_with_cookies (take k (drop j es)) (cookie es j)"

lemma tagged_nth:
  "i < length (tagged es j k) \<Longrightarrow> tagged es j k ! i = (cookie es (j + i), es ! (j + i))"
proof -
  have gen: "i < length xs \<Longrightarrow> tag_with_cookies xs c ! i = (if i = 0 then c else next_offset (xs ! (i - 1)), xs ! i)" for xs c i
  proof (induction xs arbitrary: c i)
    case (Cons x xs)
    then show ?case by (cases i) (auto simp: nth_Cons')
  qed simp
  have len: "length (tag_with_cookies xs c) = length xs" for xs c by (induction xs arbitrary: c) auto
  assume "i < length (tagged es j k)"
  then show ?thesis
    by (auto simp: tagged_def len gen cookie_def)
qed

lemma length_tagged [simp]: "length (tagged es j k) = min k (length es - j)"
proof -
  have "length (tag_with_cookies xs c) = length xs" for xs c by (induction xs arbitrary: c) auto
  then show ?thesis by (simp add: tagged_def)
qed

lemma drop_tagged: "r \<le> k \<Longrightarrow> drop r (tagged es j k) = tagged es (j + r) (k - r)"
proof (rule nth_equalityI)
  fix i
  assume "r \<le> k" and "i < length (drop r (tagged es j k))"
  then have "r + i < length (tagged es j k)" "i < length (tagged es (j + r) (k - r))" "r \<le> length (tagged es j k)" by auto
  then show "drop r (tagged es j k) ! i = tagged es (j + r) (k - r) ! i"
    by (simp only: nth_drop tagged_nth add.assoc)
qed auto

lemma tagged_0 [simp]: "tagged es j 0 = []"
  by (simp add: tagged_def)

lemma tagged_Nil: "tagged es j k = [] \<longleftrightarrow> k = 0 \<or> length es \<le> j"
proof -
  have "length (tagged es j k) = 0 \<longleftrightarrow> k = 0 \<or> length es \<le> j" by auto
  then show ?thesis by (simp only: length_0_conv)
qed

subsection \<open>What a handle holds while it is listed\<close>

text \<open>At the \<open>j\<close>-th entry: what is buffered, if anything, is what follows, and the end is where it is thought to be.\<close>

definition at_entry :: "dir_entry list \<Rightarrow> nat \<Rightarrow> dir_state \<Rightarrow> bool" where
  "at_entry es j d \<longleftrightarrow>
     (\<exists>k. ds_buffer d = tagged es j k) \<and> (\<forall>c. ds_end d = Some c \<longrightarrow> c = cookie es (length es) \<and> es \<noteq> [])"

lemma hd_tagged: "tagged es j k \<noteq> [] \<Longrightarrow> fst (hd (tagged es j k)) = cookie es j"
  using tagged_nth [of 0 es j k] by (cases "tagged es j k") auto

text \<open>A page that is asked of the server; what the handle held before no longer matters, unless that was the end.\<close>

lemma dir_page_fetch:
  assumes e: "lists_dir e fh es ok" and j: "j \<le> length es" and d: "fs_dirs s fh = Some d" and ok: "ok (fs_world s)"
    and fetch: "\<not> (cookie es j \<noteq> 0 \<and> ds_buffer d \<noteq> [] \<and> fst (hd (ds_buffer d)) = cookie es j)"
      "\<not> (cookie es j \<noteq> 0 \<and> ds_end d = Some (cookie es j))"
  obtains k s' d' where "dir_page e fh (cookie es j) False s = Some (Ok (tagged es j k), s')"
    "j < length es \<longrightarrow> 0 < k" "fs_dirs s' fh = Some d'" "j = length es \<or> at_entry es j d'" "ok (fs_world s')"
    "fs_nodes s' = fs_nodes s"
proof -
  let ?s1 = "stash fh [] s"
  have s1: "fs_dirs ?s1 fh = Some (d\<lparr>ds_buffer := []\<rparr>)" "fs_world ?s1 = fs_world s" "fs_nodes ?s1 = fs_nodes s"
    using d by (simp_all add: stash_def upd_dir_def)
  let ?amount = "if cookie es j = 0 then READDIR_FETCH_FIRST else READDIR_FETCH"
  obtain k eof w where r: "client_readdir (fe_call e) fh (cookie es j) ?amount ?s1 = (Ok (take k (drop j es), eof), ?s1\<lparr>fs_world := w\<rparr>)"
    "ok w" "if eof then length es \<le> j + k else 0 < k"
    using e ok j s1(2) unfolding lists_dir_def by metis
  let ?es = "take k (drop j es)"
  let ?s2 = "?s1\<lparr>fs_world := w\<rparr>"
  let ?d2 = "d\<lparr>ds_buffer := [], ds_fetched := fuse_now e ?s2\<rparr>"
  let ?d3 = "if ?es = [] then ?d2 else ?d2\<lparr>ds_end := if eof then Some (next_offset (last ?es)) else None\<rparr>"
  obtain s3 where run: "dir_page e fh (cookie es j) False s = Some (Ok (tagged es j k), s3)"
    "fs_dirs s3 fh = Some ?d3" "fs_world s3 = w" "fs_nodes s3 = fs_nodes s"
    using d fetch r(1) s1
    by (auto simp: dir_page_def Let_def bind_io_def ask_def map_err_def note_end_def upd_dir_def tagged_def)
  have more: "j < length es \<longrightarrow> 0 < k" using r(3) by (auto split: if_splits)
  have "next_offset (last ?es) = cookie es (length es)" if "eof" "?es \<noteq> []"
  proof -
    have "?es = drop j es" using r(3) that(1) by simp
    then show ?thesis using that(2) by (auto simp: cookie_def last_drop last_conv_nth)
  qed
  then have "j = length es \<or> at_entry es j ?d3"
    using more j unfolding at_entry_def by (auto intro!: exI [of _ 0])
  with that [OF run(1) more run(2)] run r(2) show ?thesis by simp
qed

lemma dir_page_at:
  assumes e: "lists_dir e fh es ok" and es: "cookies_ok es" and j: "j \<le> length es"
    and d: "fs_dirs s fh = Some d" "j = 0 \<or> at_entry es j d" and ok: "ok (fs_world s)"
  obtains k s' d' where "dir_page e fh (cookie es j) False s = Some (Ok (tagged es j k), s')"
    "j < length es \<longrightarrow> 0 < k" "fs_dirs s' fh = Some d'" "j = length es \<or> at_entry es j d'" "ok (fs_world s')"
    "fs_nodes s' = fs_nodes s"
proof (cases "cookie es j \<noteq> 0 \<and> (ds_buffer d \<noteq> [] \<and> fst (hd (ds_buffer d)) = cookie es j \<or> ds_end d = Some (cookie es j))")
  case False
  with dir_page_fetch [OF e j d(1) ok] that show ?thesis by metis
next
  case True
  then have at: "at_entry es j d" using d(2) by (auto simp: cookie_def)
  let ?s1 = "stash fh [] s"
  have s1: "fs_dirs ?s1 fh = Some (d\<lparr>ds_buffer := []\<rparr>)" "fs_world ?s1 = fs_world s" "fs_nodes ?s1 = fs_nodes s"
    using d by (simp_all add: stash_def upd_dir_def)
  have empty: "at_entry es j (d\<lparr>ds_buffer := []\<rparr>)"
    using at unfolding at_entry_def by (auto intro!: exI [of _ 0])
  from at obtain b where b: "ds_buffer d = tagged es j b" by (auto simp: at_entry_def)
  show ?thesis
  proof (cases "ds_buffer d = []")
    case False
    then have "dir_page e fh (cookie es j) False s = Some (Ok (tagged es j b), ?s1)"
      using d(1) b hd_tagged True by (simp add: dir_page_def)
    then show ?thesis using that [of b ?s1] s1 empty ok False b by (simp add: tagged_Nil)
  next
    case empty_buffer: True
    then have "dir_page e fh (cookie es j) False s = Some (Ok [], ?s1)"
      using d(1) True by (auto simp: dir_page_def)
    moreover have "j = length es" using at True empty_buffer cookie_eq [OF es j, of "length es"] by (auto simp: at_entry_def)
    ultimately show ?thesis using that [of 0 ?s1] s1 empty ok by simp
  qed
qed

subsection \<open>What the kernel takes of a page\<close>

definition plain_item :: "node_table \<Rightarrow> u64 \<Rightarrow> u64 \<Rightarrow> dir_entry \<Rightarrow> dir_item option" where
  "plain_item t dir parent en =
     (case plain_number t dir parent en of
        Some (Some number) \<Rightarrow> Some \<lparr>di_ino = number, di_offset = next_offset en,
          di_kind = file_type (case entry_attr en of Some a \<Rightarrow> attr_kind a | None \<Rightarrow> Directory), di_name = entry_name en\<rparr>
      | _ \<Rightarrow> None)"

text \<open>Every entry of a page has a number: the kernel takes some first entries, and the rest comes back.\<close>

lemma add_plain_takes:
  assumes "\<forall>(c, en) \<in> set page. plain_item t dir parent en \<noteq> None"
  shows "\<exists>r \<le> length page. add_plain fits t dir parent page added =
      Some (added @ map (the \<circ> plain_item t dir parent \<circ> snd) (take r page), drop r page) \<and>
    (r < length page \<longrightarrow> \<not> fits (added @ map (the \<circ> plain_item t dir parent \<circ> snd) (take r page)) (the (plain_item t dir parent (snd (page ! r)))))"
  using assms
proof (induction page arbitrary: added)
  case (Cons p page)
  obtain c en where p: "p = (c, en)" by (cases p)
  then obtain number where num: "plain_number t dir parent en = Some (Some number)"
    and item: "plain_item t dir parent en = Some \<lparr>di_ino = number, di_offset = next_offset en,
      di_kind = file_type (case entry_attr en of Some a \<Rightarrow> attr_kind a | None \<Rightarrow> Directory), di_name = entry_name en\<rparr>"
    using Cons.prems by (auto simp: plain_item_def split: option.splits)
  let ?item = "the (plain_item t dir parent en)"
  show ?case
  proof (cases "fits added ?item")
    case True
    then obtain r where "r \<le> length page" "add_plain fits t dir parent page (added @ [?item]) =
        Some ((added @ [?item]) @ map (the \<circ> plain_item t dir parent \<circ> snd) (take r page), drop r page)"
      "r < length page \<longrightarrow> \<not> fits ((added @ [?item]) @ map (the \<circ> plain_item t dir parent \<circ> snd) (take r page))
         (the (plain_item t dir parent (snd (page ! r))))"
      using Cons by (metis list.set_intros(2))
    then show ?thesis
      using True p num item by (intro exI [of _ "Suc r"]) (simp add: Let_def comp_def)
  next
    case False
    then show ?thesis
      using p num item by (intro exI [of _ 0]) (simp add: Let_def)
  qed
qed simp

subsection \<open>The kernel's listing\<close>

text \<open>
  The kernel lists a directory: it asks for a page from where the last ended, each page with the room it has, until
  one is empty.
\<close>

fun kernel_lists :: "'s fuse_env \<Rightarrow> u64 \<Rightarrow> u64 \<Rightarrow> u64 \<Rightarrow> (dir_item list \<Rightarrow> dir_item \<Rightarrow> bool) list \<Rightarrow> 's fuse \<Rightarrow> dir_item list option" where
  "kernel_lists e ino fh offset [] s = None"
| "kernel_lists e ino fh offset (fits # pages) s =
     (case fuse_readdir e fits ino fh offset s of
        Some (Inr (FDir items), s1) \<Rightarrow>
          if items = [] then Some []
          else map_option (append items) (kernel_lists e ino fh (di_offset (last items)) pages s1)
      | _ \<Rightarrow> None)"

definition numbered :: "node_table \<Rightarrow> u64 \<Rightarrow> u64 \<Rightarrow> dir_entry list \<Rightarrow> bool" where
  "numbered t dir parent es \<longleftrightarrow> (\<forall>en \<in> set es. plain_item t dir parent en \<noteq> None)"

lemma map_snd_tagged: "map snd (tagged es j k) = take k (drop j es)"
proof -
  have "map snd (tag_with_cookies xs c) = xs" for xs c by (induction xs arbitrary: c) auto
  then show ?thesis by (simp add: tagged_def)
qed

lemma fuse_parent_nodes: "fs_nodes s' = fs_nodes s \<Longrightarrow> fuse_parent_of ino s' = fuse_parent_of ino s"
  by (simp add: fuse_parent_of_def)

lemma kernel_lists_from:
  assumes e: "lists_dir e fh es ok" and es: "cookies_ok es" and j: "j \<le> length es"
    and d: "fs_dirs s fh = Some d" "j = 0 \<or> at_entry es j d" and ok: "ok (fs_world s)"
    and num: "numbered (fs_nodes s) ino (fuse_parent_of ino s) es"
    and fits: "\<forall>fits \<in> set pages. \<forall>item. fits [] item" and len: "length es - j < length pages"
  shows "kernel_lists e ino fh (cookie es j) pages s =
    Some (map (the \<circ> plain_item (fs_nodes s) ino (fuse_parent_of ino s)) (drop j es))"
  using j d ok num fits len
proof (induction pages arbitrary: j s d)
  case (Cons f pages)
  let ?item = "the \<circ> plain_item (fs_nodes s) ino (fuse_parent_of ino s)"
  obtain k s1 d1 where page: "dir_page e fh (cookie es j) False s = Some (Ok (tagged es j k), s1)"
    "j < length es \<longrightarrow> 0 < k" "fs_dirs s1 fh = Some d1" "j = length es \<or> at_entry es j d1" "ok (fs_world s1)"
    "fs_nodes s1 = fs_nodes s"
    using dir_page_at [OF e es Cons.prems(1-4)] by blast
  have parent: "fuse_parent_of ino s1 = fuse_parent_of ino s" using fuse_parent_nodes page(6) by metis
  have all: "\<forall>(c, en) \<in> set (tagged es j k). plain_item (fs_nodes s) ino (fuse_parent_of ino s) en \<noteq> None"
  proof
    fix x
    assume "x \<in> set (tagged es j k)"
    then have "snd x \<in> set es"
      using map_snd_tagged [of es j k] by (metis image_eqI in_set_dropD in_set_takeD list.set_map)
    then show "case x of (c, en) \<Rightarrow> plain_item (fs_nodes s) ino (fuse_parent_of ino s) en \<noteq> None"
      using Cons.prems(5) by (auto simp: numbered_def split: prod.split)
  qed
  obtain r where r: "r \<le> length (tagged es j k)"
    "add_plain f (fs_nodes s) ino (fuse_parent_of ino s) (tagged es j k) [] =
      Some (map (?item \<circ> snd) (take r (tagged es j k)), drop r (tagged es j k))"
    "r < length (tagged es j k) \<longrightarrow> \<not> f (map (?item \<circ> snd) (take r (tagged es j k))) (the (plain_item (fs_nodes s) ino (fuse_parent_of ino s) (snd (tagged es j k ! r))))"
    using add_plain_takes [OF all, of f "[]"] unfolding append_Nil by blast
  have items: "map (?item \<circ> snd) (take r (tagged es j k)) = map ?item (take r (drop j es))"
  proof -
    have "map snd (take r (tagged es j k)) = take r (drop j es)"
      using r(1) by (simp add: take_map [symmetric] map_snd_tagged min_absorb1)
    then show ?thesis by (metis map_map)
  qed
  let ?s2 = "stash fh (drop r (tagged es j k)) s1"
  have run: "fuse_readdir e f ino fh (cookie es j) s = Some (Ok (FDir (map ?item (take r (drop j es)))), ?s2)"
    using page(1,6) parent r(2) items by (simp add: fuse_readdir_def bind_io_def)
  show ?case
  proof (cases "j = length es")
    case True
    then show ?thesis using run by simp
  next
    case False
    then have "0 < length (tagged es j k)" using page(2) Cons.prems(1) by auto
    moreover have "f [] x" for x using Cons.prems(6) by simp
    ultimately have r0: "0 < r" using r(3) by (cases r) auto
    have jr: "j + r \<le> length es" "r \<le> k" using r(1) False Cons.prems(1) by auto
    have "last (map ?item (take r (drop j es))) = ?item (es ! (j + r - 1))"
      using r0 jr by (simp add: last_map last_conv_nth)
    moreover have "di_offset (?item en) = next_offset en" if "en \<in> set es" for en
      using Cons.prems(5) that by (auto simp: numbered_def plain_item_def split: option.splits)
    ultimately have off: "di_offset (last (map ?item (take r (drop j es)))) = cookie es (j + r)"
      using r0 jr by (simp add: cookie_def)
    have s2: "fs_nodes ?s2 = fs_nodes s" "fs_world ?s2 = fs_world s1"
      "fs_dirs ?s2 fh = Some (d1\<lparr>ds_buffer := drop r (tagged es j k)\<rparr>)"
      using page(3,6) by (simp_all add: stash_def upd_dir_def)
    have at: "at_entry es (j + r) (d1\<lparr>ds_buffer := drop r (tagged es j k)\<rparr>)"
      using page(4) False drop_tagged [OF jr(2)] by (auto simp: at_entry_def)
    have "length es - (j + r) < length pages" using Cons.prems(1,7) r0 jr False by simp
    then have "kernel_lists e ino fh (cookie es (j + r)) pages ?s2 = Some (map ?item (drop (j + r) es))"
      using Cons.IH [OF jr(1) s2(3) disjI2 [OF at]] Cons.prems(5,6) s2 page(5) fuse_parent_nodes [OF s2(1)] by (auto simp: comp_def)
    moreover have "map ?item (take r (drop j es)) \<noteq> []" using r0 jr False by auto
    moreover have "take r (drop j es) @ drop (j + r) es = drop j es"
      by (metis append_take_drop_id drop_drop add.commute)
    ultimately show ?thesis using run off by (simp flip: map_append)
  qed
qed simp

subsection \<open>Property\<close>

lemma numbered_entries:
  assumes "\<forall>en \<in> set es. entry_name en = [dot] \<or> entry_name en = [dot, dot] \<or> entry_attr en \<noteq> None"
    and "2 \<le> free" "\<not> has_node t free"
  shows "numbered t dir parent es"
proof -
  have "plain_item t dir parent en \<noteq> None" if "en \<in> set es" for en
  proof (cases "entry_attr en")
    case (Some a)
    then show ?thesis
      using id_for_total [OF assms(2,3), of "seen_of a"] by (auto simp: plain_item_def plain_number_def)
  qed (use assms(1) that in \<open>auto simp: plain_item_def plain_number_def\<close>)
  then show ?thesis by (simp add: numbered_def)
qed

text \<open>
  The kernel sees a whole directory, each entry once and in the directory's order: reading page after page
  from where the last ended, whatever room its pages have as long as each takes an entry, and whatever number of
  entries the server sends at a time, it is done after at most one page more than there are entries; and it
  starts over from the beginning whatever the handle still held of an earlier listing.
\<close>

theorem kernel_lists_directory:
  assumes "lists_dir e fh es ok" and "cookies_ok es" and "ok (fs_world s)" and "fs_dirs s fh = Some d"
    and "\<forall>en \<in> set es. entry_name en = [dot] \<or> entry_name en = [dot, dot] \<or> entry_attr en \<noteq> None"
    and "2 \<le> free" "\<not> has_node (fs_nodes s) free"
    and "\<forall>fits \<in> set pages. \<forall>item. fits [] item" and "length es < length pages"
  shows "\<exists>items. kernel_lists e ino fh 0 pages s = Some items \<and>
    map di_name items = map entry_name es \<and> map di_offset items = map next_offset es"
proof -
  let ?item = "the \<circ> plain_item (fs_nodes s) ino (fuse_parent_of ino s)"
  have num: "numbered (fs_nodes s) ino (fuse_parent_of ino s) es" by (rule numbered_entries [OF assms(5-7)])
  then have "kernel_lists e ino fh 0 pages s = Some (map ?item es)"
    using kernel_lists_from [OF assms(1,2) _ assms(4) _ assms(3) num assms(8), of 0] assms(9) by (simp add: cookie_def)
  moreover have "di_name (?item en) = entry_name en \<and> di_offset (?item en) = next_offset en" if "en \<in> set es" for en
    using num that by (auto simp: numbered_def plain_item_def split: option.splits)
  ultimately show ?thesis by simp
qed

text \<open>A server with a directory of its two dots and a file, which sends one entry at a time.\<close>

definition small_dir :: "dir_entry list" where
  "small_dir =
     [\<lparr>next_offset = 10, entry_name = [dot], entry_attr = None\<rparr>,
      \<lparr>next_offset = 20, entry_name = [dot, dot], entry_attr = None\<rparr>,
      \<lparr>next_offset = 30, entry_name = [97], entry_attr = Some example_file\<rparr>]"

definition small_server :: "unit fuse_env" where
  "small_server = gone_env\<lparr>fe_call := (\<lambda>req s.
     (case req of
        Readdir fh offset amount \<Rightarrow>
          (let j = (if offset = 0 then 0 else if offset = 10 then 1 else if offset = 20 then 2 else 3)
           in Ok (RReaddir (take 1 (drop j small_dir)) (j = 3)))
      | _ \<Rightarrow> Err Disconnected, s))\<rparr>"

theorem kernel_lists_directory_witness:
  "\<exists>items. kernel_lists small_server ROOT 4 0 (replicate 4 (\<lambda>added item. length added < 2))
       ((fuse_new table_default ())\<lparr>fs_dirs := [4 \<mapsto> \<lparr>ds_ino = ROOT, ds_buffer = [], ds_fetched = 0, ds_end = None\<rparr>]\<rparr>) = Some items \<and>
     map di_name items = [[dot], [dot, dot], [97]]"
proof -
  let ?s = "(fuse_new table_default ())\<lparr>fs_dirs := [4 \<mapsto> \<lparr>ds_ino = ROOT, ds_buffer = [], ds_fetched = 0, ds_end = None\<rparr>]\<rparr>"
  have cookie: "cookie small_dir j = (if j = 0 then 0 else if j = 1 then 10 else if j = 2 then 20 else 30)" if "j \<le> 3" for j
    using that by (auto simp: cookie_def small_dir_def nth_Cons' le_Suc_eq numeral_3_eq_3)
  have asked: "client_readdir (fe_call small_server) 4 (cookie small_dir j) amount s =
      (Ok (take 1 (drop j small_dir), j = 3), s\<lparr>fs_world := ()\<rparr>)" if "j \<le> 3" for j amount and s :: "unit fuse"
    using cookie [OF that] that by (auto simp: client_readdir_def small_server_def expecting_def le_Suc_eq numeral_3_eq_3)
  have "length small_dir = 3" by (simp add: small_dir_def)
  then have "lists_dir small_server 4 small_dir (\<lambda>_. True)"
    unfolding lists_dir_def using asked by (auto split: if_splits intro!: exI [of _ "Suc 0"])
  moreover have "cookies_ok small_dir" by (simp add: cookies_ok_def small_dir_def)
  moreover have "\<not> has_node (fs_nodes ?s) 9" by (simp add: fuse_new_def new_table_def has_node_def ROOT_def)
  ultimately show ?thesis
    using kernel_lists_directory [of small_server 4 small_dir "\<lambda>_. True" ?s _ 9 "replicate 4 (\<lambda>added item. length added < 2)" ROOT]
    by (auto simp: small_dir_def)
qed

end
