(* ===== verification/Mounted.thy ===== *)
theory Mounted
  imports Listings OpsFiles FuseDirs
begin

text \<open>
  A mount and its server together: a request of the kernel as \<open>crates/client/src/fuse.rs\<close> serves it, with the calls it
  makes run by \<open>crates/server/src/ops.rs\<close>.  What goes over the connection is what the parts make of it: the
  mount's owners on the way out (\<open>outgoing\<close>), the server's own policy around the operation (\<open>dispatch\<close>), the
  export's root as node one and the mount's owners on the way back.  The connection itself is one that
  brings the request and the reply.
\<close>

subsection \<open>A call to the server\<close>

text \<open>What a call returns of a reply; a request the server gives no reply to is as one to a server that is gone.\<close>

definition reply_result :: "response \<Rightarrow> (response, client_error) result" where
  "reply_result resp = (case resp of RErr errno \<Rightarrow> Err (Remote errno) | _ \<Rightarrow> Ok resp)"

definition served_call :: "key_root \<Rightarrow> client_ids \<Rightarrow> 'k ops_env \<Rightarrow> 'k ops_state fuse caller" where
  "served_call root ids e req s =
     (case outgoing ids req of
        Inl err \<Rightarrow> (Err err, s)
      | Inr mapped \<Rightarrow>
          (let out = (case mapped of Some r \<Rightarrow> r | None \<Rightarrow> req)
           in case dispatch_begun e out (fs_world s) of
                None \<Rightarrow> (Err Disconnected, s)
              | Some (resp, st) \<Rightarrow> (reply_result (incoming ids out (as_node_one root resp)), s\<lparr>fs_world := st\<rparr>)))"

definition mounted :: "key_root \<Rightarrow> client_ids \<Rightarrow> 'k ops_env \<Rightarrow> 'k ops_state fuse_env \<Rightarrow> 'k ops_state fuse_env" where
  "mounted root ids e fe = fe\<lparr>fe_call := served_call root ids e\<rparr>"

text \<open>It is what an exchange that nothing disturbs, and the attempt around it, return.\<close>

lemma served_as_exchanged:
  assumes "ee_give_up_open env = None" "ee_open env = Ok stream" "ee_encode env out = Ok frame" "ee_give_up_write env = None"
    "ee_write env = Ok ()" "ee_finish env = Ok ()" "ee_reply env = ReplyRead (Ok (body, Ok resp))"
  shows "\<exists>call'. exchange_ended offline deadline aenv (call_exchange env root ids out) call =
    (call', Finished (reply_result (incoming ids out (as_node_one root resp))) False, SentAnswered)"
proof -
  have "call_exchange env root ids out = Ok (incoming ids out (as_node_one root resp))"
    using assms by (simp add: call_exchange_def map_err_def bind_res_def)
  then show ?thesis by (auto simp: exchange_ended_def reply_result_def split: response.split)
qed

text \<open>A request that opens nothing and names no owner.\<close>

lemma served_call_plain:
  assumes "outgoing ids req = Ok None" "opens req = None" "dispatch e req (Ok None) (fs_world s) = Some (resp, st)"
  shows "served_call root ids e req s = (reply_result (incoming ids req (as_node_one root resp)), s\<lparr>fs_world := st\<rparr>)"
  using assms by (simp add: served_call_def dispatch_begun_def ops_reserve_def)

lemma outgoing_plain:
  "outgoing ids (Read fh off amount) = Ok None" "outgoing ids (Write fh off data) = Ok None"
  "outgoing ids (Readdir fh off max_bytes) = Ok None"
  "opens (Read fh off amount) = None" "opens (Write fh off data) = None" "opens (Readdir fh off max_bytes) = None"
  by (simp_all add: outgoing_def owned_outgoing_def opens_def split: client_ids.split)

lemma incoming_plain:
  "incoming ids req (as_node_one root (RWritten n)) = RWritten n" "incoming ids req (as_node_one root (RRead data)) = RRead data"
  by (simp_all add: incoming_def owned_incoming_def as_node_one_def split: client_ids.split)

subsection \<open>Reading back what was written\<close>

text \<open>
  C12. What is written through the mount is what is read back through it: on a file no one else changes, a write of
  at most \<open>MAX_IO\<close> bytes answers the kernel with their number, changes the server's file there and nowhere else
  and is recorded as the session's own; and a read of the same range returns the same bytes, whatever the
  mount does about owners and however the server's system interrupts and shortens the calls.
\<close>

theorem mounted_write_read_back:
  assumes "pread_ok (oe_kernel e) f content patience" "pwrite_ok (oe_kernel e) f content patience"
    and "h_map (os_handles (fs_world s)) fh = Some (HFile f p watch)" "unat off + MAX_IO < 2 ^ 64"
    and "data \<noteq> []" "length data \<le> MAX_IO"
  shows "\<exists>s1 s2. fuse_write (mounted root ids e fe) fh off data s = Some (Ok (FWritten (word_of_nat (length data))), s1) \<and>
    content (w_sys (os_world (fs_world s1))) = splice (unat off) data (content (w_sys (os_world (fs_world s)))) \<and>
    os_log (fs_world s1) = log_record (k_now (oe_kernel e) (w_sys (os_world (fs_world s)))) p (oe_session e) (os_log (fs_world s)) \<and>
    fuse_read (mounted root ids e fe) fh off (word_of_nat (length data)) s1 = Some (Ok (FData data), s2)"
proof -
  obtain st1 st2 where st: "dispatch e (Write fh off data) (Ok None) (fs_world s) = Some (RWritten (word_of_nat (length data)), st1)"
    "content (w_sys (os_world st1)) = splice (unat off) data (content (w_sys (os_world (fs_world s))))"
    "os_log st1 = log_record (k_now (oe_kernel e) (w_sys (os_world (fs_world s)))) p (oe_session e) (os_log (fs_world s))"
    "dispatch e (Read fh off (word_of_nat (length data))) (Ok None) st1 = Some (RRead data, st2)"
    using write_then_read [OF assms] by blast
  have w: "served_call root ids e (Write fh off data) s = (Ok (RWritten (word_of_nat (length data))), s\<lparr>fs_world := st1\<rparr>)"
    using served_call_plain [OF outgoing_plain(2,5) st(1)] by (simp add: incoming_plain reply_result_def)
  have r: "served_call root ids e (Read fh off (word_of_nat (length data))) (s\<lparr>fs_world := st1\<rparr>) = (Ok (RRead data), s\<lparr>fs_world := st2\<rparr>)"
    using served_call_plain [OF outgoing_plain(1,4), of e _ _ _ "s\<lparr>fs_world := st1\<rparr>"] st(4) by (simp add: incoming_plain reply_result_def)
  show ?thesis
    using st(2,3)
    by (intro exI [of _ "s\<lparr>fs_world := st1\<rparr>"] exI [of _ "s\<lparr>fs_world := st2\<rparr>"])
      (simp add: fuse_write_def fuse_read_def mounted_def client_write_def client_read_def call_bytes_def want_bytes_def ask_def
        bind_io_def ret_def w r expecting_def map_err_def)
qed

definition idle_env :: "'s fuse_env" where
  "idle_env = \<lparr>fe_call = (\<lambda>req s. (Err Disconnected, s)), fe_opener = (\<lambda>tid s. (None, s)), fe_now = (\<lambda>w. 0),
     fe_order = (\<lambda>t. []), fe_entry_ttl = 1, fe_attr_ttl = 1\<rparr>"

definition example_root :: key_root where
  "example_root = \<lparr>kr_ino = 2, kr_identity = \<lparr>handle_type = 1, handle = [2]\<rparr>\<rparr>"

theorem mounted_write_read_back_witness:
  "let m = mounted example_root IdsDirect slow_env idle_env
   in \<exists>s1 s2. fuse_write m 7 4 [8, 9, 10] (fuse_new table_default (slow_state [1, 2] 1)) = Some (Ok (FWritten 3), s1) \<and>
     fst (w_sys (os_world (fs_world s1))) = [1, 2, 0, 0, 8, 9, 10] \<and> fuse_read m 7 4 3 s1 = Some (Ok (FData [8, 9, 10]), s2)"
proof -
  have "splice (unat (4 :: u64)) [8, 9, 10] [1, 2] = [1, 2, 0, 0, 8, 9, 10]" by code_simp
  moreover have "unat (4 :: u64) + MAX_IO < 2 ^ 64" "length [8, 9, 10 :: u8] \<le> MAX_IO" by (simp_all add: MAX_IO_def)
  moreover have "pread_ok (oe_kernel slow_env) 5 fst snd" "pwrite_ok (oe_kernel slow_env) 5 fst snd"
    using slow_kernel_ok by (simp_all add: slow_env_def)
  moreover have "h_map (os_handles (fs_world (fuse_new table_default (slow_state [1, 2] 1)))) 7 = Some (HFile 5 (Path [Name [97]]) None)"
    "fst (w_sys (os_world (fs_world (fuse_new table_default (slow_state [1, 2] 1))))) = [1, 2]"
    by (simp_all add: fuse_new_def slow_defs)
  ultimately show ?thesis
    using mounted_write_read_back [of slow_env 5 fst snd "fuse_new table_default (slow_state [1, 2] 1)" 7 "Path [Name [97]]" None 4
        "[8, 9, 10]" example_root IdsDirect idle_env]
    unfolding Let_def by simp blast
qed

subsection \<open>Listing a directory\<close>

text \<open>An entry as the kernel's side gets it: with the owners the server and the mount show, and the root as node one.\<close>

definition shown_attr :: "key_root \<Rightarrow> client_ids \<Rightarrow> server_ids \<Rightarrow> attr \<Rightarrow> attr" where
  "shown_attr root ids sids a =
     (let a1 = (if ids_mode sids = ServerIds.Flatten then map_attr (flatten_owner sids) a else a); a2 = root_rewrite root a1
      in case ids of IdsDirect \<Rightarrow> a2 | IdsOwned o' \<Rightarrow> map_attr (to_local o') a2)"

definition shown_entry :: "key_root \<Rightarrow> client_ids \<Rightarrow> server_ids \<Rightarrow> dir_entry \<Rightarrow> dir_entry" where
  "shown_entry root ids sids en = en\<lparr>entry_attr := map_option (shown_attr root ids sids) (entry_attr en)\<rparr>"

lemma shown_entry_sel [simp]:
  "entry_name (shown_entry root ids sids en) = entry_name en" "next_offset (shown_entry root ids sids en) = next_offset en"
  "entry_attr (shown_entry root ids sids en) = None \<longleftrightarrow> entry_attr en = None"
  by (simp_all add: shown_entry_def)

lemma incoming_readdir:
  "incoming ids req (as_node_one root (reply_ids sids acl (RReaddir es eof))) = RReaddir (map (shown_entry root ids sids) es) eof"
  by (cases ids; cases "ids_mode sids = ServerIds.Flatten")
    (simp_all add: incoming_def owned_incoming_def as_node_one_def reply_ids_def shown_entry_def [abs_def] shown_attr_def [abs_def]
      option.map_comp comp_def Let_def option.map_ident)

lemma set_listed:
  "set (listed k ex d s raws) =
     {\<lparr>next_offset = rd_off raw, entry_name = rd_name raw, entry_attr = a\<rparr> | raw a.
        raw \<in> set raws \<and> described k ex d s (rd_name raw) = Ok (Some a)}"
proof (induction raws)
  case (Cons raw raws)
  let ?here = "{\<lparr>next_offset = rd_off raw, entry_name = rd_name raw, entry_attr = a\<rparr> | a.
      described k ex d s (rd_name raw) = Ok (Some a)}"
  have "set (listed k ex d s (raw # raws)) = ?here \<union> set (listed k ex d s raws)"
  proof (cases "described k ex d s (rd_name raw)")
    case (Inr found)
    then show ?thesis by (cases found) (simp_all add: listed_def List.map_filter_simps)
  qed (simp add: listed_def List.map_filter_simps)
  then show ?case unfolding Cons by auto
qed (simp add: listed_def List.map_filter_simps)

text \<open>Where the first few entries of a listing end among the records.\<close>

lemma listed_cut:
  assumes "j \<le> length (listed k ex d s raws)"
  shows "\<exists>p \<le> length raws. listed k ex d s (take p raws) = take j (listed k ex d s raws) \<and>
    (if j = 0 then p = 0 else 0 < p \<and> rd_off (raws ! (p - 1)) = next_offset (listed k ex d s raws ! (j - 1)))"
  using assms
proof (induction raws arbitrary: j)
  case (Cons raw raws)
  show ?case
  proof (cases "j = 0")
    case False
    have one: "listed k ex d s (raw # rs) = listed k ex d s [raw] @ listed k ex d s rs" for rs
      using listed_append [of k ex d s "[raw]" rs] by simp
    have single: "listed k ex d s [raw] = [] \<or> (\<exists>en. listed k ex d s [raw] = [en] \<and> next_offset en = rd_off raw)"
      by (auto simp: listed_def List.map_filter_simps split: sum.split option.split)
    let ?i = "j - length (listed k ex d s [raw])"
    have "?i \<le> length (listed k ex d s raws)" using Cons.prems one [of raws] by simp
    from Cons.IH [OF this] obtain p where "p \<le> length raws" "listed k ex d s (take p raws) = take ?i (listed k ex d s raws)"
      "if ?i = 0 then p = 0 else 0 < p \<and> rd_off (raws ! (p - 1)) = next_offset (listed k ex d s raws ! (?i - 1))" by blast
    then show ?thesis
      using single one [of raws] one [of "take p raws"] False
      by (intro exI [of _ "Suc p"]) (auto simp: nth_Cons' take_Cons' split: if_splits)
  qed (simp add: listed_def List.map_filter_simps)
qed (simp add: listed_def List.map_filter_simps)

lemma listed_cut_rest:
  assumes "listed k ex d s (take p raws) = take j (listed k ex d s raws)" "j \<le> length (listed k ex d s raws)"
  shows "listed k ex d s (drop p raws) = drop j (listed k ex d s raws)"
proof -
  have "take j (listed k ex d s raws) @ listed k ex d s (drop p raws) = listed k ex d s raws"
    using listed_append [of k ex d s "take p raws" "drop p raws"] assms(1) by simp
  then show ?thesis using assms(2) by (metis append_take_drop_id same_append_eq)
qed

text \<open>Offsets tell the records of a directory apart, as each seeks to its own place.\<close>

lemma stream_offsets:
  assumes "dir_stream k d rs pos"
  shows "distinct (map de_off rs)" "0 \<notin> set (map de_off rs)"
proof -
  have at: "seeks k d pos (de_off (rs ! i)) (Suc i)" if "i < length rs" for i using seeks_after [OF assms that] .
  have same: "p = q" if "seeks k d pos off p" "seeks k d pos off q" for off p q
    using that unfolding seeks_def by (metis Pair_inject)
  show "distinct (map de_off rs)"
    using at same by (auto simp: distinct_conv_nth) (metis nat.inject)
  show "0 \<notin> set (map de_off rs)"
    using at same seeks_start [OF assms] by (auto simp: in_set_conv_nth) (metis nat.distinct(1))
qed

lemma listed_offsets:
  "distinct (map rd_off raws) \<Longrightarrow> distinct (map next_offset (listed k ex d s raws))"
  "set (map next_offset (listed k ex d s raws)) \<subseteq> set (map rd_off raws)"
proof -
  have sub: "set (map next_offset (listed k ex d s raws)) \<subseteq> set (map rd_off raws)" for raws
    by (auto simp: set_listed)
  then show "set (map next_offset (listed k ex d s raws)) \<subseteq> set (map rd_off raws)" .
  show "distinct (map rd_off raws) \<Longrightarrow> distinct (map next_offset (listed k ex d s raws))"
  proof (induction raws)
    case (Cons raw raws)
    then show ?case using sub [of raws] by (auto simp: listed_def List.map_filter_simps split: sum.splits option.splits)
  qed (simp add: listed_def List.map_filter_simps)
qed

lemma listed_cookies: "dir_stream k d rs pos \<Longrightarrow> cookies_ok (listed k ex d s (map raw_of rs))"
  using stream_offsets [of k d rs pos] listed_offsets [where raws = "map raw_of rs" and k = k and ex = ex and d = d and s = s]
  by (auto simp: cookies_ok_def raw_of_def comp_def)

lemma listed_described:
  assumes "steady_nodes k" "en \<in> set (listed k ex d s raws)"
  shows "entry_name en = [dot] \<or> entry_name en = [dot, dot] \<or> entry_attr en \<noteq> None"
proof -
  obtain raw :: raw_dirent where en: "described k ex d s (rd_name raw) = Ok (Some (entry_attr en))" "entry_name en = rd_name raw"
    using assms(2) by (auto simp: set_listed)
  obtain w' where "describe_entry k ex d (rd_name raw) \<lparr>w_sys = s, w_trace = []\<rparr> = Some (Ok (Some (entry_attr en)), w')"
    using described_at [OF assms(1)] en(1) by metis
  then show ?thesis
    using en(2) by (auto simp: describe_entry_def bind_io_Some ret_def split: if_splits sum.splits) (metis sumE)
qed

lemma dispatch_readdir:
  assumes "op_readdir e fh off max_bytes st = Some (Ok resp, st')"
  shows "dispatch e (Readdir fh off max_bytes) (Ok None) st = Some (reply_ids (oe_ids e) False resp, st')"
  using assms by (simp add: dispatch_def admit_def err_io_def map_err_def reads_posix_acl_def)

lemma mounted_lists_dir:
  assumes k: "steady_nodes (oe_kernel e)" and d: "dir_stream (oe_kernel e) d rs pos"
    and ok: "listable (oe_kernel e) (oe_export e) d w (map raw_of rs)"
  shows "lists_dir (mounted root ids e fe) fh
    (map (shown_entry root ids (oe_ids e)) (listed (oe_kernel e) (oe_export e) d w (map raw_of rs)))
    (\<lambda>st. h_map (os_handles st) fh = Some (HDir d watch))"
  unfolding lists_dir_def
proof (intro allI impI)
  let ?raws = "map raw_of rs" and ?show = "shown_entry root ids (oe_ids e)"
  let ?listed = "listed (oe_kernel e) (oe_export e) d w"
  fix s :: "'a ops_state fuse" and j amount
  assume fh: "h_map (os_handles (fs_world s)) fh = Some (HDir d watch)" and "j \<le> length (map ?show (?listed ?raws))"
  then have j: "j \<le> length (?listed ?raws)" by simp
  from listed_cut [OF this] obtain p where p: "p \<le> length rs" "?listed (take p ?raws) = take j (?listed ?raws)"
    "if j = 0 then p = 0 else 0 < p \<and> rd_off (?raws ! (p - 1)) = next_offset (?listed ?raws ! (j - 1))" by auto
  let ?off = "cookie (map ?show (?listed ?raws)) j"
  have "seeks (oe_kernel e) d pos ?off p"
    using p(1,3) j seeks_start [OF d] seeks_after [OF d, of "p - 1"] by (cases "j = 0") (auto simp: cookie_def raw_of_def)
  from readdir_from [OF k d ok fh this p(1), of amount] obtain eof m st' where
    run: "op_readdir e fh ?off amount (fs_world s) = Some (Ok (RReaddir (?listed (take m (drop p ?raws))) eof), st')"
    and st': "os_handles st' = os_handles (fs_world s)" and m: "stops_at (oe_kernel e) (oe_export e) d w (drop p ?raws) (\<not> eof) m" by blast
  let ?page = "?listed (take m (drop p ?raws))"
  have rest: "?page @ ?listed (drop m (drop p ?raws)) = drop j (?listed ?raws)"
    by (simp only: append_take_drop_id listed_cut_rest [OF p(2) j] flip: listed_append)
  then have page: "?page = take (length ?page) (drop j (?listed ?raws))" by (metis append_eq_conv_conj)
  have "served_call root ids e (Readdir fh ?off amount) s = (Ok (RReaddir (map ?show ?page) eof), s\<lparr>fs_world := st'\<rparr>)"
    using served_call_plain [OF outgoing_plain(3,6) dispatch_readdir [OF run]] by (simp add: incoming_readdir reply_result_def)
  then have "client_readdir (fe_call (mounted root ids e fe)) fh ?off amount s =
      (Ok (take (length ?page) (drop j (map ?show (?listed ?raws))), eof), s\<lparr>fs_world := st'\<rparr>)"
    using page by (simp add: client_readdir_def mounted_def expecting_def drop_map take_map)
  moreover have "if eof then length (map ?show (?listed ?raws)) \<le> j + length ?page else 0 < length ?page"
  proof (cases eof)
    case True
    then have "drop m (drop p ?raws) = []" using m by (simp add: stops_at_def)
    then have "?page = drop j (?listed ?raws)" using rest by (simp add: listed_def List.map_filter_simps)
    then show ?thesis using True by simp
  qed (use m in \<open>simp add: stops_at_def\<close>)
  ultimately show "\<exists>k eof w. client_readdir (fe_call (mounted root ids e fe)) fh ?off amount s =
      (Ok (take k (drop j (map ?show (?listed ?raws))), eof), s\<lparr>fs_world := w\<rparr>) \<and>
      h_map (os_handles w) fh = Some (HDir d watch) \<and> (if eof then length (map ?show (?listed ?raws)) \<le> j + k else 0 < k)"
    using fh st' by (intro exI [of _ "length ?page"] exI [of _ eof] exI [of _ st']) simp
qed

text \<open>
  C11. A directory of the server that nobody changes is listed whole through the mount: a kernel that reads page after
  page, each from where the last ended, is given every entry of the directory that can be shown, once and in
  the directory's order, and is done after at most one page more than there are entries; whatever room its
  pages have as long as each takes an entry, however the mount fetches and buffers, however few records
  the server's system returns at a time, and whatever owners the two sides show.
\<close>

theorem mounted_directory_listed:
  assumes "steady_nodes (oe_kernel e)" "dir_stream (oe_kernel e) d rs pos"
    and "listable (oe_kernel e) (oe_export e) d w (map raw_of rs)"
    and "h_map (os_handles (fs_world s)) fh = Some (HDir d watch)" "fs_dirs s fh = Some ds"
    and "2 \<le> free" "\<not> has_node (fs_nodes s) free"
    and "\<forall>fits \<in> set pages. \<forall>item. fits [] item" and "length rs < length pages"
  shows "\<exists>items. kernel_lists (mounted root ids e fe) ino fh 0 pages s = Some items \<and>
    map di_name items = map entry_name (listed (oe_kernel e) (oe_export e) d w (map raw_of rs))"
proof -
  let ?es = "listed (oe_kernel e) (oe_export e) d w (map raw_of rs)" and ?show = "shown_entry root ids (oe_ids e)"
  have "length ?es \<le> length rs" by (simp add: listed_def List.map_filter_def order_trans [OF length_filter_le])
  then have "length (map ?show ?es) < length pages" using assms(9) by simp
  moreover have "cookies_ok (map ?show ?es)" using listed_cookies [OF assms(2)] by (simp add: cookies_ok_def comp_def)
  moreover have "\<forall>en \<in> set (map ?show ?es). entry_name en = [dot] \<or> entry_name en = [dot, dot] \<or> entry_attr en \<noteq> None"
    by (auto simp del: not_None_eq dest: listed_described [OF assms(1)])
  ultimately obtain items where "kernel_lists (mounted root ids e fe) ino fh 0 pages s = Some items"
    "map di_name items = map entry_name (map ?show ?es)"
    using kernel_lists_directory [OF mounted_lists_dir [OF assms(1-3)] _ assms(4,5) _ assms(6-8)] by blast
  then show ?thesis by (auto simp: comp_def)
qed

theorem mounted_directory_listed_witness:
  "let e = plain_env\<lparr>oe_kernel := two_kernel\<rparr>;
       st = (plain_state 0)\<lparr>os_handles := (handles_new 4)\<lparr>h_map := [7 \<mapsto> HDir 4 None]\<rparr>\<rparr>;
       s = (fuse_new table_default st)\<lparr>fs_dirs := [7 \<mapsto> \<lparr>ds_ino = ROOT, ds_buffer = [], ds_fetched = 0, ds_end = None\<rparr>]\<rparr>
   in \<exists>items. kernel_lists (mounted example_root IdsDirect e idle_env) ROOT 7 0 (replicate 3 (\<lambda>added item. added = [])) s = Some items \<and>
        map di_name items = [[97], [98]]"
proof -
  let ?e = "plain_env\<lparr>oe_kernel := two_kernel\<rparr>"
  let ?st = "(plain_state 0)\<lparr>os_handles := (handles_new 4)\<lparr>h_map := [7 \<mapsto> HDir 4 None]\<rparr>\<rparr>"
  let ?ds = "\<lparr>ds_ino = ROOT, ds_buffer = [], ds_fetched = 0, ds_end = None\<rparr>"
  let ?s = "(fuse_new table_default ?st)\<lparr>fs_dirs := [7 \<mapsto> ?ds]\<rparr>"
  have "listable (oe_kernel ?e) (oe_export ?e) 4 0 (map raw_of two_records)"
    "map entry_name (listed (oe_kernel ?e) (oe_export ?e) 4 0 (map raw_of two_records)) = [[97], [98]]"
    by code_simp+
  moreover have "\<not> has_node (fs_nodes ?s) 9" by (simp add: fuse_new_def new_table_def has_node_def ROOT_def)
  moreover have "length two_records < length (replicate 3 (\<lambda>added item. added = []))" by (simp add: two_records_def)
  ultimately show ?thesis
    using mounted_directory_listed [of ?e 4 two_records "\<lambda>s. s" 0 ?s 7 None ?ds 9
        "replicate 3 (\<lambda>added item. added = [])" example_root IdsDirect idle_env ROOT] two_kernel_ok
    by (simp add: Let_def fuse_new_def)
qed

end
