(* ===== verification/Wire.thy ===== *)
theory Wire
  imports Messages Codec
begin

text \<open>
  The conversions between messages and the structures of the schema (\<open>crates/proto/src/wire.rs\<close>, for
  \<open>crates/proto/schema/jackalopefs.capnp\<close>).  The readers and builders are generated and the library behind them is not
  part of the program: a structure here is what its generated reader returns, field by field, where
  a pointer may be refused and the discriminant of a union or an enum may be one the schema does not have, so every
  message a peer can send is such a value; and what was built is what its reader returns.  The texts
  of errors carry no numbers.
\<close>

subsection \<open>What readers return\<close>

type_synonym 'a got = "('a, error_decode) result"

type_synonym wire_path = "u8 list got list got"

datatype wire_kind = WRegular | WDirectory | WSymlink | WFifo | WSocket | WCharDevice | WBlockDevice

datatype wire_whence = WData | WHole

record wire_identity =
  wi_handle_type :: u32
  wi_handle :: "u8 list got"

record wire_attr =
  wa_ino :: u64
  wa_size :: u64
  wa_blocks :: u64
  wa_atime :: time_spec
  wa_mtime :: time_spec
  wa_ctime :: time_spec
  wa_kind :: "wire_kind got"
  wa_perm :: u16
  wa_nlink :: u32
  wa_uid :: u32
  wa_gid :: u32
  wa_rdev :: u64
  wa_blksize :: u32
  wa_xattr_names :: "u8 list got list got option got"
  wa_identity :: "wire_identity got"
  wa_foreign :: bool

record wire_dir_entry =
  wd_next_offset :: u64
  wd_name :: "u8 list got"
  wd_attr :: "wire_attr got option got"

datatype wire_time_or_now = WTime "time_spec got" | WNow

record wire_set_attr =
  ws_mode :: "u32 option got"
  ws_uid :: "u32 option got"
  ws_gid :: "u32 option got"
  ws_size :: "u64 option got"
  ws_atime :: "wire_time_or_now got got option got"
  ws_mtime :: "wire_time_or_now got got option got"

subsection \<open>Values\<close>

text \<open>A field that is there or not.\<close>

definition parse_option :: "('a \<Rightarrow> 'b got) \<Rightarrow> 'a option got \<Rightarrow> 'b option got" where
  "parse_option parse field =
     bind_res field (\<lambda>found. case found of None \<Rightarrow> Ok None | Some a \<Rightarrow> bind_res (parse a) (\<lambda>b. Ok (Some b)))"

definition checked_len :: "nat \<Rightarrow> nat \<Rightarrow> nat got" where
  "checked_len declared message_words =
     (if declared > message_words then Err (Invalid ''list declares more elements than its message has words'') else Ok declared)"

primrec kind_to_wire :: "file_kind \<Rightarrow> wire_kind" where
  "kind_to_wire Regular = WRegular"
| "kind_to_wire Directory = WDirectory"
| "kind_to_wire Symlink = WSymlink"
| "kind_to_wire Fifo = WFifo"
| "kind_to_wire Socket = WSocket"
| "kind_to_wire CharDevice = WCharDevice"
| "kind_to_wire BlockDevice = WBlockDevice"

primrec kind_from_wire :: "wire_kind \<Rightarrow> file_kind" where
  "kind_from_wire WRegular = Regular"
| "kind_from_wire WDirectory = Directory"
| "kind_from_wire WSymlink = Symlink"
| "kind_from_wire WFifo = Fifo"
| "kind_from_wire WSocket = Socket"
| "kind_from_wire WCharDevice = CharDevice"
| "kind_from_wire WBlockDevice = BlockDevice"

primrec whence_to_wire :: "whence \<Rightarrow> wire_whence" where
  "whence_to_wire Data = WData"
| "whence_to_wire Hole = WHole"

primrec whence_from_wire :: "wire_whence \<Rightarrow> whence" where
  "whence_from_wire WData = Data"
| "whence_from_wire WHole = Hole"

definition build_path :: "path \<Rightarrow> wire_path" where
  "build_path p = Ok (map (\<lambda>n. Ok (as_bytes n)) (names p))"

definition get_path :: "wire_path \<Rightarrow> path got" where
  "get_path list = bind_res list parse_path"

definition parse_name :: "u8 list \<Rightarrow> name got" where
  "parse_name bytes = map_err DecodeName (name_new bytes)"

definition get_name :: "u8 list got \<Rightarrow> name got" where
  "get_name bytes = bind_res bytes parse_name"

definition build_identity :: "identity \<Rightarrow> wire_identity" where
  "build_identity i = \<lparr>wi_handle_type = handle_type i, wi_handle = Ok (handle i)\<rparr>"

definition parse_identity :: "wire_identity \<Rightarrow> identity got" where
  "parse_identity r =
     bind_res (wi_handle r) (\<lambda>h.
       if length h > HANDLE_MAX then Err (Invalid ''file handle too long'')
       else Ok \<lparr>handle_type = wi_handle_type r, handle = h\<rparr>)"

definition build_attr :: "attr \<Rightarrow> wire_attr" where
  "build_attr a =
     \<lparr>wa_ino = attr_ino a, wa_size = attr_size a, wa_blocks = attr_blocks a, wa_atime = attr_atime a, wa_mtime = attr_mtime a,
      wa_ctime = attr_ctime a, wa_kind = Ok (kind_to_wire (attr_kind a)), wa_perm = attr_perm a, wa_nlink = attr_nlink a,
      wa_uid = attr_uid a, wa_gid = attr_gid a, wa_rdev = attr_rdev a, wa_blksize = attr_blksize a,
      wa_xattr_names = Ok (map_option (\<lambda>ns. Ok (map Inr ns)) (attr_xattr_names a)),
      wa_identity = Ok (build_identity (attr_identity a)), wa_foreign = attr_foreign a\<rparr>"

definition parse_attr :: "wire_attr \<Rightarrow> attr got" where
  "parse_attr r =
     bind_res (wa_kind r) (\<lambda>kind.
     bind_res (parse_option (\<lambda>list. bind_res list collect_res) (wa_xattr_names r)) (\<lambda>xattr_names.
     bind_res (bind_res (wa_identity r) parse_identity) (\<lambda>ident.
       Ok \<lparr>attr_ino = wa_ino r, attr_size = wa_size r, attr_blocks = wa_blocks r, attr_atime = wa_atime r, attr_mtime = wa_mtime r,
           attr_ctime = wa_ctime r, attr_kind = kind_from_wire kind, attr_perm = wa_perm r, attr_nlink = wa_nlink r,
           attr_uid = wa_uid r, attr_gid = wa_gid r, attr_rdev = wa_rdev r, attr_blksize = wa_blksize r,
           attr_xattr_names = xattr_names, attr_identity = ident, attr_foreign = wa_foreign r\<rparr>)))"

definition build_dir_entry :: "dir_entry \<Rightarrow> wire_dir_entry" where
  "build_dir_entry e =
     \<lparr>wd_next_offset = next_offset e, wd_name = Ok (entry_name e),
      wd_attr = Ok (map_option (\<lambda>a. Ok (build_attr a)) (entry_attr e))\<rparr>"

definition parse_dir_entry :: "wire_dir_entry \<Rightarrow> dir_entry got" where
  "parse_dir_entry r =
     bind_res (wd_name r) (\<lambda>n.
     bind_res (parse_option (\<lambda>a. bind_res a parse_attr) (wd_attr r)) (\<lambda>a.
       Ok \<lparr>next_offset = wd_next_offset r, entry_name = n, entry_attr = a\<rparr>))"

definition build_time_or_now :: "time_or_now \<Rightarrow> wire_time_or_now" where
  "build_time_or_now t = (case t of Time ts \<Rightarrow> WTime (Ok ts) | Now \<Rightarrow> WNow)"

definition parse_time_or_now :: "wire_time_or_now got \<Rightarrow> time_or_now got" where
  "parse_time_or_now r =
     bind_res r (\<lambda>t. case t of WTime ts \<Rightarrow> bind_res ts (\<lambda>ts. Ok (Time ts)) | WNow \<Rightarrow> Ok Now)"

definition build_set_attr :: "set_attr \<Rightarrow> wire_set_attr" where
  "build_set_attr s =
     \<lparr>ws_mode = Ok (set_mode s), ws_uid = Ok (set_uid s), ws_gid = Ok (set_gid s), ws_size = Ok (set_size s),
      ws_atime = Ok (map_option (\<lambda>t. Ok (Ok (build_time_or_now t))) (set_atime s)),
      ws_mtime = Ok (map_option (\<lambda>t. Ok (Ok (build_time_or_now t))) (set_mtime s))\<rparr>"

definition parse_set_attr :: "wire_set_attr \<Rightarrow> set_attr got" where
  "parse_set_attr r =
     bind_res (ws_mode r) (\<lambda>mode.
     bind_res (ws_uid r) (\<lambda>uid.
     bind_res (ws_gid r) (\<lambda>gid.
     bind_res (ws_size r) (\<lambda>len.
     bind_res (parse_option (\<lambda>t. bind_res t parse_time_or_now) (ws_atime r)) (\<lambda>atime.
     bind_res (parse_option (\<lambda>t. bind_res t parse_time_or_now) (ws_mtime r)) (\<lambda>mtime.
       Ok \<lparr>set_mode = mode, set_uid = uid, set_gid = gid, set_size = len, set_atime = atime, set_mtime = mtime\<rparr>))))))"

record wire_statfs =
  wf_blocks :: u64
  wf_bfree :: u64
  wf_bavail :: u64
  wf_files :: u64
  wf_ffree :: u64
  wf_bsize :: u32
  wf_namelen :: u32
  wf_frsize :: u32

definition build_statfs :: "statfs \<Rightarrow> wire_statfs" where
  "build_statfs s =
     \<lparr>wf_blocks = st_blocks s, wf_bfree = st_bfree s, wf_bavail = st_bavail s, wf_files = st_files s, wf_ffree = st_ffree s,
      wf_bsize = st_bsize s, wf_namelen = st_namelen s, wf_frsize = st_frsize s\<rparr>"

definition parse_statfs :: "wire_statfs \<Rightarrow> statfs" where
  "parse_statfs r =
     \<lparr>st_blocks = wf_blocks r, st_bfree = wf_bfree r, st_bavail = wf_bavail r, st_files = wf_files r, st_ffree = wf_ffree r,
      st_bsize = wf_bsize r, st_namelen = wf_namelen r, st_frsize = wf_frsize r\<rparr>"

subsection \<open>The handshake\<close>

datatype wire_auth = WAnonymous | WToken "u8 list got"

record wire_resume =
  wr_session_id :: u64
  wr_token :: "u8 list got"

record wire_hello =
  wh_revision :: u64
  wh_auth :: "wire_auth got"
  wh_resume :: "wire_resume got option got"

definition build_hello :: "hello \<Rightarrow> wire_hello" where
  "build_hello h =
     \<lparr>wh_revision = hello_revision h,
      wh_auth = Ok (case hello_auth h of Anonymous \<Rightarrow> WAnonymous | Token token \<Rightarrow> WToken (Ok token)),
      wh_resume = Ok (map_option (\<lambda>r. Ok \<lparr>wr_session_id = resume_session_id r, wr_token = Ok (resume_token_sent r)\<rparr>) (hello_resume h))\<rparr>"

definition parse_resume_token :: "u8 list \<Rightarrow> u8 list got" where
  "parse_resume_token bytes = (if length bytes = 16 then Ok bytes else Err (Invalid ''resume token is not 16 bytes''))"

definition parse_resume :: "wire_resume \<Rightarrow> resume got" where
  "parse_resume r =
     bind_res (bind_res (wr_token r) parse_resume_token) (\<lambda>token.
       Ok \<lparr>resume_session_id = wr_session_id r, resume_token_sent = token\<rparr>)"

definition parse_hello :: "wire_hello got \<Rightarrow> hello got" where
  "parse_hello root =
     bind_res root (\<lambda>r.
     bind_res (bind_res (wh_auth r) (\<lambda>a. case a of WAnonymous \<Rightarrow> Ok Anonymous | WToken t \<Rightarrow> bind_res t (\<lambda>t. Ok (Token t)))) (\<lambda>auth.
     bind_res (parse_option (\<lambda>res. bind_res res parse_resume) (wh_resume r)) (\<lambda>resume.
       Ok \<lparr>hello_revision = wh_revision r, hello_auth = auth, hello_resume = resume\<rparr>)))"

text \<open>The reason of a refusal is text, which may turn out not to be UTF-8 once it has been found.\<close>

datatype wire_hello_reply =
    WAck u64 "u8 list got" bool u64 "wire_identity got" u32 u32
  | WReject "(string, string) result got"
  | WRevisionMismatch u64

primrec build_hello_reply :: "hello_reply \<Rightarrow> wire_hello_reply" where
  "build_hello_reply (Ack session_id token resumed root_ino root_identity uid gid) =
     WAck session_id (Ok token) resumed root_ino (Ok (build_identity root_identity)) uid gid"
| "build_hello_reply (Reject reason) = WReject (Ok (Inr reason))"
| "build_hello_reply (RevisionMismatch revision) = WRevisionMismatch revision"

primrec parse_hello_which :: "wire_hello_reply \<Rightarrow> hello_reply got" where
  "parse_hello_which (WAck session_id token resumed root_ino root_identity uid gid) =
     bind_res (bind_res token parse_resume_token) (\<lambda>token.
     bind_res (bind_res root_identity parse_identity) (\<lambda>root_identity.
       Ok (Ack session_id token resumed root_ino root_identity uid gid)))"
| "parse_hello_which (WReject reason) =
     bind_res reason (\<lambda>text. bind_res (map_err (\<lambda>e. Invalid (''reason is not UTF-8: '' @ e)) text) (\<lambda>text. Ok (Reject text)))"
| "parse_hello_which (WRevisionMismatch revision) = Ok (RevisionMismatch revision)"

definition parse_hello_reply :: "wire_hello_reply got got \<Rightarrow> hello_reply got" where
  "parse_hello_reply root = bind_res root (\<lambda>r. bind_res r parse_hello_which)"

subsection \<open>Requests\<close>

datatype wire_request =
    WLookup wire_path "u8 list got"
  | WGetattr "wire_path option got" "u64 option got"
  | WSetattr "wire_path option got" "u64 option got" "wire_set_attr got"
  | WReadlink wire_path
  | WMknod wire_path "u8 list got" u32 u64
  | WMkdir wire_path "u8 list got" u32
  | WUnlink wire_path "u8 list got"
  | WRmdir wire_path "u8 list got"
  | WSymlinkAt wire_path "u8 list got" "u8 list got"
  | WRename wire_path "u8 list got" wire_path "u8 list got" u32
  | WLink wire_path wire_path "u8 list got"
  | WOpen u64 wire_path u32
  | WCreate u64 wire_path "u8 list got" u32 u32
  | WRead u64 u64 u32
  | WWrite u64 u64 "u8 list got"
  | WRelease u64 bool
  | WFsync u64 bool
  | WOpendir u64 wire_path
  | WReaddir u64 u64 u32
  | WReleasedir u64 bool
  | WStatfs wire_path
  | WSetxattr wire_path "u8 list got" "u8 list got" u32
  | WGetxattr wire_path "u8 list got"
  | WListxattr wire_path
  | WRemovexattr wire_path "u8 list got"
  | WAccess wire_path u32
  | WCopyFileRange u64 u64 u64 u64 u64
  | WFallocate u64 u64 u64 u32
  | WLseek u64 u64 "wire_whence got"

primrec build_request :: "request \<Rightarrow> wire_request" where
  "build_request (Lookup parent nm) = WLookup (build_path parent) (Ok (as_bytes nm))"
| "build_request (Getattr p fh) = WGetattr (Ok (map_option build_path p)) (Ok fh)"
| "build_request (Setattr p fh change) = WSetattr (Ok (map_option build_path p)) (Ok fh) (Ok (build_set_attr change))"
| "build_request (Readlink p) = WReadlink (build_path p)"
| "build_request (Mknod parent nm mode rdev) = WMknod (build_path parent) (Ok (as_bytes nm)) mode rdev"
| "build_request (Mkdir parent nm mode) = WMkdir (build_path parent) (Ok (as_bytes nm)) mode"
| "build_request (Unlink parent nm) = WUnlink (build_path parent) (Ok (as_bytes nm))"
| "build_request (Rmdir parent nm) = WRmdir (build_path parent) (Ok (as_bytes nm))"
| "build_request (SymlinkAt parent nm target) = WSymlinkAt (build_path parent) (Ok (as_bytes nm)) (Ok target)"
| "build_request (Rename parent nm newparent newname flags) =
     WRename (build_path parent) (Ok (as_bytes nm)) (build_path newparent) (Ok (as_bytes newname)) flags"
| "build_request (Link p newparent newname) = WLink (build_path p) (build_path newparent) (Ok (as_bytes newname))"
| "build_request (Open fh p flags) = WOpen fh (build_path p) flags"
| "build_request (Create fh parent nm mode flags) = WCreate fh (build_path parent) (Ok (as_bytes nm)) mode flags"
| "build_request (Read fh offset amount) = WRead fh offset amount"
| "build_request (Write fh offset data) = WWrite fh offset (Ok data)"
| "build_request (Release fh ordered) = WRelease fh ordered"
| "build_request (Fsync fh datasync) = WFsync fh datasync"
| "build_request (Opendir fh p) = WOpendir fh (build_path p)"
| "build_request (Readdir fh offset max_bytes) = WReaddir fh offset max_bytes"
| "build_request (Releasedir fh ordered) = WReleasedir fh ordered"
| "build_request (Statfs p) = WStatfs (build_path p)"
| "build_request (Setxattr p nm val flags) = WSetxattr (build_path p) (Ok nm) (Ok val) flags"
| "build_request (Getxattr p nm) = WGetxattr (build_path p) (Ok nm)"
| "build_request (Listxattr p) = WListxattr (build_path p)"
| "build_request (Removexattr p nm) = WRemovexattr (build_path p) (Ok nm)"
| "build_request (Access p amode) = WAccess (build_path p) amode"
| "build_request (CopyFileRange fh_in offset_in fh_out offset_out len) = WCopyFileRange fh_in offset_in fh_out offset_out len"
| "build_request (Fallocate fh offset len mode) = WFallocate fh offset len mode"
| "build_request (Lseek fh offset whence) = WLseek fh offset (Ok (whence_to_wire whence))"

text \<open>A request that names an entry of a directory, and one that names a node.\<close>

definition parse_entry :: "wire_path \<Rightarrow> u8 list got \<Rightarrow> (path \<Rightarrow> name \<Rightarrow> request) \<Rightarrow> request got" where
  "parse_entry parent nm req = bind_res (get_path parent) (\<lambda>p. bind_res (get_name nm) (\<lambda>n. Ok (req p n)))"

definition parse_at :: "wire_path \<Rightarrow> (path \<Rightarrow> request) \<Rightarrow> request got" where
  "parse_at p req = bind_res (get_path p) (\<lambda>p. Ok (req p))"

primrec parse_request_which :: "wire_request \<Rightarrow> request got" where
  "parse_request_which (WLookup parent nm) = parse_entry parent nm Lookup"
| "parse_request_which (WGetattr p fh) =
     bind_res (parse_option get_path p) (\<lambda>p. bind_res fh (\<lambda>fh. Ok (Getattr p fh)))"
| "parse_request_which (WSetattr p fh change) =
     bind_res (parse_option get_path p) (\<lambda>p. bind_res fh (\<lambda>fh.
     bind_res (bind_res change parse_set_attr) (\<lambda>change. Ok (Setattr p fh change))))"
| "parse_request_which (WReadlink p) = parse_at p Readlink"
| "parse_request_which (WMknod parent nm mode rdev) = parse_entry parent nm (\<lambda>p n. Mknod p n mode rdev)"
| "parse_request_which (WMkdir parent nm mode) = parse_entry parent nm (\<lambda>p n. Mkdir p n mode)"
| "parse_request_which (WUnlink parent nm) = parse_entry parent nm Unlink"
| "parse_request_which (WRmdir parent nm) = parse_entry parent nm Rmdir"
| "parse_request_which (WSymlinkAt parent nm target) =
     bind_res (get_path parent) (\<lambda>p. bind_res (get_name nm) (\<lambda>n. bind_res target (\<lambda>target. Ok (SymlinkAt p n target))))"
| "parse_request_which (WRename parent nm newparent newname flags) =
     bind_res (get_path parent) (\<lambda>p. bind_res (get_name nm) (\<lambda>n. parse_entry newparent newname (\<lambda>q m. Rename p n q m flags)))"
| "parse_request_which (WLink p newparent newname) = bind_res (get_path p) (\<lambda>p. parse_entry newparent newname (Link p))"
| "parse_request_which (WOpen fh p flags) = parse_at p (\<lambda>p. Open fh p flags)"
| "parse_request_which (WCreate fh parent nm mode flags) = parse_entry parent nm (\<lambda>p n. Create fh p n mode flags)"
| "parse_request_which (WRead fh offset amount) = Ok (Read fh offset amount)"
| "parse_request_which (WWrite fh offset data) = bind_res data (\<lambda>data. Ok (Write fh offset data))"
| "parse_request_which (WRelease fh ordered) = Ok (Release fh ordered)"
| "parse_request_which (WFsync fh datasync) = Ok (Fsync fh datasync)"
| "parse_request_which (WOpendir fh p) = parse_at p (Opendir fh)"
| "parse_request_which (WReaddir fh offset max_bytes) = Ok (Readdir fh offset max_bytes)"
| "parse_request_which (WReleasedir fh ordered) = Ok (Releasedir fh ordered)"
| "parse_request_which (WStatfs p) = parse_at p Statfs"
| "parse_request_which (WSetxattr p nm val flags) =
     bind_res (get_path p) (\<lambda>p. bind_res nm (\<lambda>nm. bind_res val (\<lambda>val. Ok (Setxattr p nm val flags))))"
| "parse_request_which (WGetxattr p nm) = bind_res (get_path p) (\<lambda>p. bind_res nm (\<lambda>nm. Ok (Getxattr p nm)))"
| "parse_request_which (WListxattr p) = parse_at p Listxattr"
| "parse_request_which (WRemovexattr p nm) = bind_res (get_path p) (\<lambda>p. bind_res nm (\<lambda>nm. Ok (Removexattr p nm)))"
| "parse_request_which (WAccess p amode) = parse_at p (\<lambda>p. Access p amode)"
| "parse_request_which (WCopyFileRange fh_in offset_in fh_out offset_out len) = Ok (CopyFileRange fh_in offset_in fh_out offset_out len)"
| "parse_request_which (WFallocate fh offset len mode) = Ok (Fallocate fh offset len mode)"
| "parse_request_which (WLseek fh offset whence) = bind_res whence (\<lambda>w. Ok (Lseek fh offset (whence_from_wire w)))"

definition parse_request :: "wire_request got got \<Rightarrow> request got" where
  "parse_request root = bind_res root (\<lambda>r. bind_res r parse_request_which)"

subsection \<open>Replies\<close>

datatype wire_response =
    WErr int
  | WEntry "wire_attr got"
  | WAttr "wire_attr got"
  | WReadlinkReply "u8 list got"
  | WOk
  | WOpened "wire_attr got"
  | WReadReply "u8 list got"
  | WWritten u32
  | WCopied u32
  | WSeeked u64
  | WReaddirReply "wire_dir_entry list got" bool
  | WStatfsReply "wire_statfs got"
  | WXattr "u8 list got"

primrec build_response :: "response \<Rightarrow> wire_response" where
  "build_response (RErr err) = WErr err"
| "build_response (REntry a) = WEntry (Ok (build_attr a))"
| "build_response (RAttr a) = WAttr (Ok (build_attr a))"
| "build_response (RReadlink target) = WReadlinkReply (Ok target)"
| "build_response ROk = WOk"
| "build_response (ROpened a) = WOpened (Ok (build_attr a))"
| "build_response (RRead data) = WReadReply (Ok data)"
| "build_response (RWritten n) = WWritten n"
| "build_response (RCopied n) = WCopied n"
| "build_response (RSeeked n) = WSeeked n"
| "build_response (RReaddir entries eof) = WReaddirReply (Ok (map build_dir_entry entries)) eof"
| "build_response (RStatfs st) = WStatfsReply (Ok (build_statfs st))"
| "build_response (RXattr val) = WXattr (Ok val)"

primrec parse_response_which :: "nat \<Rightarrow> wire_response \<Rightarrow> response got" where
  "parse_response_which message_words (WErr err) = Ok (RErr err)"
| "parse_response_which message_words (WEntry a) = bind_res (bind_res a parse_attr) (\<lambda>a. Ok (REntry a))"
| "parse_response_which message_words (WAttr a) = bind_res (bind_res a parse_attr) (\<lambda>a. Ok (RAttr a))"
| "parse_response_which message_words (WReadlinkReply target) = bind_res target (\<lambda>target. Ok (RReadlink target))"
| "parse_response_which message_words WOk = Ok ROk"
| "parse_response_which message_words (WOpened a) = bind_res (bind_res a parse_attr) (\<lambda>a. Ok (ROpened a))"
| "parse_response_which message_words (WReadReply data) = bind_res data (\<lambda>data. Ok (RRead data))"
| "parse_response_which message_words (WWritten n) = Ok (RWritten n)"
| "parse_response_which message_words (WCopied n) = Ok (RCopied n)"
| "parse_response_which message_words (WSeeked n) = Ok (RSeeked n)"
| "parse_response_which message_words (WReaddirReply entries eof) =
     bind_res entries (\<lambda>list.
     bind_res (checked_len (length list) message_words) (\<lambda>_.
     bind_res (collect_res (map parse_dir_entry list)) (\<lambda>entries. Ok (RReaddir entries eof))))"
| "parse_response_which message_words (WStatfsReply st) = bind_res st (\<lambda>st. Ok (RStatfs (parse_statfs st)))"
| "parse_response_which message_words (WXattr val) = bind_res val (\<lambda>val. Ok (RXattr val))"

definition parse_response :: "nat \<Rightarrow> wire_response got got \<Rightarrow> response got" where
  "parse_response message_words root = bind_res root (\<lambda>r. bind_res r (parse_response_which message_words))"

subsection \<open>Events\<close>

datatype wire_event_item =
    WEventEntry wire_path "u8 list got"
  | WEventData wire_path
  | WOverflow
  | WUnwatched wire_path

record wire_event =
  we_items :: "wire_event_item got list got"
  we_handles :: "notice_handles got option"

primrec build_event_item :: "event_item \<Rightarrow> wire_event_item" where
  "build_event_item (EventEntry dir nm) = WEventEntry (build_path dir) (Ok (as_bytes nm))"
| "build_event_item (EventData p) = WEventData (build_path p)"
| "build_event_item Overflow = WOverflow"
| "build_event_item (Unwatched dir) = WUnwatched (build_path dir)"

definition build_event :: "event \<Rightarrow> wire_event" where
  "build_event e = \<lparr>we_items = Ok (map (\<lambda>item. Ok (build_event_item item)) (event_items e)), we_handles = map_option Inr (event_handles e)\<rparr>"

primrec parse_event_item :: "wire_event_item \<Rightarrow> event_item got" where
  "parse_event_item (WEventEntry dir nm) =
     bind_res (get_path dir) (\<lambda>p. bind_res (get_name nm) (\<lambda>n. Ok (EventEntry p n)))"
| "parse_event_item (WEventData p) = bind_res (get_path p) (\<lambda>p. Ok (EventData p))"
| "parse_event_item WOverflow = Ok Overflow"
| "parse_event_item (WUnwatched dir) = bind_res (get_path dir) (\<lambda>p. Ok (Unwatched p))"

definition parse_event :: "nat \<Rightarrow> wire_event got \<Rightarrow> event got" where
  "parse_event message_words root =
     bind_res root (\<lambda>r.
     bind_res (we_items r) (\<lambda>list.
     bind_res (checked_len (length list) message_words) (\<lambda>_.
     bind_res (collect_res (map (\<lambda>item. bind_res item parse_event_item) list)) (\<lambda>items.
     bind_res (case we_handles r of None \<Rightarrow> Ok None | Some n \<Rightarrow> bind_res n (\<lambda>n. Ok (Some n))) (\<lambda>handles.
       Ok \<lparr>event_items = items, event_handles = handles\<rparr>)))))"

end
