(* ===== verification/WireExact.thy ===== *)
theory WireExact
  imports Wire
begin

text \<open>
  What the decoders accept.  Each takes exactly what the encoder makes of a valid message, so what a peer can send
  that decodes at all decodes to one message, every name, path, token and file handle of which is valid, and every
  valid message survives the trip; and so framed.
\<close>

subsection \<open>Valid messages\<close>

definition identity_ok :: "identity \<Rightarrow> bool" where
  "identity_ok i \<longleftrightarrow> length (handle i) \<le> HANDLE_MAX"

definition request_paths :: "request \<Rightarrow> path list" where
  "request_paths req =
     (case req of
        Lookup p n \<Rightarrow> [p]
      | Getattr p fh \<Rightarrow> (case p of Some p \<Rightarrow> [p] | None \<Rightarrow> [])
      | Setattr p fh change \<Rightarrow> (case p of Some p \<Rightarrow> [p] | None \<Rightarrow> [])
      | Readlink p \<Rightarrow> [p]
      | Mknod p n mode rdev \<Rightarrow> [p]
      | Mkdir p n mode \<Rightarrow> [p]
      | Unlink p n \<Rightarrow> [p]
      | Rmdir p n \<Rightarrow> [p]
      | SymlinkAt p n target \<Rightarrow> [p]
      | Rename p n q m flags \<Rightarrow> [p, q]
      | Link p q m \<Rightarrow> [p, q]
      | Open fh p flags \<Rightarrow> [p]
      | Create fh p n mode flags \<Rightarrow> [p]
      | Opendir fh p \<Rightarrow> [p]
      | Statfs p \<Rightarrow> [p]
      | Setxattr p n val flags \<Rightarrow> [p]
      | Getxattr p n \<Rightarrow> [p]
      | Listxattr p \<Rightarrow> [p]
      | Removexattr p n \<Rightarrow> [p]
      | Access p amode \<Rightarrow> [p]
      | _ \<Rightarrow> [])"

definition request_names :: "request \<Rightarrow> name list" where
  "request_names req =
     (case req of
        Lookup p n \<Rightarrow> [n]
      | Mknod p n mode rdev \<Rightarrow> [n]
      | Mkdir p n mode \<Rightarrow> [n]
      | Unlink p n \<Rightarrow> [n]
      | Rmdir p n \<Rightarrow> [n]
      | SymlinkAt p n target \<Rightarrow> [n]
      | Rename p n q m flags \<Rightarrow> [n, m]
      | Link p q m \<Rightarrow> [m]
      | Create fh p n mode flags \<Rightarrow> [n]
      | _ \<Rightarrow> [])"

definition request_ok :: "request \<Rightarrow> bool" where
  "request_ok req \<longleftrightarrow> list_all path_ok (request_paths req) \<and> list_all name_ok (request_names req)"

definition reply_attrs :: "response \<Rightarrow> attr list" where
  "reply_attrs resp =
     (case resp of
        REntry a \<Rightarrow> [a]
      | RAttr a \<Rightarrow> [a]
      | ROpened a \<Rightarrow> [a]
      | RReaddir entries eof \<Rightarrow> List.map_filter entry_attr entries
      | _ \<Rightarrow> [])"

definition reply_ok :: "response \<Rightarrow> bool" where
  "reply_ok resp \<longleftrightarrow> list_all (\<lambda>a. identity_ok (attr_identity a)) (reply_attrs resp)"

definition hello_ok :: "hello \<Rightarrow> bool" where
  "hello_ok h \<longleftrightarrow> (case hello_resume h of None \<Rightarrow> True | Some r \<Rightarrow> length (resume_token_sent r) = 16)"

definition hello_reply_ok :: "hello_reply \<Rightarrow> bool" where
  "hello_reply_ok r =
     (case r of
        Ack session_id token resumed root_ino root_identity uid gid \<Rightarrow> length token = 16 \<and> identity_ok root_identity
      | _ \<Rightarrow> True)"

definition event_item_ok :: "event_item \<Rightarrow> bool" where
  "event_item_ok item =
     (case item of
        EventEntry dir n \<Rightarrow> path_ok dir \<and> name_ok n
      | EventData p \<Rightarrow> path_ok p
      | Overflow \<Rightarrow> True
      | Unwatched dir \<Rightarrow> path_ok dir)"

subsection \<open>Values\<close>

text \<open>A decoder that takes exactly what an encoder makes of the valid values.\<close>

definition decodes :: "('w \<Rightarrow> 'a got) \<Rightarrow> ('a \<Rightarrow> 'w) \<Rightarrow> ('a \<Rightarrow> bool) \<Rightarrow> bool" where
  "decodes parse build ok \<longleftrightarrow> (\<forall>w a. parse w = Ok a \<longleftrightarrow> w = build a \<and> ok a)"

lemma decodesD: "decodes parse build ok \<Longrightarrow> parse w = Ok a \<longleftrightarrow> w = build a \<and> ok a"
  by (simp add: decodes_def)

lemma decodes_got: "decodes parse build ok \<Longrightarrow> decodes (\<lambda>w. bind_res w parse) (\<lambda>a. Ok (build a)) ok"
  unfolding decodes_def by auto

lemma decodes_option:
  assumes "decodes parse build ok"
  shows "decodes (parse_option parse) (\<lambda>v. Ok (map_option build v)) (\<lambda>v. case v of None \<Rightarrow> True | Some a \<Rightarrow> ok a)"
proof -
  have "parse_option parse w = Ok v \<longleftrightarrow> w = Ok (map_option build v) \<and> (case v of None \<Rightarrow> True | Some a \<Rightarrow> ok a)" for w v
  proof (cases w)
    case (Inr found)
    then show ?thesis
      by (cases found; cases v) (auto simp: parse_option_def decodesD [OF assms])
  qed (simp add: parse_option_def)
  then show ?thesis by (simp add: decodes_def)
qed

lemma decodes_option_any:
  assumes "decodes parse build (\<lambda>a. True)"
  shows "decodes (parse_option parse) (\<lambda>v. Ok (map_option build v)) (\<lambda>v. True)"
  unfolding decodes_def
proof (intro allI)
  fix w v
  show "(parse_option parse w = Ok v) = (w = Ok (map_option build v) \<and> True)"
    using decodesD [OF decodes_option [OF assms], of w v] by (cases v) simp_all
qed

lemma decodes_list:
  assumes "decodes parse build ok"
  shows "decodes (\<lambda>w. collect_res (map parse w)) (map build) (list_all ok)"
proof -
  have "map parse w = map Inr v \<longleftrightarrow> w = map build v \<and> list_all ok v" for w v
  proof (induction w arbitrary: v)
    case (Cons a w)
    then show ?case by (cases v) (auto simp: decodesD [OF assms])
  qed auto
  then show ?thesis by (simp add: decodes_def collect_res_Ok)
qed

lemma decodes_path: "decodes get_path build_path path_ok"
  by (auto simp: decodes_def get_path_def build_path_def parse_path_exact)

lemma decodes_name: "decodes get_name (\<lambda>n. Ok (as_bytes n)) name_ok"
proof -
  have "name_new b = Ok n \<longleftrightarrow> b = as_bytes n \<and> name_ok n" for b n
    using name_new_Ok [of b n] name_new_as_bytes [of n] by (cases n) auto
  then show ?thesis by (auto simp: decodes_def get_name_def parse_name_def)
qed

lemma decodes_kind: "kind_from_wire k = kind \<longleftrightarrow> k = kind_to_wire kind"
  by (cases k; cases kind) simp_all

lemma decodes_whence: "whence_from_wire w = v \<longleftrightarrow> w = whence_to_wire v"
  by (cases w; cases v) simp_all

lemma guarded_Ok: "(if refused then Err e else r) = Ok a \<longleftrightarrow> \<not> refused \<and> r = Ok a"
  by simp

lemma decodes_identity: "decodes parse_identity build_identity identity_ok"
proof -
  have "parse_identity w = Ok i \<longleftrightarrow> w = build_identity i \<and> identity_ok i" for w i
    by (cases w; cases i) (auto simp: parse_identity_def build_identity_def identity_ok_def guarded_Ok not_less)
  then show ?thesis by (simp add: decodes_def)
qed

lemmas identity_exact = decodes_identity [THEN decodesD]

text \<open>The names of an attribute are taken as they are.\<close>

lemma decodes_xattr_names:
  "decodes (parse_option (\<lambda>list. bind_res list collect_res)) (\<lambda>v. Ok (map_option (\<lambda>ns. Ok (map Inr ns)) v)) (\<lambda>v. True)"
proof -
  have "decodes (\<lambda>list. bind_res list collect_res) (\<lambda>ns. Ok (map Inr ns)) (\<lambda>v. True)"
    by (auto simp: decodes_def collect_res_Ok)
  then show ?thesis by (rule decodes_option_any)
qed

lemma decodes_attr: "decodes parse_attr build_attr (\<lambda>a. identity_ok (attr_identity a))"
proof -
  have "parse_attr w = Ok a \<longleftrightarrow> w = build_attr a \<and> identity_ok (attr_identity a)" for w a
    by (cases w; cases a)
      (auto simp: parse_attr_def build_attr_def identity_exact decodesD [OF decodes_xattr_names] decodes_kind)
  then show ?thesis by (simp add: decodes_def)
qed

lemmas attr_exact = decodes_attr [THEN decodesD]

definition entry_ok :: "dir_entry \<Rightarrow> bool" where
  "entry_ok e \<longleftrightarrow> (case entry_attr e of None \<Rightarrow> True | Some a \<Rightarrow> identity_ok (attr_identity a))"

lemma decodes_dir_entry: "decodes parse_dir_entry build_dir_entry entry_ok"
proof -
  have "parse_dir_entry w = Ok e \<longleftrightarrow> w = build_dir_entry e \<and> entry_ok e" for w e
    by (cases w; cases e)
      (auto simp: parse_dir_entry_def build_dir_entry_def entry_ok_def decodesD [OF decodes_option [OF decodes_got [OF decodes_attr]]])
  then show ?thesis by (simp add: decodes_def)
qed

lemma decodes_time: "decodes parse_time_or_now (\<lambda>t. Ok (build_time_or_now t)) (\<lambda>t. True)"
proof -
  have "parse_time_or_now w = Ok t \<longleftrightarrow> w = Ok (build_time_or_now t)" for w t
  proof (cases w)
    case (Inr found)
    then show ?thesis by (cases found; cases t) (auto simp: parse_time_or_now_def build_time_or_now_def)
  qed (simp add: parse_time_or_now_def)
  then show ?thesis by (simp add: decodes_def)
qed

lemma decodes_set_attr: "decodes parse_set_attr build_set_attr (\<lambda>s. True)"
proof -
  have time: "parse_option (\<lambda>t. bind_res t parse_time_or_now) w = Ok v \<longleftrightarrow> w = Ok (map_option (\<lambda>t. Ok (Ok (build_time_or_now t))) v)" for w v
    using decodesD [OF decodes_option_any [OF decodes_got [OF decodes_time]], of w v] by simp
  have "parse_set_attr w = Ok s \<longleftrightarrow> w = build_set_attr s" for w s
    by (cases w; cases s) (auto simp: parse_set_attr_def build_set_attr_def time)
  then show ?thesis by (simp add: decodes_def)
qed

lemma statfs_exact: "parse_statfs w = s \<longleftrightarrow> w = build_statfs s"
  by (cases w; cases s) (auto simp: parse_statfs_def build_statfs_def)

subsection \<open>Messages\<close>

lemmas path_exact = decodes_path [THEN decodesD]
lemmas name_exact = decodes_name [THEN decodesD]
lemmas path_option_exact = decodes_option [OF decodes_path, THEN decodesD]
lemmas set_attr_exact = decodes_set_attr [THEN decodesD]

lemma decodes_request: "decodes parse_request_which build_request request_ok"
proof -
  have "parse_request_which w = Ok r \<longleftrightarrow> w = build_request r \<and> request_ok r" for w r
    by (cases w; cases r; auto simp: request_ok_def request_paths_def request_names_def parse_entry_def parse_at_def path_exact name_exact
      path_option_exact set_attr_exact decodes_whence split: option.splits)
  then show ?thesis by (simp add: decodes_def)
qed

lemma decodes_response:
  "decodes (parse_response_which message_words) build_response
     (\<lambda>r. reply_ok r \<and> (case r of RReaddir entries eof \<Rightarrow> length entries \<le> message_words | _ \<Rightarrow> True))"
proof -
  have entries: "list_all entry_ok es \<longleftrightarrow> list_all (\<lambda>a. identity_ok (attr_identity a)) (List.map_filter entry_attr es)" for es
    by (induction es) (auto simp: entry_ok_def List.map_filter_simps split: option.splits)
  have "parse_response_which message_words w = Ok r \<longleftrightarrow> w = build_response r \<and> reply_ok r \<and>
      (case r of RReaddir entries eof \<Rightarrow> length entries \<le> message_words | _ \<Rightarrow> True)" for w r
    by (cases w; cases r; auto simp: reply_ok_def reply_attrs_def attr_exact decodesD [OF decodes_list [OF decodes_dir_entry]]
        checked_len_def guarded_Ok statfs_exact entries)
  then show ?thesis by (simp add: decodes_def)
qed

lemma decodes_resume:
  "decodes parse_resume (\<lambda>r. \<lparr>wr_session_id = resume_session_id r, wr_token = Ok (resume_token_sent r)\<rparr>)
     (\<lambda>r. length (resume_token_sent r) = 16)"
proof -
  have "parse_resume w = Ok r \<longleftrightarrow>
      w = \<lparr>wr_session_id = resume_session_id r, wr_token = Ok (resume_token_sent r)\<rparr> \<and> length (resume_token_sent r) = 16" for w r
    by (cases w; cases r) (auto simp: parse_resume_def parse_resume_token_def split: if_splits)
  then show ?thesis by (simp add: decodes_def)
qed

lemma decodes_auth:
  "decodes (\<lambda>a. case a of WAnonymous \<Rightarrow> Ok Anonymous | WToken t \<Rightarrow> bind_res t (\<lambda>t. Ok (Token t)))
     (\<lambda>a. case a of Anonymous \<Rightarrow> WAnonymous | Token token \<Rightarrow> WToken (Ok token)) (\<lambda>a. True)"
proof -
  have "(case w of WAnonymous \<Rightarrow> Ok Anonymous | WToken t \<Rightarrow> bind_res t (\<lambda>t. Ok (Token t))) = (Ok a :: auth got) \<longleftrightarrow>
      w = (case a of Anonymous \<Rightarrow> WAnonymous | Token token \<Rightarrow> WToken (Ok token))" for w a
    by (cases w; cases a) auto
  then show ?thesis by (simp add: decodes_def)
qed

lemma decodes_hello: "decodes parse_hello (\<lambda>h. Ok (build_hello h)) hello_ok"
proof -
  have "parse_hello (Ok w) = Ok h \<longleftrightarrow> w = build_hello h \<and> hello_ok h" for w h
    by (cases w; cases h)
      (auto simp: parse_hello_def build_hello_def hello_ok_def decodesD [OF decodes_auth]
        decodesD [OF decodes_option [OF decodes_got [OF decodes_resume]]])
  moreover have "parse_hello (Err e) \<noteq> Ok h" for e h by (simp add: parse_hello_def)
  ultimately show ?thesis unfolding decodes_def by (metis sumE Inr_inject)
qed

lemma decodes_hello_reply: "decodes parse_hello_which build_hello_reply hello_reply_ok"
proof -
  have "parse_hello_which w = Ok r \<longleftrightarrow> w = build_hello_reply r \<and> hello_reply_ok r" for w r
    by (cases w; cases r; auto simp: hello_reply_ok_def parse_resume_token_def identity_exact split: if_splits)
  then show ?thesis by (simp add: decodes_def)
qed

lemma decodes_event_item: "decodes parse_event_item build_event_item event_item_ok"
proof -
  have "parse_event_item w = Ok i \<longleftrightarrow> w = build_event_item i \<and> event_item_ok i" for w i
    by (cases w; cases i; auto simp: event_item_ok_def path_exact name_exact)
  then show ?thesis by (simp add: decodes_def)
qed

lemma decodes_event:
  "decodes (parse_event message_words) (\<lambda>e. Ok (build_event e))
     (\<lambda>e. list_all event_item_ok (event_items e) \<and> length (event_items e) \<le> message_words)"
proof -
  have handles: "(case n of None \<Rightarrow> Ok None | Some n \<Rightarrow> bind_res n (\<lambda>n. Ok (Some n))) = (Ok h :: notice_handles option got) \<longleftrightarrow>
      n = map_option Inr h" for n h
    by (cases n; cases h) auto
  have "parse_event message_words (Ok w) = Ok e \<longleftrightarrow> w = build_event e \<and> list_all event_item_ok (event_items e) \<and>
      length (event_items e) \<le> message_words" for w e
    by (cases w; cases e)
      (auto simp: parse_event_def build_event_def checked_len_def guarded_Ok handles
        decodesD [OF decodes_list [OF decodes_got [OF decodes_event_item]]])
  moreover have "parse_event message_words (Err x) \<noteq> Ok e" for x e by (simp add: parse_event_def)
  ultimately show ?thesis unfolding decodes_def by (metis sumE Inr_inject)
qed

text \<open>
  C20. Decoding is exact, for every kind of message and whatever a peer sends: a decoder accepts a message exactly when
  it is what the encoder makes of a valid message, and returns that message.  So nothing with a bad name, path, token, file
  handle, discriminant or unreadable field decodes, no two messages are encoded alike, and every valid message
  decodes to itself; a list that declares more elements than its message has words is all that is
  refused besides.
\<close>

theorem decoding_exact:
  "(parse_request root = Ok req \<longleftrightarrow> root = Ok (Ok (build_request req)) \<and> request_ok req) \<and>
   (parse_response message_words rroot = Ok resp \<longleftrightarrow> rroot = Ok (Ok (build_response resp)) \<and> reply_ok resp \<and>
      (case resp of RReaddir entries eof \<Rightarrow> length entries \<le> message_words | _ \<Rightarrow> True)) \<and>
   (parse_event message_words eroot = Ok ev \<longleftrightarrow> eroot = Ok (build_event ev) \<and> list_all event_item_ok (event_items ev) \<and>
      length (event_items ev) \<le> message_words) \<and>
   (parse_hello hroot = Ok h \<longleftrightarrow> hroot = Ok (build_hello h) \<and> hello_ok h) \<and>
   (parse_hello_reply aroot = Ok a \<longleftrightarrow> aroot = Ok (Ok (build_hello_reply a)) \<and> hello_reply_ok a)"
  using decodesD [OF decodes_got [OF decodes_got [OF decodes_request]], of root req]
    decodesD [OF decodes_got [OF decodes_got [OF decodes_response]], of rroot message_words resp]
    decodesD [OF decodes_event, of message_words eroot ev] decodesD [OF decodes_hello, of hroot h]
    decodesD [OF decodes_got [OF decodes_got [OF decodes_hello_reply]], of aroot a]
  by (simp add: parse_request_def parse_response_def parse_hello_reply_def del: bind_res_eq_Ok)

subsection \<open>Frames\<close>

text \<open>A library for the structures of the schema, and what the codec makes with it of messages.\<close>

definition message_capnp :: "('w, 'r) capnp \<Rightarrow> ('m \<Rightarrow> 'w) \<Rightarrow> ('w \<Rightarrow> 'm got) \<Rightarrow> ('m, 'r) capnp" where
  "message_capnp lib build parse =
     \<lparr>segments_for_output = (\<lambda>m. segments_for_output lib (build m)), canonicalize = (\<lambda>m. canonicalize lib (build m)),
      serialized_words = (\<lambda>m. serialized_words lib (build m)), write_message = (\<lambda>m. write_message lib (build m)),
      read_message = read_message lib, parse_message = (\<lambda>r. bind_res (parse_message lib r) parse)\<rparr>"

lemma message_capnp_ok:
  assumes "capnp_ok lib (build m)" "parse (build m) = Ok m"
  shows "capnp_ok (message_capnp lib build parse) m"
proof -
  have "serialises_to (message_capnp lib build parse) m bytes" if "serialises_to lib (build m) bytes" for bytes
    using that assms(2) by (auto simp: serialises_to_def message_capnp_def)
  with assms(1) show ?thesis by (simp add: capnp_ok_def message_capnp_def)
qed

text \<open>
  C39. A valid request or reply comes through a stream as it was sent: written as a frame, whatever it is and
  whatever follows it on the stream, it is read back as the same message, and what follows is left; for a library
  that reads back the structures it writes.
\<close>

theorem messages_read_back:
  assumes "request_ok req" "capnp_ok qlib (Ok (Ok (build_request req)))"
    and "reply_ok resp" "capnp_ok rlib (Ok (Ok (build_response resp)))"
    and "case resp of RReaddir entries eof \<Rightarrow> length entries \<le> message_words | _ \<Rightarrow> True"
    and "encode (message_capnp qlib (\<lambda>m. Ok (Ok (build_request m))) parse_request) req = Ok qframe"
    and "encode (message_capnp rlib (\<lambda>m. Ok (Ok (build_response m))) (parse_response message_words)) resp = Ok rframe"
  shows "read_frame (message_capnp qlib (\<lambda>m. Ok (Ok (build_request m))) parse_request) \<lparr>to_come = qframe @ rest, ends_with = e\<rparr> =
      Ok (req, \<lparr>to_come = rest, ends_with = e\<rparr>) \<and>
    read_frame (message_capnp rlib (\<lambda>m. Ok (Ok (build_response m))) (parse_response message_words)) \<lparr>to_come = rframe @ rest, ends_with = e\<rparr> =
      Ok (resp, \<lparr>to_come = rest, ends_with = e\<rparr>)"
proof -
  have "parse_request (Ok (Ok (build_request req))) = Ok req"
    using assms(1) decodesD [OF decodes_request] by (simp add: parse_request_def)
  then have q: "capnp_ok (message_capnp qlib (\<lambda>m. Ok (Ok (build_request m))) parse_request) req"
    using assms(2) by (intro message_capnp_ok)
  have "parse_response message_words (Ok (Ok (build_response resp))) = Ok resp"
    using assms(3,5) decodesD [OF decodes_response, of message_words "build_response resp" resp] by (simp add: parse_response_def)
  then have r: "capnp_ok (message_capnp rlib (\<lambda>m. Ok (Ok (build_response m))) (parse_response message_words)) resp"
    using assms(4) by (intro message_capnp_ok)
  show ?thesis using read_frame_encoded [OF q assms(6)] read_frame_encoded [OF r assms(7)] by simp
qed

subsection \<open>Witnesses\<close>

text \<open>A library for the structures of a table: one is written as its place there, in a segment of one word.\<close>

definition table_capnp :: "'w list \<Rightarrow> ('w, u8 list) capnp" where
  "table_capnp ws =
     \<lparr>segments_for_output = (\<lambda>w. [[word_of_nat (length (takeWhile (\<lambda>v. v \<noteq> w) ws)), 0, 0, 0, 0, 0, 0, 0]]),
      canonicalize = (\<lambda>w. Ok [word_of_nat (length (takeWhile (\<lambda>v. v \<noteq> w) ws)), 0, 0, 0, 0, 0, 0, 0]),
      serialized_words = (\<lambda>w. 2),
      write_message = (\<lambda>w. Ok (u32_to_le 0 @ u32_to_le 1 @ [word_of_nat (length (takeWhile (\<lambda>v. v \<noteq> w) ws)), 0, 0, 0, 0, 0, 0, 0])),
      read_message = (\<lambda>bytes. Ok (drop 8 bytes, [])),
      parse_message = (\<lambda>r. if r \<noteq> [] \<and> unat (hd r) < length ws then Ok (ws ! unat (hd r)) else Err (Invalid ''not in the table''))\<rparr>"

lemma table_capnp_ok:
  assumes "w \<in> set ws" "length ws \<le> 256"
  shows "capnp_ok (table_capnp ws) w"
proof -
  have place: "length (takeWhile (\<lambda>v. v \<noteq> w) ws) < length ws"
    using assms(1) by (induction ws) auto
  then have "ws ! length (takeWhile (\<lambda>v. v \<noteq> w) ws) = w"
    using nth_length_takeWhile by fastforce
  moreover have "unat (word_of_nat (length (takeWhile (\<lambda>v. v \<noteq> w) ws)) :: u8) = length (takeWhile (\<lambda>v. v \<noteq> w) ws)"
    using place assms(2) by (simp add: unat_of_nat take_bit_nat_eq_self_iff)
  ultimately show ?thesis using place by (simp add: capnp_ok_def serialises_to_def table_capnp_def)
qed

definition sample_requests :: "wire_request got got list" where
  "sample_requests = [Ok (Ok (build_request (Read 7 0 4096))), Ok (Ok (build_request (Mkdir (Path [Name [98]]) (Name [97]) 493)))]"

definition sample_replies :: "wire_response got got list" where
  "sample_replies =
     [Ok (Ok (build_response ROk)),
      Ok (Ok (build_response (RReaddir [\<lparr>next_offset = 1, entry_name = [97], entry_attr = None\<rparr>] True)))]"

theorem messages_read_back_witness:
  "read_frame (message_capnp (table_capnp sample_requests) (\<lambda>m. Ok (Ok (build_request m))) parse_request)
      \<lparr>to_come = (u32_to_le 16 @ u32_to_le 0 @ u32_to_le 1 @ [1, 0, 0, 0, 0, 0, 0, 0]) @ [5, 6], ends_with = UnexpectedEof\<rparr> =
    Ok (Mkdir (Path [Name [98]]) (Name [97]) 493, \<lparr>to_come = [5, 6], ends_with = UnexpectedEof\<rparr>) \<and>
   read_frame (message_capnp (table_capnp sample_replies) (\<lambda>m. Ok (Ok (build_response m))) (parse_response 12))
      \<lparr>to_come = (u32_to_le 16 @ u32_to_le 0 @ u32_to_le 1 @ [1, 0, 0, 0, 0, 0, 0, 0]) @ [5, 6], ends_with = UnexpectedEof\<rparr> =
    Ok (RReaddir [\<lparr>next_offset = 1, entry_name = [97], entry_attr = None\<rparr>] True, \<lparr>to_come = [5, 6], ends_with = UnexpectedEof\<rparr>)"
proof (rule messages_read_back)
  show "request_ok (Mkdir (Path [Name [98]]) (Name [97]) 493)"
    by (simp add: request_ok_def request_paths_def request_names_def path_ok_def name_ok_def byte_len_def slash_def dot_def NAME_MAX_def PATH_MAX_def)
  show "reply_ok (RReaddir [\<lparr>next_offset = 1, entry_name = [97], entry_attr = None\<rparr>] True)"
    by (simp add: reply_ok_def reply_attrs_def List.map_filter_simps)
  show "capnp_ok (table_capnp sample_requests) (Ok (Ok (build_request (Mkdir (Path [Name [98]]) (Name [97]) 493))))"
    by (rule table_capnp_ok) (simp_all add: sample_requests_def)
  show "capnp_ok (table_capnp sample_replies)
      (Ok (Ok (build_response (RReaddir [\<lparr>next_offset = 1, entry_name = [97], entry_attr = None\<rparr>] True))))"
    by (rule table_capnp_ok) (simp_all add: sample_replies_def)
qed (simp_all add: sample_requests_def sample_replies_def encode_def message_capnp_def table_capnp_def MAX_FRAME_def)

end
