(* ===== verification/Spec2Isabelle.thy ===== *)
theory Spec2Isabelle
  imports Mount Sessions Fingerprint OpsAttrs FuseDeep FuseRefs Invalidate Mounted WireExact
begin

text \<open>
  A verification library for jackalopefs, a network file system: a server exports a directory, a client mounts it
  with FUSE, and the two speak one request per QUIC stream.  The sources named below are under \<open>src/crates/\<close>.

  \<^bold>\<open>The program.\<close>  The kernel asks the client for something; \<open>client/src/fuse.rs\<close> finds a path or a handle
  for the node it means (\<open>inodes.rs\<close>, \<open>handles.rs\<close>) and makes a call (\<open>client.rs\<close>), which sends the request on the current
  connection (\<open>conn.rs\<close>, \<open>machine.rs\<close>), again when its reply was lost and that is safe.  The server attaches a
  connection to a session (\<open>server/src/session.rs\<close>), puts the session's changes in order, and runs each request
  (\<open>ops.rs\<close>, \<open>export.rs\<close>, \<open>dirents.rs\<close>) with the session's handles (\<open>handles.rs\<close>) and its policy on owners
  (\<open>ids.rs\<close>).  It watches the directories that requests name (\<open>watch.rs\<close>) and tells each session of the changes it
  did not make itself; the client turns that into calls that empty the kernel's caches (\<open>invalidate.rs\<close>).

  \<^bold>\<open>Shared theories.\<close>  Prelude: machine integers as words, \<open>Result\<close> as a sum, reachability and the locale
  \<open>invariant_system\<close>.  Effects: functions of a state that may fail (a sum) or panic or never return (None), with rules for
  what they keep and yield.  Counted: the locale of tables that keep counts.  Errno: the numbers of Linux.

  \<^bold>\<open>Protocol\<close> (\<open>proto/src/\<close>).  Types: \<open>types.rs\<close> and the decoder of paths of \<open>wire.rs\<close>; Messages: \<open>msg.rs\<close>;
  Owners: \<open>owners.rs\<close>, with the locale \<open>owner_policy\<close> both sides' policies are instances of; Codec: \<open>codec.rs\<close>, where the
  serialisation library is a parameter; Wire: \<open>wire.rs\<close>, over what the generated readers return for the structures of
  \<open>schema/jackalopefs.capnp\<close>; WireExact: what its decoders accept; Fingerprint: \<open>lib.rs\<close>.  The lemmas show that decoders accept
  exactly what encoders make of valid messages, that frames are read back, and that a frame cut short is an
  end and not a message.

  \<^bold>\<open>Server\<close> (\<open>server/src/\<close>).  Session: \<open>SessionState\<close> and \<open>Exchange\<close>, with the step relation \<open>ss_step\<close>; changes of one
  connection run at a time, an original before its resend, the counts are exact and held changes are woken.
  Sessions: the table of sessions, the handshake, resuming and taking over.  ServerHandles: the pool of slots and a
  session's handles.  ServerIds: \<open>ids.rs\<close>.  Kernel: the system calls as a record of functions of the
  system's state, a parameter of what follows.  Export and Dirents: \<open>export.rs\<close> and \<open>dirents.rs\<close>.  Ops: \<open>ops.rs\<close>, one
  definition per request and \<open>dispatch\<close>.  OpsCalls: every path reaches the system below the export.  OpsBooks: handles
  and pool through every request.  OpsFiles, OpsAttrs, Listings: reading and writing, \<open>setattr\<close>, and directories
  page by page, for systems that do as their manuals say.  Watch, WatchTable, WatchInv, WatchSteps,
  WatchPromises, WatchService: \<open>watch.rs\<close>, from the record of who changed what to the table of watched
  directories and the service around it.

  \<^bold>\<open>Client\<close> (\<open>client/src/\<close>).  ClientErrors and Client: \<open>client.rs\<close>, the typed calls; Caller: one exchange and a call's attempts;
  Machine: \<open>machine.rs\<close>; ClientHandles: \<open>handles.rs\<close>; Mount: the handles over time, as steps of \<open>client.rs\<close> and \<open>conn.rs\<close>
  in any order, none of which leaks a handle; ClientIds: \<open>ids.rs\<close>; Inodes: \<open>inodes.rs\<close>.  Fuse and FuseOps:
  \<open>fuse.rs\<close>, one definition per request of the kernel on the state the requests share.  FuseShared: the locales
  \<open>shared_contract\<close> and \<open>registering_contract\<close>, the contract of what every request keeps, with instances for the state's
  type (FuseInv), for the kernel's references (FuseRefs) and for the invalidation queue (Invalidate).
  FuseNodes: a request by name is answered with its own file, and returns.  FuseDeep: a table where it does not.
  FuseDirs: listing to the kernel.  Invalidate: \<open>invalidate.rs\<close>, with the step relation \<open>inval_step\<close>.
  Thresholds: \<open>doubling_due\<close> of \<open>perf/src/lib.rs\<close>.

  \<^bold>\<open>Both together.\<close>  Mounted: the kernel's requests with the calls run by the server's \<open>dispatch\<close>: a directory is listed
  whole, and what was written is read back.  This theory: owners from end to end.

  \<^bold>\<open>Time, order and bounds.\<close>  What waits find, what other tasks do meanwhile, the clock, and the orders hash maps iterate in are
  arguments.  Integers are words of their width; lookup counts and generations, which grow by one, are
  natural numbers.  Loops the code bounds are recursive functions with a termination proof.  Those it does not
  bound are \<open>partial_function\<close>s whose value None is not returning: the search for a free number, the loops over
  interrupted calls, a directory's records, and the names of a node.  That they return is proved under what they need: a number
  that is free, a system that interrupts finitely often, directories with one name.  Reading a directory takes at most one
  page more than it has entries, and the pages a kernel asks for are a list at least that long.

  \<^bold>\<open>Not modelled.\<close>  The generated readers and builders and the estimates of a message's size in \<open>wire.rs\<close>; the messages of \<open>control.rs\<close>;
  the QUIC library, TLS and certificates (\<open>transport.rs\<close>, \<open>tls.rs\<close>); dialling and backing off, accept loops and
  the forwarding of events, which are I/O; the negotiation of the mount, requests in flight and interrupts in
  \<open>fuse.rs\<close>; command lines, mounting, signals; meters, logs, reports and watchdogs (\<open>perf/\<close>, both \<open>perf.rs\<close>
  and \<open>watchdog.rs\<close>, \<open>readahead.rs\<close>), which change nothing the rest depends on; the control tool (\<open>ctl/\<close>); and the
  drivers of the model-based tests (\<open>mbt/\<close>).
\<close>

section \<open>Owners from end to end\<close>

text \<open>
  A mount with \<open>--ids owned\<close> of a server, whose acknowledgement names the uid and gid it runs as: what
  the mount sends, as the server gets it.
\<close>

definition owned_mount :: "u32 \<Rightarrow> u32 \<Rightarrow> server_ids \<Rightarrow> client_ids" where
  "owned_mount euid egid ids = client_ids_new euid egid Owned (ids_uid ids) (ids_gid ids)"

definition owners_sent :: "client_ids \<Rightarrow> request \<Rightarrow> (request, client_error) result" where
  "owners_sent cids req = bind_res (outgoing cids req) (\<lambda>out. Ok (case out of Some r \<Rightarrow> r | None \<Rightarrow> req))"

definition owner_pairs :: "u32 \<Rightarrow> u32 \<Rightarrow> server_ids \<Rightarrow> owned" where
  "owner_pairs euid egid ids =
     \<lparr>server_uid = ids_uid ids, server_gid = ids_gid ids, local_uid = euid, local_gid = egid\<rparr>"

lemma owned_mount_pairs: "owned_mount euid egid ids = IdsOwned (owner_pairs euid egid ids)"
  by (simp add: owned_mount_def client_ids_new_def owner_pairs_def)

lemma pair_owner_pairs [simp]:
  "fst (pair (owner_pairs euid egid ids) k) = own ids k"
  "snd (pair (owner_pairs euid egid ids) k) = (case k of User \<Rightarrow> euid | Group \<Rightarrow> egid)"
  by (cases k; simp add: pair_def owner_pairs_def own_def)+

lemma own_not_nobody: "server_ids_new ServerIds.Flatten uid gid = Ok ids \<Longrightarrow> own ids k \<noteq> NOBODY"
  by (cases k) (auto simp: server_ids_new_def own_def split: if_splits)

lemma flatten_mode: "server_ids_new mode uid gid = Ok ids \<Longrightarrow> ids_mode ids = mode"
  by (auto simp: server_ids_new_def split: if_splits)

lemma to_local_flatten:
  assumes "own ids k \<noteq> NOBODY"
  shows "to_local (owner_pairs euid egid ids) k (flatten_owner ids k i) = to_local (owner_pairs euid egid ids) k i"
  using assms by (auto simp: to_local_def flatten_owner_def split_beta Let_def)

lemma acl_sent:
  assumes "outgoing (owned_mount euid egid ids) (Setxattr p name val flags) = Ok (Some out)"
  obtains named where "is_posix_acl name" "acl_owners val = Some named"
    "\<forall>(k, i) \<in> set named. i = snd (pair (owner_pairs euid egid ids) k)"
    "out = Setxattr p name (snd (acl_map (\<lambda>k _. own ids k) val)) flags"
proof -
  let ?o = "owner_pairs euid egid ids"
  have "outgoing (owned_mount euid egid ids) (Setxattr p name val flags) =
      (if is_posix_acl name
       then (case acl_owners val of
               None \<Rightarrow> Ok None
             | Some named \<Rightarrow>
                 if \<not> list_all (\<lambda>(k, i). is_ok (to_server ?o k i)) named then Err Unmapped
                 else Ok (Some (Setxattr p name (snd (acl_map (\<lambda>k _. own ids k) val)) flags)))
       else Ok None)"
    by (simp add: owned_mount_pairs outgoing_def owned_outgoing_def split: option.split)
  with assms obtain named where named: "is_posix_acl name" "acl_owners val = Some named"
    "list_all (\<lambda>(k, i). is_ok (to_server ?o k i)) named"
    "out = Setxattr p name (snd (acl_map (\<lambda>k _. own ids k) val)) flags"
    by (auto split: if_splits option.splits)
  show ?thesis
    by (rule that [OF named(1,2) _ named(4)]) (use named(3) in \<open>simp only: list_all_iff is_ok_to_server\<close>)
qed

lemma to_server_owned:
  "to_server (owner_pairs euid egid ids) k i =
     (if i = (case k of User \<Rightarrow> euid | Group \<Rightarrow> egid) then Ok (own ids k) else Err Unmapped)"
  by (cases k) (simp_all add: to_server_def pair_def owner_pairs_def own_def)

lemma setattr_sent_own:
  assumes "owners_sent (owned_mount euid egid ids) (Setattr path fh change) = Ok out"
  shows "list_all (\<lambda>(k, i). i = own ids k) (request_owners out)"
proof (cases "set_uid change"; cases "set_gid change")
qed (use assms in \<open>auto simp: owners_sent_def owned_mount_pairs outgoing_def owned_outgoing_def request_owners_def
      to_server_owned split: if_splits\<close>)

lemma setxattr_sent_own:
  assumes "owners_sent (owned_mount euid egid ids) (Setxattr p name val flags) = Ok out"
  shows "list_all (\<lambda>(k, i). i = own ids k) (request_owners out)"
proof -
  from assms obtain sent where sent: "outgoing (owned_mount euid egid ids) (Setxattr p name val flags) = Ok sent"
    and out: "out = (case sent of Some r \<Rightarrow> r | None \<Rightarrow> Setxattr p name val flags)"
    by (auto simp: owners_sent_def)
  show ?thesis
  proof (cases sent)
    case None
    with sent have "\<not> is_posix_acl name \<or> acl_owners val = None"
      by (auto simp: owned_mount_pairs outgoing_def owned_outgoing_def split: if_splits option.splits)
    with None out show ?thesis by (auto simp: request_owners_def)
  next
    case (Some r)
    from sent [unfolded Some] show ?thesis
      by (rule acl_sent) (simp add: out Some request_owners_def acl_owners_map list_all_iff split_beta)
  qed
qed

lemma owners_sent_own:
  assumes "owners_sent (owned_mount euid egid ids) req = Ok out"
  shows "list_all (\<lambda>(k, i). i = own ids k) (request_owners out)"
proof (cases req)
  case Setattr
  with assms setattr_sent_own show ?thesis by blast
next
  case Setxattr
  with assms setxattr_sent_own show ?thesis by blast
qed (use assms in \<open>auto simp: owners_sent_def owned_mount_pairs outgoing_def owned_outgoing_def request_owners_def\<close>)

lemma flatten_hidden:
  assumes "server_ids_new ServerIds.Flatten uid gid = Ok ids"
  shows "incoming (owned_mount euid egid ids) req (reply_ids ids (reads_posix_acl req) resp) =
    incoming (owned_mount euid egid ids) req resp"
  using flatten.reply_hides [of "reads_posix_acl req" resp "to_local (owner_pairs euid egid ids)" ids]
    to_local_flatten [OF own_not_nobody [OF assms]] flatten_mode [OF assms]
  by (simp add: owned_mount_pairs incoming_def owned_incoming_def reply_ids_def)

text \<open>
  C29. A mount with \<open>--ids owned\<close> sends a flattening server nothing it refuses for its owners: whatever
  request the mount lets out names only the server's own uid and gid, and is not refused with EPERM.
\<close>

theorem owned_requests_admitted:
  assumes "server_ids_new ServerIds.Flatten uid gid = Ok ids"
    and "owners_sent (owned_mount euid egid ids) req = Ok out"
  shows "list_all (\<lambda>(k, i). i = own ids k) (request_owners out) \<and> admit ids out \<noteq> Err EPERM"
  using owners_sent_own [OF assms(2)] admit_EPERM [OF flatten_mode [OF assms(1)]] by simp

theorem owned_requests_admitted_witness:
  "(let ids = \<lparr>ids_mode = ServerIds.Flatten, ids_uid = 1005, ids_gid = 1000\<rparr>;
        chown = Setattr (Some path_root) None \<lparr>set_mode = Some 420, set_uid = Some 1000, set_gid = None, set_size = None, set_atime = None, set_mtime = None\<rparr>
    in \<exists>out. owners_sent (owned_mount 1000 100 ids) chown = Ok out \<and> out \<noteq> chown \<and>
         request_owners out = [(User, 1005)] \<and> admit ids out \<noteq> Err EPERM)"
proof -
  let ?ids = "\<lparr>ids_mode = ServerIds.Flatten, ids_uid = 1005, ids_gid = 1000\<rparr>"
  let ?chown = "\<lambda>u. Setattr (Some path_root) None \<lparr>set_mode = Some 420, set_uid = Some u, set_gid = None, set_size = None, set_atime = None, set_mtime = None\<rparr>"
  have sent: "owners_sent (owned_mount 1000 100 ?ids) (?chown 1000) = Ok (?chown 1005)"
    by (simp add: owners_sent_def owned_mount_def client_ids_new_def outgoing_def owned_outgoing_def to_server_def
        pair_def)
  have "server_ids_new ServerIds.Flatten 1005 1000 = Ok ?ids"
    by (simp add: server_ids_new_def NOBODY_def)
  from owned_requests_admitted [OF this sent] sent show ?thesis
    by (simp add: request_owners_def)
qed

text \<open>
  C30. Flattening is invisible to a mount with \<open>--ids owned\<close>: it shows the same reply, owners and ACLs
  included, whether or not the server flattens.
\<close>

theorem flatten_invisible_to_owned:
  assumes "server_ids_new ServerIds.Flatten uid gid = Ok ids"
  shows "incoming (owned_mount euid egid ids) req (reply_ids ids (reads_posix_acl req) resp) =
    incoming (owned_mount euid egid ids) req resp"
  by (rule flatten_hidden [OF assms])

theorem flatten_invisible_to_owned_witness:
  "(let ids = \<lparr>ids_mode = ServerIds.Flatten, ids_uid = 1000, ids_gid = 100\<rparr>;
        req = Getxattr path_root (bytes ''system.posix_acl_access'')
    in server_ids_new ServerIds.Flatten 1000 100 = Ok ids \<and> reads_posix_acl req \<and>
       reply_ids ids (reads_posix_acl req) (RXattr example_acl) \<noteq> RXattr example_acl \<and>
       incoming (owned_mount 7 8 ids) req (reply_ids ids (reads_posix_acl req) (RXattr example_acl)) =
         incoming (owned_mount 7 8 ids) req (RXattr example_acl))"
proof -
  let ?ids = "\<lparr>ids_mode = ServerIds.Flatten, ids_uid = 1000, ids_gid = 100\<rparr>"
  let ?req = "Getxattr path_root (bytes ''system.posix_acl_access'')"
  have made: "server_ids_new ServerIds.Flatten 1000 100 = Ok ?ids"
    by (simp add: server_ids_new_def NOBODY_def)
  have acl: "reads_posix_acl ?req"
    by (simp add: reads_posix_acl_def is_posix_acl_def POSIX_ACL_NAMES_def)
  have "reply_owners True (reply_ids ?ids True (RXattr example_acl)) \<noteq> reply_owners True (RXattr example_acl)"
    by (simp add: reply_ids_def reply_owners_map example_acl_owners flatten_owner_def own_def NOBODY_def
        del: map_reply.simps)
  then have "reply_ids ?ids True (RXattr example_acl) \<noteq> RXattr example_acl" by fastforce
  with flatten_invisible_to_owned [OF made, of 7 8 ?req "RXattr example_acl"] acl made show ?thesis
    by simp
qed

text \<open>
  C31. An ACL a mount with \<open>--ids owned\<close> sets through a flattening server is read back as it was set,
  byte for byte, and the server admits it.
\<close>

theorem acl_read_back:
  assumes made: "server_ids_new ServerIds.Flatten uid gid = Ok ids"
    and out: "outgoing (owned_mount euid egid ids) (Setxattr p name val flags) = Ok (Some (Setxattr p name val' flags))"
  shows "admit ids (Setxattr p name val' flags) = Ok () \<and>
    incoming (owned_mount euid egid ids) (Getxattr p name)
      (reply_ids ids (reads_posix_acl (Getxattr p name)) (RXattr val')) = RXattr val"
proof -
  from out obtain named where acl: "is_posix_acl name" "acl_owners val = Some named"
    "\<forall>(k, i) \<in> set named. i = snd (pair (owner_pairs euid egid ids) k)"
    and val': "val' = snd (acl_map (\<lambda>k _. own ids k) val)"
    by (rule acl_sent) auto
  have "admit ids (Setxattr p name val' flags) = Ok ()"
    using acl flatten_mode [OF made] by (auto simp: admit_def val' acl_owners_map list_all_iff)
  moreover have "snd (acl_map (\<lambda>k i. to_local (owner_pairs euid egid ids) k (own ids k)) val) =
      snd (acl_map (\<lambda>k i. i) val)"
    using acl(2,3) by (intro acl_map_agree) (auto simp: to_local_def split_beta Let_def)
  then have "incoming (owned_mount euid egid ids) (Getxattr p name) (RXattr val') = RXattr val"
    using acl(1) by (simp add: owned_mount_pairs incoming_def owned_incoming_def reads_posix_acl_def val' acl_map_map acl_map_id)
  moreover note flatten_hidden [OF made, of euid egid "Getxattr p name" "RXattr val'"]
  ultimately show ?thesis by simp
qed

text \<open>An ACL of the local user 1000 and group 5, as the server's user 1005 and group 1000 have it.\<close>

theorem acl_read_back_witness:
  "(let ids = \<lparr>ids_mode = ServerIds.Flatten, ids_uid = 1005, ids_gid = 1000\<rparr>;
        name = bytes ''system.posix_acl_access''
    in \<exists>val'. val' \<noteq> example_acl \<and>
         outgoing (owned_mount 1000 5 ids) (Setxattr path_root name example_acl 0) = Ok (Some (Setxattr path_root name val' 0)) \<and>
         admit ids (Setxattr path_root name val' 0) = Ok () \<and>
         incoming (owned_mount 1000 5 ids) (Getxattr path_root name) (reply_ids ids True (RXattr val')) = RXattr example_acl)"
proof -
  let ?ids = "\<lparr>ids_mode = ServerIds.Flatten, ids_uid = 1005, ids_gid = 1000\<rparr>"
  let ?name = "bytes ''system.posix_acl_access''"
  let ?val = "snd (acl_map (\<lambda>k _. own ?ids k) example_acl)"
  have acl: "is_posix_acl ?name" by (simp add: is_posix_acl_def POSIX_ACL_NAMES_def)
  have made: "server_ids_new ServerIds.Flatten 1005 1000 = Ok ?ids"
    by (simp add: server_ids_new_def NOBODY_def)
  have out: "outgoing (owned_mount 1000 5 ?ids) (Setxattr path_root ?name example_acl 0) =
      Ok (Some (Setxattr path_root ?name ?val 0))"
    using acl by (simp add: owned_mount_pairs outgoing_def owned_outgoing_def example_acl_owners is_ok_to_server)
  have "acl_owners ?val \<noteq> acl_owners example_acl"
    unfolding acl_owners_map example_acl_owners by (simp add: own_def)
  then have "?val \<noteq> example_acl" by metis
  with acl_read_back [OF made out] out acl show ?thesis
    by (auto simp: reads_posix_acl_def)
qed

end
